(* ===== verification/Relay_Caps.thy ===== *)
theory Relay_Caps
  imports Prelude
begin

text \<open>
  \<open>crates/relay/relay-core/src/caps.rs\<close>: the relay's capacity counters, the tickets that
  hold a unit of capacity until they are dropped, and the rate and queue accounting of
  one pair. The counters are atomics updated by compare-exchange loops. An operation is
  modelled twice: as the effect of the loop when no other thread interferes (the
  functions named as in the source), and as the loop itself, one memory access per
  step, interleaved with any number of other threads (\<open>cas_step\<close>, \<open>ticket_step\<close>).
\<close>

section \<open>Errors of the relay (lib.rs)\<close>

datatype relay_error =
    RelayIo string | RelayConfigError string | RelayTransport string
  | OverCapacity string | RelayProtocol string | RelayInternal string

section \<open>State\<close>

record caps =
  c_max_servers :: usize
  c_max_pairs :: usize
  c_max_bytes_per_sec :: u64
  c_max_queued_bytes :: usize
  c_servers :: usize
  c_pairs :: usize

record pair_ticket =
  pt_rate_bucket :: u64
  pt_rate_remainder_tenths :: u64
  pt_queued_bytes :: usize

definition caps_new :: "usize \<Rightarrow> usize \<Rightarrow> u64 \<Rightarrow> usize \<Rightarrow> caps" where
  "caps_new max_servers max_pairs max_bytes_per_sec max_queued_bytes =
     \<lparr>c_max_servers = max_servers, c_max_pairs = max_pairs,
      c_max_bytes_per_sec = max_bytes_per_sec, c_max_queued_bytes = max_queued_bytes,
      c_servers = 0, c_pairs = 0\<rparr>"

section \<open>One round of each compare-exchange loop\<close>

text \<open>
  Given the value last read, a loop body gives up with an error, returns without
  writing, or tries to exchange that value for a new one.
\<close>

datatype ('e, 'w) attempt = GiveUp 'e | Return | Exchange 'w

definition increment_attempt :: "usize \<Rightarrow> string \<Rightarrow> usize \<Rightarrow> (relay_error, usize) attempt" where
  "increment_attempt limit label current =
     (if limit \<le> current then GiveUp (OverCapacity label) else Exchange (current + 1))"

definition release_attempt :: "usize \<Rightarrow> (relay_error, usize) attempt" where
  "release_attempt current = (case checked_sub current 1 of None \<Rightarrow> Return | Some n \<Rightarrow> Exchange n)"

definition consume_attempt :: "u64 \<Rightarrow> u64 \<Rightarrow> (relay_error, u64) attempt" where
  "consume_attempt n current =
     (case checked_sub current n of
        None \<Rightarrow> GiveUp (OverCapacity ''max_bytes_per_sec'')
      | Some rest \<Rightarrow> Exchange rest)"

definition bucket_attempt :: "u64 \<Rightarrow> u64 \<Rightarrow> u64 \<Rightarrow> (relay_error, u64) attempt" where
  "bucket_attempt max_bps tick_bytes current =
     (let next_val = min (sat_add current tick_bytes) max_bps
      in if next_val = current then Return else Exchange next_val)"

definition enqueue_attempt :: "usize \<Rightarrow> usize \<Rightarrow> usize \<Rightarrow> (relay_error, usize) attempt" where
  "enqueue_attempt max_queued n current =
     (case checked_add current n of
        None \<Rightarrow> GiveUp (OverCapacity ''max_queued_bytes'')
      | Some next_val \<Rightarrow>
          if max_queued < next_val then GiveUp (OverCapacity ''max_queued_bytes'')
          else Exchange next_val)"

definition dequeue_attempt :: "usize \<Rightarrow> usize \<Rightarrow> (relay_error, usize) attempt" where
  "dequeue_attempt n current = Exchange (sat_sub current n)"

text \<open>The loop with no interference: the first exchange succeeds.\<close>

fun settle :: "('e, 'w) attempt \<Rightarrow> 'w \<Rightarrow> ('e, 'w) result" where
  "settle (GiveUp e) current = Inl e"
| "settle Return current = Inr current"
| "settle (Exchange w) current = Inr w"

section \<open>Operations\<close>

definition increment_bounded_usize :: "usize \<Rightarrow> usize \<Rightarrow> string \<Rightarrow> (relay_error, usize) result" where
  "increment_bounded_usize counter limit label = settle (increment_attempt limit label counter) counter"

definition try_add_server :: "caps \<Rightarrow> (relay_error, caps) result" where
  "try_add_server c =
     (case increment_bounded_usize (c_servers c) (c_max_servers c) ''max_servers'' of
        Inl e \<Rightarrow> Inl e
      | Inr n \<Rightarrow> Inr (c\<lparr>c_servers := n\<rparr>))"

definition try_add_pair :: "caps \<Rightarrow> (relay_error, caps \<times> pair_ticket) result" where
  "try_add_pair c =
     (case increment_bounded_usize (c_pairs c) (c_max_pairs c) ''max_pairs'' of
        Inl e \<Rightarrow> Inl e
      | Inr n \<Rightarrow> Inr (c\<lparr>c_pairs := n\<rparr>,
          \<lparr>pt_rate_bucket = c_max_bytes_per_sec c, pt_rate_remainder_tenths = 0,
           pt_queued_bytes = 0\<rparr>))"

definition drop_server_ticket :: "caps \<Rightarrow> caps" where
  "drop_server_ticket c =
     (case checked_sub (c_servers c) 1 of None \<Rightarrow> c | Some n \<Rightarrow> c\<lparr>c_servers := n\<rparr>)"

definition drop_pair_ticket :: "caps \<Rightarrow> caps" where
  "drop_pair_ticket c =
     (case checked_sub (c_pairs c) 1 of None \<Rightarrow> c | Some n \<Rightarrow> c\<lparr>c_pairs := n\<rparr>)"

definition caps_snapshot :: "caps \<Rightarrow> usize \<times> usize" where
  "caps_snapshot c = (c_servers c, c_pairs c)"

definition try_consume_rate :: "u64 \<Rightarrow> pair_ticket \<Rightarrow> (relay_error, pair_ticket) result" where
  "try_consume_rate n t =
     (case settle (consume_attempt n (pt_rate_bucket t)) (pt_rate_bucket t) of
        Inl e \<Rightarrow> Inl e
      | Inr b \<Rightarrow> Inr (t\<lparr>pt_rate_bucket := b\<rparr>))"

definition refill_one_tick :: "u64 \<Rightarrow> pair_ticket \<Rightarrow> pair_ticket" where
  "refill_one_tick max_bps t =
     (let total_tenths = sat_add (pt_rate_remainder_tenths t) max_bps;
          tick_bytes = total_tenths div 10;
          t1 = t\<lparr>pt_rate_remainder_tenths := total_tenths mod 10\<rparr>
      in if tick_bytes = 0 then t1
         else (case settle (bucket_attempt max_bps tick_bytes (pt_rate_bucket t1)) (pt_rate_bucket t1) of
                 Inl _ \<Rightarrow> t1
               | Inr b \<Rightarrow> t1\<lparr>pt_rate_bucket := b\<rparr>))"

definition try_add_queued_bytes :: "usize \<Rightarrow> usize \<Rightarrow> pair_ticket \<Rightarrow> (relay_error, pair_ticket) result" where
  "try_add_queued_bytes max_queued n t =
     (case settle (enqueue_attempt max_queued n (pt_queued_bytes t)) (pt_queued_bytes t) of
        Inl e \<Rightarrow> Inl e
      | Inr q \<Rightarrow> Inr (t\<lparr>pt_queued_bytes := q\<rparr>))"

definition remove_queued_bytes :: "usize \<Rightarrow> pair_ticket \<Rightarrow> pair_ticket" where
  "remove_queued_bytes n t =
     (case settle (dequeue_attempt n (pt_queued_bytes t)) (pt_queued_bytes t) of
        Inl _ \<Rightarrow> t
      | Inr q \<Rightarrow> t\<lparr>pt_queued_bytes := q\<rparr>)"

definition pair_caps_snapshot :: "pair_ticket \<Rightarrow> u64 \<times> usize" where
  "pair_caps_snapshot t = (pt_rate_bucket t, pt_queued_bytes t)"

section \<open>The loops under interference\<close>

text \<open>
  Thread \<open>t\<close> runs one operation whose loop body is \<open>ops t\<close>. It loads the cell, then
  repeats: decide on the value held; an exchange succeeds if the cell still holds that
  value and otherwise hands back the value observed.
\<close>

datatype ('e, 'w) thread = Waiting | Holding 'w | Finished "('e, unit) result"

record ('e, 'w) cas_sys =
  cell :: 'w
  threads :: "nat \<Rightarrow> ('e, 'w) thread"

inductive cas_step :: "(nat \<Rightarrow> 'w \<Rightarrow> ('e, 'w) attempt) \<Rightarrow> ('e, 'w) cas_sys \<Rightarrow> ('e, 'w) cas_sys \<Rightarrow> bool"
  for ops where
  load: "threads s t = Waiting \<Longrightarrow>
     cas_step ops s (s\<lparr>threads := (threads s)(t := Holding (cell s))\<rparr>)"
| give_up: "threads s t = Holding v \<Longrightarrow> ops t v = GiveUp e \<Longrightarrow>
     cas_step ops s (s\<lparr>threads := (threads s)(t := Finished (Inl e))\<rparr>)"
| no_write: "threads s t = Holding v \<Longrightarrow> ops t v = Return \<Longrightarrow>
     cas_step ops s (s\<lparr>threads := (threads s)(t := Finished (Inr ()))\<rparr>)"
| exchange: "threads s t = Holding v \<Longrightarrow> ops t v = Exchange w \<Longrightarrow> cell s = v \<Longrightarrow>
     cas_step ops s (s\<lparr>cell := w, threads := (threads s)(t := Finished (Inr ()))\<rparr>)"
| retry: "threads s t = Holding v \<Longrightarrow> ops t v = Exchange w \<Longrightarrow> cell s \<noteq> v \<Longrightarrow>
     cas_step ops s (s\<lparr>threads := (threads s)(t := Holding (cell s))\<rparr>)"

inductive cas_reach :: "(nat \<Rightarrow> 'w \<Rightarrow> ('e, 'w) attempt) \<Rightarrow> 'w \<Rightarrow> ('e, 'w) cas_sys \<Rightarrow> bool"
  for ops w0 where
  cas_start: "cas_reach ops w0 \<lparr>cell = w0, threads = (\<lambda>_. Waiting)\<rparr>"
| cas_next: "cas_reach ops w0 s \<Longrightarrow> cas_step ops s s' \<Longrightarrow> cas_reach ops w0 s'"

text \<open>The same operations one after the other, each run without interference.\<close>

fun run_serial :: "(nat \<Rightarrow> 'w \<Rightarrow> ('e, 'w) attempt) \<Rightarrow> nat list \<Rightarrow> 'w \<Rightarrow> 'w option" where
  "run_serial ops [] w = Some w"
| "run_serial ops (t # ts) w =
     (case ops t w of Exchange w' \<Rightarrow> run_serial ops ts w' | _ \<Rightarrow> None)"

text \<open>
  Tickets: a thread that gained a unit holds it until it drops the ticket, which is one
  atomic \<open>fetch_update\<close>; then it may ask again.
\<close>

datatype ticket_state = Idle | Asking usize | Ticket | Refused

record ticket_sys =
  counter :: usize
  holders :: "nat \<Rightarrow> ticket_state"

inductive ticket_step :: "usize \<Rightarrow> ticket_sys \<Rightarrow> ticket_sys \<Rightarrow> bool" for limit where
  ask: "holders s t = Idle \<Longrightarrow>
     ticket_step limit s (s\<lparr>holders := (holders s)(t := Asking (counter s))\<rparr>)"
| refuse: "holders s t = Asking v \<Longrightarrow> increment_attempt limit l v = GiveUp e \<Longrightarrow>
     ticket_step limit s (s\<lparr>holders := (holders s)(t := Refused)\<rparr>)"
| gain: "holders s t = Asking v \<Longrightarrow> increment_attempt limit l v = Exchange w \<Longrightarrow> counter s = v \<Longrightarrow>
     ticket_step limit s (s\<lparr>counter := w, holders := (holders s)(t := Ticket)\<rparr>)"
| again: "holders s t = Asking v \<Longrightarrow> increment_attempt limit l v = Exchange w \<Longrightarrow> counter s \<noteq> v \<Longrightarrow>
     ticket_step limit s (s\<lparr>holders := (holders s)(t := Asking (counter s))\<rparr>)"
| drop_ticket: "holders s t = Ticket \<Longrightarrow> settle (release_attempt (counter s)) (counter s) = Inr w \<Longrightarrow>
     ticket_step limit s (s\<lparr>counter := w, holders := (holders s)(t := Idle)\<rparr>)"

inductive ticket_reach :: "usize \<Rightarrow> ticket_sys \<Rightarrow> bool" for limit where
  ticket_start: "ticket_reach limit \<lparr>counter = 0, holders = (\<lambda>_. Idle)\<rparr>"
| ticket_next: "ticket_reach limit s \<Longrightarrow> ticket_step limit s s' \<Longrightarrow> ticket_reach limit s'"

section \<open>Sequential laws\<close>

lemma increment_ok:
  "c < limit \<Longrightarrow> increment_bounded_usize c limit l = Inr (c + 1)"
  by (simp add: increment_bounded_usize_def increment_attempt_def not_le [symmetric])

lemma increment_refused:
  "limit \<le> c \<Longrightarrow> increment_bounded_usize c limit l = Inl (OverCapacity l)"
  by (simp add: increment_bounded_usize_def increment_attempt_def)

text \<open>
  What a bounded counter promises its users: a unit is granted exactly while the level is
  below the bound, and a release gives one back. The relay has two, for servers and for
  pairs.
\<close>

datatype cap_op = Acquire | Release

fun run_caps :: "('s \<Rightarrow> ('e, 's) result) \<Rightarrow> ('s \<Rightarrow> 's) \<Rightarrow> cap_op list \<Rightarrow> 's \<Rightarrow> 's" where
  "run_caps acq rel [] s = s"
| "run_caps acq rel (Acquire # xs) s =
     run_caps acq rel xs (case acq s of Inl _ \<Rightarrow> s | Inr s' \<Rightarrow> s')"
| "run_caps acq rel (Release # xs) s = run_caps acq rel xs (rel s)"

fun run_level :: "nat \<Rightarrow> cap_op list \<Rightarrow> nat \<Rightarrow> nat" where
  "run_level b [] n = n"
| "run_level b (Acquire # xs) n = run_level b xs (if n < b then Suc n else n)"
| "run_level b (Release # xs) n = run_level b xs (n - 1)"

lemma run_level_le: "n \<le> b \<Longrightarrow> run_level b xs n \<le> b"
  by (induction b xs n rule: run_level.induct) auto

locale bounded_counter =
  fixes level :: "'s \<Rightarrow> nat"
    and bound :: "'s \<Rightarrow> nat"
    and acq :: "'s \<Rightarrow> ('e, 's) result"
    and rel :: "'s \<Rightarrow> 's"
  assumes acq_below: "level s < bound s \<Longrightarrow> \<exists>s'. acq s = Inr s' \<and> level s' = Suc (level s) \<and> bound s' = bound s"
    and acq_full: "bound s \<le> level s \<Longrightarrow> is_err (acq s)"
    and rel_level: "level (rel s) = level s - 1"
    and rel_bound: "bound (rel s) = bound s"
begin

lemma acq_iff: "is_err (acq s) \<longleftrightarrow> bound s \<le> level s"
  using acq_below [of s] acq_full [of s] by fastforce

lemma run_refines:
  "level (run_caps acq rel xs s) = run_level (bound s) xs (level s) \<and>
   bound (run_caps acq rel xs s) = bound s"
proof (induction xs arbitrary: s)
  case Nil
  then show ?case by simp
next
  case (Cons x xs)
  show ?case
  proof (cases x)
    case Acquire
    show ?thesis
    proof (cases "level s < bound s")
      case True
      with acq_below obtain s' where "acq s = Inr s'" "level s' = Suc (level s)" "bound s' = bound s"
        by blast
      with True Acquire Cons.IH [of s'] show ?thesis by simp
    next
      case False
      then have "is_err (acq s)" by (simp add: acq_full)
      then obtain e where "acq s = Inl e" by (cases "acq s") auto
      with False Acquire Cons.IH [of s] show ?thesis by simp
    qed
  next
    case Release
    with Cons.IH [of "rel s"] show ?thesis by (simp add: rel_level rel_bound)
  qed
qed

lemma run_bounded: "level s \<le> bound s \<Longrightarrow> level (run_caps acq rel xs s) \<le> bound (run_caps acq rel xs s)"
  by (simp add: run_refines run_level_le)

end

definition acquire_pair :: "caps \<Rightarrow> (relay_error, caps) result" where
  "acquire_pair c = map_sum id fst (try_add_pair c)"

interpretation server_cap: bounded_counter "\<lambda>c. unat (c_servers c)" "\<lambda>c. unat (c_max_servers c)"
    try_add_server drop_server_ticket
proof
  fix c :: caps
  show "unat (c_servers c) < unat (c_max_servers c) \<Longrightarrow>
    \<exists>s'. try_add_server c = Inr s' \<and> unat (c_servers s') = Suc (unat (c_servers c)) \<and>
      unat (c_max_servers s') = unat (c_max_servers c)"
    using increment_ok [of "c_servers c" "c_max_servers c"] unat_Suc_lt [of "c_servers c" "c_max_servers c"]
    by (simp add: try_add_server_def word_less_nat_alt)
  show "unat (c_max_servers c) \<le> unat (c_servers c) \<Longrightarrow> is_err (try_add_server c)"
    by (simp add: try_add_server_def increment_refused word_le_nat_alt)
  show "unat (c_servers (drop_server_ticket c)) = unat (c_servers c) - 1"
    by (auto simp: drop_server_ticket_def checked_sub_None word_less_nat_alt
       split: option.splits dest: unat_checked_sub)
  show "unat (c_max_servers (drop_server_ticket c)) = unat (c_max_servers c)"
    by (simp add: drop_server_ticket_def split: option.splits)
qed

interpretation pair_cap: bounded_counter "\<lambda>c. unat (c_pairs c)" "\<lambda>c. unat (c_max_pairs c)"
    acquire_pair drop_pair_ticket
proof
  fix c :: caps
  show "unat (c_pairs c) < unat (c_max_pairs c) \<Longrightarrow>
    \<exists>s'. acquire_pair c = Inr s' \<and> unat (c_pairs s') = Suc (unat (c_pairs c)) \<and>
      unat (c_max_pairs s') = unat (c_max_pairs c)"
    using increment_ok [of "c_pairs c" "c_max_pairs c"] unat_Suc_lt [of "c_pairs c" "c_max_pairs c"]
    by (simp add: acquire_pair_def try_add_pair_def word_less_nat_alt)
  show "unat (c_max_pairs c) \<le> unat (c_pairs c) \<Longrightarrow> is_err (acquire_pair c)"
    by (simp add: acquire_pair_def try_add_pair_def increment_refused word_le_nat_alt)
  show "unat (c_pairs (drop_pair_ticket c)) = unat (c_pairs c) - 1"
    by (auto simp: drop_pair_ticket_def checked_sub_None word_less_nat_alt
       split: option.splits dest: unat_checked_sub)
  show "unat (c_max_pairs (drop_pair_ticket c)) = unat (c_max_pairs c)"
    by (simp add: drop_pair_ticket_def split: option.splits)
qed

section \<open>Tickets under interference\<close>

definition ticket_inv :: "usize \<Rightarrow> ticket_sys \<Rightarrow> bool" where
  "ticket_inv limit s \<longleftrightarrow>
     finite {t. holders s t = Ticket} \<and> card {t. holders s t = Ticket} = unat (counter s) \<and>
     counter s \<le> limit"

lemma holders_other:
  "x \<noteq> Ticket \<Longrightarrow> holders s t \<noteq> Ticket \<Longrightarrow>
     {u. ((holders s)(t := x)) u = Ticket} = {u. holders s u = Ticket}"
  by auto

lemma holders_gain: "{u. ((holders s)(t := Ticket)) u = Ticket} = insert t {u. holders s u = Ticket}"
  by auto

lemma holders_drop: "{u. ((holders s)(t := Idle)) u = Ticket} = {u. holders s u = Ticket} - {t}"
  by auto

lemma ticket_inv_step:
  assumes step: "ticket_step limit s s'" and inv: "ticket_inv limit s"
  shows "ticket_inv limit s'"
  using step
proof cases
  case (gain t v l w)
  then have lt: "counter s < limit" and w: "w = counter s + 1"
    by (auto simp: increment_attempt_def split: if_splits)
  from gain inv have "t \<notin> {u. holders s u = Ticket}" by simp
  moreover have "w \<le> limit" using lt w by (simp add: inc_le)
  ultimately show ?thesis
    using inv gain lt w by (simp add: ticket_inv_def holders_gain card_insert_disjoint unat_Suc_lt del: fun_upd_apply)
next
  case (drop_ticket t w)
  then have mem: "t \<in> {u. holders s u = Ticket}" by simp
  with inv have pos: "0 < unat (counter s)"
    by (metis card_gt_0_iff empty_iff ticket_inv_def)
  then have cs: "checked_sub (counter s) 1 = Some (counter s - 1)"
    by (simp add: checked_sub_Some word_le_nat_alt)
  with drop_ticket have w: "w = counter s - 1" by (simp add: release_attempt_def)
  have uw: "unat w = unat (counter s) - 1" using unat_checked_sub [OF cs] w by simp
  moreover have "unat (counter s) \<le> unat limit" using inv by (simp add: ticket_inv_def word_le_nat_alt)
  ultimately have "w \<le> limit" unfolding word_le_nat_alt by linarith
  with mem uw inv drop_ticket show ?thesis
    by (simp add: ticket_inv_def holders_drop card_Diff_singleton del: fun_upd_apply)
qed (use inv in \<open>auto simp: ticket_inv_def holders_other simp del: fun_upd_apply\<close>)

lemma ticket_reach_inv: "ticket_reach limit s \<Longrightarrow> ticket_inv limit s"
  by (induction rule: ticket_reach.induct) (auto simp: ticket_inv_def [of _ "\<lparr>counter = _, holders = _\<rparr>"] intro: ticket_inv_step)

text \<open>
  C21. Whatever the interleaving of the compare-exchange loops of any number of threads
  that ask for and drop tickets, the counter equals the number of tickets held, and that
  number never exceeds the configured maximum.
\<close>

theorem tickets_never_exceed_limit:
  assumes "ticket_reach limit s"
  shows "finite {t. holders s t = Ticket} \<and> card {t. holders s t = Ticket} = unat (counter s) \<and>
         card {t. holders s t = Ticket} \<le> unat limit"
  using ticket_reach_inv [OF assms] by (simp add: ticket_inv_def word_le_nat_alt)

lemma one_ticket_reachable:
  "ticket_reach 1 \<lparr>counter = 1, holders = (\<lambda>_. Idle)(0 := Asking 0, 0 := Ticket)\<rparr>"
proof -
  have "ticket_reach 1 \<lparr>counter = 0, holders = (\<lambda>_. Idle)(0 := Asking 0)\<rparr>"
    using ticket_next [OF ticket_start ask [of _ 0]] by simp
  from ticket_next [OF this gain [of _ 0 0 "1" "[]" "1"]] show ?thesis
    by (simp add: increment_attempt_def)
qed

theorem tickets_never_exceed_limit_witness:
  "card {t. holders \<lparr>counter = 1, holders = (\<lambda>_. Idle)(0 := Asking 0, 0 := Ticket)\<rparr> t = Ticket}
     = unat (1 :: usize)"
  using tickets_never_exceed_limit [OF one_ticket_reachable] by (metis ticket_sys.select_convs(1))

lemma run_serial_append:
  "run_serial ops (xs @ ys) w = (case run_serial ops xs w of None \<Rightarrow> None | Some w' \<Rightarrow> run_serial ops ys w')"
  by (induction ops xs w rule: run_serial.induct) (auto split: attempt.splits)

text \<open>\<open>v\<close> is a value the cell had at some point of the serial run.\<close>

definition passed :: "(nat \<Rightarrow> 'w \<Rightarrow> ('e, 'w) attempt) \<Rightarrow> nat list \<Rightarrow> 'w \<Rightarrow> 'w \<Rightarrow> bool" where
  "passed ops ts w0 v \<longleftrightarrow> (\<exists>n. run_serial ops (take n ts) w0 = Some v)"

lemma passed_end: "run_serial ops ts w0 = Some v \<Longrightarrow> passed ops ts w0 v"
  unfolding passed_def by (rule exI [of _ "length ts"]) simp

lemma passed_snoc: "passed ops ts w0 v \<Longrightarrow> passed ops (ts @ [t]) w0 v"
proof -
  assume "passed ops ts w0 v"
  then obtain n where n: "run_serial ops (take n ts) w0 = Some v" by (auto simp: passed_def)
  have "take (min n (length ts)) (ts @ [t]) = take n ts" by (simp add: min_def)
  with n have "run_serial ops (take (min n (length ts)) (ts @ [t])) w0 = Some v" by simp
  then show ?thesis unfolding passed_def by blast
qed

definition lin_inv :: "(nat \<Rightarrow> 'w \<Rightarrow> ('e, 'w) attempt) \<Rightarrow> 'w \<Rightarrow> ('e, 'w) cas_sys \<Rightarrow> nat list \<Rightarrow> bool" where
  "lin_inv ops w0 s ts \<longleftrightarrow>
     distinct ts \<and> run_serial ops ts w0 = Some (cell s) \<and>
     (\<forall>t \<in> set ts. threads s t = Finished (Inr ())) \<and>
     (\<forall>t v. threads s t = Holding v \<longrightarrow> passed ops ts w0 v) \<and>
     (\<forall>t e. threads s t = Finished (Inl e) \<longrightarrow> (\<exists>v. passed ops ts w0 v \<and> ops t v = GiveUp e)) \<and>
     (\<forall>t. threads s t = Finished (Inr ()) \<longrightarrow>
        t \<in> set ts \<or> (\<exists>v. passed ops ts w0 v \<and> ops t v = Return))"

lemma lin_inv_exchange:
  assumes inv: "lin_inv ops w0 s ts" and h: "threads s t = Holding (cell s)"
    and x: "ops t (cell s) = Exchange w"
  shows "lin_inv ops w0 (s\<lparr>cell := w, threads := (threads s)(t := Finished (Inr ()))\<rparr>) (ts @ [t])"
proof -
  have "t \<notin> set ts" using inv h by (auto simp: lin_inv_def)
  moreover have "run_serial ops (ts @ [t]) w0 = Some w"
    using inv x by (simp add: lin_inv_def run_serial_append)
  ultimately show ?thesis
    using inv unfolding lin_inv_def by (auto intro: passed_snoc) (metis passed_snoc)+
qed

lemma lin_inv_step:
  assumes step: "cas_step ops s s'" and inv: "lin_inv ops w0 s ts"
  shows "\<exists>ts'. lin_inv ops w0 s' ts'"
  using step
proof cases
  case (exchange t v w)
  with inv show ?thesis using lin_inv_exchange [of ops w0 s ts t w] by blast
next
  case (load t)
  with inv have "lin_inv ops w0 s' ts"
    by (auto simp: lin_inv_def intro: passed_end)
  then show ?thesis ..
next
  case (give_up t v e)
  with inv have "lin_inv ops w0 s' ts" by (auto simp: lin_inv_def)
  then show ?thesis ..
next
  case (no_write t v)
  with inv have "lin_inv ops w0 s' ts" by (auto simp: lin_inv_def)
  then show ?thesis ..
next
  case (retry t v w)
  with inv have "lin_inv ops w0 s' ts"
    by (auto simp: lin_inv_def intro: passed_end)
  then show ?thesis ..
qed

lemma cas_reach_lin: "cas_reach ops w0 s \<Longrightarrow> \<exists>ts. lin_inv ops w0 s ts"
proof (induction rule: cas_reach.induct)
  case cas_start
  have "lin_inv ops w0 \<lparr>cell = w0, threads = (\<lambda>_. Waiting)\<rparr> []" by (simp add: lin_inv_def)
  then show ?case ..
next
  case (cas_next s s')
  then show ?case by (blast intro: lin_inv_step)
qed


lemma two_consumers_reachable:
  "cas_reach (\<lambda>_. consume_attempt 3) 4
     \<lparr>cell = 1, threads = (\<lambda>_. Waiting)(0 := Holding 4, 1 := Holding 4, 0 := Finished (Inr ()),
        1 := Holding 1, 1 := Finished (Inl (OverCapacity ''max_bytes_per_sec'')))\<rparr>"
proof -
  let ?op = "\<lambda>_ :: nat. consume_attempt 3"
  let ?w = "\<lambda>_ :: nat. (Waiting :: (relay_error, u64) thread)"
  have 1: "cas_reach ?op 4 \<lparr>cell = 4, threads = ?w(0 := Holding 4)\<rparr>"
    using cas_next [OF cas_start load [of _ 0]] by simp
  have 2: "cas_reach ?op 4 \<lparr>cell = 4, threads = ?w(0 := Holding 4, 1 := Holding 4)\<rparr>"
    using cas_next [OF 1 load [of _ 1]] by simp
  have 3: "cas_reach ?op 4 \<lparr>cell = 1, threads = ?w(0 := Holding 4, 1 := Holding 4, 0 := Finished (Inr ()))\<rparr>"
    using cas_next [OF 2 exchange [of _ 0 4 _ 1]] by (simp add: consume_attempt_def checked_sub_def)
  have 4: "cas_reach ?op 4 \<lparr>cell = 1, threads = ?w(0 := Holding 4, 1 := Holding 4,
      0 := Finished (Inr ()), 1 := Holding 1)\<rparr>"
    using cas_next [OF 3 retry [of _ 1 4 _ 1]] by (simp add: consume_attempt_def checked_sub_def)
  have "consume_attempt 3 1 = GiveUp (OverCapacity ''max_bytes_per_sec'')"
    by (simp add: consume_attempt_def checked_sub_def word_le_nat_alt)
  then show ?thesis
    using cas_next [OF 4 give_up [of _ 1 1]] by simp
qed


section \<open>Rate and queue accounting\<close>

datatype rate_op = Consume u64 | Tick

text \<open>A pair's traffic: what was admitted so far, and the ticket.\<close>

fun run_rate :: "u64 \<Rightarrow> rate_op list \<Rightarrow> nat \<times> pair_ticket \<Rightarrow> nat \<times> pair_ticket" where
  "run_rate max_bps [] s = s"
| "run_rate max_bps (Consume n # xs) (a, t) =
     run_rate max_bps xs (case try_consume_rate n t of Inl _ \<Rightarrow> (a, t) | Inr t' \<Rightarrow> (a + unat n, t'))"
| "run_rate max_bps (Tick # xs) (a, t) = run_rate max_bps xs (a, refill_one_tick max_bps t)"

fun ticks :: "rate_op list \<Rightarrow> nat" where
  "ticks [] = 0"
| "ticks (Tick # xs) = Suc (ticks xs)"
| "ticks (Consume n # xs) = ticks xs"

text \<open>What a ticket is worth, in tenths of a byte.\<close>

definition tenths :: "pair_ticket \<Rightarrow> nat" where
  "tenths t = 10 * unat (pt_rate_bucket t) + unat (pt_rate_remainder_tenths t)"

lemma consume_tenths:
  "try_consume_rate n t = Inr t' \<Longrightarrow> 10 * unat n + tenths t' = tenths t"
proof -
  assume ok: "try_consume_rate n t = Inr t'"
  then obtain r where r: "checked_sub (pt_rate_bucket t) n = Some r"
      and t': "t' = t\<lparr>pt_rate_bucket := r\<rparr>"
    by (cases "checked_sub (pt_rate_bucket t) n") (auto simp: try_consume_rate_def consume_attempt_def)
  from unat_checked_sub [OF r] t' show ?thesis by (simp add: tenths_def)
qed

lemma unat_div_mod_10: "10 * unat ((w :: u64) div 10) + unat (w mod 10) = unat w"
proof -
  have "unat (10 :: u64) = 10" by simp
  then have "unat (w div 10) = unat w div 10" "unat (w mod 10) = unat w mod 10"
    by (simp_all only: unat_div unat_mod)
  then show ?thesis by simp
qed

lemma refill_fields:
  "pt_rate_remainder_tenths (refill_one_tick m t) = sat_add (pt_rate_remainder_tenths t) m mod 10"
  "unat (pt_rate_bucket (refill_one_tick m t))
     \<le> unat (pt_rate_bucket t) + unat (sat_add (pt_rate_remainder_tenths t) m div 10)"
proof -
  show "pt_rate_remainder_tenths (refill_one_tick m t) = sat_add (pt_rate_remainder_tenths t) m mod 10"
    by (simp add: refill_one_tick_def Let_def split: sum.splits)
  show "unat (pt_rate_bucket (refill_one_tick m t))
     \<le> unat (pt_rate_bucket t) + unat (sat_add (pt_rate_remainder_tenths t) m div 10)"
    by (auto simp: refill_one_tick_def bucket_attempt_def Let_def unat_simps)
qed

lemma refill_tenths: "tenths (refill_one_tick m t) \<le> tenths t + unat m"
proof -
  let ?w = "sat_add (pt_rate_remainder_tenths t) m"
  have "unat ?w \<le> unat (pt_rate_remainder_tenths t) + unat m" by (simp add: unat_simps)
  then show ?thesis
    using refill_fields [of m t] unat_div_mod_10 [of ?w] by (simp add: tenths_def)
qed

lemma run_rate_tenths:
  "run_rate m xs (a, t) = (a', t') \<Longrightarrow> 10 * a' + tenths t' \<le> 10 * a + tenths t + ticks xs * unat m"
proof (induction xs arbitrary: a t)
  case Nil
  then show ?case by simp
next
  case (Cons x xs)
  show ?case
  proof (cases x)
    case (Consume n)
    show ?thesis
    proof (cases "try_consume_rate n t")
      case (Inl e)
      with Cons Consume show ?thesis by simp
    next
      case (Inr u)
      with Cons.prems Consume have "run_rate m xs (a + unat n, u) = (a', t')" by simp
      from Cons.IH [OF this] consume_tenths [OF Inr] Consume show ?thesis by simp
    qed
  next
    case Tick
    with Cons.prems have "run_rate m xs (a, refill_one_tick m t) = (a', t')" by simp
    from Cons.IH [OF this] refill_tenths [of m t] Tick show ?thesis by simp
  qed
qed

text \<open>
  The rate limiter of a pair: from a new ticket, whatever the order of requests and
  of 100 ms refill ticks, and including the saturation of the 64-bit arithmetic, the
  bytes admitted so far plus the bytes the bucket still offers are at most one second's
  allowance plus a tenth of it per tick.
\<close>

lemma rate_bound:
  assumes "try_add_pair c = Inr (c', t)"
    and "run_rate (c_max_bytes_per_sec c) xs (0, t) = (admitted, t')"
  shows "10 * (admitted + unat (pt_rate_bucket t'))
           \<le> (10 + ticks xs) * unat (c_max_bytes_per_sec c)"
proof -
  have "tenths t = 10 * unat (c_max_bytes_per_sec c)"
    using assms(1) by (auto simp: try_add_pair_def tenths_def split: sum.splits)
  with run_rate_tenths [OF assms(2)] show ?thesis by (simp add: tenths_def algebra_simps)
qed

datatype queue_op = AddQueued usize | RemoveQueued usize

fun run_queue :: "usize \<Rightarrow> queue_op list \<Rightarrow> pair_ticket \<Rightarrow> bool list \<times> pair_ticket" where
  "run_queue m [] t = ([], t)"
| "run_queue m (AddQueued n # xs) t =
     (case try_add_queued_bytes m n t of
        Inl _ \<Rightarrow> (let (bs, t') = run_queue m xs t in (False # bs, t'))
      | Inr u \<Rightarrow> (let (bs, t') = run_queue m xs u in (True # bs, t')))"
| "run_queue m (RemoveQueued n # xs) t =
     (let (bs, t') = run_queue m xs (remove_queued_bytes n t) in (True # bs, t'))"

text \<open>The same on unbounded numbers.\<close>

fun spec_queue :: "nat \<Rightarrow> queue_op list \<Rightarrow> nat \<Rightarrow> bool list \<times> nat" where
  "spec_queue m [] q = ([], q)"
| "spec_queue m (AddQueued n # xs) q =
     (if q + unat n \<le> m then (let (bs, q') = spec_queue m xs (q + unat n) in (True # bs, q'))
      else (let (bs, q') = spec_queue m xs q in (False # bs, q')))"
| "spec_queue m (RemoveQueued n # xs) q =
     (let (bs, q') = spec_queue m xs (q - unat n) in (True # bs, q'))"

lemma add_queued_cases:
  "try_add_queued_bytes m n t =
     (if unat (pt_queued_bytes t) + unat n \<le> unat m
      then Inr (t\<lparr>pt_queued_bytes := pt_queued_bytes t + n\<rparr>)
      else Inl (OverCapacity ''max_queued_bytes''))"
proof (cases "unat (pt_queued_bytes t) + unat n < 2 ^ 64")
  case True
  then have u: "unat (pt_queued_bytes t + n) = unat (pt_queued_bytes t) + unat n"
    using unat_plus_if_lt [of "pt_queued_bytes t" n] by simp
  then have "m < pt_queued_bytes t + n \<longleftrightarrow> \<not> unat (pt_queued_bytes t) + unat n \<le> unat m"
    by (simp add: word_less_nat_alt not_le)
  with True show ?thesis
    by (simp add: try_add_queued_bytes_def enqueue_attempt_def checked_add_def)
next
  case False
  moreover have "unat m < 2 ^ 64" using unat_lt_pow [of m] by simp
  ultimately show ?thesis
    by (simp add: try_add_queued_bytes_def enqueue_attempt_def checked_add_def)
qed

text \<open>
  The queue accounting of a pair is exact: on every sequence of additions and
  removals it accepts and refuses what the same accounting on unbounded numbers accepts
  and refuses, and ends at the same number; the 64-bit sum never wraps.
\<close>

lemma queue_accounting_exact:
  "map_prod id (\<lambda>u. unat (pt_queued_bytes u)) (run_queue m xs t) =
     spec_queue (unat m) xs (unat (pt_queued_bytes t))"
proof (induction xs arbitrary: t)
  case Nil
  then show ?case by simp
next
  case (Cons x xs)
  show ?case
  proof (cases x)
    case (AddQueued n)
    show ?thesis
    proof (cases "unat (pt_queued_bytes t) + unat n \<le> unat m")
      case True
      with unat_lt_pow [of m] have "unat (pt_queued_bytes t + n) = unat (pt_queued_bytes t) + unat n"
        by (intro unat_plus_if_lt) simp
      with True AddQueued Cons.IH [of "t\<lparr>pt_queued_bytes := pt_queued_bytes t + n\<rparr>"] show ?thesis
        by (auto simp: add_queued_cases split: prod.splits)
    next
      case False
      with AddQueued Cons.IH [of t] show ?thesis
        by (auto simp: add_queued_cases split: prod.splits)
    qed
  next
    case (RemoveQueued n)
    with Cons.IH [of "remove_queued_bytes n t"] show ?thesis
      by (auto simp: remove_queued_bytes_def dequeue_attempt_def unat_simps split: prod.splits)
  qed
qed

end
