(* ===== verification/Wire_Types.thy ===== *)
theory Wire_Types
  imports Prelude
begin

text \<open>
  The data of \<open>crates/shared/proto\<close>: identifiers (\<open>terminal.rs\<close>), error and bye
  reasons (\<open>error.rs\<close>), the hello exchange (\<open>hello.rs\<close>), session frames
  (\<open>frame.rs\<close>), relay control and data messages (\<open>relay.rs\<close>) and terminal snapshots
  (\<open>snapshot.rs\<close>). Newtypes are one-constructor datatypes, structs are records with
  the field names prefixed by the struct's initials (record fields are global names),
  enums are datatypes with the source's constructors. Strings are their UTF-8 bytes.
\<close>

section \<open>Identifiers (terminal.rs)\<close>

datatype terminal_id = TerminalId (terminal_uuid: uuid)
datatype request_id = RequestId (request_val: u32)
datatype stream_id = StreamId (stream_val: u32)
datatype stream_seq = StreamSeq (seq_val: u64)
datatype session_id = SessionId (session_uuid: uuid)
datatype server_id = ServerId (server_uuid: uuid)
datatype client_id = ClientId (client_uuid: uuid)
datatype pair_id = PairId (pair_uuid: uuid)

text \<open>\<open>StreamSeq\<close> and \<open>ClientId\<close>'s keys are ordered by their number, as the derived \<open>Ord\<close>.\<close>

instantiation stream_seq :: linorder
begin
definition less_eq_stream_seq :: "stream_seq \<Rightarrow> stream_seq \<Rightarrow> bool" where
  "a \<le> b \<longleftrightarrow> seq_val a \<le> seq_val b"
definition less_stream_seq :: "stream_seq \<Rightarrow> stream_seq \<Rightarrow> bool" where
  "a < b \<longleftrightarrow> seq_val a < seq_val b"
instance
  by standard (auto simp: less_eq_stream_seq_def less_stream_seq_def stream_seq.expand)
end

lemma stream_seq_less [simp]: "StreamSeq a < StreamSeq b \<longleftrightarrow> a < b"
  by (simp add: less_stream_seq_def)

lemma stream_seq_less_eq [simp]: "StreamSeq a \<le> StreamSeq b \<longleftrightarrow> a \<le> b"
  by (simp add: less_eq_stream_seq_def)

record terminal_create_params =
  tcp_cols :: u16
  tcp_rows :: u16
  tcp_cwd :: "string option"
  tcp_cmd :: "string list"
  tcp_env :: "(string \<times> string) list"

record server_config =
  sc_scrollback_bytes :: u32

record terminal_info =
  ti_terminal :: terminal_id
  ti_cols :: u16
  ti_rows :: u16
  ti_created_at_unix_ms :: u64
  ti_label :: "bytes option"
  ti_attached_clients :: u32

record exit_info =
  ei_code :: "int option"
  ei_signal :: "u32 option"
  ei_at_unix_ms :: u64

datatype kill_signal = Term | Hup | Kill

section \<open>Errors (error.rs)\<close>

datatype protocol_error =
    UnknownTerminal | Unauthorized | BackpressureExceeded | ProtocolMismatch
  | ResourceExhausted | InvalidParam string | ResumeStale | RateLimited | OtherError string

datatype bye_reason = ByeNormal | ByeRevoked | ByeServerShutdown | ByeProtocolError protocol_error

text \<open>The \<open>Display\<close> texts that \<open>thiserror\<close> derives from the attributes.\<close>

fun protocol_error_text :: "protocol_error \<Rightarrow> string" where
  "protocol_error_text UnknownTerminal = ''unknown terminal''"
| "protocol_error_text Unauthorized = ''unauthorized''"
| "protocol_error_text BackpressureExceeded = ''backpressure exceeded''"
| "protocol_error_text ProtocolMismatch = ''protocol mismatch''"
| "protocol_error_text ResourceExhausted = ''resource exhausted''"
| "protocol_error_text (InvalidParam s) = ''invalid parameter: '' @ s"
| "protocol_error_text ResumeStale = ''resume stale''"
| "protocol_error_text RateLimited = ''rate limited''"
| "protocol_error_text (OtherError s) = ''other: '' @ s"

section \<open>Hello exchange (hello.rs)\<close>

record resume_attachment =
  ra_terminal :: terminal_id
  ra_last_seq :: stream_seq

record resume_token =
  rt_session_id :: session_id
  rt_attachments :: "resume_attachment list"

record hello =
  h_protocol_min :: u32
  h_protocol_max :: u32
  h_resume :: "resume_token option"

record server_info =
  si_server_version :: string
  si_server_label :: "string option"

record hello_ok =
  ho_protocol :: u32
  ho_server_info :: server_info
  ho_session_id :: session_id
  ho_resumed :: bool

definition PROTOCOL_VERSION :: u32 where "PROTOCOL_VERSION = 1"

section \<open>Session frames (frame.rs)\<close>

datatype request_body =
    ReqListTerminals
  | ReqCreateTerminal terminal_create_params
  | ReqOpenTerminal terminal_id
  | ReqReadHistory terminal_id "stream_seq option" u32
  | ReqKillTerminal terminal_id
  | ReqGetServerConfig
  | ReqSetServerConfig server_config
  | ReqSendInput terminal_id bytes
  | ReqResizeTerminal terminal_id u16 u16

record request_frame =
  rq_id :: request_id
  rq_body :: request_body

record open_terminal_ack =
  oa_stream_id :: stream_id
  oa_info :: terminal_info
  oa_start_seq :: stream_seq
  oa_end_seq :: stream_seq
  oa_render_bytes :: bytes
  oa_has_more_history :: bool

record history_page =
  hp_terminal_id :: terminal_id
  hp_start_seq :: stream_seq
  hp_end_seq :: stream_seq
  hp_bytes :: bytes
  hp_has_more :: bool

datatype response_body =
    RspListTerminals "terminal_info list"
  | RspCreateTerminal terminal_info
  | RspOpenTerminal open_terminal_ack
  | RspReadHistory history_page
  | RspKillTerminal
  | RspGetServerConfig server_config
  | RspSetServerConfig server_config
  | RspSendInput
  | RspResizeTerminal

record response_error =
  re_code :: protocol_error
  re_message :: string

record response_frame =
  rs_id :: request_id
  rs_result :: "(response_error, response_body) result"

record stream_data_frame =
  sd_stream_id :: stream_id
  sd_seq :: stream_seq
  sd_offset :: "u32 option"
  sd_bytes :: bytes
  sd_last :: bool

datatype event_body =
    EvConnected
  | EvDisconnected string
  | EvTerminalCreated terminal_info
  | EvError protocol_error string

datatype frame =
    FHello hello
  | FHelloOk hello_ok
  | FPing u32
  | FPong u32
  | FBye bye_reason
  | FRequest request_frame
  | FResponse response_frame
  | FStreamData stream_data_frame
  | FEvent event_body

section \<open>Relay messages (relay.rs)\<close>

datatype pair_close_reason =
    CloseNormal | ServerGone | ClientGone | Stuck | RelayShutdown | CloseRejected string

datatype relay_ctrl =
    ServerRegister server_id bytes bytes
  | ServerRegisterOk
  | ServerRegisterErr string
  | ServerHeartbeat
  | ClientConnect server_id
  | PairInbound pair_id
  | PairOpen pair_id
  | PairClose pair_id pair_close_reason

datatype relay_data = Forward pair_id bytes

definition RELAY_DISC_CTRL :: u8 where "RELAY_DISC_CTRL = 1"
definition RELAY_DISC_DATA :: u8 where "RELAY_DISC_DATA = 2"

end
