(* ===== verification/Relay_Registry.thy ===== *)
theory Relay_Registry
  imports Relay_Caps Wire_Types
begin

text \<open>
  \<open>crates/relay/relay-core/src/registry.rs\<close>: the servers that are connected now. The map
  and the generation counter live under one mutex, so each operation is one function on
  the registry. A channel (the sending half of a tokio queue) is its number; two clones of
  a sender are the same channel. A registration is the token that removes its own entry,
  and only that one, when it is dropped.
\<close>

section \<open>State and operations\<close>

type_synonym chan = nat

datatype server_msg = MsgCtrl bytes | MsgData bytes | MsgClose

record server_slot =
  sl_server_id :: server_id
  sl_tx :: chan

record stored_slot =
  ss_slot :: server_slot
  ss_generation :: u64

record registry =
  rg_servers :: "(server_id, stored_slot) hash_map"
  rg_next_generation :: u64

record registration =
  rn_server_id :: server_id
  rn_generation :: u64

definition registry_new :: registry where
  "registry_new = \<lparr>rg_servers = [], rg_next_generation = 0\<rparr>"

definition register :: "server_slot \<Rightarrow> registry \<Rightarrow> (relay_error, registration \<times> registry) result" where
  "register slot r =
     (let sid = sl_server_id slot in
      if hm_get (rg_servers r) sid \<noteq> None then Inl (RelayProtocol ''duplicate server registration'')
      else (let g = rg_next_generation r in
        Inr (\<lparr>rn_server_id = sid, rn_generation = g\<rparr>,
             r\<lparr>rg_next_generation := g + 1,
               rg_servers := hm_insert sid \<lparr>ss_slot = slot, ss_generation = g\<rparr> (rg_servers r)\<rparr>)))"

definition registry_get :: "server_id \<Rightarrow> registry \<Rightarrow> chan option" where
  "registry_get sid r = map_option (\<lambda>st. sl_tx (ss_slot st)) (hm_get (rg_servers r) sid)"

definition list_ids :: "registry \<Rightarrow> server_id list" where
  "list_ids r = hm_keys (rg_servers r)"

definition unregister :: "registration \<Rightarrow> registry \<Rightarrow> bool \<times> registry" where
  "unregister n r =
     (let should_remove =
        (case hm_get (rg_servers r) (rn_server_id n) of
           None \<Rightarrow> False
         | Some st \<Rightarrow> ss_generation st = rn_generation n)
      in (should_remove,
          if should_remove then r\<lparr>rg_servers := hm_remove (rn_server_id n) (rg_servers r)\<rparr> else r))"

section \<open>Laws of one operation\<close>

lemma register_cases:
  "register slot r = (case registry_get (sl_server_id slot) r of
      Some _ \<Rightarrow> Inl (RelayProtocol ''duplicate server registration'')
    | None \<Rightarrow> Inr (\<lparr>rn_server_id = sl_server_id slot, rn_generation = rg_next_generation r\<rparr>,
        r\<lparr>rg_next_generation := rg_next_generation r + 1,
          rg_servers := hm_insert (sl_server_id slot)
             \<lparr>ss_slot = slot, ss_generation = rg_next_generation r\<rparr> (rg_servers r)\<rparr>))"
  by (auto simp: register_def registry_get_def Let_def split: option.splits)

lemma registry_get_register:
  "register slot r = Inr (n, r') \<Longrightarrow> registry_get sid r' =
     (if sid = sl_server_id slot then Some (sl_tx slot) else registry_get sid r)"
  by (auto simp: register_cases registry_get_def hm_simps split: option.splits)

lemma registry_get_unregister:
  "unregister n r = (b, r') \<Longrightarrow> registry_get sid r' =
     (if b \<and> sid = rn_server_id n then None else registry_get sid r)"
  by (auto simp: unregister_def registry_get_def hm_simps Let_def split: option.splits if_splits)

section \<open>Runs\<close>

datatype registry_op = Register server_slot | Unregister registration

text \<open>The tokens handed out, newest first, and the final registry.\<close>

fun run_registry :: "registry_op list \<Rightarrow> registration list \<times> registry \<Rightarrow> registration list \<times> registry" where
  "run_registry [] s = s"
| "run_registry (Register slot # xs) (toks, r) =
     run_registry xs (case register slot r of Inl _ \<Rightarrow> (toks, r) | Inr (n, r') \<Rightarrow> (n # toks, r'))"
| "run_registry (Unregister n # xs) (toks, r) = run_registry xs (toks, snd (unregister n r))"

definition registry_inv :: "registration list \<times> registry \<Rightarrow> bool" where
  "registry_inv s \<longleftrightarrow> (case s of (toks, r) \<Rightarrow>
     unat (rg_next_generation r) = length toks \<and>
     (\<forall>n \<in> set toks. rn_generation n < rg_next_generation r) \<and>
     distinct (map rn_generation toks) \<and>
     hm_wf (rg_servers r) \<and>
     (\<forall>sid st. hm_get (rg_servers r) sid = Some st \<longrightarrow>
        \<lparr>rn_server_id = sid, rn_generation = ss_generation st\<rparr> \<in> set toks))"

lemma registry_inv_register:
  assumes inv: "registry_inv (toks, r)" and room: "Suc (length toks) < 2 ^ 64"
    and ok: "register slot r = Inr (n, r')"
  shows "registry_inv (n # toks, r')"
proof -
  have u: "unat (rg_next_generation r + 1) = Suc (unat (rg_next_generation r))"
    using inv room by (simp add: registry_inv_def unat_word_ariths)
  then have lt: "x < rg_next_generation r + 1 \<longleftrightarrow> x \<le> rg_next_generation r" for x
    by (simp add: word_less_nat_alt word_le_nat_alt less_Suc_eq_le)
  show ?thesis
    using inv ok u
    by (auto simp: registry_inv_def register_def Let_def hm_simps lt split: if_splits)
qed

lemma registry_inv_unregister: "registry_inv (toks, r) \<Longrightarrow> registry_inv (toks, snd (unregister n r))"
  by (auto simp: registry_inv_def unregister_def Let_def hm_simps split: option.splits)

lemma run_registry_inv:
  "registry_inv (toks, r) \<Longrightarrow> length toks + length xs < 2 ^ 64 \<Longrightarrow>
     registry_inv (run_registry xs (toks, r))"
proof (induction xs arbitrary: toks r)
  case Nil
  then show ?case by simp
next
  case (Cons x xs)
  show ?case
  proof (cases x)
    case (Register slot)
    show ?thesis
    proof (cases "register slot r")
      case (Inl e)
      with Register Cons show ?thesis by simp
    next
      case (Inr p)
      obtain n r' where p: "p = (n, r')" by (cases p)
      have "registry_inv (n # toks, r')"
        using registry_inv_register Cons.prems Inr p by simp
      from Cons.IH [OF this] Cons.prems(2) Register Inr p show ?thesis by simp
    qed
  next
    case (Unregister n)
    with Cons registry_inv_unregister [OF Cons.prems(1), of n] show ?thesis by simp
  qed
qed

text \<open>
  A token removes its own registration and never a later one for the same server: in
  every run of fewer than \<open>2 ^ 64\<close> operations no two tokens carry the same generation,
  each live entry belongs to a token that was handed out for it, and dropping any other
  token leaves the entry where it is.
\<close>

lemma stale_registration_harmless:
  assumes "run_registry xs ([], registry_new) = (toks, r)" and "length xs < 2 ^ 64"
    and "hm_get (rg_servers r) sid = Some st"
  shows "distinct (map rn_generation toks) \<and>
     \<lparr>rn_server_id = sid, rn_generation = ss_generation st\<rparr> \<in> set toks \<and>
     (n \<noteq> \<lparr>rn_server_id = sid, rn_generation = ss_generation st\<rparr> \<longrightarrow>
        registry_get sid (snd (unregister n r)) = Some (sl_tx (ss_slot st)))"
proof -
  have "registry_inv ([], registry_new)"
    by (simp add: registry_inv_def registry_new_def)
  from run_registry_inv [OF this, of xs] assms have inv: "registry_inv (toks, r)" by simp
  have "registry_get sid (snd (unregister n r)) = Some (sl_tx (ss_slot st))"
    if "n \<noteq> \<lparr>rn_server_id = sid, rn_generation = ss_generation st\<rparr>"
    using that assms(3)
    by (cases n) (auto simp: unregister_def registry_get_def hm_simps Let_def split: option.splits)
  with inv assms(3) show ?thesis by (simp add: registry_inv_def)
qed

end
