(* ===== verification/Wire_Codec.thy ===== *)
theory Wire_Codec
  imports Wire_Types "HOL-Library.Countable"
begin

text \<open>
  \<open>crates/shared/proto/src/codec.rs\<close>: the discriminator byte that separates relay
  control messages from relay data. The serialisation itself is the third-party crate
  \<open>postcard\<close>, a parameter of the model: a record of its four entry points for relay
  messages, each of which may fail. What the relay relies on is \<open>codec_ok\<close>, postcard's
  documented round trip (\<open>from_bytes(to_allocvec(x)) = x\<close>).
\<close>

record postcard =
  ser_ctrl :: "relay_ctrl \<Rightarrow> bytes option"
  de_ctrl :: "bytes \<Rightarrow> relay_ctrl option"
  ser_data :: "relay_data \<Rightarrow> bytes option"
  de_data :: "bytes \<Rightarrow> relay_data option"

definition codec_ok :: "postcard \<Rightarrow> bool" where
  "codec_ok pc \<longleftrightarrow>
     (\<forall>c. \<exists>b. ser_ctrl pc c = Some b \<and> de_ctrl pc b = Some c) \<and>
     (\<forall>d. \<exists>b. ser_data pc d = Some b \<and> de_data pc b = Some d)"

datatype codec_error = Postcard | EmptyFrame | UnknownDiscriminator u8

datatype relay_wire = WireCtrl relay_ctrl | WireData relay_data

definition encode_relay_ctrl :: "postcard \<Rightarrow> relay_ctrl \<Rightarrow> (codec_error, bytes) result" where
  "encode_relay_ctrl pc ctrl =
     (case ser_ctrl pc ctrl of None \<Rightarrow> Inl Postcard | Some b \<Rightarrow> Inr (RELAY_DISC_CTRL # b))"

definition encode_relay_data :: "postcard \<Rightarrow> relay_data \<Rightarrow> (codec_error, bytes) result" where
  "encode_relay_data pc data =
     (case ser_data pc data of None \<Rightarrow> Inl Postcard | Some b \<Rightarrow> Inr (RELAY_DISC_DATA # b))"

fun decode_relay :: "postcard \<Rightarrow> bytes \<Rightarrow> (codec_error, relay_wire) result" where
  "decode_relay pc [] = Inl EmptyFrame"
| "decode_relay pc (disc # rest) =
     (if disc = RELAY_DISC_CTRL
      then (case de_ctrl pc rest of None \<Rightarrow> Inl Postcard | Some c \<Rightarrow> Inr (WireCtrl c))
      else if disc = RELAY_DISC_DATA
      then (case de_data pc rest of None \<Rightarrow> Inl Postcard | Some d \<Rightarrow> Inr (WireData d))
      else Inl (UnknownDiscriminator disc))"

text \<open>\<open>postcard\<close> for session frames.\<close>

record frame_codec =
  fc_ser :: "frame \<Rightarrow> bytes option"
  fc_de :: "bytes \<Rightarrow> frame option"

definition encode_frame :: "frame_codec \<Rightarrow> frame \<Rightarrow> (codec_error, bytes) result" where
  "encode_frame fc f = (case fc_ser fc f of None \<Rightarrow> Inl Postcard | Some b \<Rightarrow> Inr b)"

definition decode_frame :: "frame_codec \<Rightarrow> bytes \<Rightarrow> (codec_error, frame) result" where
  "decode_frame fc b = (case fc_de fc b of None \<Rightarrow> Inl Postcard | Some f \<Rightarrow> Inr f)"

text \<open>\<open>split_disc\<close> of \<open>relay-core/src/forward.rs\<close>.\<close>

fun split_disc :: "bytes \<Rightarrow> (u8 \<times> bytes) option" where
  "split_disc [] = None"
| "split_disc (disc # rest) = Some (disc, rest)"

lemma discs_differ [simp]: "RELAY_DISC_CTRL \<noteq> RELAY_DISC_DATA" "RELAY_DISC_DATA \<noteq> RELAY_DISC_CTRL"
  by (simp_all add: RELAY_DISC_CTRL_def RELAY_DISC_DATA_def)

lemma codec_okE:
  assumes "codec_ok pc"
  obtains b where "ser_ctrl pc c = Some b" "de_ctrl pc b = Some c"
  using assms by (auto simp: codec_ok_def)

lemma codec_ok_dataE:
  assumes "codec_ok pc"
  obtains b where "ser_data pc d = Some b" "de_data pc b = Some d"
  using assms by (auto simp: codec_ok_def)

section \<open>The wire interface of the relay\<close>

text \<open>
  What the relay's endpoints use of the codec: an encoder for each kind of message whose
  output the decoder maps back to the message and its kind. The codec provides it for
  every serialiser with the round trip.
\<close>

locale relay_link =
  fixes enc_ctrl :: "relay_ctrl \<Rightarrow> (codec_error, bytes) result"
    and enc_data :: "relay_data \<Rightarrow> (codec_error, bytes) result"
    and dec :: "bytes \<Rightarrow> (codec_error, relay_wire) result"
  assumes ctrl_back: "\<exists>b. enc_ctrl c = Inr b \<and> dec b = Inr (WireCtrl c)"
    and data_back: "\<exists>b. enc_data d = Inr b \<and> dec b = Inr (WireData d)"
begin

lemma enc_ctrl_inj: "enc_ctrl c = enc_ctrl c' \<Longrightarrow> c = c'"
  using ctrl_back [of c] ctrl_back [of c'] by auto

lemma enc_data_inj: "enc_data d = enc_data d' \<Longrightarrow> d = d'"
  using data_back [of d] data_back [of d'] by auto

lemma kinds_disjoint: "enc_ctrl c \<noteq> enc_data d"
  using ctrl_back [of c] data_back [of d] by auto

end

lemma relay_link_of_codec:
  "codec_ok pc \<Longrightarrow> relay_link (encode_relay_ctrl pc) (encode_relay_data pc) (decode_relay pc)"
  by unfold_locales
    (auto simp: codec_ok_def encode_relay_ctrl_def encode_relay_data_def
       elim!: allE split: option.splits)

section \<open>A serialiser with the round trip\<close>

text \<open>
  The hypothesis \<open>codec_ok\<close> can be met: numbering the messages and writing a number in
  unary is a serialiser with the round trip. It stands for no code; it inhabits the type
  of lawful serialisers, over which the interface is interpreted.
\<close>

instance server_id :: countable
  by countable_datatype

instance pair_id :: countable
  by countable_datatype

instance pair_close_reason :: countable
  by countable_datatype

instance relay_ctrl :: countable
  by countable_datatype

instance relay_data :: countable
  by countable_datatype

definition unary_postcard :: postcard where
  "unary_postcard =
     \<lparr>ser_ctrl = (\<lambda>c. Some (replicate (to_nat c) 0)), de_ctrl = (\<lambda>b. Some (from_nat (length b))),
      ser_data = (\<lambda>d. Some (replicate (to_nat d) 0)), de_data = (\<lambda>b. Some (from_nat (length b)))\<rparr>"

lemma unary_postcard_ok: "codec_ok unary_postcard"
  by (simp add: codec_ok_def unary_postcard_def)

typedef lawful_postcard = "{pc. codec_ok pc}" morphisms codec_of Lawful
  using unary_postcard_ok by blast

lemma codec_of_ok [simp]: "codec_ok (codec_of p)"
  using codec_of [of p] by simp

lemma codec_of_Lawful: "codec_ok pc \<Longrightarrow> codec_of (Lawful pc) = pc"
  by (simp add: Lawful_inverse)

interpretation link: relay_link "encode_relay_ctrl (codec_of p)" "encode_relay_data (codec_of p)"
    "decode_relay (codec_of p)" for p
  by (rule relay_link_of_codec) simp

lemma encode_ctrl_back:
  assumes "codec_ok pc"
  shows "\<exists>b. encode_relay_ctrl pc c = Inr b \<and> decode_relay pc b = Inr (WireCtrl c)"
  using link.ctrl_back [of "Lawful pc" c] by (simp add: codec_of_Lawful [OF assms])

lemma encode_data_back:
  assumes "codec_ok pc"
  shows "\<exists>b. encode_relay_data pc d = Inr b \<and> decode_relay pc b = Inr (WireData d)"
  using link.data_back [of "Lawful pc" d] by (simp add: codec_of_Lawful [OF assms])

section \<open>The relay's encoders\<close>

text \<open>
  \<open>encode_ctrl_frame\<close> and \<open>encode_data_frame\<close> of \<open>relay-core/src/lib.rs\<close>: the encoders
  with their errors turned into a panic, the value \<open>None\<close>.
\<close>

fun expect_ok :: "('e, 'a) result \<Rightarrow> 'a option" where
  "expect_ok (Inl e) = None"
| "expect_ok (Inr a) = Some a"

definition encode_ctrl_frame :: "postcard \<Rightarrow> relay_ctrl \<Rightarrow> bytes option" where
  "encode_ctrl_frame pc ctrl = expect_ok (encode_relay_ctrl pc ctrl)"

definition encode_data_frame :: "postcard \<Rightarrow> relay_data \<Rightarrow> bytes option" where
  "encode_data_frame pc data = expect_ok (encode_relay_data pc data)"

lemma ctrl_frame_back:
  "codec_ok pc \<Longrightarrow> \<exists>f. encode_ctrl_frame pc c = Some f \<and> decode_relay pc f = Inr (WireCtrl c)"
  using encode_ctrl_back [of pc c] by (auto simp: encode_ctrl_frame_def)

lemma data_frame_back:
  "codec_ok pc \<Longrightarrow> \<exists>f. encode_data_frame pc d = Some f \<and> decode_relay pc f = Inr (WireData d)"
  using encode_data_back [of pc d] by (auto simp: encode_data_frame_def)

text \<open>
  With a serialiser that round-trips, \<open>decode_relay\<close> inverts both relay encoders and
  tells control frames from data frames by the leading byte, which \<open>split_disc\<close> reads:
  no control frame has the encoding of a data frame.
\<close>

lemma relay_wire_roundtrip:
  assumes "codec_ok pc"
  shows "\<exists>bc bd. encode_relay_ctrl pc c = Inr bc \<and> encode_relay_data pc d = Inr bd \<and> bc \<noteq> bd \<and>
           decode_relay pc bc = Inr (WireCtrl c) \<and> decode_relay pc bd = Inr (WireData d) \<and>
           split_disc bc = Some (RELAY_DISC_CTRL, tl bc) \<and>
           split_disc bd = Some (RELAY_DISC_DATA, tl bd)"
proof -
  obtain bc where bc: "encode_relay_ctrl pc c = Inr bc" "decode_relay pc bc = Inr (WireCtrl c)"
    using encode_ctrl_back [OF assms] by blast
  obtain bd where bd: "encode_relay_data pc d = Inr bd" "decode_relay pc bd = Inr (WireData d)"
    using encode_data_back [OF assms] by blast
  from bc(1) have "split_disc bc = Some (RELAY_DISC_CTRL, tl bc)"
    by (auto simp: encode_relay_ctrl_def split: option.splits)
  moreover from bd(1) have "split_disc bd = Some (RELAY_DISC_DATA, tl bd)"
    by (auto simp: encode_relay_data_def split: option.splits)
  moreover from bc bd have "bc \<noteq> bd" by auto
  ultimately show ?thesis using bc bd by blast
qed

end
