(* ===== verification/Relay_Pairs.thy ===== *)
theory Relay_Pairs
  imports Relay_Registry Wire_Codec
begin

text \<open>
  \<open>crates/relay/relay-core/src/pairs.rs\<close> and \<open>guillotine.rs\<close>: the live pairs and the
  sweeper that closes those without progress. An \<open>Instant\<close> and a \<open>Duration\<close> are numbers
  of nanoseconds; \<open>duration_since\<close> is \<open>0\<close> for a later instant. The sweeper is generic in
  the source (traits \<open>PairHandle\<close> and \<open>PairSweep\<close>); here it is a function of the two
  traits' methods, the laws it needs are the locale \<open>pair_sweep\<close>, and the pair manager
  is its interpretation. Messages sent are a log of channel and message; a send to a
  channel whose receiver is gone is lost, as \<open>close_stuck\<close> ignores the error.
\<close>

section \<open>Pairs\<close>

type_synonym instant = nat
type_synonym outbox = "(chan \<times> server_msg) list"

record pair =
  p_pair_id :: pair_id
  p_server_id :: server_id
  p_created_at :: instant
  p_last_progress :: instant
  p_ticket :: pair_ticket
  p_server_tx :: chan
  p_client_tx :: chan

definition pair_new :: "instant \<Rightarrow> pair_id \<Rightarrow> server_id \<Rightarrow> pair_ticket \<Rightarrow> chan \<Rightarrow> chan \<Rightarrow> pair" where
  "pair_new now pid sid ticket server_tx client_tx =
     \<lparr>p_pair_id = pid, p_server_id = sid, p_created_at = now, p_last_progress = now,
      p_ticket = ticket, p_server_tx = server_tx, p_client_tx = client_tx\<rparr>"

definition pair_touch :: "instant \<Rightarrow> pair \<Rightarrow> pair" where
  "pair_touch now p = p\<lparr>p_last_progress := now\<rparr>"

type_synonym pair_manager = "(pair_id, pair) hash_map"

definition pairs_insert :: "pair \<Rightarrow> pair_manager \<Rightarrow> pair option \<times> pair_manager" where
  "pairs_insert p m = (hm_get m (p_pair_id p), hm_insert (p_pair_id p) p m)"

definition pairs_get :: "pair_id \<Rightarrow> pair_manager \<Rightarrow> pair option" where
  "pairs_get pid m = hm_get m pid"

definition pairs_remove :: "pair_id \<Rightarrow> pair_manager \<Rightarrow> pair option \<times> pair_manager" where
  "pairs_remove pid m = (hm_get m pid, hm_remove pid m)"

definition list_for_sweep :: "pair_manager \<Rightarrow> pair list" where
  "list_for_sweep m = hm_values m"

text \<open>
  The pair in the map is shared by the tasks that hold it; a touch through any of them is
  a touch of the entry.
\<close>

definition pairs_touch :: "instant \<Rightarrow> pair_id \<Rightarrow> pair_manager \<Rightarrow> pair_manager" where
  "pairs_touch now pid m =
     (case hm_get m pid of None \<Rightarrow> m | Some p \<Rightarrow> hm_insert pid (pair_touch now p) m)"

definition pairs_wf :: "pair_manager \<Rightarrow> bool" where
  "pairs_wf m \<longleftrightarrow> hm_wf m \<and> (\<forall>(pid, p) \<in> set m. p_pair_id p = pid)"

definition send_to :: "(chan \<Rightarrow> bool) \<Rightarrow> chan \<Rightarrow> server_msg \<Rightarrow> outbox" where
  "send_to live tx m = (if live tx then [(tx, m)] else [])"

definition close_stuck :: "postcard \<Rightarrow> (chan \<Rightarrow> bool) \<Rightarrow> pair \<Rightarrow> outbox option" where
  "close_stuck pc live p =
     (case encode_ctrl_frame pc (PairClose (p_pair_id p) Stuck) of
        None \<Rightarrow> None
      | Some f \<Rightarrow> Some (send_to live (p_server_tx p) (MsgCtrl f) @ send_to live (p_client_tx p) (MsgCtrl f)))"

section \<open>The sweeper\<close>

definition sweep_interval :: "u64 \<Rightarrow> u64" where
  "sweep_interval idle_seconds = max (idle_seconds div 4) 1"

definition stuck :: "('p \<Rightarrow> instant) \<Rightarrow> nat \<Rightarrow> instant \<Rightarrow> 'p \<Rightarrow> bool" where
  "stuck seen threshold now p \<longleftrightarrow> threshold < now - seen p"

text \<open>\<open>None\<close> is a panic while a pair is closed.\<close>

fun kill_all :: "('p \<Rightarrow> pair_id) \<Rightarrow> ('p \<Rightarrow> 'o list option) \<Rightarrow> (pair_id \<Rightarrow> 'm \<Rightarrow> 'm) \<Rightarrow> 'p list \<Rightarrow> 'm \<Rightarrow>
    ('o list \<times> 'm) option" where
  "kill_all pid close rem [] m = Some ([], m)"
| "kill_all pid close rem (p # ps) m =
     (case close p of
        None \<Rightarrow> None
      | Some out \<Rightarrow> map_option (\<lambda>(out', m'). (out @ out', m')) (kill_all pid close rem ps (rem (pid p) m)))"

definition sweep_once ::
  "('m \<Rightarrow> 'p list) \<Rightarrow> (pair_id \<Rightarrow> 'm \<Rightarrow> 'm) \<Rightarrow> ('p \<Rightarrow> pair_id) \<Rightarrow> ('p \<Rightarrow> instant) \<Rightarrow> ('p \<Rightarrow> 'o list option) \<Rightarrow>
   nat \<Rightarrow> instant \<Rightarrow> 'm \<Rightarrow> ('o list \<times> 'm) option" where
  "sweep_once lst rem pid seen close threshold now m =
     kill_all pid close rem (filter (stuck seen threshold now) (lst m)) m"

text \<open>The endless loop, cut after \<open>n\<close> sweeps; the first comes one interval after \<open>start\<close>.\<close>

fun sweep_run ::
  "('m \<Rightarrow> 'p list) \<Rightarrow> (pair_id \<Rightarrow> 'm \<Rightarrow> 'm) \<Rightarrow> ('p \<Rightarrow> pair_id) \<Rightarrow> ('p \<Rightarrow> instant) \<Rightarrow> ('p \<Rightarrow> 'o list option) \<Rightarrow>
   u64 \<Rightarrow> nat \<Rightarrow> instant \<Rightarrow> 'm \<Rightarrow> ('o list \<times> 'm) option" where
  "sweep_run lst rem pid seen close idle 0 start m = Some ([], m)"
| "sweep_run lst rem pid seen close idle (Suc n) start m =
     (let now = start + unat (sweep_interval idle) * 1000000000 in
      case sweep_once lst rem pid seen close (unat idle * 1000000000) now m of
        None \<Rightarrow> None
      | Some (out, m') \<Rightarrow>
          map_option (\<lambda>(out', m''). (out @ out', m''))
            (sweep_run lst rem pid seen close idle n now m'))"

locale pair_sweep =
  fixes wf :: "'m \<Rightarrow> bool"
    and lst :: "'m \<Rightarrow> 'p list"
    and rem :: "pair_id \<Rightarrow> 'm \<Rightarrow> 'm"
    and pid :: "'p \<Rightarrow> pair_id"
    and seen :: "'p \<Rightarrow> instant"
    and close :: "'p \<Rightarrow> 'o list option"
  assumes wf_rem: "wf m \<Longrightarrow> wf (rem k m)"
    and lst_distinct: "wf m \<Longrightarrow> distinct (map pid (lst m))"
    and lst_rem: "wf m \<Longrightarrow> lst (rem k m) = filter (\<lambda>p. pid p \<noteq> k) (lst m)"
    and close_total: "close p \<noteq> None"
begin

lemma kill_all_lst:
  "wf m \<Longrightarrow> \<exists>m'. kill_all pid close rem ps m = Some (concat (map (\<lambda>p. the (close p)) ps), m') \<and>
     wf m' \<and> lst m' = filter (\<lambda>p. pid p \<notin> pid ` set ps) (lst m)"
proof (induction ps arbitrary: m)
  case Nil
  then show ?case by simp
next
  case (Cons p ps)
  from Cons.IH [OF wf_rem [OF Cons.prems], of "pid p"] obtain m' where
    "kill_all pid close rem ps (rem (pid p) m) = Some (concat (map (\<lambda>p. the (close p)) ps), m')"
    "wf m'" "lst m' = filter (\<lambda>q. pid q \<notin> pid ` set ps) (lst (rem (pid p) m))" by blast
  moreover obtain o1 where "close p = Some o1" using close_total [of p] by blast
  ultimately show ?case
    using lst_rem [OF Cons.prems, of "pid p"] by (auto simp: conj_commute intro!: filter_cong)
qed

lemma sweep_once_exact:
  assumes wf: "wf m"
  shows "\<exists>m'. sweep_once lst rem pid seen close threshold now m =
       Some (concat (map (\<lambda>p. the (close p)) (filter (stuck seen threshold now) (lst m))), m') \<and>
     wf m' \<and> lst m' = filter (\<lambda>p. \<not> stuck seen threshold now p) (lst m)"
proof -
  have "pid p \<in> pid ` set (filter (stuck seen threshold now) (lst m)) \<longleftrightarrow> stuck seen threshold now p"
    if "p \<in> set (lst m)" for p
    using that lst_distinct [OF wf] by (auto simp: distinct_map inj_on_def image_iff)
  then have "filter (\<lambda>p. pid p \<notin> pid ` set (filter (stuck seen threshold now) (lst m))) (lst m) =
      filter (\<lambda>p. \<not> stuck seen threshold now p) (lst m)"
    by (intro filter_cong) auto
  with kill_all_lst [OF wf] show ?thesis by (metis sweep_once_def)
qed

text \<open>A pair that makes no progress survives only sweeps within the threshold.\<close>

lemma sweep_run_survivor:
  "wf m \<Longrightarrow> \<exists>out m'. sweep_run lst rem pid seen close idle (Suc n) start m = Some (out, m') \<and>
     (\<forall>p \<in> set (lst m'). p \<in> set (lst m) \<and>
       start + Suc n * (unat (sweep_interval idle) * 1000000000) - seen p \<le> unat idle * 1000000000)"
proof (induction n arbitrary: m start)
  case 0
  obtain m1 where "sweep_once lst rem pid seen close (unat idle * 1000000000)
        (start + unat (sweep_interval idle) * 1000000000) m =
       Some (concat (map (\<lambda>p. the (close p)) (filter (stuck seen (unat idle * 1000000000)
        (start + unat (sweep_interval idle) * 1000000000)) (lst m))), m1)"
     "lst m1 = filter (\<lambda>p. \<not> stuck seen (unat idle * 1000000000)
        (start + unat (sweep_interval idle) * 1000000000) p) (lst m)"
    using sweep_once_exact [OF 0] by blast
  then show ?case by (auto simp: stuck_def Let_def)
next
  case (Suc n)
  let ?now = "start + unat (sweep_interval idle) * 1000000000"
  obtain o1 m1 where 1: "sweep_once lst rem pid seen close (unat idle * 1000000000) ?now m = Some (o1, m1)"
      "wf m1" "set (lst m1) \<subseteq> set (lst m)"
    using sweep_once_exact [OF Suc.prems, of "unat idle * 1000000000" ?now] by force
  obtain o2 m2 where 2: "sweep_run lst rem pid seen close idle (Suc n) ?now m1 = Some (o2, m2)"
      "\<forall>p \<in> set (lst m2). p \<in> set (lst m1) \<and>
       ?now + Suc n * (unat (sweep_interval idle) * 1000000000) - seen p \<le> unat idle * 1000000000"
    using Suc.IH [OF 1(2)] by blast
  have "sweep_run lst rem pid seen close idle (Suc (Suc n)) start m = Some (o1 @ o2, m2)"
    using 1(1) 2(1) by (simp add: Let_def)
  moreover have "?now + Suc n * (unat (sweep_interval idle) * 1000000000) =
     start + Suc (Suc n) * (unat (sweep_interval idle) * 1000000000)" by simp
  ultimately show ?case using 2(2) 1(3) by fastforce
qed

end

section \<open>The pair manager is a sweepable set of pairs\<close>

lemma pairs_wf_empty [simp]: "pairs_wf []"
  by (simp add: pairs_wf_def)

lemma pairs_wf_hm: "pairs_wf m \<Longrightarrow> hm_wf m"
  by (simp add: pairs_wf_def)

lemma set_hm_remove: "set (hm_remove k m) \<subseteq> set m"
  by (induction m) (auto simp: hm_remove_def AList.delete_eq)

lemma pairs_wf_remove: "pairs_wf m \<Longrightarrow> pairs_wf (snd (pairs_remove k m))"
  using set_hm_remove [of k m] by (auto simp: pairs_wf_def pairs_remove_def)

lemma pairs_wf_get: "pairs_wf m \<Longrightarrow> hm_get m pid = Some p \<Longrightarrow> p_pair_id p = pid"
  by (auto simp: pairs_wf_def hm_get_Some)

lemma pairs_wf_upd: "pairs_wf m \<Longrightarrow> p_pair_id p = k \<Longrightarrow> pairs_wf (hm_insert k p m)"
proof -
  assume wf: "pairs_wf m" and k: "p_pair_id p = k"
  then have w: "hm_wf (hm_insert k p m)" by (simp add: pairs_wf_def)
  have "p_pair_id q = pid" if "(pid, q) \<in> set (hm_insert k p m)" for pid q
    using that wf k by (auto simp: hm_get_Some [OF w, symmetric] hm_simps pairs_wf_get split: if_splits)
  with w show ?thesis by (auto simp: pairs_wf_def)
qed

lemma pairs_wf_insert: "pairs_wf m \<Longrightarrow> pairs_wf (snd (pairs_insert p m))"
  by (simp add: pairs_insert_def pairs_wf_upd)

lemma pairs_wf_touch: "pairs_wf m \<Longrightarrow> pairs_wf (pairs_touch now pid m)"
  by (auto simp: pairs_touch_def pair_touch_def pairs_wf_get intro!: pairs_wf_upd split: option.splits)

lemma sweep_ids: "pairs_wf m \<Longrightarrow> map p_pair_id (list_for_sweep m) = hm_keys m"
  by (auto simp: pairs_wf_def list_for_sweep_def hm_keys_def hm_values_def)

lemma sweep_remove:
  "pairs_wf m \<Longrightarrow> list_for_sweep (snd (pairs_remove k m)) = filter (\<lambda>p. p_pair_id p \<noteq> k) (list_for_sweep m)"
  unfolding pairs_remove_def list_for_sweep_def hm_values_def hm_remove_def
  by (induction m) (auto simp: pairs_wf_def hm_wf_def AList.delete_eq)

lemma close_stuck_total: "codec_ok pc \<Longrightarrow> close_stuck pc live p \<noteq> None"
  using ctrl_frame_back [of pc "PairClose (p_pair_id p) Stuck"] by (auto simp: close_stuck_def)

interpretation guillotine: pair_sweep pairs_wf list_for_sweep "\<lambda>k m. snd (pairs_remove k m)"
    p_pair_id p_last_progress "close_stuck (codec_of pc) live" for pc live
proof
  fix m k and p :: pair
  show "pairs_wf m \<Longrightarrow> pairs_wf (snd (pairs_remove k m))" by (rule pairs_wf_remove)
  show "pairs_wf m \<Longrightarrow> distinct (map p_pair_id (list_for_sweep m))"
    by (simp add: sweep_ids) (simp add: hm_keys_def pairs_wf_def hm_wf_def)
  show "pairs_wf m \<Longrightarrow> list_for_sweep (snd (pairs_remove k m)) =
      filter (\<lambda>p. p_pair_id p \<noteq> k) (list_for_sweep m)"
    by (rule sweep_remove)
  show "close_stuck (codec_of pc) live p \<noteq> None" by (simp only: close_stuck_total codec_of_ok not_False_eq_True)
qed

lemma stuck_fun: "stuck f threshold now = (\<lambda>p. threshold < now - f p)"
  by (rule ext) (simp add: stuck_def)

definition sweep_pairs ::
  "postcard \<Rightarrow> (chan \<Rightarrow> bool) \<Rightarrow> nat \<Rightarrow> instant \<Rightarrow> pair_manager \<Rightarrow> (outbox \<times> pair_manager) option" where
  "sweep_pairs pc live =
     sweep_once list_for_sweep (\<lambda>k m. snd (pairs_remove k m)) p_pair_id p_last_progress (close_stuck pc live)"

definition guillotine_run ::
  "postcard \<Rightarrow> (chan \<Rightarrow> bool) \<Rightarrow> u64 \<Rightarrow> nat \<Rightarrow> instant \<Rightarrow> pair_manager \<Rightarrow> (outbox \<times> pair_manager) option" where
  "guillotine_run pc live =
     sweep_run list_for_sweep (\<lambda>k m. snd (pairs_remove k m)) p_pair_id p_last_progress (close_stuck pc live)"

text \<open>
  One sweep never fails; it removes exactly the pairs whose seen progress is older
  than the threshold, keeps every other pair unchanged, and tells both live ends of each
  removed pair, and nobody else, that it is stuck.
\<close>

lemma sweep_exact:
  assumes "codec_ok pc" and "pairs_wf m"
  shows "\<exists>out m'. sweep_pairs pc live threshold now m = Some (out, m') \<and> pairs_wf m' \<and>
     list_for_sweep m' = filter (\<lambda>p. now - p_last_progress p \<le> threshold) (list_for_sweep m) \<and>
     Some out = map_option concat (those (map (close_stuck pc live)
             (filter (\<lambda>p. threshold < now - p_last_progress p) (list_for_sweep m))))"
proof -
  let ?kill = "filter (\<lambda>p. threshold < now - p_last_progress p) (list_for_sweep m)"
  have "those (map (close_stuck pc live) ps) = Some (map (\<lambda>p. the (close_stuck pc live p)) ps)" for ps
    using close_stuck_total [OF assms(1)] by (induction ps) (auto split: option.splits)
  then show ?thesis
    using guillotine.sweep_once_exact [OF assms(2), of "Lawful pc" live threshold now]
    by (auto simp: stuck_fun not_less sweep_pairs_def codec_of_Lawful [OF assms(1)])
qed

definition sample_pair :: "uuid \<Rightarrow> instant \<Rightarrow> pair" where
  "sample_pair n t = pair_new t (PairId n) (ServerId 1)
     \<lparr>pt_rate_bucket = 1, pt_rate_remainder_tenths = 0, pt_queued_bytes = 0\<rparr> 1 2"

lemma sample_pairs_wf: "pairs_wf [(PairId 1, sample_pair 1 3), (PairId 2, sample_pair 2 20)]"
  by (simp add: pairs_wf_def hm_wf_def sample_pair_def pair_new_def)

text \<open>The keys a sweep keeps and those it removes.\<close>

lemma sweep_keys:
  assumes "codec_ok pc" and wf: "pairs_wf m"
  shows "\<exists>out m'. sweep_pairs pc live threshold now m = Some (out, m') \<and> pairs_wf m' \<and>
     set (hm_keys m) = set (hm_keys m') \<union> set (map p_pair_id (filter (stuck p_last_progress threshold now) (list_for_sweep m))) \<and>
     set (hm_keys m') \<inter> set (map p_pair_id (filter (stuck p_last_progress threshold now) (list_for_sweep m))) = {} \<and>
     distinct (map p_pair_id (filter (stuck p_last_progress threshold now) (list_for_sweep m)))"
proof -
  obtain out m' where sw: "sweep_pairs pc live threshold now m = Some (out, m')" "pairs_wf m'"
      "list_for_sweep m' = filter (\<lambda>p. \<not> stuck p_last_progress threshold now p) (list_for_sweep m)"
    using guillotine.sweep_once_exact [OF wf, of "Lawful pc" live threshold now]
    by (auto simp: sweep_pairs_def codec_of_Lawful [OF assms(1)])
  have d: "distinct (map p_pair_id (list_for_sweep m))"
    by (rule guillotine.lst_distinct [OF wf])
  have k: "hm_keys m' = map p_pair_id (filter (\<lambda>p. \<not> stuck p_last_progress threshold now p) (list_for_sweep m))"
    using sweep_ids [OF sw(2)] sw(3) by simp
  have "distinct (map p_pair_id (filter (stuck p_last_progress threshold now) (list_for_sweep m)))"
    using d by (rule distinct_map_filter)
  moreover have "set (hm_keys m') \<inter> set (map p_pair_id (filter (stuck p_last_progress threshold now) (list_for_sweep m))) = {}"
    using d unfolding k by (auto simp: distinct_map inj_on_def)
  moreover have "set (hm_keys m) = set (hm_keys m') \<union> set (map p_pair_id (filter (stuck p_last_progress threshold now) (list_for_sweep m)))"
    unfolding k sweep_ids [OF wf, symmetric] by auto
  ultimately show ?thesis using sw by blast
qed



end
