(* ===== verification/Crypto_Noise.thy ===== *)
theory Crypto_Noise
  imports Prelude
begin

text \<open>
  \<open>crates/shared/crypto/src/noise.rs\<close>: the handshakes and the encrypted sessions, thin
  wrappers around the third-party crate \<open>snow\<close>, which is a parameter: a record of its
  entry points, with \<open>'h\<close> its handshake states and \<open>'t\<close> its transport states. The four
  handshake types differ in how they are built; their operations are the same.
\<close>

definition NOISE_XK_PARAMS :: string where "NOISE_XK_PARAMS = ''Noise_XK_25519_ChaChaPoly_BLAKE2s''"
definition NOISE_PSK2_PARAMS :: string where "NOISE_PSK2_PARAMS = ''Noise_XKpsk2_25519_ChaChaPoly_BLAKE2s''"
definition NOISE_XX_PARAMS :: string where "NOISE_XX_PARAMS = ''Noise_XX_25519_ChaChaPoly_BLAKE2s''"
definition NOISE_MAX_MSG_LEN :: nat where "NOISE_MAX_MSG_LEN = 65535"
definition NOISE_TAG_LEN :: nat where "NOISE_TAG_LEN = 16"
definition NOISE_HANDSHAKE_MSG_BUF :: nat where "NOISE_HANDSHAKE_MSG_BUF = 1024"

datatype noise_error = Snow string | NoiseParams string | PayloadTooLarge | HandshakeNotFinished

record key_pair =
  kp_secret :: bytes
  kp_public :: bytes

section \<open>The parameter\<close>

record noise_builder =
  nb_params :: string
  nb_local_private :: bytes
  nb_remote_public :: "bytes option"
  nb_psk :: "(nat \<times> bytes) option"

text \<open>
  The message operations get a buffer of the given size and return the bytes they wrote
  into it. The state after an error is the one \<open>snow\<close> leaves behind.
\<close>

record ('h, 't) snow =
  sw_parse_params :: "string \<Rightarrow> (string, unit) result"
  sw_build_initiator :: "noise_builder \<Rightarrow> (string, 'h) result"
  sw_build_responder :: "noise_builder \<Rightarrow> (string, 'h) result"
  sw_write_message :: "'h \<Rightarrow> bytes \<Rightarrow> nat \<Rightarrow> (string, bytes) result \<times> 'h"
  sw_read_message :: "'h \<Rightarrow> bytes \<Rightarrow> nat \<Rightarrow> (string, bytes) result \<times> 'h"
  sw_remote_static :: "'h \<Rightarrow> bytes option"
  sw_is_finished :: "'h \<Rightarrow> bool"
  sw_into_transport :: "'h \<Rightarrow> (string, 't) result"
  sw_transport_write :: "'t \<Rightarrow> bytes \<Rightarrow> nat \<Rightarrow> (string, bytes) result \<times> 't"
  sw_transport_read :: "'t \<Rightarrow> bytes \<Rightarrow> nat \<Rightarrow> (string, bytes) result \<times> 't"

section \<open>Handshakes\<close>

text \<open>\<open>NoiseInitiator\<close>, \<open>NoiseAnonymousInitiator\<close>, \<open>NoiseResponder\<close>, \<open>NoiseAnonymousResponder\<close>.\<close>

record 'h noise_party =
  np_state :: "'h option"

fun map_snow :: "(string, 'a) result \<Rightarrow> (noise_error, 'a) result" where
  "map_snow (Inl e) = Inl (Snow e)"
| "map_snow (Inr a) = Inr a"

definition parse_params :: "('h, 't) snow \<Rightarrow> string \<Rightarrow> (noise_error, string) result" where
  "parse_params sw params =
     (case sw_parse_params sw params of Inl e \<Rightarrow> Inl (NoiseParams e) | Inr _ \<Rightarrow> Inr params)"

definition xk_noise_params :: "('h, 't) snow \<Rightarrow> bool \<Rightarrow> (noise_error, string) result" where
  "xk_noise_params sw with_psk =
     parse_params sw (if with_psk then NOISE_PSK2_PARAMS else NOISE_XK_PARAMS)"

definition xx_noise_params :: "('h, 't) snow \<Rightarrow> (noise_error, string) result" where
  "xx_noise_params sw = parse_params sw NOISE_XX_PARAMS"

definition party :: "(string, 'h) result \<Rightarrow> (noise_error, 'h noise_party) result" where
  "party built = and_then (map_snow built) (\<lambda>h. Inr \<lparr>np_state = Some h\<rparr>)"

definition initiator_new ::
  "('h, 't) snow \<Rightarrow> key_pair \<Rightarrow> bytes \<Rightarrow> bytes option \<Rightarrow> (noise_error, 'h noise_party) result" where
  "initiator_new sw local remote psk =
     and_then (xk_noise_params sw (psk \<noteq> None))
       (\<lambda>params. party (sw_build_initiator sw
          \<lparr>nb_params = params, nb_local_private = kp_secret local, nb_remote_public = Some remote,
           nb_psk = map_option (Pair 2) psk\<rparr>))"

definition anonymous_initiator_new ::
  "('h, 't) snow \<Rightarrow> key_pair \<Rightarrow> (noise_error, 'h noise_party) result" where
  "anonymous_initiator_new sw local =
     and_then (xx_noise_params sw)
       (\<lambda>params. party (sw_build_initiator sw
          \<lparr>nb_params = params, nb_local_private = kp_secret local, nb_remote_public = None, nb_psk = None\<rparr>))"

definition responder_new ::
  "('h, 't) snow \<Rightarrow> key_pair \<Rightarrow> bytes option \<Rightarrow> (noise_error, 'h noise_party) result" where
  "responder_new sw local psk =
     and_then (xk_noise_params sw (psk \<noteq> None))
       (\<lambda>params. party (sw_build_responder sw
          \<lparr>nb_params = params, nb_local_private = kp_secret local, nb_remote_public = None,
           nb_psk = map_option (Pair 2) psk\<rparr>))"

definition anonymous_responder_new ::
  "('h, 't) snow \<Rightarrow> key_pair \<Rightarrow> (noise_error, 'h noise_party) result" where
  "anonymous_responder_new sw local =
     and_then (xx_noise_params sw)
       (\<lambda>params. party (sw_build_responder sw
          \<lparr>nb_params = params, nb_local_private = kp_secret local, nb_remote_public = None, nb_psk = None\<rparr>))"

definition write_handshake ::
  "('h, 't) snow \<Rightarrow> 'h noise_party \<Rightarrow> (noise_error, bytes) result \<times> 'h noise_party" where
  "write_handshake sw p =
     (case np_state p of
        None \<Rightarrow> (Inl HandshakeNotFinished, p)
      | Some h \<Rightarrow>
          (case sw_write_message sw h [] NOISE_HANDSHAKE_MSG_BUF of
             (r, h') \<Rightarrow> (map_snow r, p\<lparr>np_state := Some h'\<rparr>)))"

definition read_handshake ::
  "('h, 't) snow \<Rightarrow> bytes \<Rightarrow> 'h noise_party \<Rightarrow> (noise_error, unit) result \<times> 'h noise_party" where
  "read_handshake sw msg p =
     (case np_state p of
        None \<Rightarrow> (Inl HandshakeNotFinished, p)
      | Some h \<Rightarrow>
          (case sw_read_message sw h msg NOISE_HANDSHAKE_MSG_BUF of
             (r, h') \<Rightarrow> (and_then (map_snow r) (\<lambda>_. Inr ()), p\<lparr>np_state := Some h'\<rparr>)))"

definition remote_static_public :: "('h, 't) snow \<Rightarrow> 'h noise_party \<Rightarrow> bytes option" where
  "remote_static_public sw p =
     (case np_state p of
        None \<Rightarrow> None
      | Some h \<Rightarrow>
          (case sw_remote_static sw h of
             None \<Rightarrow> None
           | Some rs \<Rightarrow> if length rs \<noteq> 32 then None else Some rs))"

definition finish :: "('h, 't) snow \<Rightarrow> 'h noise_party \<Rightarrow> (noise_error, 't) result" where
  "finish sw p =
     (case np_state p of
        None \<Rightarrow> Inl HandshakeNotFinished
      | Some h \<Rightarrow> map_snow (sw_into_transport sw h))"

definition is_handshake_finished :: "('h, 't) snow \<Rightarrow> 'h noise_party \<Rightarrow> bool" where
  "is_handshake_finished sw p = (case np_state p of None \<Rightarrow> False | Some h \<Rightarrow> sw_is_finished sw h)"

section \<open>Sessions\<close>

definition encrypt :: "('h, 't) snow \<Rightarrow> bytes \<Rightarrow> 't \<Rightarrow> (noise_error, bytes) result \<times> 't" where
  "encrypt sw plaintext t =
     (if NOISE_MAX_MSG_LEN < length plaintext + NOISE_TAG_LEN then (Inl PayloadTooLarge, t)
      else (case sw_transport_write sw t plaintext (length plaintext + NOISE_TAG_LEN) of
              (r, t') \<Rightarrow> (map_snow r, t')))"

definition decrypt :: "('h, 't) snow \<Rightarrow> bytes \<Rightarrow> 't \<Rightarrow> (noise_error, bytes) result \<times> 't" where
  "decrypt sw ciphertext t =
     (if NOISE_MAX_MSG_LEN < length ciphertext then (Inl PayloadTooLarge, t)
      else (case sw_transport_read sw t ciphertext (length ciphertext) of
              (r, t') \<Rightarrow> (map_snow r, t')))"

section \<open>Two ends of a session\<close>

text \<open>
  What the program relies on: \<open>linked a b\<close> says that \<open>a\<close> is the sending half of a session
  and \<open>b\<close> the matching receiving half. A message of at most 65535 bytes with its tag is
  written with a tag of 16 bytes, and read back by the other end; both move on together.
\<close>

definition snow_linked :: "('h, 't) snow \<Rightarrow> ('t \<Rightarrow> 't \<Rightarrow> bool) \<Rightarrow> bool" where
  "snow_linked sw linked \<longleftrightarrow>
     (\<forall>a b m n. linked a b \<longrightarrow> length m + 16 \<le> 65535 \<longrightarrow> length m + 16 \<le> n \<longrightarrow>
        (\<exists>c a'. sw_transport_write sw a m n = (Inr c, a') \<and> length c = length m + 16 \<and>
          (\<forall>k. length c \<le> k \<longrightarrow> (\<exists>b'. sw_transport_read sw b c k = (Inr m, b') \<and> linked a' b'))))"

fun encrypt_all :: "('h, 't) snow \<Rightarrow> bytes list \<Rightarrow> 't \<Rightarrow> (noise_error, bytes list) result \<times> 't" where
  "encrypt_all sw [] t = (Inr [], t)"
| "encrypt_all sw (m # ms) t =
     (case encrypt sw m t of
        (Inl e, t') \<Rightarrow> (Inl e, t')
      | (Inr c, t') \<Rightarrow>
          (case encrypt_all sw ms t' of
             (Inl e, t'') \<Rightarrow> (Inl e, t'')
           | (Inr cs, t'') \<Rightarrow> (Inr (c # cs), t'')))"

fun decrypt_all :: "('h, 't) snow \<Rightarrow> bytes list \<Rightarrow> 't \<Rightarrow> (noise_error, bytes list) result \<times> 't" where
  "decrypt_all sw [] t = (Inr [], t)"
| "decrypt_all sw (c # cs) t =
     (case decrypt sw c t of
        (Inl e, t') \<Rightarrow> (Inl e, t')
      | (Inr m, t') \<Rightarrow>
          (case decrypt_all sw cs t' of
             (Inl e, t'') \<Rightarrow> (Inl e, t'')
           | (Inr ms, t'') \<Rightarrow> (Inr (m # ms), t'')))"

text \<open>One message crosses, and the two ends stay linked.\<close>

lemma encrypt_decrypt:
  assumes "snow_linked sw linked" and "linked a b" and "length m \<le> 65519"
  shows "\<exists>c a' b'. encrypt sw m a = (Inr c, a') \<and> length c = length m + 16 \<and>
    decrypt sw c b = (Inr m, b') \<and> linked a' b'"
proof -
  have "length m + 16 \<le> 65535" using assms(3) by simp
  with assms(1,2) obtain c a' where
    c: "sw_transport_write sw a m (length m + 16) = (Inr c, a')" "length c = length m + 16"
      "\<forall>k. length c \<le> k \<longrightarrow> (\<exists>b'. sw_transport_read sw b c k = (Inr m, b') \<and> linked a' b')"
    unfolding snow_linked_def by (metis order_refl)
  from c(3) obtain b' where "sw_transport_read sw b c (length c) = (Inr m, b')" "linked a' b'" by blast
  with c(1,2) assms(3) show ?thesis
    by (simp add: encrypt_def decrypt_def NOISE_MAX_MSG_LEN_def NOISE_TAG_LEN_def)
qed

lemma encrypt_too_large: "65519 < length m \<Longrightarrow> encrypt sw m t = (Inl PayloadTooLarge, t)"
  by (simp add: encrypt_def NOISE_MAX_MSG_LEN_def NOISE_TAG_LEN_def)

text \<open>
  A Noise session is a faithful stream of messages: whatever plaintexts of at most
  65519 bytes one end encrypts, the other end decrypts to the same plaintexts in the same
  order, and the two ends stay in step; every ciphertext passes the receiver's size limit.
  A longer plaintext is refused and leaves the session as it was.
\<close>

lemma session_stream:
  assumes "snow_linked sw linked" and "linked a b" and "list_all (\<lambda>m. length m \<le> 65519) ms"
  shows "(\<exists>cs a' b'. encrypt_all sw ms a = (Inr cs, a') \<and> decrypt_all sw cs b = (Inr ms, b') \<and> linked a' b' \<and>
      list_all (\<lambda>c. length c \<le> NOISE_MAX_MSG_LEN) cs) \<and>
    (\<forall>m t. 65519 < length m \<longrightarrow> encrypt sw m t = (Inl PayloadTooLarge, t))"
proof -
  have "\<exists>cs a' b'. encrypt_all sw ms a = (Inr cs, a') \<and> decrypt_all sw cs b = (Inr ms, b') \<and> linked a' b' \<and>
      list_all (\<lambda>c. length c \<le> NOISE_MAX_MSG_LEN) cs"
    using assms(2,3)
  proof (induction ms arbitrary: a b)
    case Nil
    then show ?case by simp
  next
    case (Cons m ms)
    from Cons.prems have m: "length m \<le> 65519" "list_all (\<lambda>m. length m \<le> 65519) ms" by auto
    obtain c a1 b1 where c: "encrypt sw m a = (Inr c, a1)" "length c = length m + 16"
        "decrypt sw c b = (Inr m, b1)" "linked a1 b1"
      using encrypt_decrypt [OF assms(1) Cons.prems(1) m(1)] by blast
    from Cons.IH [OF c(4) m(2)] c(1-3) m(1) show ?case
      by (fastforce simp: NOISE_MAX_MSG_LEN_def)
  qed
  then show ?thesis by (simp add: encrypt_too_large)
qed

section \<open>Witnesses\<close>

text \<open>A cipher that does not hide anything, for the witnesses only; it stands for no code.\<close>

definition plain_snow :: "(bytes, nat) snow" where
  "plain_snow = \<lparr>sw_parse_params = (\<lambda>_. Inr ()), sw_build_initiator = (\<lambda>b. Inr (nb_local_private b)),
     sw_build_responder = (\<lambda>b. Inr (nb_local_private b)), sw_write_message = (\<lambda>h p n. (Inr h, h)),
     sw_read_message = (\<lambda>h m n. (Inr [], m)), sw_remote_static = Some, sw_is_finished = (\<lambda>_. True),
     sw_into_transport = (\<lambda>_. Inr 0),
     sw_transport_write = (\<lambda>t m n. (Inr (m @ replicate 16 (of_nat t)), Suc t)),
     sw_transport_read = (\<lambda>t c n.
       if length c < 16 \<or> drop (length c - 16) c \<noteq> replicate 16 (of_nat t) then (Inl ''decrypt error'', t)
       else (Inr (take (length c - 16) c), Suc t))\<rparr>"

text \<open>The hypothesis of \<open>session_stream\<close> can hold.\<close>

lemma plain_snow_linked: "snow_linked plain_snow (=)"
  by (auto simp: snow_linked_def plain_snow_def)

end
