(* ===== verification/Shared_Texts.thy ===== *)
theory Shared_Texts
  imports Wire_Codec Crypto_Noise
begin

text \<open>
  What daemon and client share: the errors of a transport
  (\<open>crates/shared/transport/src/transport.rs\<close>) and the texts of errors. The texts that
  third-party code makes (of a uuid, of a \<open>postcard\<close> error, hexadecimal) are a parameter.
\<close>

record texts =
  tx_uuid :: "uuid \<Rightarrow> string"
  tx_postcard :: string
  tx_hex :: "bytes \<Rightarrow> string"

fun show_nat :: "nat \<Rightarrow> string" where
  "show_nat n = (if n < 10 then [char_of (48 + n)] else show_nat (n div 10) @ [char_of (48 + n mod 10)])"

declare show_nat.simps [simp del]

definition hex_digit :: "nat \<Rightarrow> char" where
  "hex_digit d = (if d < 10 then char_of (48 + d) else char_of (87 + d))"

fun show_hex :: "nat \<Rightarrow> string" where
  "show_hex n = (if n < 16 then [hex_digit n] else show_hex (n div 16) @ [hex_digit (n mod 16)])"

declare show_hex.simps [simp del]

section \<open>Errors\<close>

datatype transport_error =
    TransportClosed | TransportReset | TransportBrokenPipe | TransportIo string | TransportWebSocket string

fun transport_error_text :: "transport_error \<Rightarrow> string" where
  "transport_error_text TransportClosed = ''connection closed''"
| "transport_error_text TransportReset = ''connection reset by peer''"
| "transport_error_text TransportBrokenPipe = ''broken pipe''"
| "transport_error_text (TransportIo e) = ''io: '' @ e"
| "transport_error_text (TransportWebSocket e) = ''websocket: '' @ e"

fun is_expected_disconnect :: "transport_error \<Rightarrow> bool" where
  "is_expected_disconnect TransportClosed = True"
| "is_expected_disconnect TransportReset = True"
| "is_expected_disconnect TransportBrokenPipe = True"
| "is_expected_disconnect _ = False"

fun noise_error_text :: "noise_error \<Rightarrow> string" where
  "noise_error_text (Snow e) = ''snow: '' @ e"
| "noise_error_text (NoiseParams e) = ''noise params: '' @ e"
| "noise_error_text PayloadTooLarge = ''payload exceeds Noise message size limit''"
| "noise_error_text HandshakeNotFinished = ''handshake not finished''"

fun codec_error_text :: "texts \<Rightarrow> codec_error \<Rightarrow> string" where
  "codec_error_text tx Postcard = ''postcard: '' @ tx_postcard tx"
| "codec_error_text tx EmptyFrame = ''empty frame''"
| "codec_error_text tx (UnknownDiscriminator b) = ''unknown discriminator 0x'' @ show_hex (unat b)"

end
