(* ===== verification/Shared_Strings.thy ===== *)
theory Shared_Strings
  imports Shared_Texts
begin

text \<open>
  The functions of Rust's standard library on strings, paths and addresses that the
  configuration, the identities and the bindings use. A string is the list of its UTF-8
  bytes, each a \<open>char\<close>; a path is the list of its components, as \<open>Path::components\<close> gives
  them on Unix.
\<close>

section \<open>Strings\<close>

text \<open>The UTF-8 encodings of the characters with the Unicode property \<open>White_Space\<close>.\<close>

definition white_space :: "string list" where
  "white_space =
    [[CHR 0x09], [CHR 0x0A], [CHR 0x0B], [CHR 0x0C], [CHR 0x0D], [CHR 0x20], [CHR 0xC2, CHR 0x85],
     [CHR 0xC2, CHR 0xA0], [CHR 0xE1, CHR 0x9A, CHR 0x80], [CHR 0xE2, CHR 0x80, CHR 0x80],
     [CHR 0xE2, CHR 0x80, CHR 0x81], [CHR 0xE2, CHR 0x80, CHR 0x82], [CHR 0xE2, CHR 0x80, CHR 0x83],
     [CHR 0xE2, CHR 0x80, CHR 0x84], [CHR 0xE2, CHR 0x80, CHR 0x85], [CHR 0xE2, CHR 0x80, CHR 0x86],
     [CHR 0xE2, CHR 0x80, CHR 0x87], [CHR 0xE2, CHR 0x80, CHR 0x88], [CHR 0xE2, CHR 0x80, CHR 0x89],
     [CHR 0xE2, CHR 0x80, CHR 0x8A], [CHR 0xE2, CHR 0x80, CHR 0xA8], [CHR 0xE2, CHR 0x80, CHR 0xA9],
     [CHR 0xE2, CHR 0x80, CHR 0xAF], [CHR 0xE2, CHR 0x81, CHR 0x9F], [CHR 0xE3, CHR 0x80, CHR 0x80]]"

text \<open>Drop the longest prefix that is made of the given pieces.\<close>

function strip_leading :: "string list \<Rightarrow> string \<Rightarrow> string" where
  "strip_leading ws s =
     (case List.find (\<lambda>w. w \<noteq> [] \<and> starts_with s w) ws of
        None \<Rightarrow> s
      | Some w \<Rightarrow> strip_leading ws (drop (length w) s))"
  by pat_completeness auto

termination
proof (relation "measure (\<lambda>(ws, s). length s)")
  fix ws :: "string list" and s w
  assume "List.find (\<lambda>w. w \<noteq> [] \<and> starts_with s w) ws = Some w"
  then have "w \<noteq> []" "starts_with s w" by (auto simp: find_Some_iff)
  then show "((ws, drop (length w) s), (ws, s)) \<in> measure (\<lambda>(ws, s). length s)"
    by (auto simp: starts_with_iff)
qed simp

declare strip_leading.simps [simp del]

definition trim_start :: "string \<Rightarrow> string" where
  "trim_start s = strip_leading white_space s"

definition trim_end :: "string \<Rightarrow> string" where
  "trim_end s = rev (strip_leading (map rev white_space) (rev s))"

definition trim :: "string \<Rightarrow> string" where
  "trim s = trim_end (trim_start s)"

definition trim_end_matches :: "char \<Rightarrow> string \<Rightarrow> string" where
  "trim_end_matches c s = rev (strip_leading [[c]] (rev s))"

text \<open>\<open>str::contains\<close>.\<close>

fun text_contains :: "string \<Rightarrow> string \<Rightarrow> bool" where
  "text_contains [] p = (p = [])"
| "text_contains (c # cs) p = (starts_with (c # cs) p \<or> text_contains cs p)"

fun split_on :: "char \<Rightarrow> string \<Rightarrow> string list" where
  "split_on c [] = [[]]"
| "split_on c (x # xs) =
     (if x = c then [] # split_on c xs
      else (case split_on c xs of [] \<Rightarrow> [[x]] | p # ps \<Rightarrow> (x # p) # ps))"

text \<open>Stripping leaves an end of the string, and there is nothing left to strip.\<close>

lemma strip_leading_append: "\<exists>p. s = p @ strip_leading ws s"
proof (induction ws s rule: strip_leading.induct)
  case (1 ws s)
  show ?case
  proof (cases "List.find (\<lambda>w. w \<noteq> [] \<and> starts_with s w) ws")
    case None
    then show ?thesis by (simp add: strip_leading.simps [of ws s])
  next
    case (Some w)
    from "1" [OF this] obtain p where "drop (length w) s = p @ strip_leading ws (drop (length w) s)" by blast
    then have "s = (take (length w) s @ p) @ strip_leading ws (drop (length w) s)"
      by (metis append_assoc append_take_drop_id)
    moreover from Some have "strip_leading ws s = strip_leading ws (drop (length w) s)"
      by (simp add: strip_leading.simps [of ws s])
    ultimately show ?thesis by metis
  qed
qed

lemma strip_leading_done: "w \<in> set ws \<Longrightarrow> w \<noteq> [] \<Longrightarrow> \<not> starts_with (strip_leading ws s) w"
proof (induction ws s rule: strip_leading.induct)
  case (1 ws s)
  show ?case
  proof (cases "List.find (\<lambda>w. w \<noteq> [] \<and> starts_with s w) ws")
    case None
    then have "strip_leading ws s = s" by (simp add: strip_leading.simps [of ws s])
    with None "1.prems" show ?thesis by (auto simp: find_None_iff)
  next
    case (Some v)
    from "1.IH" [OF this "1.prems"] Some show ?thesis by (simp add: strip_leading.simps [of ws s])
  qed
qed

lemma strip_leading_keeps: "(\<And>w. w \<in> set ws \<Longrightarrow> w \<noteq> [] \<Longrightarrow> \<not> starts_with s w) \<Longrightarrow> strip_leading ws s = s"
proof -
  assume "\<And>w. w \<in> set ws \<Longrightarrow> w \<noteq> [] \<Longrightarrow> \<not> starts_with s w"
  then have "List.find (\<lambda>w. w \<noteq> [] \<and> starts_with s w) ws = None" by (auto simp: find_None_iff)
  then show ?thesis by (simp add: strip_leading.simps [of ws s])
qed

lemma trim_end_matches_done: "trim_end_matches c s = [] \<or> last (trim_end_matches c s) \<noteq> c"
  using strip_leading_done [of "[c]" "[[c]]" "rev s"]
  by (cases "strip_leading [[c]] (rev s)") (auto simp: trim_end_matches_def starts_with_def)

lemma trim_end_matches_prefix: "\<exists>p. s = trim_end_matches c s @ p"
proof -
  obtain p where "rev s = p @ strip_leading [[c]] (rev s)" using strip_leading_append by blast
  then have "rev (rev s) = rev (strip_leading [[c]] (rev s)) @ rev p" by (metis rev_append)
  then show ?thesis by (auto simp: trim_end_matches_def)
qed

section \<open>Paths\<close>

datatype path_component = RootDir | CurDir | ParentDir | Normal string

type_synonym os_path = "path_component list"

definition path_of :: "string \<Rightarrow> os_path" where
  "path_of s =
     (let parts = split_on (CHR ''/'') s in
      (if starts_with s ''/'' then [RootDir] else if hd parts = ''.'' then [CurDir] else []) @
      map (\<lambda>p. if p = ''..'' then ParentDir else Normal p) (filter (\<lambda>p. p \<noteq> [] \<and> p \<noteq> ''.'') parts))"

definition path_join :: "os_path \<Rightarrow> os_path \<Rightarrow> os_path" where
  "path_join p q = (if q \<noteq> [] \<and> hd q = RootDir then q else p @ q)"

definition path_parent :: "os_path \<Rightarrow> os_path option" where
  "path_parent p = (if p = [] \<or> last p = RootDir then None else Some (butlast p))"

definition path_ends_with :: "os_path \<Rightarrow> os_path \<Rightarrow> bool" where
  "path_ends_with p q \<longleftrightarrow> starts_with (rev p) (rev q)"

section \<open>Addresses\<close>

datatype ip_addr = IpV4 "32 word" | IpV6 "128 word"

fun is_loopback :: "ip_addr \<Rightarrow> bool" where
  "is_loopback (IpV4 a) = (unat a div 2 ^ 24 = 127)"
| "is_loopback (IpV6 a) = (a = 1)"

end
