(* ===== verification/Shared_Transport.thy ===== *)
theory Shared_Transport
  imports Shared_Strings
begin

text \<open>
  The transports of \<open>crates/shared/transport/src\<close>: the websocket of \<open>tokio_ws.rs\<close> and the
  pair in memory of \<open>memory.rs\<close>. The rest of the library takes a transport as the list of
  what its \<open>recv\<close> will return, closed at its end; the locale \<open>receiver\<close> states that contract,
  and the websockets of the daemon, of the desktop application and of the browser
  (\<open>Client_Transports\<close>) interpret it. A websocket is the list of items that its stream
  yields and the answers to what is written to it.
\<close>

section \<open>Websocket messages\<close>

datatype ws_message =
    WsBinary bytes | WsText bytes | WsPing bytes | WsPong bytes | WsClose | WsRawFrame bytes

text \<open>\<open>tungstenite::Error\<close>: with its kind an error of the system, every other error with its text.\<close>

datatype io_kind = IoReset | IoAborted | IoRefused | IoBrokenPipe | IoOther

datatype ws_error = WsConnectionClosed | WsAlreadyClosed | WsIo io_kind string | WsProtocol string | WsOther string

section \<open>The contract of a receiver\<close>

text \<open>What the n-th receive of a transport with the given results returns.\<close>

definition result_at :: "nat \<Rightarrow> ('e, bytes option) result list \<Rightarrow> ('e, bytes option) result" where
  "result_at n rs = (if n < length rs then rs ! n else Inr None)"

text \<open>Receive n times, or until it waits: \<open>None\<close> is a receive that waits.\<close>

fun recv_times ::
  "('s \<Rightarrow> (('e, bytes option) result \<times> 's) option) \<Rightarrow> nat \<Rightarrow> 's \<Rightarrow> ('e, bytes option) result list \<times> 's" where
  "recv_times recv 0 s = ([], s)"
| "recv_times recv (Suc n) s =
     (case recv s of
        None \<Rightarrow> ([], s)
      | Some (r, s1) \<Rightarrow> (case recv_times recv n s1 of (rs, s2) \<Rightarrow> (r # rs, s2)))"

locale receiver =
  fixes recv :: "'s \<Rightarrow> (('e, bytes option) result \<times> 's) option" and results :: "'s \<Rightarrow> ('e, bytes option) result list"
  assumes recv_some: "recv s = Some (r, s') \<Longrightarrow> r = result_at 0 (results s) \<and> results s' = drop 1 (results s)"
    and recv_waits: "recv s = None \<Longrightarrow> results s = []"
begin

lemma recv_refines: "recv_times recv n s = (rs, s') \<Longrightarrow>
  rs = map (\<lambda>i. result_at i (results s)) [0..<length rs] \<and> results s' = drop (length rs) (results s) \<and>
  length rs \<le> n \<and> (length rs < n \<longrightarrow> length (results s) \<le> length rs)"
proof (induction n arbitrary: s rs s')
  case (Suc n)
  show ?case
  proof (cases "recv s")
    case None
    with Suc.prems recv_waits [OF None] show ?thesis by simp
  next
    case (Some x)
    then obtain r s1 where r: "recv s = Some (r, s1)" by (cases x) auto
    obtain rs2 s2 where rs: "recv_times recv n s1 = (rs2, s2)" by fastforce
    have shift: "result_at i (drop (Suc 0) (results s)) = result_at (Suc i) (results s)" for i
      by (auto simp: result_at_def)
    from r rs Suc.prems have eq: "rs = r # rs2" "s' = s2" by simp_all
    from recv_some [OF r] have r1: "r = result_at 0 (results s)" "results s1 = drop (Suc 0) (results s)" by simp_all
    from Suc.IH [OF rs] have ih: "rs2 = map (\<lambda>i. result_at (Suc i) (results s)) [0..<length rs2]"
        "results s2 = drop (length rs) (results s)" "length rs2 \<le> n" "length rs2 < n \<longrightarrow> length (results s) \<le> length rs"
      by (auto simp: r1 shift eq)
    have "map (\<lambda>i. result_at i (results s)) [0..<length rs] = r # map (\<lambda>i. result_at (Suc i) (results s)) [0..<length rs2]"
      by (simp add: eq r1 upt_conv_Cons map_Suc_upt [symmetric] comp_def del: upt_Suc)
    with ih(2-4) show ?thesis unfolding eq by (simp add: ih(1) [symmetric])
  qed
qed simp

text \<open>The results are received one after the other.\<close>

lemma results_received:
  assumes "n \<le> length (results s)"
  shows "fst (recv_times recv n s) = take n (results s)"
proof -
  obtain rs s' where rs: "recv_times recv n s = (rs, s')" by fastforce
  from recv_refines [OF this] assms have "length rs = n" "rs = map (\<lambda>i. result_at i (results s)) [0..<length rs]"
    by auto
  then have "rs = map (\<lambda>i. result_at i (results s)) [0..<n]" by simp
  also have "\<dots> = take n (results s)" using assms by (intro nth_equalityI) (simp_all add: result_at_def)
  finally show ?thesis using rs by simp
qed

end

section \<open>The websocket of the daemon\<close>

fun map_ws_error :: "ws_error \<Rightarrow> transport_error" where
  "map_ws_error WsConnectionClosed = TransportClosed"
| "map_ws_error WsAlreadyClosed = TransportClosed"
| "map_ws_error (WsIo kind e) =
     (if kind \<in> {IoReset, IoAborted, IoRefused} then TransportReset
      else if kind = IoBrokenPipe then TransportBrokenPipe else TransportIo e)"
| "map_ws_error (WsProtocol msg) =
     (if text_contains msg ''Connection reset without closing handshake'' \<or> text_contains msg ''Connection reset''
      then TransportReset else TransportWebSocket msg)"
| "map_ws_error (WsOther msg) = TransportWebSocket msg"

record tokio_ws =
  tw_items :: "(ws_error, ws_message) result list"
  tw_answers :: "(ws_error, unit) result list"
  tw_sent :: "ws_message list"

text \<open>A write takes the next answer; when they run out it succeeds.\<close>

definition ws_write :: "ws_message \<Rightarrow> tokio_ws \<Rightarrow> (ws_error, unit) result \<times> tokio_ws" where
  "ws_write m t =
     (case tw_answers t of
        Inl e # rest \<Rightarrow> (Inl e, t\<lparr>tw_answers := rest\<rparr>)
      | _ \<Rightarrow> (Inr (), t\<lparr>tw_answers := drop 1 (tw_answers t), tw_sent := tw_sent t @ [m]\<rparr>))"

definition tokio_send :: "bytes \<Rightarrow> tokio_ws \<Rightarrow> (transport_error, unit) result \<times> tokio_ws" where
  "tokio_send b t =
     (case ws_write (WsBinary b) t of (Inl e, t') \<Rightarrow> (Inl (map_ws_error e), t') | (Inr u, t') \<Rightarrow> (Inr u, t'))"

definition tokio_close :: "tokio_ws \<Rightarrow> (transport_error, unit) result \<times> tokio_ws" where
  "tokio_close t =
     (case ws_write WsClose t of (Inl e, t') \<Rightarrow> (Inl (map_ws_error e), t') | (Inr u, t') \<Rightarrow> (Inr u, t'))"

definition text_frame :: string where "text_frame = ''unexpected text frame on binary transport''"

fun tokio_next :: "(ws_error, ws_message) result list \<Rightarrow>
  (transport_error, bytes option) result \<times> (ws_error, ws_message) result list" where
  "tokio_next [] = (Inr None, [])"
| "tokio_next (Inr WsClose # items) = (Inr None, items)"
| "tokio_next (Inl e # items) = (Inl (map_ws_error e), items)"
| "tokio_next (Inr (WsBinary b) # items) = (Inr (Some b), items)"
| "tokio_next (Inr (WsPing _) # items) = tokio_next items"
| "tokio_next (Inr (WsPong _) # items) = tokio_next items"
| "tokio_next (Inr (WsRawFrame _) # items) = tokio_next items"
| "tokio_next (Inr (WsText _) # items) = (Inl (TransportWebSocket text_frame), items)"

definition tokio_recv :: "tokio_ws \<Rightarrow> (transport_error, bytes option) result \<times> tokio_ws" where
  "tokio_recv t = (case tokio_next (tw_items t) of (r, items) \<Rightarrow> (r, t\<lparr>tw_items := items\<rparr>))"

fun tokio_results :: "(ws_error, ws_message) result list \<Rightarrow> (transport_error, bytes option) result list" where
  "tokio_results [] = []"
| "tokio_results (Inl e # items) = Inl (map_ws_error e) # tokio_results items"
| "tokio_results (Inr m # items) =
     (case m of
        WsBinary b \<Rightarrow> [Inr (Some b)] | WsClose \<Rightarrow> [Inr None] | WsText _ \<Rightarrow> [Inl (TransportWebSocket text_frame)] | _ \<Rightarrow> []) @
     tokio_results items"

lemma tokio_next_results:
  "tokio_next items = (r, rest) \<Longrightarrow> r = result_at 0 (tokio_results items) \<and> tokio_results rest = drop 1 (tokio_results items)"
  by (induction items rule: tokio_next.induct) (auto simp: result_at_def)

interpretation tokio: receiver "\<lambda>t. Some (tokio_recv t)" "\<lambda>t. tokio_results (tw_items t)"
  by unfold_locales (auto simp: tokio_recv_def split: prod.splits dest: tokio_next_results)

section \<open>The pair in memory\<close>

text \<open>
  One direction is a bounded queue with the state of its two ends; \<open>closed\<close> is of the half
  itself. \<open>None\<close> of an operation is that it waits.
\<close>

record memory_half =
  mh_inbox :: "bytes list"
  mh_closed :: bool

record memory_pair =
  mp_a :: memory_half
  mp_b :: memory_half
  mp_buffer :: nat

text \<open>A queue without room panics.\<close>

definition memory_pair_new :: "nat \<Rightarrow> memory_pair option" where
  "memory_pair_new buffer =
     (if buffer = 0 then None
      else Some \<lparr>mp_a = \<lparr>mh_inbox = [], mh_closed = False\<rparr>, mp_b = \<lparr>mh_inbox = [], mh_closed = False\<rparr>, mp_buffer = buffer\<rparr>)"

definition memory_send ::
  "nat \<Rightarrow> bytes \<Rightarrow> memory_half \<Rightarrow> memory_half \<Rightarrow> ((transport_error, unit) result \<times> memory_half) option" where
  "memory_send buffer b self peer =
     (if mh_closed self then Some (Inl TransportClosed, peer)
      else if mh_closed peer then Some (Inl TransportClosed, peer)
      else if length (mh_inbox peer) < buffer then Some (Inr (), peer\<lparr>mh_inbox := mh_inbox peer @ [b]\<rparr>)
      else None)"

definition memory_recv :: "memory_half \<Rightarrow> memory_half \<Rightarrow> ((transport_error, bytes option) result \<times> memory_half) option" where
  "memory_recv self peer =
     (if mh_closed self then Some (Inr None, self)
      else (case mh_inbox self of
        b # bs \<Rightarrow> Some (Inr (Some b), self\<lparr>mh_inbox := bs\<rparr>)
      | [] \<Rightarrow> if mh_closed peer then Some (Inr None, self) else None))"

definition memory_close :: "memory_half \<Rightarrow> memory_half" where
  "memory_close self = self\<lparr>mh_closed := True\<rparr>"

datatype memory_step = SendA bytes | SendB bytes | RecvA | RecvB | CloseA | CloseB

text \<open>One step of either half; the second and third parts of the state are what A had accepted and what B got.\<close>

fun memory_exec :: "memory_step \<Rightarrow> memory_pair \<times> bytes list \<times> bytes list \<Rightarrow> (memory_pair \<times> bytes list \<times> bytes list) option" where
  "memory_exec (SendA b) (p, sent, got) =
     (case memory_send (mp_buffer p) b (mp_a p) (mp_b p) of
        None \<Rightarrow> None
      | Some (Inl _, _) \<Rightarrow> Some (p, sent, got)
      | Some (Inr _, h) \<Rightarrow> Some (p\<lparr>mp_b := h\<rparr>, sent @ [b], got))"
| "memory_exec (SendB b) (p, sent, got) =
     (case memory_send (mp_buffer p) b (mp_b p) (mp_a p) of
        None \<Rightarrow> None
      | Some (_, h) \<Rightarrow> Some (p\<lparr>mp_a := h\<rparr>, sent, got))"
| "memory_exec RecvA (p, sent, got) =
     (case memory_recv (mp_a p) (mp_b p) of None \<Rightarrow> None | Some (_, h) \<Rightarrow> Some (p\<lparr>mp_a := h\<rparr>, sent, got))"
| "memory_exec RecvB (p, sent, got) =
     (case memory_recv (mp_b p) (mp_a p) of
        None \<Rightarrow> None
      | Some (r, h) \<Rightarrow> Some (p\<lparr>mp_b := h\<rparr>, sent, case r of Inr (Some b) \<Rightarrow> got @ [b] | _ \<Rightarrow> got))"
| "memory_exec CloseA (p, sent, got) = Some (p\<lparr>mp_a := memory_close (mp_a p)\<rparr>, sent, got)"
| "memory_exec CloseB (p, sent, got) = Some (p\<lparr>mp_b := memory_close (mp_b p)\<rparr>, sent, got)"

fun memory_run where
  "memory_run [] s = Some s"
| "memory_run (l # ls) s = (case memory_exec l s of None \<Rightarrow> None | Some s' \<Rightarrow> memory_run ls s')"

definition memory_inv :: "memory_pair \<times> bytes list \<times> bytes list \<Rightarrow> bool" where
  "memory_inv s \<longleftrightarrow> (case s of (p, sent, got) \<Rightarrow>
     got @ mh_inbox (mp_b p) = sent \<and> length (mh_inbox (mp_b p)) \<le> mp_buffer p)"

lemma memory_exec_inv: "memory_exec l s = Some s' \<Longrightarrow> memory_inv s \<Longrightarrow> memory_inv s'"
  by (cases s; cases l)
     (auto simp: memory_inv_def memory_send_def memory_recv_def memory_close_def split: if_splits list.splits)

text \<open>In every run of both halves nothing is lost, reordered or made up, and the queue keeps its bound.\<close>

lemma memory_pair_fifo:
  assumes "memory_pair_new buffer = Some start" and "memory_run ls (start, [], []) = Some (p, sent, got)"
  shows "got @ mh_inbox (mp_b p) = sent \<and> length (mh_inbox (mp_b p)) \<le> buffer"
proof -
  have run: "memory_run ls s = Some s' \<Longrightarrow> memory_inv s \<Longrightarrow> memory_inv s' \<and> mp_buffer (fst s') = mp_buffer (fst s)" for s s'
  proof (induction ls arbitrary: s)
    case (Cons l ls)
    then obtain s1 where s1: "memory_exec l s = Some s1" "memory_run ls s1 = Some s'" by (auto split: option.splits)
    from s1(1) have "mp_buffer (fst s1) = mp_buffer (fst s)"
      by (cases s; cases l) (auto split: option.splits sum.splits)
    with Cons.IH [OF s1(2)] memory_exec_inv [OF s1(1) Cons.prems(2)] show ?case by simp
  qed simp
  from run [OF assms(2)] assms(1) show ?thesis by (auto simp: memory_inv_def memory_pair_new_def split: if_splits)
qed

end
