(* ===== verification/Relay_Forward.thy ===== *)
theory Relay_Forward
  imports Relay_Pairs Shared_Transport
begin

text \<open>
  \<open>crates/relay/relay-core/src/forward.rs\<close>: the tasks behind the relay's two websocket
  routes. A websocket is the list of items its stream yields, each with the instant at
  which it is read; the end of the list is the end of the stream. Sending to a writer
  task appends to a log (\<open>rl_out\<close>) unless that task is gone (\<open>rl_live\<close>), and the writer
  tasks are functions of the messages queued for them. \<open>None\<close> is a panic of the task
  (an encoder that failed). A pair is shared by the map and by the client task that
  opened it (\<open>rl_held\<close>); its ticket is dropped with the last of the two.
\<close>

section \<open>State\<close>

type_synonym ws_item = "(string, ws_message) result"
type_synonym ws_stream = "(instant \<times> ws_item) list"

record relay =
  rl_registry :: registry
  rl_pairs :: pair_manager
  rl_caps :: caps
  rl_held :: "pair_id list"
  rl_live :: "chan \<Rightarrow> bool"
  rl_out :: outbox

record registered_server =
  rd_registration :: registration
  rd_tx :: chan

datatype flow = Continue relay | Break relay | Fail relay_error relay

section \<open>Shared steps\<close>

definition ws_err :: "string \<Rightarrow> relay_error" where
  "ws_err e = RelayInternal (''websocket error: '' @ e)"

text \<open>The formatted detail of a codec error is left out of the model.\<close>

definition codec_err_to_protocol :: "codec_error \<Rightarrow> relay_error" where
  "codec_err_to_protocol e = RelayInternal ''relay codec error''"

fun read_binary_frame :: "ws_stream \<Rightarrow> (relay_error, bytes \<times> ws_stream) result" where
  "read_binary_frame [] = Inl (RelayProtocol ''relay websocket closed'')"
| "read_binary_frame ((now, Inl e) # items) = Inl (ws_err e)"
| "read_binary_frame ((now, Inr msg) # items) =
     (case msg of
        WsBinary b \<Rightarrow> Inr (b, items)
      | WsPing _ \<Rightarrow> read_binary_frame items
      | WsPong _ \<Rightarrow> read_binary_frame items
      | WsClose \<Rightarrow> Inl (RelayProtocol ''relay websocket closed'')
      | WsText _ \<Rightarrow> Inl (RelayProtocol ''unexpected non-binary frame on relay socket'')
      | WsRawFrame _ \<Rightarrow> Inl (RelayProtocol ''unexpected non-binary frame on relay socket''))"

definition send_server_msg :: "chan \<Rightarrow> server_msg \<Rightarrow> relay \<Rightarrow> (relay_error, relay) result" where
  "send_server_msg tx m s =
     (if rl_live s tx then Inr (s\<lparr>rl_out := rl_out s @ [(tx, m)]\<rparr>)
      else Inl (RelayProtocol ''relay peer writer closed''))"

text \<open>\<open>let _ = tx.send(m).await\<close>.\<close>

definition send_ignoring :: "chan \<Rightarrow> server_msg \<Rightarrow> relay \<Rightarrow> relay" where
  "send_ignoring tx m s = s\<lparr>rl_out := rl_out s @ send_to (rl_live s) tx m\<rparr>"

text \<open>One of the owners of a pair let go of it.\<close>

definition drop_pair :: "pair_id \<Rightarrow> relay \<Rightarrow> relay" where
  "drop_pair pid s =
     (if hm_get (rl_pairs s) pid \<noteq> None \<or> pid \<in> set (rl_held s) then s
      else s\<lparr>rl_caps := drop_pair_ticket (rl_caps s)\<rparr>)"

definition close_pair :: "postcard \<Rightarrow> pair_id \<Rightarrow> pair_close_reason \<Rightarrow> relay \<Rightarrow> relay option" where
  "close_pair pc pid reason s =
     (case pairs_remove pid (rl_pairs s) of
        (None, _) \<Rightarrow> Some s
      | (Some p, m) \<Rightarrow>
          (case encode_ctrl_frame pc (PairClose pid reason) of
             None \<Rightarrow> None
           | Some f \<Rightarrow>
               Some (drop_pair pid (send_ignoring (p_client_tx p) (MsgCtrl f)
                 (send_ignoring (p_server_tx p) (MsgCtrl f) (s\<lparr>rl_pairs := m\<rparr>))))))"

fun close_pairs :: "postcard \<Rightarrow> pair_close_reason \<Rightarrow> pair_id list \<Rightarrow> relay \<Rightarrow> relay option" where
  "close_pairs pc reason [] s = Some s"
| "close_pairs pc reason (pid # pids) s =
     (case close_pair pc pid reason s of None \<Rightarrow> None | Some s' \<Rightarrow> close_pairs pc reason pids s')"

section \<open>The server side\<close>

definition server_read_step ::
  "postcard \<Rightarrow> server_id \<Rightarrow> chan \<Rightarrow> instant \<Rightarrow> ws_item \<Rightarrow> relay \<Rightarrow> flow option" where
  "server_read_step pc sid server_tx now item s =
     (case item of
        Inl e \<Rightarrow> Some (Fail (ws_err e) s)
      | Inr (WsBinary b) \<Rightarrow>
          (case decode_relay pc b of
             Inl e \<Rightarrow> Some (Fail (codec_err_to_protocol e) s)
           | Inr (WireCtrl (PairClose pid reason)) \<Rightarrow> map_option Continue (close_pair pc pid reason s)
           | Inr (WireCtrl _) \<Rightarrow> Some (Continue s)
           | Inr (WireData (Forward pid payload)) \<Rightarrow>
               (case pairs_get pid (rl_pairs s) of
                  None \<Rightarrow>
                    (case encode_ctrl_frame pc (PairClose pid ClientGone) of
                       None \<Rightarrow> None
                     | Some f \<Rightarrow>
                         (case send_server_msg server_tx (MsgCtrl f) s of
                            Inl e \<Rightarrow> Some (Fail e s)
                          | Inr s' \<Rightarrow> Some (Continue s')))
                | Some p \<Rightarrow>
                    if p_server_id p \<noteq> sid
                    then Some (Fail (RelayProtocol ''pair routed to wrong server'') s)
                    else (let s1 = s\<lparr>rl_pairs := pairs_touch now pid (rl_pairs s)\<rparr> in
                      case encode_data_frame pc (Forward pid payload) of
                        None \<Rightarrow> None
                      | Some f \<Rightarrow>
                          (case send_server_msg (p_client_tx p) (MsgData f) s1 of
                             Inl e \<Rightarrow> Some (Fail e s1)
                           | Inr s' \<Rightarrow> Some (Continue s')))))
      | Inr WsClose \<Rightarrow> Some (Break s)
      | Inr (WsPing _) \<Rightarrow> Some (Continue s)
      | Inr (WsPong _) \<Rightarrow> Some (Continue s)
      | Inr (WsText _) \<Rightarrow> Some (Fail (RelayProtocol ''unexpected non-binary frame on relay socket'') s)
      | Inr (WsRawFrame _) \<Rightarrow> Some (Fail (RelayProtocol ''unexpected non-binary frame on relay socket'') s))"

definition affected_pairs :: "server_id \<Rightarrow> pair_manager \<Rightarrow> pair_id list" where
  "affected_pairs sid m = map p_pair_id (filter (\<lambda>p. p_server_id p = sid) (list_for_sweep m))"

text \<open>What follows the read loop when it is left without an error.\<close>

definition server_loop_end :: "postcard \<Rightarrow> server_id \<Rightarrow> chan \<Rightarrow> relay \<Rightarrow> relay option" where
  "server_loop_end pc sid server_tx s =
     (let s1 = send_ignoring server_tx MsgClose s
      in close_pairs pc ServerGone (affected_pairs sid (rl_pairs s1)) s1)"

fun server_read_loop ::
  "postcard \<Rightarrow> server_id \<Rightarrow> chan \<Rightarrow> ws_stream \<Rightarrow> relay \<Rightarrow> ((relay_error, unit) result \<times> relay) option" where
  "server_read_loop pc sid server_tx [] s =
     map_option (Pair (Inr ())) (server_loop_end pc sid server_tx s)"
| "server_read_loop pc sid server_tx ((now, item) # items) s =
     (case server_read_step pc sid server_tx now item s of
        None \<Rightarrow> None
      | Some (Continue s') \<Rightarrow> server_read_loop pc sid server_tx items s'
      | Some (Break s') \<Rightarrow> map_option (Pair (Inr ())) (server_loop_end pc sid server_tx s')
      | Some (Fail e s') \<Rightarrow> Some (Inl e, s'))"

text \<open>Dropping a \<open>RegisteredServer\<close>: its registration, then its ticket.\<close>

definition release_server :: "registration \<Rightarrow> relay \<Rightarrow> relay" where
  "release_server reg s =
     s\<lparr>rl_registry := snd (unregister reg (rl_registry s)), rl_caps := drop_server_ticket (rl_caps s)\<rparr>"

definition register_server :: "server_id \<Rightarrow> chan \<Rightarrow> relay \<Rightarrow> (relay_error, registered_server) result \<times> relay" where
  "register_server sid tx s =
     (case register \<lparr>sl_server_id = sid, sl_tx = tx\<rparr> (rl_registry s) of
        Inl e \<Rightarrow> (Inl e, s\<lparr>rl_caps := drop_server_ticket (rl_caps s)\<rparr>)
      | Inr (reg, r) \<Rightarrow> (Inr \<lparr>rd_registration = reg, rd_tx = tx\<rparr>, s\<lparr>rl_registry := r\<rparr>))"

text \<open>\<open>run_server_side\<close> up to the read loop; \<open>tx\<close> is the channel it creates.\<close>

definition accept_server ::
  "postcard \<Rightarrow> chan \<Rightarrow> ws_stream \<Rightarrow> relay \<Rightarrow>
   ((relay_error, registered_server \<times> ws_stream) result \<times> relay) option" where
  "accept_server pc tx items s =
     (case read_binary_frame items of
        Inl e \<Rightarrow> Some (Inl e, s)
      | Inr (first, rest) \<Rightarrow>
          (case decode_relay pc first of
             Inl e \<Rightarrow> Some (Inl (codec_err_to_protocol e), s)
           | Inr (WireCtrl (ServerRegister sid pubkey signature)) \<Rightarrow>
               (case try_add_server (rl_caps s) of
                  Inl e \<Rightarrow> Some (Inl e, s)
                | Inr c \<Rightarrow>
                    (case register_server sid tx (s\<lparr>rl_caps := c\<rparr>) of
                       (Inl e, s1) \<Rightarrow> Some (Inl e, s1)
                     | (Inr rd, s1) \<Rightarrow>
                         (case encode_ctrl_frame pc ServerRegisterOk of
                            None \<Rightarrow> None
                          | Some f \<Rightarrow>
                              (case send_server_msg tx (MsgCtrl f) s1 of
                                 Inl e \<Rightarrow> Some (Inl e, release_server (rd_registration rd) s1)
                               | Inr s2 \<Rightarrow> Some (Inr (rd, rest), s2)))))
           | Inr _ \<Rightarrow> Some (Inl (RelayProtocol ''expected ServerRegister as first server frame''), s)))"

definition run_server_side ::
  "postcard \<Rightarrow> chan \<Rightarrow> ws_stream \<Rightarrow> relay \<Rightarrow> ((relay_error, unit) result \<times> relay) option" where
  "run_server_side pc tx items s =
     (case accept_server pc tx items s of
        None \<Rightarrow> None
      | Some (Inl e, s') \<Rightarrow> Some (Inl e, s')
      | Some (Inr (rd, rest), s') \<Rightarrow>
          (case server_read_loop pc (rn_server_id (rd_registration rd)) (rd_tx rd) rest s' of
             None \<Rightarrow> None
           | Some (r, s'') \<Rightarrow> Some (r, release_server (rd_registration rd) s'')))"

section \<open>The client side\<close>

text \<open>\<open>run_client_side\<close> up to the read loop; \<open>pid\<close> is the fresh uuid, \<open>client_tx\<close> the channel.\<close>

definition accept_client ::
  "postcard \<Rightarrow> chan \<Rightarrow> server_id \<Rightarrow> pair_id \<Rightarrow> instant \<Rightarrow> ws_stream \<Rightarrow> relay \<Rightarrow>
   ((relay_error, pair \<times> ws_stream) result \<times> relay) option" where
  "accept_client pc client_tx target pid now items s =
     (case read_binary_frame items of
        Inl e \<Rightarrow> Some (Inl e, s)
      | Inr (first, rest) \<Rightarrow>
          (case decode_relay pc first of
             Inl e \<Rightarrow> Some (Inl (codec_err_to_protocol e), s)
           | Inr (WireCtrl (ClientConnect sid)) \<Rightarrow>
               if sid \<noteq> target then Some (Inl (RelayProtocol ''client pair request server mismatch''), s)
               else
               (case registry_get target (rl_registry s) of
                  None \<Rightarrow> Some (Inl (RelayProtocol ''target server not registered''), s)
                | Some server_tx \<Rightarrow>
                    (case try_add_pair (rl_caps s) of
                       Inl e \<Rightarrow> Some (Inl e, s)
                     | Inr (c, ticket) \<Rightarrow>
                         (let p = pair_new now pid target ticket server_tx client_tx;
                              s1 = s\<lparr>rl_caps := c, rl_pairs := snd (pairs_insert p (rl_pairs s))\<rparr>
                          in case (encode_ctrl_frame pc (PairInbound pid), encode_ctrl_frame pc (PairOpen pid)) of
                               (Some f, Some g) \<Rightarrow>
                                 (case send_server_msg server_tx (MsgCtrl f) s1 of
                                    Inl e \<Rightarrow> Some (Inl e, s1)
                                  | Inr s2 \<Rightarrow>
                                      (case send_server_msg client_tx (MsgCtrl g) s2 of
                                         Inl e \<Rightarrow> Some (Inl e, s2)
                                       | Inr s3 \<Rightarrow> Some (Inr (p, rest), s3\<lparr>rl_held := pid # rl_held s3\<rparr>)))
                             | _ \<Rightarrow> None)))
           | Inr _ \<Rightarrow> Some (Inl (RelayProtocol ''expected ClientConnect as first client frame''), s)))"

definition client_read_step :: "postcard \<Rightarrow> pair \<Rightarrow> instant \<Rightarrow> ws_item \<Rightarrow> relay \<Rightarrow> flow option" where
  "client_read_step pc p now item s =
     (case item of
        Inl e \<Rightarrow> Some (Fail (ws_err e) s)
      | Inr (WsBinary b) \<Rightarrow>
          (case decode_relay pc b of
             Inr (WireCtrl (PairClose pid reason)) \<Rightarrow> map_option Break (close_pair pc pid reason s)
           | _ \<Rightarrow>
               (let s1 = s\<lparr>rl_pairs := pairs_touch now (p_pair_id p) (rl_pairs s)\<rparr> in
                case encode_data_frame pc (Forward (p_pair_id p) b) of
                  None \<Rightarrow> None
                | Some f \<Rightarrow>
                    (case send_server_msg (p_server_tx p) (MsgData f) s1 of
                       Inl e \<Rightarrow> Some (Fail e s1)
                     | Inr s' \<Rightarrow> Some (Continue s'))))
      | Inr WsClose \<Rightarrow> Some (Break s)
      | Inr (WsPing _) \<Rightarrow> Some (Continue s)
      | Inr (WsPong _) \<Rightarrow> Some (Continue s)
      | Inr (WsText _) \<Rightarrow> Some (Fail (RelayProtocol ''unexpected non-binary frame on relay socket'') s)
      | Inr (WsRawFrame _) \<Rightarrow> Some (Fail (RelayProtocol ''unexpected non-binary frame on relay socket'') s))"

fun client_read_loop ::
  "postcard \<Rightarrow> pair \<Rightarrow> ws_stream \<Rightarrow> relay \<Rightarrow> ((relay_error, unit) result \<times> relay) option" where
  "client_read_loop pc p [] s = Some (Inr (), s)"
| "client_read_loop pc p ((now, item) # items) s =
     (case client_read_step pc p now item s of
        None \<Rightarrow> None
      | Some (Continue s') \<Rightarrow> client_read_loop pc p items s'
      | Some (Break s') \<Rightarrow> Some (Inr (), s')
      | Some (Fail e s') \<Rightarrow> Some (Inl e, s'))"

text \<open>
  After the loop the task closes the pair, waits for its writer to end, and lets go of
  the pair (\<open>client_task_end\<close>). \<open>run_client_side\<close> gives the state in which it waits.
\<close>

definition run_client_side ::
  "postcard \<Rightarrow> chan \<Rightarrow> server_id \<Rightarrow> pair_id \<Rightarrow> instant \<Rightarrow> ws_stream \<Rightarrow> relay \<Rightarrow>
   ((relay_error, unit) result \<times> relay) option" where
  "run_client_side pc client_tx target pid now items s =
     (case accept_client pc client_tx target pid now items s of
        None \<Rightarrow> None
      | Some (Inl e, s') \<Rightarrow> Some (Inl e, s')
      | Some (Inr (p, rest), s') \<Rightarrow>
          (case client_read_loop pc p rest s' of
             None \<Rightarrow> None
           | Some (r, s'') \<Rightarrow> map_option (Pair r) (close_pair pc pid ClientGone s'')))"

definition client_task_end :: "pair_id \<Rightarrow> relay \<Rightarrow> relay" where
  "client_task_end pid s = drop_pair pid (s\<lparr>rl_held := filter (\<lambda>q. q \<noteq> pid) (rl_held s)\<rparr>)"

section \<open>The writer tasks\<close>

text \<open>
  The queue of a writer is the list of messages sent to it; its sink accepts the next \<open>k\<close>
  messages. The result is what it wrote and whether it ended: \<open>False\<close> means that the queue
  is empty and the writer waits, for ever if its senders stay alive and send nothing.
\<close>

fun writer_loop :: "nat \<Rightarrow> server_msg list \<Rightarrow> ws_message list \<times> bool" where
  "writer_loop k [] = ([], False)"
| "writer_loop k (MsgCtrl b # ms) =
     (case k of 0 \<Rightarrow> ([], True)
      | Suc k' \<Rightarrow> (case writer_loop k' ms of (ws, ended) \<Rightarrow> (WsBinary b # ws, ended)))"
| "writer_loop k (MsgData b # ms) =
     (case k of 0 \<Rightarrow> ([], True)
      | Suc k' \<Rightarrow> (case writer_loop k' ms of (ws, ended) \<Rightarrow> (WsBinary b # ws, ended)))"
| "writer_loop k (MsgClose # ms) = (case k of 0 \<Rightarrow> ([], True) | Suc k' \<Rightarrow> ([WsClose], True))"

fun client_writer_loop :: "postcard \<Rightarrow> nat \<Rightarrow> server_msg list \<Rightarrow> ws_message list \<times> bool" where
  "client_writer_loop pc k [] = ([], False)"
| "client_writer_loop pc k (MsgCtrl b # ms) =
     (case k of 0 \<Rightarrow> ([], True)
      | Suc k' \<Rightarrow> (case client_writer_loop pc k' ms of (ws, ended) \<Rightarrow> (WsBinary b # ws, ended)))"
| "client_writer_loop pc k (MsgData b # ms) =
     (case decode_relay pc b of
        Inr (WireData (Forward pid payload)) \<Rightarrow>
          (case k of 0 \<Rightarrow> ([], True)
           | Suc k' \<Rightarrow>
               (case client_writer_loop pc k' ms of (ws, ended) \<Rightarrow> (WsBinary payload # ws, ended)))
      | _ \<Rightarrow> ([], True))"
| "client_writer_loop pc k (MsgClose # ms) = (case k of 0 \<Rightarrow> ([], True) | Suc k' \<Rightarrow> ([WsClose], True))"

definition queued_for :: "chan \<Rightarrow> outbox \<Rightarrow> server_msg list" where
  "queued_for tx out = map snd (filter (\<lambda>(t, m). t = tx) out)"

end
