(* ===== verification/Relay_System.thy ===== *)
theory Relay_System
  imports Relay_Forward "HOL-Library.Multiset"
begin

text \<open>
  The relay as a whole: any number of server and client connections, each a task of
  \<open>Relay_Forward\<close>, interleaved message by message with the sweeper and with writer tasks
  that go away. The theorems say that capacity is conserved, that traffic stays within
  its pair and arrives unchanged, and what happens to a server's pairs when it leaves.
\<close>

section \<open>Steps\<close>

record relay_sys =
  sy_relay :: relay
  sy_servers :: "registered_server list"
  sy_clients :: "pair list"
  sy_draining :: "pair list"

definition relay_start :: "caps \<Rightarrow> relay" where
  "relay_start c = \<lparr>rl_registry = registry_new, rl_pairs = [], rl_caps = c\<lparr>c_servers := 0, c_pairs := 0\<rparr>,
     rl_held = [], rl_live = (\<lambda>_. True), rl_out = []\<rparr>"

definition relay_sweep :: "postcard \<Rightarrow> nat \<Rightarrow> instant \<Rightarrow> relay \<Rightarrow> relay option" where
  "relay_sweep pc threshold now s =
     (case sweep_pairs pc (rl_live s) threshold now (rl_pairs s) of
        None \<Rightarrow> None
      | Some (out, m) \<Rightarrow>
          (let gone = map p_pair_id (filter (stuck p_last_progress threshold now) (list_for_sweep (rl_pairs s)))
           in Some (fold drop_pair gone (s\<lparr>rl_pairs := m, rl_out := rl_out s @ out\<rparr>))))"

inductive relay_step :: "postcard \<Rightarrow> relay_sys \<Rightarrow> relay_sys \<Rightarrow> bool" for pc where
  server_accepted: "accept_server pc tx items (sy_relay S) = Some (Inr (rd, rest), s) \<Longrightarrow>
     relay_step pc S (S\<lparr>sy_relay := s, sy_servers := rd # sy_servers S\<rparr>)"
| server_rejected: "accept_server pc tx items (sy_relay S) = Some (Inl e, s) \<Longrightarrow>
     relay_step pc S (S\<lparr>sy_relay := s\<rparr>)"
| server_message: "rd \<in> set (sy_servers S) \<Longrightarrow>
     server_read_step pc (rn_server_id (rd_registration rd)) (rd_tx rd) now item (sy_relay S) = Some (Continue s) \<Longrightarrow>
     relay_step pc S (S\<lparr>sy_relay := s\<rparr>)"
| server_break: "rd \<in> set (sy_servers S) \<Longrightarrow>
     server_read_step pc (rn_server_id (rd_registration rd)) (rd_tx rd) now item (sy_relay S) = Some (Break s) \<Longrightarrow>
     server_loop_end pc (rn_server_id (rd_registration rd)) (rd_tx rd) s = Some s' \<Longrightarrow>
     relay_step pc S (S\<lparr>sy_relay := release_server (rd_registration rd) s', sy_servers := remove1 rd (sy_servers S)\<rparr>)"
| server_stream_end: "rd \<in> set (sy_servers S) \<Longrightarrow>
     server_loop_end pc (rn_server_id (rd_registration rd)) (rd_tx rd) (sy_relay S) = Some s' \<Longrightarrow>
     relay_step pc S (S\<lparr>sy_relay := release_server (rd_registration rd) s', sy_servers := remove1 rd (sy_servers S)\<rparr>)"
| server_failed: "rd \<in> set (sy_servers S) \<Longrightarrow>
     server_read_step pc (rn_server_id (rd_registration rd)) (rd_tx rd) now item (sy_relay S) = Some (Fail e s) \<Longrightarrow>
     relay_step pc S (S\<lparr>sy_relay := release_server (rd_registration rd) s, sy_servers := remove1 rd (sy_servers S)\<rparr>)"
| client_accepted: "hm_get (rl_pairs (sy_relay S)) pid = None \<Longrightarrow> pid \<notin> set (rl_held (sy_relay S)) \<Longrightarrow>
     accept_client pc tx target pid now items (sy_relay S) = Some (Inr (p, rest), s) \<Longrightarrow>
     relay_step pc S (S\<lparr>sy_relay := s, sy_clients := p # sy_clients S\<rparr>)"
| client_rejected: "hm_get (rl_pairs (sy_relay S)) pid = None \<Longrightarrow> pid \<notin> set (rl_held (sy_relay S)) \<Longrightarrow>
     accept_client pc tx target pid now items (sy_relay S) = Some (Inl e, s) \<Longrightarrow>
     relay_step pc S (S\<lparr>sy_relay := s\<rparr>)"
| client_message: "p \<in> set (sy_clients S) \<Longrightarrow> client_read_step pc p now item (sy_relay S) = Some (Continue s) \<Longrightarrow>
     relay_step pc S (S\<lparr>sy_relay := s\<rparr>)"
| client_left: "p \<in> set (sy_clients S) \<Longrightarrow>
     client_read_step pc p now item (sy_relay S) = Some f \<Longrightarrow> f = Break s \<or> f = Fail e s \<Longrightarrow>
     close_pair pc (p_pair_id p) ClientGone s = Some s' \<Longrightarrow>
     relay_step pc S (S\<lparr>sy_relay := s', sy_clients := remove1 p (sy_clients S), sy_draining := p # sy_draining S\<rparr>)"
| client_stream_end: "p \<in> set (sy_clients S) \<Longrightarrow> close_pair pc (p_pair_id p) ClientGone (sy_relay S) = Some s' \<Longrightarrow>
     relay_step pc S (S\<lparr>sy_relay := s', sy_clients := remove1 p (sy_clients S), sy_draining := p # sy_draining S\<rparr>)"
| client_done: "p \<in> set (sy_draining S) \<Longrightarrow> \<not> rl_live (sy_relay S) (p_client_tx p) \<Longrightarrow>
     relay_step pc S (S\<lparr>sy_relay := client_task_end (p_pair_id p) (sy_relay S), sy_draining := remove1 p (sy_draining S)\<rparr>)"
| sweep: "relay_sweep pc threshold now (sy_relay S) = Some s \<Longrightarrow> relay_step pc S (S\<lparr>sy_relay := s\<rparr>)"
| writer_gone: "relay_step pc S (S\<lparr>sy_relay := (sy_relay S)\<lparr>rl_live := (rl_live (sy_relay S))(tx := False)\<rparr>\<rparr>)"

inductive relay_reach :: "postcard \<Rightarrow> caps \<Rightarrow> relay_sys \<Rightarrow> bool" for pc c where
  relay_init: "relay_reach pc c \<lparr>sy_relay = relay_start c, sy_servers = [], sy_clients = [], sy_draining = []\<rparr>"
| relay_next: "relay_reach pc c S \<Longrightarrow> relay_step pc S S' \<Longrightarrow> relay_reach pc c S'"

section \<open>Capacity is conserved\<close>

definition alive_pairs :: "relay \<Rightarrow> pair_id set" where
  "alive_pairs s = set (hm_keys (rl_pairs s)) \<union> set (rl_held s)"

definition server_ids :: "relay_sys \<Rightarrow> server_id list" where
  "server_ids S = map (\<lambda>rd. rn_server_id (rd_registration rd)) (sy_servers S)"

text \<open>\<open>extra\<close>: units of pair capacity whose owner is about to give them back.\<close>

definition pair_caps_ok :: "nat \<Rightarrow> relay \<Rightarrow> bool" where
  "pair_caps_ok extra s \<longleftrightarrow> pairs_wf (rl_pairs s) \<and>
     unat (c_pairs (rl_caps s)) = card (alive_pairs s) + extra \<and>
     c_pairs (rl_caps s) \<le> c_max_pairs (rl_caps s)"

named_theorems relay_simps

lemma alive_pairs_iff: "pid \<in> alive_pairs s \<longleftrightarrow> hm_get (rl_pairs s) pid \<noteq> None \<or> pid \<in> set (rl_held s)"
  by (simp add: alive_pairs_def hm_keys_iff)

lemma finite_alive [simp]: "finite (alive_pairs s)"
  by (simp add: alive_pairs_def)

lemma unat_drop_pair_ticket:
  "unat (c_pairs (drop_pair_ticket c)) = unat (c_pairs c) - 1"
  by (rule pair_cap.rel_level)

lemma drop_pair_ticket_max [simp]: "c_max_pairs (drop_pair_ticket c) = c_max_pairs c"
  by (simp add: drop_pair_ticket_def split: option.splits)

lemma drop_pair_ticket_servers [simp]:
  "c_servers (drop_pair_ticket c) = c_servers c" "c_max_servers (drop_pair_ticket c) = c_max_servers c"
  by (simp_all add: drop_pair_ticket_def split: option.splits)

lemma drop_server_ticket_pairs [simp]:
  "c_pairs (drop_server_ticket c) = c_pairs c" "c_max_pairs (drop_server_ticket c) = c_max_pairs c"
  "c_max_servers (drop_server_ticket c) = c_max_servers c"
  by (simp_all add: drop_server_ticket_def split: option.splits)

lemma unat_drop_server_ticket: "unat (c_servers (drop_server_ticket c)) = unat (c_servers c) - 1"
  by (rule server_cap.rel_level)

lemma drop_pair_alive [simp]: "alive_pairs (drop_pair pid s) = alive_pairs s"
  by (simp add: drop_pair_def alive_pairs_def)

lemma drop_pair_fields [simp]:
  "rl_pairs (drop_pair pid s) = rl_pairs s" "rl_held (drop_pair pid s) = rl_held s"
  "rl_registry (drop_pair pid s) = rl_registry s" "rl_out (drop_pair pid s) = rl_out s"
  "rl_live (drop_pair pid s) = rl_live s"
  "c_servers (rl_caps (drop_pair pid s)) = c_servers (rl_caps s)"
  "c_max_servers (rl_caps (drop_pair pid s)) = c_max_servers (rl_caps s)"
  "c_max_pairs (rl_caps (drop_pair pid s)) = c_max_pairs (rl_caps s)"
  by (simp_all add: drop_pair_def)

lemma drop_pair_caps_ok:
  assumes "pair_caps_ok (if pid \<in> alive_pairs s then n else Suc n) s"
  shows "pair_caps_ok n (drop_pair pid s)"
proof (cases "pid \<in> alive_pairs s")
  case True
  then have "drop_pair pid s = s" by (auto simp: alive_pairs_iff drop_pair_def)
  with True assms show ?thesis by simp
next
  case False
  then have d: "drop_pair pid s = s\<lparr>rl_caps := drop_pair_ticket (rl_caps s)\<rparr>"
    by (auto simp: alive_pairs_iff drop_pair_def)
  have "alive_pairs (s\<lparr>rl_caps := drop_pair_ticket (rl_caps s)\<rparr>) = alive_pairs s"
    by (simp add: alive_pairs_def)
  with False assms show ?thesis
    by (auto simp: d pair_caps_ok_def unat_drop_pair_ticket word_le_nat_alt)
qed

lemma send_ignoring_fields [simp]:
  "rl_pairs (send_ignoring tx m s) = rl_pairs s" "rl_held (send_ignoring tx m s) = rl_held s"
  "rl_registry (send_ignoring tx m s) = rl_registry s" "rl_caps (send_ignoring tx m s) = rl_caps s"
  "rl_live (send_ignoring tx m s) = rl_live s"
  by (simp_all add: send_ignoring_def)

lemma pair_caps_ok_cong:
  "rl_pairs s' = rl_pairs s \<Longrightarrow> rl_held s' = rl_held s \<Longrightarrow> rl_caps s' = rl_caps s \<Longrightarrow>
     pair_caps_ok n s' = pair_caps_ok n s"
  by (simp add: pair_caps_ok_def alive_pairs_def)

lemma pair_caps_ok_cong_pairs:
  "rl_pairs s' = rl_pairs s \<Longrightarrow> rl_held s' = rl_held s \<Longrightarrow> c_pairs (rl_caps s') = c_pairs (rl_caps s) \<Longrightarrow>
     c_max_pairs (rl_caps s') = c_max_pairs (rl_caps s) \<Longrightarrow> pair_caps_ok n s' = pair_caps_ok n s"
  by (simp add: pair_caps_ok_def alive_pairs_def)

text \<open>Removing a pair from the map frees a unit unless a client task still holds the pair.\<close>

lemma remove_caps_ok:
  assumes "pair_caps_ok n s" and "hm_get (rl_pairs s) pid = Some p"
    and t: "rl_pairs t = snd (pairs_remove pid (rl_pairs s))" "rl_held t = rl_held s" "rl_caps t = rl_caps s"
  shows "pair_caps_ok (if pid \<in> alive_pairs t then n else Suc n) t"
proof -
  have mem: "pid \<in> alive_pairs s" using assms(2) by (simp add: alive_pairs_iff)
  have eq: "alive_pairs t = (if pid \<in> set (rl_held s) then alive_pairs s else alive_pairs s - {pid})"
    by (auto simp: set_eq_iff alive_pairs_iff t pairs_remove_def hm_simps)
  have "card (alive_pairs s - {pid}) + Suc n = card (alive_pairs s) + n"
    using card_Suc_Diff1 [OF finite_alive mem] by linarith
  then show ?thesis
    using assms(1) mem eq by (auto simp: pair_caps_ok_def t pairs_wf_remove)
qed

lemma close_pair_cases:
  assumes "close_pair pc pid reason s = Some s'"
  obtains (absent) "hm_get (rl_pairs s) pid = None" "s' = s"
  | (closed) p f where "hm_get (rl_pairs s) pid = Some p"
      "encode_ctrl_frame pc (PairClose pid reason) = Some f"
      "s' = drop_pair pid (send_ignoring (p_client_tx p) (MsgCtrl f)
              (send_ignoring (p_server_tx p) (MsgCtrl f) (s\<lparr>rl_pairs := hm_remove pid (rl_pairs s)\<rparr>)))"
  using assms by (cases "hm_get (rl_pairs s) pid")
    (auto simp: close_pair_def pairs_remove_def split: option.splits)

lemma close_pair_caps_ok:
  assumes "close_pair pc pid reason s = Some s'" and "pair_caps_ok n s"
  shows "pair_caps_ok n s'"
  using assms(1)
proof (cases rule: close_pair_cases)
  case absent
  with assms(2) show ?thesis by simp
next
  case (closed p f)
  show ?thesis
    unfolding closed(3)
    by (intro drop_pair_caps_ok remove_caps_ok [OF assms(2) closed(1)]) (simp_all add: pairs_remove_def)
qed

text \<open>What closing pairs leaves alone.\<close>

definition same_servers :: "relay \<Rightarrow> relay \<Rightarrow> bool" where
  "same_servers s s' \<longleftrightarrow> rl_registry s' = rl_registry s \<and> c_servers (rl_caps s') = c_servers (rl_caps s) \<and>
     c_max_servers (rl_caps s') = c_max_servers (rl_caps s)"

lemma same_servers_refl [simp]: "same_servers s s"
  by (simp add: same_servers_def)

lemma same_servers_trans: "same_servers s t \<Longrightarrow> same_servers t u \<Longrightarrow> same_servers s u"
  by (simp add: same_servers_def)

lemma close_pair_same: "close_pair pc pid reason s = Some s' \<Longrightarrow> same_servers s s'"
  by (erule close_pair_cases) (simp_all add: same_servers_def)

lemma close_pairs_ok:
  "close_pairs pc reason pids s = Some s' \<Longrightarrow> pair_caps_ok n s \<Longrightarrow> pair_caps_ok n s' \<and> same_servers s s'"
proof (induction pids arbitrary: s)
  case Nil
  then show ?case by simp
next
  case (Cons pid pids)
  then obtain t where t: "close_pair pc pid reason s = Some t" "close_pairs pc reason pids t = Some s'"
    by (auto split: option.splits)
  from Cons.IH [OF t(2) close_pair_caps_ok [OF t(1) Cons.prems(2)]] close_pair_same [OF t(1)]
  show ?case by (blast intro: same_servers_trans)
qed

lemma touch_keys: "hm_get (pairs_touch now pid m) k = None \<longleftrightarrow> hm_get m k = None"
  by (auto simp: pairs_touch_def hm_simps split: option.splits)

lemma touch_caps_ok: "pair_caps_ok n s \<Longrightarrow> pair_caps_ok n (s\<lparr>rl_pairs := pairs_touch now pid (rl_pairs s)\<rparr>)"
proof -
  assume ok: "pair_caps_ok n s"
  have "alive_pairs (s\<lparr>rl_pairs := pairs_touch now pid (rl_pairs s)\<rparr>) = alive_pairs s"
    by (auto simp: set_eq_iff alive_pairs_iff touch_keys)
  with ok show ?thesis by (simp add: pair_caps_ok_def pairs_wf_touch)
qed

fun flow_state :: "flow \<Rightarrow> relay" where
  "flow_state (Continue s) = s"
| "flow_state (Break s) = s"
| "flow_state (Fail e s) = s"

lemma out_caps_ok [simp]: "pair_caps_ok n (s\<lparr>rl_out := x\<rparr>) = pair_caps_ok n s"
  by (rule pair_caps_ok_cong) simp_all

lemma same_out [simp]: "same_servers s (t\<lparr>rl_out := x\<rparr>) = same_servers s t"
  "same_servers s (t\<lparr>rl_pairs := y\<rparr>) = same_servers s t"
  by (simp_all add: same_servers_def)

lemma server_step_ok:
  "server_read_step pc sid tx now item s = Some f \<Longrightarrow> pair_caps_ok n s \<Longrightarrow>
     pair_caps_ok n (flow_state f) \<and> same_servers s (flow_state f)"
  by (auto simp: server_read_step_def Let_def send_server_msg_def
        intro: close_pair_caps_ok close_pair_same touch_caps_ok
        split: sum.splits ws_message.splits relay_wire.splits relay_ctrl.splits relay_data.splits
          option.splits if_splits)

lemma client_step_ok:
  "client_read_step pc p now item s = Some f \<Longrightarrow> pair_caps_ok n s \<Longrightarrow>
     pair_caps_ok n (flow_state f) \<and> same_servers s (flow_state f)"
  by (auto simp: client_read_step_def Let_def send_server_msg_def
        intro: close_pair_caps_ok close_pair_same touch_caps_ok
        split: sum.splits ws_message.splits relay_wire.splits relay_ctrl.splits relay_data.splits
          option.splits if_splits)

lemma server_loop_end_ok:
  "server_loop_end pc sid tx s = Some s' \<Longrightarrow> pair_caps_ok n s \<Longrightarrow> pair_caps_ok n s' \<and> same_servers s s'"
proof -
  assume e: "server_loop_end pc sid tx s = Some s'" and ok: "pair_caps_ok n s"
  let ?t = "send_ignoring tx MsgClose s"
  have "pair_caps_ok n ?t" using ok by (simp add: send_ignoring_def)
  from close_pairs_ok [OF e [unfolded server_loop_end_def Let_def] this]
  show ?thesis by (simp add: same_servers_def)
qed

lemma fold_drop_ok:
  "pair_caps_ok (n + length (filter (\<lambda>pid. pid \<notin> alive_pairs s) gone)) s \<Longrightarrow>
     pair_caps_ok n (fold drop_pair gone s)"
proof (induction gone arbitrary: s)
  case Nil
  then show ?case by simp
next
  case (Cons pid gone)
  let ?n = "n + length (filter (\<lambda>q. q \<notin> alive_pairs s) gone)"
  have "pair_caps_ok (if pid \<in> alive_pairs s then ?n else Suc ?n) s"
    using Cons.prems by (simp split: if_splits)
  from drop_pair_caps_ok [OF this] Cons.IH [of "drop_pair pid s"] show ?case by simp
qed

lemma fold_drop_same: "same_servers s (fold drop_pair gone t) = same_servers s t"
  by (induction gone arbitrary: t) (simp_all add: same_servers_def)

lemma relay_sweep_ok:
  assumes "codec_ok pc" and "relay_sweep pc threshold now s = Some s'" and ok: "pair_caps_ok 0 s"
  shows "pair_caps_ok 0 s' \<and> same_servers s s'"
proof -
  let ?gone = "map p_pair_id (filter (stuck p_last_progress threshold now) (list_for_sweep (rl_pairs s)))"
  have wf: "pairs_wf (rl_pairs s)" using ok by (simp add: pair_caps_ok_def)
  from sweep_keys [OF assms(1) wf, of "rl_live s" threshold now] obtain out m where
    sw: "sweep_pairs pc (rl_live s) threshold now (rl_pairs s) = Some (out, m)" "pairs_wf m"
      "set (hm_keys (rl_pairs s)) = set (hm_keys m) \<union> set ?gone" "set (hm_keys m) \<inter> set ?gone = {}"
      "distinct ?gone" by blast
  let ?t = "s\<lparr>rl_pairs := m, rl_out := rl_out s @ out\<rparr>"
  have s': "s' = fold drop_pair ?gone ?t"
    using assms(2) sw(1) by (simp add: relay_sweep_def Let_def)
  let ?dead = "filter (\<lambda>pid. pid \<notin> alive_pairs ?t) ?gone"
  have "alive_pairs s = alive_pairs ?t \<union> set ?dead" using sw(3) by (auto simp: alive_pairs_def)
  moreover have "alive_pairs ?t \<inter> set ?dead = {}" by auto
  ultimately have "card (alive_pairs s) = card (alive_pairs ?t) + length ?dead"
    using card_Un_disjoint [of "alive_pairs ?t" "set ?dead"] distinct_card [of ?dead] sw(5)
    by (simp add: distinct_filter)
  then have "pair_caps_ok (0 + length ?dead) ?t" using ok sw(2) by (simp add: pair_caps_ok_def)
  from fold_drop_ok [OF this] show ?thesis
    by (simp add: s' fold_drop_same)
qed

section \<open>Servers\<close>

definition servers_ok :: "relay_sys \<Rightarrow> bool" where
  "servers_ok S \<longleftrightarrow>
     (let r = rl_registry (sy_relay S); c = rl_caps (sy_relay S) in
      hm_wf (rg_servers r) \<and> distinct (server_ids S) \<and>
      (\<forall>rd \<in> set (sy_servers S). \<exists>st. hm_get (rg_servers r) (rn_server_id (rd_registration rd)) = Some st \<and>
         ss_generation st = rn_generation (rd_registration rd)) \<and>
      length (rg_servers r) = length (sy_servers S) \<and>
      unat (c_servers c) = length (sy_servers S) \<and> c_servers c \<le> c_max_servers c)"

lemma servers_ok_same:
  "servers_ok S \<Longrightarrow> same_servers (sy_relay S) (sy_relay S') \<Longrightarrow> sy_servers S' = sy_servers S \<Longrightarrow> servers_ok S'"
  by (simp add: servers_ok_def same_servers_def server_ids_def Let_def)

lemma servers_ok_release:
  assumes ok: "servers_ok S" and rd: "rd \<in> set (sy_servers S)" and same: "same_servers (sy_relay S) s"
  shows "servers_ok (S\<lparr>sy_relay := release_server (rd_registration rd) s, sy_servers := remove1 rd (sy_servers S)\<rparr>)"
proof -
  let ?reg = "rd_registration rd" and ?r = "rl_registry (sy_relay S)"
  from ok rd obtain st where st: "hm_get (rg_servers ?r) (rn_server_id ?reg) = Some st"
      "ss_generation st = rn_generation ?reg" by (auto simp: servers_ok_def Let_def)
  then have u: "snd (unregister ?reg ?r) = ?r\<lparr>rg_servers := hm_remove (rn_server_id ?reg) (rg_servers ?r)\<rparr>"
    by (simp add: unregister_def)
  have wf: "hm_wf (rg_servers ?r)" and d: "distinct (server_ids S)" using ok by (simp_all add: servers_ok_def Let_def)
  have d1: "distinct (sy_servers S)" using d by (simp add: server_ids_def distinct_map)
  have other: "rn_server_id (rd_registration x) \<noteq> rn_server_id ?reg" if "x \<in> set (remove1 rd (sy_servers S))" for x
    using that d d1 rd by (auto simp: server_ids_def distinct_map inj_on_def)
  have len: "length (remove1 rd (sy_servers S)) = length (sy_servers S) - 1"
    using rd by (simp add: length_remove1)
  have "distinct (map (\<lambda>rd. rn_server_id (rd_registration rd)) (remove1 rd (sy_servers S)))"
    using d by (simp add: server_ids_def distinct_map) (auto intro: inj_on_diff)
  moreover have "length (hm_remove (rn_server_id ?reg) (rg_servers ?r)) = length (rg_servers ?r) - 1"
    using length_hm_remove_present [OF wf st(1)] by simp
  moreover have "c_servers (drop_server_ticket (rl_caps s)) \<le> c_max_servers (rl_caps s)"
    using ok same by (auto simp: servers_ok_def same_servers_def word_le_nat_alt unat_drop_server_ticket Let_def)
  ultimately show ?thesis
    using ok same u wf len other
    by (auto simp: servers_ok_def same_servers_def release_server_def server_ids_def Let_def hm_simps
        unat_drop_server_ticket dest: set_mp [OF set_remove1_subset])
qed

lemma release_caps_ok [simp]: "pair_caps_ok n (release_server reg s) = pair_caps_ok n s"
  by (rule pair_caps_ok_cong_pairs) (simp_all add: release_server_def)

lemma try_add_server_ok:
  "try_add_server c = Inr c' \<Longrightarrow>
     unat (c_servers c') = Suc (unat (c_servers c)) \<and> c_servers c' \<le> c_max_servers c' \<and>
     c_max_servers c' = c_max_servers c \<and> c_pairs c' = c_pairs c \<and> c_max_pairs c' = c_max_pairs c"
proof -
  assume ok: "try_add_server c = Inr c'"
  then have lt: "c_servers c < c_max_servers c" and c': "c' = c\<lparr>c_servers := c_servers c + 1\<rparr>"
    by (auto simp: try_add_server_def increment_bounded_usize_def increment_attempt_def not_le
       split: if_splits)
  from lt have "c_servers c + 1 \<le> c_max_servers c" by (simp add: inc_le)
  with unat_Suc_lt [OF lt] c' show ?thesis by simp
qed

lemma register_server_ok:
  assumes ok: "servers_ok S" and c: "try_add_server (rl_caps (sy_relay S)) = Inr c"
    and r: "register_server sid tx ((sy_relay S)\<lparr>rl_caps := c\<rparr>) = (res, s)"
  shows "case res of
       Inl e \<Rightarrow> servers_ok (S\<lparr>sy_relay := s\<rparr>)
     | Inr rd \<Rightarrow> servers_ok (S\<lparr>sy_relay := s, sy_servers := rd # sy_servers S\<rparr>)"
proof -
  note c' = try_add_server_ok [OF c]
  show ?thesis
  proof (cases "hm_get (rg_servers (rl_registry (sy_relay S))) sid")
    case None
    then have new: "sid \<notin> set (server_ids S)"
      using ok by (auto simp: servers_ok_def server_ids_def Let_def)
    from None r obtain rd where res: "res = Inr rd" "rn_server_id (rd_registration rd) = sid"
      "s = (sy_relay S)\<lparr>rl_caps := c, rl_registry := (rl_registry (sy_relay S))\<lparr>
          rg_next_generation := rg_next_generation (rl_registry (sy_relay S)) + 1,
          rg_servers := hm_insert sid \<lparr>ss_slot = \<lparr>sl_server_id = sid, sl_tx = tx\<rparr>,
             ss_generation = rn_generation (rd_registration rd)\<rparr> (rg_servers (rl_registry (sy_relay S)))\<rparr>\<rparr>"
      by (auto simp: register_server_def register_def Let_def)
    have "\<exists>st. hm_get (hm_insert sid v (rg_servers (rl_registry (sy_relay S)))) (rn_server_id (rd_registration x)) = Some st \<and>
         ss_generation st = rn_generation (rd_registration x)" if "x \<in> set (sy_servers S)" for x v
      using ok that new by (auto simp: servers_ok_def server_ids_def Let_def hm_simps)
    with ok new None c' res show ?thesis
      by (auto simp: servers_ok_def server_ids_def Let_def hm_simps length_hm_insert_fresh)
  next
    case (Some st)
    with r have "res = Inl (RelayProtocol ''duplicate server registration'')"
        "s = (sy_relay S)\<lparr>rl_caps := drop_server_ticket c\<rparr>"
      by (auto simp: register_server_def register_def)
    with ok c' show ?thesis
      by (simp add: servers_ok_def server_ids_def Let_def unat_drop_server_ticket word_le_nat_alt)
  qed
qed

lemma accept_server_ok:
  assumes acc: "accept_server pc tx items (sy_relay S) = Some (res, s')" and ok: "servers_ok S"
  shows "case res of
       Inl e \<Rightarrow> servers_ok (S\<lparr>sy_relay := s'\<rparr>)
     | Inr (rd, rest) \<Rightarrow> servers_ok (S\<lparr>sy_relay := s', sy_servers := rd # sy_servers S\<rparr>)"
proof (cases "s' = sy_relay S \<and> is_err res")
  case True
  with ok show ?thesis by (cases res) simp_all
next
  case False
  with acc obtain sid c res1 s1 where
      c: "try_add_server (rl_caps (sy_relay S)) = Inr c" and
      r: "register_server sid tx ((sy_relay S)\<lparr>rl_caps := c\<rparr>) = (res1, s1)" and
      rest: "(\<exists>e. res1 = Inl e \<and> res = Inl e \<and> s' = s1) \<or>
        (\<exists>rd f. res1 = Inr rd \<and> (case send_server_msg tx (MsgCtrl f) s1 of
            Inl e \<Rightarrow> res = Inl e \<and> s' = release_server (rd_registration rd) s1
          | Inr s2 \<Rightarrow> (\<exists>rest. res = Inr (rd, rest)) \<and> s' = s2))"
    by (fastforce simp: accept_server_def split: sum.splits relay_wire.splits relay_ctrl.splits
        prod.splits option.splits)
  note reg = register_server_ok [OF ok c r]
  from rest consider (refused) e where "res1 = Inl e" "res = Inl e" "s' = s1"
    | (unsent) rd e where "res1 = Inr rd" "res = Inl e" "s' = release_server (rd_registration rd) s1"
    | (sent) rd rest x where "res1 = Inr rd" "res = Inr (rd, rest)" "s' = s1\<lparr>rl_out := x\<rparr>"
    by (auto simp: send_server_msg_def split: if_splits)
  then show ?thesis
  proof cases
    case refused
    with reg show ?thesis by simp
  next
    case (unsent rd e)
    with reg have "servers_ok (S\<lparr>sy_relay := s1, sy_servers := rd # sy_servers S\<rparr>)" by simp
    from servers_ok_release [OF this, of rd s1] unsent show ?thesis by simp
  next
    case (sent rd rest x)
    with reg have "servers_ok (S\<lparr>sy_relay := s1, sy_servers := rd # sy_servers S\<rparr>)" by simp
    then show ?thesis
      using sent by (simp add: servers_ok_def server_ids_def Let_def)
  qed
qed

lemma accept_server_pairs:
  assumes "accept_server pc tx items s = Some (res, s')"
  shows "rl_pairs s' = rl_pairs s \<and> rl_held s' = rl_held s \<and>
     c_pairs (rl_caps s') = c_pairs (rl_caps s) \<and> c_max_pairs (rl_caps s') = c_max_pairs (rl_caps s)"
  using assms
  by (auto simp: accept_server_def register_server_def send_server_msg_def release_server_def
      dest: try_add_server_ok
      split: sum.splits relay_wire.splits relay_ctrl.splits prod.splits option.splits if_splits)

section \<open>Clients\<close>

lemma try_add_pair_ok:
  "try_add_pair c = Inr (c', t) \<Longrightarrow>
     unat (c_pairs c') = Suc (unat (c_pairs c)) \<and> c_pairs c' \<le> c_max_pairs c' \<and>
     c_max_pairs c' = c_max_pairs c \<and> c_servers c' = c_servers c \<and> c_max_servers c' = c_max_servers c"
proof -
  assume ok: "try_add_pair c = Inr (c', t)"
  then have lt: "c_pairs c < c_max_pairs c" and c': "c' = c\<lparr>c_pairs := c_pairs c + 1\<rparr>"
    by (auto simp: try_add_pair_def increment_bounded_usize_def increment_attempt_def not_le
       split: if_splits)
  from lt have "c_pairs c + 1 \<le> c_max_pairs c" by (simp add: inc_le)
  with unat_Suc_lt [OF lt] c' show ?thesis by simp
qed

lemma open_pair_ok:
  assumes ok: "pair_caps_ok 0 s" and fresh: "pid \<notin> alive_pairs s" and c: "try_add_pair (rl_caps s) = Inr (c, t)"
    and id: "p_pair_id p = pid"
    and s': "rl_pairs s' = snd (pairs_insert p (rl_pairs s))" "rl_caps s' = c"
      "rl_held s' = rl_held s \<or> rl_held s' = pid # rl_held s"
  shows "pair_caps_ok 0 s'"
proof -
  have "alive_pairs s' = insert pid (alive_pairs s)"
    using s' id by (auto simp: set_eq_iff alive_pairs_iff pairs_insert_def hm_simps)
  then show ?thesis
    using ok fresh try_add_pair_ok [OF c] s' by (auto simp: pair_caps_ok_def pairs_wf_insert)
qed

lemma accept_client_cases:
  assumes "accept_client pc tx target pid now items s = Some (res, s')"
  shows "s' = s \<or> (\<exists>c t server_tx. try_add_pair (rl_caps s) = Inr (c, t) \<and>
      rl_pairs s' = snd (pairs_insert (pair_new now pid target t server_tx tx) (rl_pairs s)) \<and>
      rl_caps s' = c \<and> rl_registry s' = rl_registry s \<and>
      (rl_held s' = rl_held s \<or> rl_held s' = pid # rl_held s))"
  using assms
  by (auto simp: accept_client_def Let_def send_server_msg_def split: sum.splits relay_wire.splits
        relay_ctrl.splits prod.splits option.splits if_splits)

lemma accept_client_ok:
  assumes acc: "accept_client pc tx target pid now items s = Some (res, s')"
    and ok: "pair_caps_ok 0 s" and fresh: "pid \<notin> alive_pairs s"
  shows "pair_caps_ok 0 s' \<and> same_servers s s'"
proof (cases "s' = s")
  case True
  with ok show ?thesis by simp
next
  case False
  with accept_client_cases [OF acc] obtain c t server_tx where
      "try_add_pair (rl_caps s) = Inr (c, t)" "rl_registry s' = rl_registry s"
      "rl_pairs s' = snd (pairs_insert (pair_new now pid target t server_tx tx) (rl_pairs s))"
      "rl_caps s' = c" "rl_held s' = rl_held s \<or> rl_held s' = pid # rl_held s"
    by blast
  moreover have "p_pair_id (pair_new now pid target t server_tx tx) = pid" by (simp add: pair_new_def)
  ultimately show ?thesis
    using open_pair_ok [OF ok fresh] try_add_pair_ok by (auto simp: same_servers_def)
qed

lemma client_task_end_ok:
  assumes "pair_caps_ok 0 s" and "pid \<in> alive_pairs s"
  shows "pair_caps_ok 0 (client_task_end pid s) \<and> same_servers s (client_task_end pid s)"
proof -
  let ?t = "s\<lparr>rl_held := filter (\<lambda>q. q \<noteq> pid) (rl_held s)\<rparr>"
  have "alive_pairs ?t = (if hm_get (rl_pairs s) pid = None then alive_pairs s - {pid} else alive_pairs s)"
    by (auto simp: set_eq_iff alive_pairs_iff)
  then have "pair_caps_ok (if pid \<in> alive_pairs ?t then 0 else Suc 0) ?t"
    using assms card_Suc_Diff1 [OF finite_alive assms(2)] by (auto simp: pair_caps_ok_def alive_pairs_iff)
  from drop_pair_caps_ok [OF this] show ?thesis
    by (simp add: client_task_end_def same_servers_def)
qed

section \<open>The tasks that hold pairs\<close>

lemma close_pair_held: "close_pair pc pid reason s = Some s' \<Longrightarrow> rl_held s' = rl_held s"
  by (erule close_pair_cases) simp_all

lemma close_pairs_held: "close_pairs pc reason pids s = Some s' \<Longrightarrow> rl_held s' = rl_held s"
  by (induction pids arbitrary: s) (auto dest: close_pair_held split: option.splits)

lemma server_step_held: "server_read_step pc sid tx now item s = Some f \<Longrightarrow> rl_held (flow_state f) = rl_held s"
  by (auto simp: server_read_step_def Let_def send_server_msg_def dest: close_pair_held
        split: sum.splits ws_message.splits relay_wire.splits relay_ctrl.splits relay_data.splits
          option.splits if_splits)

lemma client_step_held: "client_read_step pc p now item s = Some f \<Longrightarrow> rl_held (flow_state f) = rl_held s"
  by (auto simp: client_read_step_def Let_def send_server_msg_def dest: close_pair_held
        split: sum.splits ws_message.splits relay_wire.splits relay_ctrl.splits relay_data.splits
          option.splits if_splits)

lemma server_loop_end_held: "server_loop_end pc sid tx s = Some s' \<Longrightarrow> rl_held s' = rl_held s"
  by (auto simp: server_loop_end_def Let_def dest: close_pairs_held)

lemma fold_drop_held: "rl_held (fold drop_pair gone s) = rl_held s"
  by (induction gone arbitrary: s) simp_all

lemma relay_sweep_held: "relay_sweep pc threshold now s = Some s' \<Longrightarrow> rl_held s' = rl_held s"
  by (auto simp: relay_sweep_def Let_def fold_drop_held split: option.splits)

lemma accept_client_held:
  assumes "accept_client pc tx target pid now items s = Some (res, s')"
  shows "case res of Inl e \<Rightarrow> rl_held s' = rl_held s
     | Inr (p, rest) \<Rightarrow> p_pair_id p = pid \<and> rl_held s' = pid # rl_held s"
  using assms
  by (auto simp: accept_client_def Let_def send_server_msg_def pair_new_def split: sum.splits relay_wire.splits
        relay_ctrl.splits prod.splits option.splits if_splits)

definition tasks_ok :: "relay_sys \<Rightarrow> bool" where
  "tasks_ok S \<longleftrightarrow> distinct (map p_pair_id (sy_clients S @ sy_draining S)) \<and>
     set (rl_held (sy_relay S)) = set (map p_pair_id (sy_clients S @ sy_draining S))"

lemma tasks_ok_same: "tasks_ok S \<Longrightarrow> rl_held s = rl_held (sy_relay S) \<Longrightarrow> tasks_ok (S\<lparr>sy_relay := s\<rparr>)"
  "tasks_ok S \<Longrightarrow> rl_held s = rl_held (sy_relay S) \<Longrightarrow> tasks_ok (S\<lparr>sy_relay := s, sy_servers := x\<rparr>)"
  by (simp_all add: tasks_ok_def)

lemma tasks_ok_drain:
  assumes "tasks_ok S" and "rl_held s = rl_held (sy_relay S)" and "p \<in> set (sy_clients S)"
  shows "tasks_ok (S\<lparr>sy_relay := s, sy_clients := remove1 p (sy_clients S), sy_draining := p # sy_draining S\<rparr>)"
proof -
  have "mset (remove1 p (sy_clients S) @ p # sy_draining S) = mset (sy_clients S @ sy_draining S)"
    using assms(3) by simp
  then have m: "mset (map p_pair_id (remove1 p (sy_clients S) @ p # sy_draining S)) =
      mset (map p_pair_id (sy_clients S @ sy_draining S))"
    by (metis mset_map)
  from mset_eq_imp_distinct_iff [OF m] mset_eq_setD [OF m] assms(1,2) show ?thesis
    by (simp add: tasks_ok_def)
qed

lemma tasks_ok_done:
  assumes "tasks_ok S" and "p \<in> set (sy_draining S)"
  shows "tasks_ok (S\<lparr>sy_relay := client_task_end (p_pair_id p) (sy_relay S), sy_draining := remove1 p (sy_draining S)\<rparr>)"
proof -
  obtain xs ys where d: "sy_draining S = xs @ p # ys" and p: "p \<notin> set xs"
    using assms(2) split_list_first by fastforce
  then have r: "remove1 p (xs @ p # ys) = xs @ ys" by (simp add: remove1_append)
  show ?thesis
    using assms(1) unfolding tasks_ok_def
    by (auto simp: d r client_task_end_def) (metis image_eqI)+
qed

section \<open>The invariant\<close>

definition system_inv :: "relay_sys \<Rightarrow> bool" where
  "system_inv S \<longleftrightarrow> pair_caps_ok 0 (sy_relay S) \<and> servers_ok S \<and> tasks_ok S"

lemma system_invI:
  assumes "system_inv S" and "pair_caps_ok 0 s" and "same_servers (sy_relay S) s"
    and "rl_held s = rl_held (sy_relay S)"
  shows "system_inv (S\<lparr>sy_relay := s\<rparr>)"
  using assms by (auto simp: system_inv_def intro: servers_ok_same tasks_ok_same)

lemma system_inv_release:
  assumes inv: "system_inv S" and rd: "rd \<in> set (sy_servers S)"
    and s: "pair_caps_ok 0 s" "same_servers (sy_relay S) s" "rl_held s = rl_held (sy_relay S)"
  shows "system_inv (S\<lparr>sy_relay := release_server (rd_registration rd) s, sy_servers := remove1 rd (sy_servers S)\<rparr>)"
proof -
  have "rl_held (release_server (rd_registration rd) s) = rl_held (sy_relay S)"
    using s(3) by (simp add: release_server_def)
  with inv rd s show ?thesis
    by (simp add: system_inv_def servers_ok_release tasks_ok_same)
qed

lemma system_inv_drain:
  assumes inv: "system_inv S" and p: "p \<in> set (sy_clients S)"
    and s: "pair_caps_ok 0 s" "same_servers (sy_relay S) s" "rl_held s = rl_held (sy_relay S)"
    and c: "close_pair pc (p_pair_id p) ClientGone s = Some s'"
  shows "system_inv (S\<lparr>sy_relay := s', sy_clients := remove1 p (sy_clients S), sy_draining := p # sy_draining S\<rparr>)"
proof -
  let ?S' = "S\<lparr>sy_relay := s', sy_clients := remove1 p (sy_clients S), sy_draining := p # sy_draining S\<rparr>"
  have "same_servers (sy_relay S) (sy_relay ?S')"
    using same_servers_trans [OF s(2) close_pair_same [OF c]] by simp
  then have "servers_ok ?S'" using inv servers_ok_same [of S ?S'] by (simp add: system_inv_def)
  moreover have "tasks_ok ?S'"
    using inv p s(3) close_pair_held [OF c] by (intro tasks_ok_drain) (simp_all only: system_inv_def)
  moreover have "pair_caps_ok 0 (sy_relay ?S')" using close_pair_caps_ok [OF c s(1)] by simp
  ultimately show ?thesis by (simp only: system_inv_def)
qed

lemma alive_fresh: "hm_get (rl_pairs s) pid = None \<Longrightarrow> pid \<notin> set (rl_held s) \<Longrightarrow> pid \<notin> alive_pairs s"
  by (simp add: alive_pairs_iff)

lemma system_inv_step:
  assumes codec: "codec_ok pc" and step: "relay_step pc S S'" and inv: "system_inv S"
  shows "system_inv S'"
  using step
proof cases
  case (server_accepted tx items rd rest s)
  then show ?thesis
    using inv accept_server_ok [OF server_accepted(2)] accept_server_pairs [OF server_accepted(2)]
    by (simp add: system_inv_def tasks_ok_same pair_caps_ok_cong_pairs [of s "sy_relay S"])
next
  case (server_rejected tx items e s)
  then show ?thesis
    using inv accept_server_ok [OF server_rejected(2)] accept_server_pairs [OF server_rejected(2)]
    by (simp add: system_inv_def tasks_ok_same pair_caps_ok_cong_pairs [of s "sy_relay S"])
next
  case (server_message rd now item s)
  from server_step_ok [OF this(3), of 0] server_step_held [OF this(3)] inv show ?thesis
    unfolding server_message(1) by (intro system_invI) (simp_all add: system_inv_def)
next
  case (server_break rd now item s s')
  from inv have "pair_caps_ok 0 (sy_relay S)" by (simp add: system_inv_def)
  with server_step_ok [OF server_break(3)] have "pair_caps_ok 0 s" "same_servers (sy_relay S) s" by auto
  moreover from server_loop_end_ok [OF server_break(4) this(1)]
  have "pair_caps_ok 0 s'" "same_servers s s'" by auto
  ultimately show ?thesis
    unfolding server_break(1)
    using inv server_break(2) server_step_held [OF server_break(3)] server_loop_end_held [OF server_break(4)]
    by (intro system_inv_release) (auto intro: same_servers_trans)
next
  case (server_stream_end rd s')
  from inv have "pair_caps_ok 0 (sy_relay S)" by (simp add: system_inv_def)
  from server_loop_end_ok [OF server_stream_end(3) this] show ?thesis
    unfolding server_stream_end(1)
    using inv server_stream_end(2) server_loop_end_held [OF server_stream_end(3)]
    by (intro system_inv_release) auto
next
  case (server_failed rd now item e s)
  from inv have "pair_caps_ok 0 (sy_relay S)" by (simp add: system_inv_def)
  with server_step_ok [OF server_failed(3)] show ?thesis
    unfolding server_failed(1)
    using inv server_failed(2) server_step_held [OF server_failed(3)]
    by (intro system_inv_release) auto
next
  case (client_accepted pid tx target now items p rest s)
  then have "pair_caps_ok 0 s \<and> same_servers (sy_relay S) s"
    using inv by (intro accept_client_ok [OF client_accepted(4)]) (simp_all add: system_inv_def alive_fresh)
  then show ?thesis
    using inv client_accepted accept_client_held [OF client_accepted(4)]
    by (auto simp: system_inv_def tasks_ok_def intro: servers_ok_same)
next
  case (client_rejected pid tx target now items e s)
  then have "pair_caps_ok 0 s \<and> same_servers (sy_relay S) s"
    using inv by (intro accept_client_ok [OF client_rejected(4)]) (simp_all add: system_inv_def alive_fresh)
  then show ?thesis
    unfolding client_rejected(1) using inv accept_client_held [OF client_rejected(4)]
    by (intro system_invI) auto
next
  case (client_message p now item s)
  from client_step_ok [OF this(3), of 0] client_step_held [OF this(3)] inv show ?thesis
    unfolding client_message(1) by (intro system_invI) (simp_all add: system_inv_def)
next
  case (client_left p now item f s e s')
  from inv have "pair_caps_ok 0 (sy_relay S)" by (simp add: system_inv_def)
  from client_step_ok [OF client_left(3) this] client_step_held [OF client_left(3)] client_left(4)
  have "pair_caps_ok 0 s" "same_servers (sy_relay S) s" "rl_held s = rl_held (sy_relay S)" by auto
  from system_inv_drain [OF inv client_left(2) this client_left(5)] show ?thesis
    by (simp add: client_left(1))
next
  case (client_stream_end p s')
  from inv have "pair_caps_ok 0 (sy_relay S)" by (simp add: system_inv_def)
  from system_inv_drain [OF inv client_stream_end(2) this _ _ client_stream_end(3)] show ?thesis
    by (simp add: client_stream_end(1))
next
  case (client_done p)
  from inv client_done(2) have "p_pair_id p \<in> alive_pairs (sy_relay S)"
    by (auto simp: system_inv_def tasks_ok_def alive_pairs_def)
  with inv have "pair_caps_ok 0 (client_task_end (p_pair_id p) (sy_relay S))"
      "same_servers (sy_relay S) (client_task_end (p_pair_id p) (sy_relay S))"
    using client_task_end_ok by (simp_all add: system_inv_def)
  then show ?thesis
    unfolding client_done(1)
    using inv tasks_ok_done [OF _ client_done(2)]
    by (auto simp: system_inv_def intro: servers_ok_same)
next
  case (sweep threshold now s)
  from relay_sweep_ok [OF codec sweep(2)] relay_sweep_held [OF sweep(2)] inv show ?thesis
    unfolding sweep(1) by (intro system_invI) (simp_all add: system_inv_def)
next
  case (writer_gone tx)
  have "pair_caps_ok 0 ((sy_relay S)\<lparr>rl_live := (rl_live (sy_relay S))(tx := False)\<rparr>)"
    using inv by (subst pair_caps_ok_cong [of _ "sy_relay S"]) (simp_all add: system_inv_def)
  with inv show ?thesis
    unfolding writer_gone by (intro system_invI) (simp_all add: same_servers_def)
qed

lemma relay_reach_inv: "relay_reach pc c S \<Longrightarrow> codec_ok pc \<Longrightarrow> system_inv S"
proof (induction rule: relay_reach.induct)
  case relay_init
  then show ?case
    by (simp add: system_inv_def pair_caps_ok_def servers_ok_def tasks_ok_def relay_start_def alive_pairs_def
        hm_keys_def server_ids_def registry_new_def)
next
  case (relay_next S S')
  then show ?case using system_inv_step by blast
qed

text \<open>
  C1. Relay capacity is conserved: in every interleaving of connections, messages,
  disconnections, errors and sweeps, the servers counted are the servers connected, each
  registered under its own identifier; the pairs counted are exactly those in the map or
  held by a client task; and neither count exceeds its limit.
\<close>

theorem relay_capacity_conserved:
  assumes "codec_ok pc" and "relay_reach pc c S"
  shows "caps_snapshot (rl_caps (sy_relay S)) =
       (of_nat (length (sy_servers S)), of_nat (card (alive_pairs (sy_relay S)))) \<and>
     length (sy_servers S) \<le> unat (c_max_servers (rl_caps (sy_relay S))) \<and>
     card (alive_pairs (sy_relay S)) \<le> unat (c_max_pairs (rl_caps (sy_relay S))) \<and>
     length (list_ids (rl_registry (sy_relay S))) = length (sy_servers S)"
proof -
  have inv: "system_inv S" using relay_reach_inv assms by blast
  then have "unat (c_pairs (rl_caps (sy_relay S))) = card (alive_pairs (sy_relay S))"
    "unat (c_servers (rl_caps (sy_relay S))) = length (sy_servers S)"
    by (simp_all add: system_inv_def pair_caps_ok_def servers_ok_def Let_def)
  then have "c_pairs (rl_caps (sy_relay S)) = of_nat (card (alive_pairs (sy_relay S)))"
    "c_servers (rl_caps (sy_relay S)) = of_nat (length (sy_servers S))"
    by (metis of_nat_unat ucast_id)+
  then show ?thesis
    using inv by (auto simp: caps_snapshot_def list_ids_def hm_keys_def system_inv_def pair_caps_ok_def
        servers_ok_def Let_def word_le_nat_alt)
qed

lemma one_server_reachable:
  "\<exists>S. relay_reach unary_postcard (caps_new 2 3 10 100) S \<and> length (sy_servers S) = 1 \<and>
     rl_pairs (sy_relay S) = [] \<and> rl_held (sy_relay S) = []"
proof -
  let ?c = "caps_new 2 3 10 100" and ?pc = unary_postcard
  obtain b where b: "decode_relay ?pc b = Inr (WireCtrl (ServerRegister (ServerId 5) [] []))"
    using ctrl_frame_back [OF unary_postcard_ok] by blast
  obtain f where f: "encode_ctrl_frame ?pc ServerRegisterOk = Some f"
    using ctrl_frame_back [OF unary_postcard_ok] by blast
  obtain rd rest s where acc: "accept_server ?pc 9 [(0, Inr (WsBinary b))] (relay_start ?c) = Some (Inr (rd, rest), s)"
      "rl_pairs s = []" "rl_held s = []"
    by (auto simp: accept_server_def b f relay_start_def try_add_server_def caps_new_def register_server_def
        increment_bounded_usize_def increment_attempt_def register_def registry_new_def Let_def send_server_msg_def)
  have "relay_step ?pc \<lparr>sy_relay = relay_start ?c, sy_servers = [], sy_clients = [], sy_draining = []\<rparr>
      \<lparr>sy_relay = s, sy_servers = [rd], sy_clients = [], sy_draining = []\<rparr>"
    using server_accepted [of ?pc 9 "[(0, Inr (WsBinary b))]"
      "\<lparr>sy_relay = relay_start ?c, sy_servers = [], sy_clients = [], sy_draining = []\<rparr>" rd rest s] acc(1)
    by simp
  from relay_next [OF relay_init this] acc(2,3) show ?thesis by (intro exI conjI) auto
qed

theorem relay_capacity_conserved_witness:
  "\<exists>S. relay_reach unary_postcard (caps_new 2 3 10 100) S \<and>
     caps_snapshot (rl_caps (sy_relay S)) = (1, 0)"
proof -
  obtain S where S: "relay_reach unary_postcard (caps_new 2 3 10 100) S" "length (sy_servers S) = 1"
     "rl_pairs (sy_relay S) = []" "rl_held (sy_relay S) = []"
    using one_server_reachable by blast
  have "alive_pairs (sy_relay S) = {}" using S(3,4) by (simp add: alive_pairs_def hm_keys_def)
  with relay_capacity_conserved [OF unary_postcard_ok S(1)] S(1,2) show ?thesis by auto
qed

section \<open>Isolation\<close>

fun no_data :: "chan \<times> server_msg \<Rightarrow> bool" where
  "no_data (t, MsgData d) = False"
| "no_data (t, _) = True"

text \<open>What a binary message from a server may make the relay send to a client.\<close>

fun server_may_send :: "postcard \<Rightarrow> server_id \<Rightarrow> bytes \<Rightarrow> pair_manager \<Rightarrow> chan \<times> server_msg \<Rightarrow> bool" where
  "server_may_send pc sid b m (t, MsgData d) =
     (case decode_relay pc b of
        Inr (WireData (Forward pid payload)) \<Rightarrow>
          (case pairs_get pid m of
             None \<Rightarrow> False
           | Some p \<Rightarrow> p_server_id p = sid \<and> t = p_client_tx p \<and>
               encode_data_frame pc (Forward pid payload) = Some d)
      | _ \<Rightarrow> False)"
| "server_may_send pc sid b m (t, _) = True"

fun client_may_send :: "postcard \<Rightarrow> pair \<Rightarrow> bytes \<Rightarrow> chan \<times> server_msg \<Rightarrow> bool" where
  "client_may_send pc p b (t, MsgData d) =
     (t = p_server_tx p \<and> encode_data_frame pc (Forward (p_pair_id p) b) = Some d)"
| "client_may_send pc p b (t, _) = True"

lemma no_data_may: "no_data x \<Longrightarrow> server_may_send pc sid b m x" "no_data x \<Longrightarrow> client_may_send pc p b x"
  by (cases x rule: no_data.cases; simp)+

lemma close_pair_sends:
  "close_pair pc pid reason s = Some s' \<Longrightarrow> \<exists>new. rl_out s' = rl_out s @ new \<and> list_all no_data new"
  by (erule close_pair_cases) (auto simp: send_ignoring_def send_to_def)

lemma server_step_sends:
  assumes "server_read_step pc sid tx now (Inr (WsBinary b)) s = Some f"
  shows "\<exists>new. rl_out (flow_state f) = rl_out s @ new \<and> list_all (server_may_send pc sid b (rl_pairs s)) new"
proof (cases "\<exists>pid payload. decode_relay pc b = Inr (WireData (Forward pid payload))")
  case True
  then show ?thesis
    using assms
    by (auto simp: server_read_step_def Let_def send_server_msg_def split: option.splits if_splits)
next
  case False
  show ?thesis
  proof (cases "\<exists>pid reason. decode_relay pc b = Inr (WireCtrl (PairClose pid reason))")
    case True
    then obtain pid reason s' where "close_pair pc pid reason s = Some s'" "f = Continue s'"
      using assms by (auto simp: server_read_step_def)
    with close_pair_sends [of pc pid reason s s'] no_data_may(1) show ?thesis
      by (fastforce simp: list_all_iff)
  next
    case no: False
    with False assms have "flow_state f = s"
      by (auto simp: server_read_step_def split: sum.splits relay_wire.splits relay_ctrl.splits relay_data.splits)
    then show ?thesis by simp
  qed
qed

lemma client_step_sends:
  assumes "client_read_step pc p now (Inr (WsBinary b)) s = Some f"
  shows "\<exists>new. rl_out (flow_state f) = rl_out s @ new \<and> list_all (client_may_send pc p b) new"
proof (cases "\<exists>pid reason. decode_relay pc b = Inr (WireCtrl (PairClose pid reason))")
  case True
  then obtain pid reason s' where "close_pair pc pid reason s = Some s'" "f = Break s'"
    using assms by (auto simp: client_read_step_def)
  with close_pair_sends [of pc pid reason s s'] no_data_may(2) show ?thesis
    by (fastforce simp: list_all_iff)
next
  case False
  then have "client_read_step pc p now (Inr (WsBinary b)) s =
      (let s1 = s\<lparr>rl_pairs := pairs_touch now (p_pair_id p) (rl_pairs s)\<rparr> in
       case encode_data_frame pc (Forward (p_pair_id p) b) of
         None \<Rightarrow> None
       | Some f \<Rightarrow> (case send_server_msg (p_server_tx p) (MsgData f) s1 of
            Inl e \<Rightarrow> Some (Fail e s1) | Inr s' \<Rightarrow> Some (Continue s')))"
    by (auto simp: client_read_step_def split: sum.splits relay_wire.splits relay_ctrl.splits)
  with assms show ?thesis
    by (auto simp: Let_def send_server_msg_def split: option.splits if_splits)
qed


text \<open>A relay with one open pair.\<close>

definition sample_relay :: relay where
  "sample_relay = (relay_start (caps_new 2 3 10 100))\<lparr>rl_pairs := [(PairId 1, sample_pair 1 3)], rl_held := [PairId 1]\<rparr>"

lemma sample_relay_simps [simp]:
  "rl_pairs sample_relay = [(PairId 1, sample_pair 1 3)]" "rl_held sample_relay = [PairId 1]"
  "rl_out sample_relay = []" "rl_live sample_relay = (\<lambda>_. True)"
  "pairs_get (PairId 1) [(PairId 1, p)] = Some p"
  "p_server_id (sample_pair n t) = ServerId 1" "p_client_tx (sample_pair n t) = 2"
  "p_server_tx (sample_pair n t) = 1" "p_pair_id (sample_pair n t) = PairId n"
  by (simp_all add: sample_relay_def relay_start_def pairs_get_def hm_get_def sample_pair_def pair_new_def)


section \<open>Traffic arrives unchanged\<close>

lemma queued_for_append: "queued_for tx (xs @ ys) = queued_for tx xs @ queued_for tx ys"
  by (simp add: queued_for_def)

lemma server_forward_step:
  assumes "codec_ok pc" and "hm_get (rl_pairs s) pid = Some p" and "p_server_id p = sid"
    and "rl_live s (p_client_tx p)" and "decode_relay pc f = Inr (WireData (Forward pid payload))"
  obtains g where "encode_data_frame pc (Forward pid payload) = Some g"
      "decode_relay pc g = Inr (WireData (Forward pid payload))"
      "server_read_step pc sid tx now (Inr (WsBinary f)) s =
         Some (Continue (s\<lparr>rl_pairs := pairs_touch now pid (rl_pairs s),
                           rl_out := rl_out s @ [(p_client_tx p, MsgData g)]\<rparr>))"
proof -
  obtain g where g: "encode_data_frame pc (Forward pid payload) = Some g"
      "decode_relay pc g = Inr (WireData (Forward pid payload))"
    using data_frame_back [OF assms(1)] by blast
  then show thesis
    using assms by (intro that [of g]) (simp_all add: server_read_step_def pairs_get_def send_server_msg_def Let_def)
qed

lemma get_touch:
  "hm_get m pid = Some p \<Longrightarrow> hm_get (pairs_touch now pid m) pid = Some (pair_touch now p)"
  by (simp add: pairs_touch_def hm_simps)

text \<open>
  C3. Server to client, end to end: however many frames a server sends for one of its
  pairs while the client's writer is there, the read loop accepts all of them, and the
  client's writer puts exactly their payloads on the client's socket, in order; the pair
  stays open and its idle clock is reset by the last frame.
\<close>

theorem server_payloads_delivered:
  assumes "codec_ok pc" and "hm_get (rl_pairs s) pid = Some p" and "p_server_id p = sid"
    and "rl_live s (p_client_tx p)"
    and "list_all2 (\<lambda>(now, f) b. decode_relay pc f = Inr (WireData (Forward pid b))) frames payloads"
  shows "\<exists>s' new.
     server_read_loop pc sid tx (map (\<lambda>(now, f). (now, Inr (WsBinary f))) frames @ rest) s =
       server_read_loop pc sid tx rest s' \<and>
     rl_out s' = rl_out s @ new \<and>
     client_writer_loop pc (length payloads) (queued_for (p_client_tx p) new) = (map WsBinary payloads, False) \<and>
     hm_get (rl_pairs s') pid =
       Some (if frames = [] then p else pair_touch (fst (last frames)) p)"
  using assms(2-5)
proof (induction frames arbitrary: s p payloads)
  case Nil
  then show ?case by (auto simp: queued_for_def intro!: exI [of _ s])
next
  case (Cons nf frames)
  obtain now f where nf: "nf = (now, f)" by (cases nf)
  from Cons.prems nf obtain b bs where p: "payloads = b # bs"
      "decode_relay pc f = Inr (WireData (Forward pid b))"
      "list_all2 (\<lambda>(now, f) b. decode_relay pc f = Inr (WireData (Forward pid b))) frames bs"
    by (auto simp: list_all2_Cons1)
  obtain g where g: "decode_relay pc g = Inr (WireData (Forward pid b))"
     "server_read_step pc sid tx now (Inr (WsBinary f)) s =
         Some (Continue (s\<lparr>rl_pairs := pairs_touch now pid (rl_pairs s),
                           rl_out := rl_out s @ [(p_client_tx p, MsgData g)]\<rparr>))"
    using server_forward_step [OF assms(1) Cons.prems(1,2,3) p(2)] by metis
  let ?s = "s\<lparr>rl_pairs := pairs_touch now pid (rl_pairs s), rl_out := rl_out s @ [(p_client_tx p, MsgData g)]\<rparr>"
  have tx: "p_client_tx (pair_touch now p) = p_client_tx p" by (simp add: pair_touch_def)
  obtain s' new where ih:
     "server_read_loop pc sid tx (map (\<lambda>(now, f). (now, Inr (WsBinary f))) frames @ rest) ?s =
       server_read_loop pc sid tx rest s'"
     "rl_out s' = rl_out ?s @ new"
     "client_writer_loop pc (length bs) (queued_for (p_client_tx p) new) = (map WsBinary bs, False)"
     "hm_get (rl_pairs s') pid =
       Some (if frames = [] then pair_touch now p else pair_touch (fst (last frames)) (pair_touch now p))"
    using Cons.IH [of ?s "pair_touch now p" bs] Cons.prems p(3)
    by (simp add: tx get_touch) (fastforce simp: pair_touch_def)
  have "client_writer_loop pc (length payloads) (queued_for (p_client_tx p) ((p_client_tx p, MsgData g) # new))
      = (map WsBinary payloads, False)"
    using ih(3) g(1) p(1) by (simp add: queued_for_def)
  then show ?case
    using ih g(2) nf
    by (intro exI [of _ s'] exI [of _ "(p_client_tx p, MsgData g) # new"]) (simp add: pair_touch_def)
qed

text \<open>A client payload: a binary message that does not decode as a control message to close.\<close>

definition is_payload :: "postcard \<Rightarrow> bytes \<Rightarrow> bool" where
  "is_payload pc b \<longleftrightarrow> (case decode_relay pc b of Inr (WireCtrl (PairClose _ _)) \<Rightarrow> False | _ \<Rightarrow> True)"

lemma client_forward_step:
  assumes "codec_ok pc" and "is_payload pc b" and "rl_live s (p_server_tx p)"
  obtains g where "decode_relay pc g = Inr (WireData (Forward (p_pair_id p) b))"
      "client_read_step pc p now (Inr (WsBinary b)) s =
         Some (Continue (s\<lparr>rl_pairs := pairs_touch now (p_pair_id p) (rl_pairs s),
                           rl_out := rl_out s @ [(p_server_tx p, MsgData g)]\<rparr>))"
proof -
  obtain g where g: "encode_data_frame pc (Forward (p_pair_id p) b) = Some g"
      "decode_relay pc g = Inr (WireData (Forward (p_pair_id p) b))"
    using data_frame_back [OF assms(1)] by blast
  then show thesis
    using assms(2,3) that [of g]
    by (auto simp: client_read_step_def is_payload_def send_server_msg_def Let_def
        split: sum.splits relay_wire.splits relay_ctrl.splits)
qed

text \<open>
  C4. Client to server, end to end: the payloads a client sends while its server's writer
  is there are all forwarded, in order, and what the server's socket carries for them are
  frames that the daemon decodes to exactly those payloads under the pair's identifier.
\<close>

theorem client_payloads_delivered:
  assumes "codec_ok pc" and "list_all (is_payload pc) payloads" and "rl_live s (p_server_tx p)"
  shows "\<exists>s' new fs.
     client_read_loop pc p (map (\<lambda>b. (now, Inr (WsBinary b))) payloads @ rest) s = client_read_loop pc p rest s' \<and>
     rl_out s' = rl_out s @ new \<and>
     writer_loop (length payloads) (queued_for (p_server_tx p) new) = (map WsBinary fs, False) \<and>
     map (decode_relay pc) fs = map (\<lambda>b. Inr (WireData (Forward (p_pair_id p) b))) payloads"
  using assms(2,3)
proof (induction payloads arbitrary: s)
  case Nil
  then show ?case by (auto simp: queued_for_def intro!: exI [of _ s])
next
  case (Cons b bs)
  obtain g where g: "decode_relay pc g = Inr (WireData (Forward (p_pair_id p) b))"
      "client_read_step pc p now (Inr (WsBinary b)) s =
         Some (Continue (s\<lparr>rl_pairs := pairs_touch now (p_pair_id p) (rl_pairs s),
                           rl_out := rl_out s @ [(p_server_tx p, MsgData g)]\<rparr>))"
    using client_forward_step [OF assms(1), of b s p now] Cons.prems by (metis list.pred_inject(2))
  let ?s = "s\<lparr>rl_pairs := pairs_touch now (p_pair_id p) (rl_pairs s),
              rl_out := rl_out s @ [(p_server_tx p, MsgData g)]\<rparr>"
  obtain s' new fs where ih:
     "client_read_loop pc p (map (\<lambda>b. (now, Inr (WsBinary b))) bs @ rest) ?s = client_read_loop pc p rest s'"
     "rl_out s' = rl_out ?s @ new"
     "writer_loop (length bs) (queued_for (p_server_tx p) new) = (map WsBinary fs, False)"
     "map (decode_relay pc) fs = map (\<lambda>b. Inr (WireData (Forward (p_pair_id p) b))) bs"
    using Cons.IH [of ?s] Cons.prems by auto
  have "writer_loop (length (b # bs)) (queued_for (p_server_tx p) ((p_server_tx p, MsgData g) # new)) =
      (map WsBinary (g # fs), False)"
    using ih(3) by (simp add: queued_for_def)
  then show ?case
    using ih g by (intro exI [of _ s'] exI [of _ "(p_server_tx p, MsgData g) # new"] exI [of _ "g # fs"]) simp
qed

theorem server_payloads_delivered_witness:
  "\<exists>f g s' new. server_read_loop unary_postcard (ServerId 1) 1 [(4, Inr (WsBinary f)), (6, Inr (WsBinary g))] sample_relay =
       server_read_loop unary_postcard (ServerId 1) 1 [] s' \<and> rl_out s' = new \<and>
     client_writer_loop unary_postcard 2 (queued_for 2 new) = ([WsBinary [7], WsBinary []], False)"
proof -
  let ?pc = unary_postcard
  obtain f where f: "decode_relay ?pc f = Inr (WireData (Forward (PairId 1) [7]))"
    using data_frame_back [OF unary_postcard_ok] by blast
  obtain g where g: "decode_relay ?pc g = Inr (WireData (Forward (PairId 1) []))"
    using data_frame_back [OF unary_postcard_ok] by blast
  have p: "hm_get (rl_pairs sample_relay) (PairId 1) = Some (sample_pair 1 3)" by (simp add: hm_get_def)
  show ?thesis
    using server_payloads_delivered [OF unary_postcard_ok p, of "ServerId 1" "[(4, f), (6, g)]" "[[7], []]" 1 "[]"] f g
    by (simp add: numeral_2_eq_2) blast
qed

theorem client_payloads_delivered_witness:
  "\<exists>s' new fs. client_read_loop unary_postcard (sample_pair 1 3) [(4, Inr (WsBinary [])), (4, Inr (WsBinary [3, 4]))] sample_relay =
       Some (Inr (), s') \<and> rl_out s' = new \<and>
     writer_loop 2 (queued_for 1 new) = (map WsBinary fs, False) \<and>
     map (decode_relay unary_postcard) fs =
       [Inr (WireData (Forward (PairId 1) [])), Inr (WireData (Forward (PairId 1) [3, 4]))]"
proof -
  have "list_all (is_payload unary_postcard) [[], [3, 4]]"
    by (simp add: is_payload_def RELAY_DISC_CTRL_def RELAY_DISC_DATA_def)
  from client_payloads_delivered [OF unary_postcard_ok this, of sample_relay "sample_pair 1 3" 4 "[]"]
  show ?thesis by (simp add: numeral_2_eq_2)
qed

section \<open>A server leaves\<close>

lemma close_pair_total: "codec_ok pc \<Longrightarrow> \<exists>s'. close_pair pc pid reason s = Some s'"
  using ctrl_frame_back [of pc "PairClose pid reason"]
  by (auto simp: close_pair_def pairs_remove_def split: option.splits)

lemma close_pair_get:
  "close_pair pc pid reason s = Some s' \<Longrightarrow> hm_get (rl_pairs s') = (hm_get (rl_pairs s))(pid := None)"
  by (erule close_pair_cases) (auto simp: hm_simps)

lemma close_pair_live: "close_pair pc pid reason s = Some s' \<Longrightarrow> rl_live s' = rl_live s"
  by (erule close_pair_cases) simp_all

lemma close_pair_tells:
  assumes "codec_ok pc" and "close_pair pc pid reason s = Some s'" and "hm_get (rl_pairs s) pid = Some p"
    and "rl_live s (p_client_tx p)"
  shows "\<exists>f. (p_client_tx p, MsgCtrl f) \<in> set (rl_out s') \<and> decode_relay pc f = Inr (WireCtrl (PairClose pid reason))"
proof -
  obtain f where f: "encode_ctrl_frame pc (PairClose pid reason) = Some f"
      "decode_relay pc f = Inr (WireCtrl (PairClose pid reason))"
    using ctrl_frame_back [OF assms(1)] by blast
  from assms(2) have "rl_out s' = rl_out s @ send_to (rl_live s) (p_server_tx p) (MsgCtrl f) @ [(p_client_tx p, MsgCtrl f)]"
    using assms(3,4) f(1) by (auto elim!: close_pair_cases simp: send_ignoring_def send_to_def)
  with f show ?thesis by auto
qed

lemma close_pair_keeps_out: "close_pair pc pid reason s = Some s' \<Longrightarrow> set (rl_out s) \<subseteq> set (rl_out s')"
  by (auto dest!: close_pair_sends)

lemma close_pairs_wf: "close_pairs pc reason pids s = Some s' \<Longrightarrow> pairs_wf (rl_pairs s) \<Longrightarrow> pairs_wf (rl_pairs s')"
proof (induction pids arbitrary: s)
  case Nil
  then show ?case by simp
next
  case (Cons pid pids)
  then obtain t where t: "close_pair pc pid reason s = Some t" "close_pairs pc reason pids t = Some s'"
    by (auto split: option.splits)
  from t(1) have "pairs_wf (rl_pairs t)"
    by (rule close_pair_cases) (use Cons.prems(2) pairs_wf_remove [of "rl_pairs s" pid] in \<open>simp_all add: pairs_remove_def\<close>)
  with Cons.IH t(2) show ?case by blast
qed

lemma close_pairs_all:
  assumes "codec_ok pc" and "distinct pids"
  shows "\<exists>s'. close_pairs pc reason pids s = Some s' \<and> set (rl_out s) \<subseteq> set (rl_out s') \<and>
     (\<forall>k. hm_get (rl_pairs s') k = (if k \<in> set pids then None else hm_get (rl_pairs s) k)) \<and>
     (\<forall>pid \<in> set pids. \<forall>p. hm_get (rl_pairs s) pid = Some p \<longrightarrow> rl_live s (p_client_tx p) \<longrightarrow>
        (\<exists>f. (p_client_tx p, MsgCtrl f) \<in> set (rl_out s') \<and>
             decode_relay pc f = Inr (WireCtrl (PairClose pid reason))))"
  using assms(2)
proof (induction pids arbitrary: s)
  case Nil
  then show ?case by simp
next
  case (Cons pid pids)
  obtain t where t: "close_pair pc pid reason s = Some t" using close_pair_total [OF assms(1)] by blast
  obtain s' where s': "close_pairs pc reason pids t = Some s'" "set (rl_out t) \<subseteq> set (rl_out s')"
     "\<forall>k. hm_get (rl_pairs s') k = (if k \<in> set pids then None else hm_get (rl_pairs t) k)"
     "\<forall>pid \<in> set pids. \<forall>p. hm_get (rl_pairs t) pid = Some p \<longrightarrow> rl_live t (p_client_tx p) \<longrightarrow>
        (\<exists>f. (p_client_tx p, MsgCtrl f) \<in> set (rl_out s') \<and>
             decode_relay pc f = Inr (WireCtrl (PairClose pid reason)))"
    using Cons.IH [of t] Cons.prems by auto
  have "hm_get (rl_pairs t) k = hm_get (rl_pairs s) k" if "k \<in> set pids" for k
    using that Cons.prems close_pair_get [OF t] by auto
  moreover have "\<exists>f. (p_client_tx p, MsgCtrl f) \<in> set (rl_out s') \<and>
      decode_relay pc f = Inr (WireCtrl (PairClose pid reason))"
    if "hm_get (rl_pairs s) pid = Some p" "rl_live s (p_client_tx p)" for p
    using close_pair_tells [OF assms(1) t that] s'(2) by blast
  ultimately show ?case
    using t s' close_pair_get [OF t] close_pair_live [OF t] close_pair_keeps_out [OF t]
    by (intro exI [of _ s']) auto
qed

text \<open>
  A server that leaves in an orderly way (a close message, or the end of its stream)
  leaves nothing behind: none of its pairs stays in the map, every pair of another server
  stays as it was, and the client of each of its pairs is told that the server is gone.
\<close>

lemma server_leaves_cleanly:
  assumes "codec_ok pc" and "pairs_wf (rl_pairs s)"
  shows "\<exists>s'. server_read_loop pc sid tx [(now, Inr WsClose)] s = Some (Inr (), s') \<and>
     server_read_loop pc sid tx [] s = Some (Inr (), s') \<and>
     affected_pairs sid (rl_pairs s') = [] \<and>
     (\<forall>pid p. pairs_get pid (rl_pairs s) = Some p \<longrightarrow>
        (if p_server_id p = sid
         then rl_live s (p_client_tx p) \<longrightarrow>
           (\<exists>f. (p_client_tx p, MsgCtrl f) \<in> set (rl_out s') \<and>
                decode_relay pc f = Inr (WireCtrl (PairClose pid ServerGone)))
         else pairs_get pid (rl_pairs s') = Some p))"
proof -
  let ?t = "send_ignoring tx MsgClose s"
  let ?ids = "affected_pairs sid (rl_pairs s)"
  have ids: "pid \<in> set ?ids \<longleftrightarrow> (\<exists>p. hm_get (rl_pairs s) pid = Some p \<and> p_server_id p = sid)" for pid
    using assms(2) by (force simp: affected_pairs_def list_for_sweep_def hm_values_def pairs_wf_def hm_get_Some)
  have "distinct ?ids"
    using guillotine.lst_distinct [OF assms(2)] unfolding affected_pairs_def by (rule distinct_map_filter)
  from close_pairs_all [OF assms(1) this, of ServerGone ?t] obtain s' where
     s': "close_pairs pc ServerGone ?ids ?t = Some s'"
     "\<forall>k. hm_get (rl_pairs s') k = (if k \<in> set ?ids then None else hm_get (rl_pairs s) k)"
     "\<forall>pid \<in> set ?ids. \<forall>p. hm_get (rl_pairs s) pid = Some p \<longrightarrow> rl_live s (p_client_tx p) \<longrightarrow>
        (\<exists>f. (p_client_tx p, MsgCtrl f) \<in> set (rl_out s') \<and>
             decode_relay pc f = Inr (WireCtrl (PairClose pid ServerGone)))"
    by auto
  have e: "server_loop_end pc sid tx s = Some s'"
    using s'(1) by (simp add: server_loop_end_def)
  have wf: "pairs_wf (rl_pairs s')"
    using close_pairs_wf [OF s'(1)] assms(2) by simp
  have "affected_pairs sid (rl_pairs s') = []"
  proof (rule ccontr)
    assume "affected_pairs sid (rl_pairs s') \<noteq> []"
    then obtain p where "p \<in> set (list_for_sweep (rl_pairs s'))" "p_server_id p = sid"
      by (auto simp: affected_pairs_def filter_empty_conv)
    then obtain k where "hm_get (rl_pairs s') k = Some p"
      using wf by (auto simp: list_for_sweep_def hm_values_iff pairs_wf_def)
    with s'(2) ids \<open>p_server_id p = sid\<close> show False by (auto split: if_splits)
  qed
  moreover have "server_read_loop pc sid tx [(now, Inr WsClose)] s = Some (Inr (), s')"
    "server_read_loop pc sid tx [] s = Some (Inr (), s')"
    using e by (simp_all add: server_read_step_def)
  ultimately show ?thesis
    using s'(2,3) ids by (intro exI [of _ s']) (auto simp: pairs_get_def)
qed

text \<open>
  Leaving by an error (a websocket error, a frame that is not binary or does not decode)
  closes nothing: the pairs of the server stay in the map until the sweeper finds them.
\<close>

lemma server_error_exit_keeps_pairs:
  "server_read_loop pc sid tx ((now, Inl e) # items) s = Some (Inl (ws_err e), s)"
  by (simp add: server_read_step_def)

text \<open>A client may close a pair that is not its own: only the identifier in the frame counts.\<close>

lemma client_closes_any_pair:
  assumes "decode_relay pc b = Inr (WireCtrl (PairClose other reason))" and "other \<noteq> p_pair_id p"
    and "close_pair pc other reason s = Some s'"
  shows "client_read_step pc p now (Inr (WsBinary b)) s = Some (Break s') \<and> hm_get (rl_pairs s') other = None"
  using assms close_pair_get [OF assms(3)] by (simp add: client_read_step_def)

text \<open>
  The relay can lose capacity for good: when a pair was closed by the other side and
  then its client closes the websocket, the client's task queues no further message; if
  the client's writer had written all it was sent, it waits on its queue for ever, since
  the task that waits for it still owns the queue's sender; the task never ends, and the
  pair's ticket, counted before, is still counted.
\<close>

lemma client_task_waits_forever:
  assumes "hm_get (rl_pairs s) (p_pair_id p) = None" and "p_pair_id p \<in> set (rl_held s)"
    and "client_writer_loop pc k (queued_for (p_client_tx p) (rl_out s)) = (written, False)"
  shows "\<exists>s'. client_read_loop pc p [(now, Inr WsClose)] s = Some (Inr (), s) \<and>
     close_pair pc (p_pair_id p) ClientGone s = Some s' \<and>
     client_writer_loop pc k (queued_for (p_client_tx p) (rl_out s')) = (written, False) \<and>
     p_pair_id p \<in> alive_pairs s' \<and> rl_caps s' = rl_caps s"
  using assms by (simp add: client_read_step_def close_pair_def pairs_remove_def alive_pairs_def)

end
