(* ===== verification/Wire_Snapshot.thy ===== *)
theory Wire_Snapshot
  imports Wire_Types
begin

text \<open>
  \<open>crates/shared/proto/src/snapshot.rs\<close>: the state of a terminal at a point of its output
  (an anchor) and the escape sequences that put a fresh terminal into that state. A
  string under construction is its bytes; numbers are written in decimal by \<open>decimal\<close>.
\<close>

unbundle bit_operations_syntax

section \<open>Types\<close>

datatype color = Palette u8 | Indexed u8 | Rgb u8 u8 u8

record sgr_attrs =
  sg_fg :: "color option"
  sg_bg :: "color option"
  sg_bold :: bool
  sg_faint :: bool
  sg_italic :: bool
  sg_underline :: bool
  sg_blink :: bool
  sg_reverse :: bool
  sg_strikethrough :: bool

datatype mouse_mode = MouseOff | MouseX10 | MouseNormal | MouseButtonEvent | MouseAnyEvent

record terminal_modes =
  tm_deccmm_cursor_keys :: bool
  tm_autowrap :: bool
  tm_alt_screen :: bool
  tm_bracketed_paste :: bool
  tm_mouse_reporting :: mouse_mode
  tm_origin_mode :: bool

record charset_state =
  cs_g :: "u8 list"
  cs_gl :: u8
  cs_gr :: u8

record anchor_state =
  an_cursor :: "u16 \<times> u16"
  an_sgr :: sgr_attrs
  an_modes :: terminal_modes
  an_charset :: charset_state
  an_title :: "bytes option"

record snapshot =
  sn_cols :: u16
  sn_rows :: u16
  sn_anchor_state :: anchor_state
  sn_bytes :: bytes
  sn_head_seq :: stream_seq

record delta_slice =
  ds_bytes :: bytes
  ds_head_seq :: stream_seq

definition sgr_default :: sgr_attrs where
  "sgr_default = \<lparr>sg_fg = None, sg_bg = None, sg_bold = False, sg_faint = False, sg_italic = False,
     sg_underline = False, sg_blink = False, sg_reverse = False, sg_strikethrough = False\<rparr>"

definition modes_default :: terminal_modes where
  "modes_default = \<lparr>tm_deccmm_cursor_keys = False, tm_autowrap = True, tm_alt_screen = False,
     tm_bracketed_paste = False, tm_mouse_reporting = MouseOff, tm_origin_mode = False\<rparr>"

definition charset_default :: charset_state where
  "charset_default = \<lparr>cs_g = [0x42, 0x42, 0x42, 0x42], cs_gl = 0, cs_gr = 0\<rparr>"

section \<open>Rendering\<close>

definition ascii :: "string \<Rightarrow> bytes" where
  "ascii s = map of_char s"

fun digits :: "nat \<Rightarrow> bytes" where
  "digits n = (if n < 10 then [0x30 + of_nat n] else digits (n div 10) @ [0x30 + of_nat (n mod 10)])"

declare digits.simps [simp del]

definition ESC :: u8 where "ESC = 0x1b"

fun join :: "bytes \<Rightarrow> bytes list \<Rightarrow> bytes" where
  "join sep [] = []"
| "join sep [x] = x"
| "join sep (x # xs) = x @ sep @ join sep xs"

definition color_params :: "color \<Rightarrow> bool \<Rightarrow> nat list" where
  "color_params color foreground =
     (case color of
        Palette index \<Rightarrow>
          (let base = (if foreground then (if index < 8 then 30 else 90)
                       else if index < 8 then 40 else 100)
           in [base + unat (index mod 8)])
      | Indexed index \<Rightarrow> [if foreground then 38 else 48, 5, unat index]
      | Rgb r g b \<Rightarrow> [if foreground then 38 else 48, 2, unat r, unat g, unat b])"

definition sgr_params :: "sgr_attrs \<Rightarrow> nat list" where
  "sgr_params sgr =
     (if sg_bold sgr then [1] else []) @
     (if sg_faint sgr then [2] else []) @
     (if sg_italic sgr then [3] else []) @
     (if sg_underline sgr then [4] else []) @
     (if sg_blink sgr then [5] else []) @
     (if sg_reverse sgr then [7] else []) @
     (if sg_strikethrough sgr then [9] else []) @
     (case sg_fg sgr of None \<Rightarrow> [] | Some fg \<Rightarrow> color_params fg True) @
     (case sg_bg sgr of None \<Rightarrow> [] | Some bg \<Rightarrow> color_params bg False)"

definition apply_sgr :: "sgr_attrs \<Rightarrow> bytes \<Rightarrow> bytes" where
  "apply_sgr sgr out =
     (let params = sgr_params sgr in
      if params = [] then out
      else out @ [ESC] @ ascii ''['' @ join (ascii '';'') (map digits params) @ ascii ''m'')"

definition set_private_mode :: "u16 \<times> bool \<Rightarrow> bytes \<Rightarrow> bytes" where
  "set_private_mode m out =
     (case m of (mode, enabled) \<Rightarrow>
        out @ [ESC] @ ascii ''[?'' @ digits (unat mode) @ (if enabled then ascii ''h'' else ascii ''l''))"

text \<open>The private modes \<open>apply_modes\<close> sets, in its order.\<close>

definition private_modes :: "terminal_modes \<Rightarrow> (u16 \<times> bool) list" where
  "private_modes modes =
     [(1, tm_deccmm_cursor_keys modes),
      (6, tm_origin_mode modes),
      (7, tm_autowrap modes),
      (1000, tm_mouse_reporting modes \<noteq> MouseOff),
      (1002, tm_mouse_reporting modes = MouseButtonEvent),
      (1003, tm_mouse_reporting modes = MouseAnyEvent),
      (1005, False),
      (1006, tm_mouse_reporting modes \<noteq> MouseOff),
      (1049, tm_alt_screen modes),
      (2004, tm_bracketed_paste modes)]"

definition apply_modes :: "terminal_modes \<Rightarrow> bytes \<Rightarrow> bytes" where
  "apply_modes modes out = fold set_private_mode (private_modes modes) out"

text \<open>\<open>String::push(char::from(b))\<close>: a byte above 127 becomes a two-byte character.\<close>

definition push_latin1 :: "u8 \<Rightarrow> bytes" where
  "push_latin1 b = (if b < 128 then [b] else [0xC0 OR (b div 64), 0x80 OR (b mod 64)])"

fun charset_designations :: "u8 list \<Rightarrow> nat \<Rightarrow> bytes" where
  "charset_designations [] index = []"
| "charset_designations (cs # rest) index =
     (case index of
        0 \<Rightarrow> [ESC] @ ascii ''('' @ push_latin1 cs
      | Suc 0 \<Rightarrow> [ESC] @ ascii '')'' @ push_latin1 cs
      | Suc (Suc 0) \<Rightarrow> [ESC] @ ascii ''*'' @ push_latin1 cs
      | Suc (Suc (Suc 0)) \<Rightarrow> [ESC] @ ascii ''+'' @ push_latin1 cs
      | _ \<Rightarrow> []) @ charset_designations rest (Suc index)"

definition apply_charset :: "charset_state \<Rightarrow> bytes \<Rightarrow> bytes" where
  "apply_charset charset out =
     out @ charset_designations (cs_g charset) 0 @
     (if cs_gl charset \<le> 3
      then [0x0f] @ (if cs_gl charset \<noteq> 0 then [ESC] @ ascii ''n'' else [])
      else [])"

definition render_prefix_from_anchor :: "anchor_state \<Rightarrow> bytes" where
  "render_prefix_from_anchor anchor =
     (let out = [ESC] @ ascii ''[0m'' @ [ESC] @ ascii ''[?25h'';
          out = apply_sgr (an_sgr anchor) out;
          out = apply_modes (an_modes anchor) out;
          out = apply_charset (an_charset anchor) out;
          row = sat_add (snd (an_cursor anchor)) 1;
          col = sat_add (fst (an_cursor anchor)) 1
      in out @ [ESC] @ ascii ''['' @ digits (unat row) @ ascii '';'' @ digits (unat col) @ ascii ''H'')"

end
