(* ===== verification/Pty_Parser.thy ===== *)
theory Pty_Parser
  imports Wire_Snapshot
begin

text \<open>
  \<open>crates/server/pty/src/parser.rs\<close>: the tracker that follows a terminal's output and
  knows the state a terminal would be in. The escape-sequence parser is the crate \<open>vte\<close>,
  a parameter: an initial state and a function that consumes one byte and reports the
  actions it dispatches. A Unicode character is its code point.
\<close>

section \<open>The parser's actions\<close>

datatype vte_action =
    VtePrint nat
  | VteExecute u8
  | VteHook
  | VtePut u8
  | VteUnhook
  | VteOsc "bytes list"
  | VteCsi "u16 list list" bytes u8
  | VteEsc bytes u8

record 'p vte =
  vte_new :: 'p
  vte_advance :: "'p \<Rightarrow> u8 \<Rightarrow> 'p \<times> vte_action list"

record tracker_state =
  ts_cursor_row :: u16
  ts_cursor_col :: u16
  ts_sgr :: sgr_attrs
  ts_modes :: terminal_modes
  ts_charset :: charset_state
  ts_title :: "bytes option"

record 'p tracker =
  tk_parser :: 'p
  tk_state :: tracker_state
  tk_at_safe_split :: bool

definition tracker_state_default :: tracker_state where
  "tracker_state_default = \<lparr>ts_cursor_row = 0, ts_cursor_col = 0, ts_sgr = sgr_default,
     ts_modes = modes_default, ts_charset = charset_default, ts_title = None\<rparr>"

section \<open>Parameters\<close>

definition first_param :: "u16 list list \<Rightarrow> u16 \<Rightarrow> u16" where
  "first_param params def =
     (case Option.bind (nth_opt params 0) (\<lambda>p. nth_opt p 0) of
        None \<Rightarrow> def | Some v \<Rightarrow> if v \<noteq> 0 then v else def)"

definition second_param :: "u16 list list \<Rightarrow> u16 \<Rightarrow> u16" where
  "second_param params def =
     (case Option.bind (nth_opt params 1) (\<lambda>p. nth_opt p 0) of
        None \<Rightarrow> def | Some v \<Rightarrow> if v \<noteq> 0 then v else def)"

text \<open>\<open>u8::try_from\<close>.\<close>

definition u8_of_u16 :: "u16 \<Rightarrow> u8 option" where
  "u8_of_u16 v = (if unat v < 256 then Some (ucast v) else None)"

definition palette_color :: "u16 \<Rightarrow> color option" where
  "palette_color v = map_option Palette (u8_of_u16 v)"

definition parse_osc_title :: "bytes list \<Rightarrow> bytes option" where
  "parse_osc_title params =
     (case params of
        [] \<Rightarrow> None
      | head # tail \<Rightarrow>
          if head \<noteq> ascii ''0'' \<and> head \<noteq> ascii ''2'' then None
          else from_utf8 (join (ascii '';'') tail))"

definition sub_u8 :: "u16 list \<Rightarrow> nat \<Rightarrow> u8 option" where
  "sub_u8 p i = Option.bind (nth_opt p i) u8_of_u16"

definition first_u8 :: "u16 list list \<Rightarrow> nat \<Rightarrow> u8 option" where
  "first_u8 items i = Option.bind (nth_opt items i) (\<lambda>p. sub_u8 p 0)"

definition parse_extended_color :: "u16 list list \<Rightarrow> nat \<Rightarrow> (color \<times> nat) option" where
  "parse_extended_color items index =
     Option.bind (nth_opt items index) (\<lambda>current.
       case nth_opt current 1 of
         Some v \<Rightarrow>
           if v = 5 then Option.bind (sub_u8 current 2) (\<lambda>i. Some (Indexed i, 1))
           else if v = 2 then
             Option.bind (sub_u8 current 2) (\<lambda>r. Option.bind (sub_u8 current 3) (\<lambda>g.
               Option.bind (sub_u8 current 4) (\<lambda>b. Some (Rgb r g b, 1))))
           else None
       | None \<Rightarrow>
           Option.bind (nth_opt items (index + 1)) (\<lambda>next. Option.bind (nth_opt next 0) (\<lambda>v.
             if v = 5 then Option.bind (first_u8 items (index + 2)) (\<lambda>i. Some (Indexed i, 3))
             else if v = 2 then
               Option.bind (first_u8 items (index + 2)) (\<lambda>r. Option.bind (first_u8 items (index + 3)) (\<lambda>g.
                 Option.bind (first_u8 items (index + 4)) (\<lambda>b. Some (Rgb r g b, 5))))
             else None)))"

section \<open>Select graphic rendition\<close>

text \<open>One round of the loop: the attributes and the number of further parameters consumed.\<close>

definition sgr_code :: "u16 list list \<Rightarrow> nat \<Rightarrow> sgr_attrs \<Rightarrow> sgr_attrs \<times> nat" where
  "sgr_code items index s =
     (let code = (case nth_opt (items ! index) 0 of None \<Rightarrow> 0 | Some c \<Rightarrow> c) in
      if code = 0 then (sgr_default, 0)
      else if code = 1 then (s\<lparr>sg_bold := True\<rparr>, 0)
      else if code = 2 then (s\<lparr>sg_faint := True\<rparr>, 0)
      else if code = 3 then (s\<lparr>sg_italic := True\<rparr>, 0)
      else if code = 4 then (s\<lparr>sg_underline := True\<rparr>, 0)
      else if code = 5 then (s\<lparr>sg_blink := True\<rparr>, 0)
      else if code = 7 then (s\<lparr>sg_reverse := True\<rparr>, 0)
      else if code = 9 then (s\<lparr>sg_strikethrough := True\<rparr>, 0)
      else if code = 21 \<or> code = 22 then (s\<lparr>sg_bold := False, sg_faint := False\<rparr>, 0)
      else if code = 23 then (s\<lparr>sg_italic := False\<rparr>, 0)
      else if code = 24 then (s\<lparr>sg_underline := False\<rparr>, 0)
      else if code = 25 then (s\<lparr>sg_blink := False\<rparr>, 0)
      else if code = 27 then (s\<lparr>sg_reverse := False\<rparr>, 0)
      else if code = 29 then (s\<lparr>sg_strikethrough := False\<rparr>, 0)
      else if 30 \<le> code \<and> code \<le> 37 then (s\<lparr>sg_fg := palette_color (code - 30)\<rparr>, 0)
      else if code = 39 then (s\<lparr>sg_fg := None\<rparr>, 0)
      else if 40 \<le> code \<and> code \<le> 47 then (s\<lparr>sg_bg := palette_color (code - 40)\<rparr>, 0)
      else if code = 49 then (s\<lparr>sg_bg := None\<rparr>, 0)
      else if 90 \<le> code \<and> code \<le> 97 then (s\<lparr>sg_fg := palette_color (code - 82)\<rparr>, 0)
      else if 100 \<le> code \<and> code \<le> 107 then (s\<lparr>sg_bg := palette_color (code - 92)\<rparr>, 0)
      else if code = 38 \<or> code = 48 then
        (case parse_extended_color items index of
           None \<Rightarrow> (s, 0)
         | Some (color, consumed) \<Rightarrow>
             (if code = 38 then s\<lparr>sg_fg := Some color\<rparr> else s\<lparr>sg_bg := Some color\<rparr>,
              consumed - 1))
      else (s, 0))"

function sgr_loop :: "u16 list list \<Rightarrow> nat \<Rightarrow> sgr_attrs \<Rightarrow> sgr_attrs" where
  "sgr_loop items index s =
     (if index < length items
      then (case sgr_code items index s of (s', extra) \<Rightarrow> sgr_loop items (index + extra + 1) s')
      else s)"
  by pat_completeness auto

termination
  by (relation "measure (\<lambda>(items, index, s). length items - index)") auto

declare sgr_loop.simps [simp del]

definition sgr :: "u16 list list \<Rightarrow> tracker_state \<Rightarrow> tracker_state" where
  "sgr params st =
     (if params = [] then st\<lparr>ts_sgr := sgr_default\<rparr> else st\<lparr>ts_sgr := sgr_loop params 0 (ts_sgr st)\<rparr>)"

section \<open>Cursor and modes\<close>

definition cursor_position :: "u16 list list \<Rightarrow> tracker_state \<Rightarrow> tracker_state" where
  "cursor_position params st =
     st\<lparr>ts_cursor_row := sat_sub (first_param params 1) 1,
        ts_cursor_col := sat_sub (second_param params 1) 1\<rparr>"

definition mode_one :: "bool \<Rightarrow> u16 \<Rightarrow> terminal_modes \<Rightarrow> terminal_modes" where
  "mode_one on m t =
     (if m = 1 then t\<lparr>tm_deccmm_cursor_keys := on\<rparr>
      else if m = 7 then t\<lparr>tm_autowrap := on\<rparr>
      else if m = 1049 then t\<lparr>tm_alt_screen := on\<rparr>
      else if m = 2004 then t\<lparr>tm_bracketed_paste := on\<rparr>
      else if m = 9 then t\<lparr>tm_mouse_reporting := if on then MouseX10 else MouseOff\<rparr>
      else if m = 1000 then t\<lparr>tm_mouse_reporting := if on then MouseNormal else MouseOff\<rparr>
      else if m = 1002 then t\<lparr>tm_mouse_reporting := if on then MouseButtonEvent else MouseOff\<rparr>
      else if m = 1003 then t\<lparr>tm_mouse_reporting := if on then MouseAnyEvent else MouseOff\<rparr>
      else if m = 6 then t\<lparr>tm_origin_mode := on\<rparr>
      else t)"

definition mode_set :: "u16 list list \<Rightarrow> bytes \<Rightarrow> bool \<Rightarrow> tracker_state \<Rightarrow> tracker_state" where
  "mode_set params intermediates on st =
     (if intermediates \<noteq> ascii ''?'' then st
      else st\<lparr>ts_modes := fold (\<lambda>p. mode_one on (case nth_opt p 0 of None \<Rightarrow> 0 | Some m \<Rightarrow> m))
                            params (ts_modes st)\<rparr>)"

text \<open>\<open>char::is_control\<close>: the categories C0 and C1 and DEL.\<close>

definition char_width :: "nat \<Rightarrow> u16" where
  "char_width c = (if c < 0x20 \<or> (0x7f \<le> c \<and> c \<le> 0x9f) then 0 else 1)"

section \<open>Dispatch\<close>

definition do_execute :: "u8 \<Rightarrow> tracker_state \<Rightarrow> tracker_state" where
  "do_execute b st =
     (if b = 0x0a then st\<lparr>ts_cursor_row := sat_add (ts_cursor_row st) 1, ts_cursor_col := 0\<rparr>
      else if b = 0x0d then st\<lparr>ts_cursor_col := 0\<rparr>
      else if b = 0x08 then st\<lparr>ts_cursor_col := sat_sub (ts_cursor_col st) 1\<rparr>
      else if b = 0x09 then st\<lparr>ts_cursor_col := sat_mul (ts_cursor_col st div 8 + 1) 8\<rparr>
      else st)"

definition csi_dispatch :: "u16 list list \<Rightarrow> bytes \<Rightarrow> u8 \<Rightarrow> tracker_state \<Rightarrow> tracker_state" where
  "csi_dispatch params intermediates action st =
     (if action = of_char (CHR ''m'') then sgr params st
      else if action = of_char (CHR ''H'') \<or> action = of_char (CHR ''f'') then cursor_position params st
      else if action = of_char (CHR ''A'') then st\<lparr>ts_cursor_row := sat_sub (ts_cursor_row st) (first_param params 1)\<rparr>
      else if action = of_char (CHR ''B'') then st\<lparr>ts_cursor_row := sat_add (ts_cursor_row st) (first_param params 1)\<rparr>
      else if action = of_char (CHR ''C'') then st\<lparr>ts_cursor_col := sat_add (ts_cursor_col st) (first_param params 1)\<rparr>
      else if action = of_char (CHR ''D'') then st\<lparr>ts_cursor_col := sat_sub (ts_cursor_col st) (first_param params 1)\<rparr>
      else if action = of_char (CHR ''E'') then
        st\<lparr>ts_cursor_row := sat_add (ts_cursor_row st) (first_param params 1), ts_cursor_col := 0\<rparr>
      else if action = of_char (CHR ''F'') then
        st\<lparr>ts_cursor_row := sat_sub (ts_cursor_row st) (first_param params 1), ts_cursor_col := 0\<rparr>
      else if action = of_char (CHR ''G'') then st\<lparr>ts_cursor_col := sat_sub (first_param params 1) 1\<rparr>
      else if action = of_char (CHR ''d'') then st\<lparr>ts_cursor_row := sat_sub (first_param params 1) 1\<rparr>
      else if action = of_char (CHR ''h'') then mode_set params intermediates True st
      else if action = of_char (CHR ''l'') then mode_set params intermediates False st
      else st)"

definition esc_dispatch :: "bytes \<Rightarrow> u8 \<Rightarrow> tracker_state \<Rightarrow> tracker_state" where
  "esc_dispatch intermediates byte st =
     (let designate = (\<lambda>i. st\<lparr>ts_charset := (ts_charset st)\<lparr>cs_g := (cs_g (ts_charset st))[i := byte]\<rparr>\<rparr>) in
      case intermediates of
        [marker] \<Rightarrow>
          if marker = of_char (CHR ''('') then designate 0
          else if marker = of_char (CHR '')'') then designate 1
          else if marker = of_char (CHR ''*'') then designate 2
          else if marker = of_char (CHR ''+'') then designate 3
          else st
      | _ \<Rightarrow> st)"

text \<open>The state and the safe-split flag after one action.\<close>

fun perform :: "vte_action \<Rightarrow> tracker_state \<times> bool \<Rightarrow> tracker_state \<times> bool" where
  "perform (VtePrint c) (st, _) = (st\<lparr>ts_cursor_col := sat_add (ts_cursor_col st) (char_width c)\<rparr>, True)"
| "perform (VteExecute b) (st, _) = (do_execute b st, True)"
| "perform VteHook (st, _) = (st, False)"
| "perform (VtePut b) (st, _) = (st, False)"
| "perform VteUnhook (st, _) = (st, True)"
| "perform (VteOsc params) (st, _) =
     (case parse_osc_title params of None \<Rightarrow> st | Some t \<Rightarrow> st\<lparr>ts_title := Some t\<rparr>, True)"
| "perform (VteCsi params intermediates action) (st, _) = (csi_dispatch params intermediates action st, True)"
| "perform (VteEsc intermediates byte) (st, _) = (esc_dispatch intermediates byte st, True)"

definition tracker_new :: "'p vte \<Rightarrow> 'p tracker" where
  "tracker_new v = \<lparr>tk_parser = vte_new v, tk_state = tracker_state_default, tk_at_safe_split = True\<rparr>"

definition advance_byte :: "'p vte \<Rightarrow> u8 \<Rightarrow> 'p tracker \<Rightarrow> 'p tracker" where
  "advance_byte v b t =
     (let (p, acts) = vte_advance v (tk_parser t) b;
          (st, safe) = fold perform acts (tk_state t, False)
      in \<lparr>tk_parser = p, tk_state = st, tk_at_safe_split = safe\<rparr>)"

definition advance :: "'p vte \<Rightarrow> bytes \<Rightarrow> 'p tracker \<Rightarrow> 'p tracker" where
  "advance v bs t = fold (advance_byte v) bs t"

definition snapshot_state :: "'p tracker \<Rightarrow> anchor_state" where
  "snapshot_state t =
     \<lparr>an_cursor = (ts_cursor_col (tk_state t), ts_cursor_row (tk_state t)),
      an_sgr = ts_sgr (tk_state t), an_modes = ts_modes (tk_state t),
      an_charset = ts_charset (tk_state t), an_title = ts_title (tk_state t)\<rparr>"

end
