(* ===== verification/Pty_Replay.thy ===== *)
theory Pty_Replay
  imports Pty_Parser
begin

text \<open>
  What replaying an anchor does. \<open>render_prefix_from_anchor\<close> (proto) writes the escape
  sequences that a client's terminal is fed before the retained output; here they are fed
  to the daemon's own tracker (pty), with the crate \<open>vte\<close> described by the behaviour of an
  ECMA-48 parser on the few forms the prefix uses.
\<close>

section \<open>Feeding bytes\<close>

fun vte_feed :: "'p vte \<Rightarrow> 'p \<Rightarrow> bytes \<Rightarrow> 'p \<times> vte_action list" where
  "vte_feed v p [] = (p, [])"
| "vte_feed v p (b # bs) =
     (let (q, acts) = vte_advance v p b; (q', acts') = vte_feed v q bs in (q', acts @ acts'))"

lemma vte_feed_append:
  "vte_feed v p (xs @ ys) =
     (let (q, acts) = vte_feed v p xs; (q', acts') = vte_feed v q ys in (q', acts @ acts'))"
  by (induction xs arbitrary: p) (auto simp: Let_def split: prod.splits)

lemma vte_feed_then:
  "vte_feed v p xs = (q, a) \<Longrightarrow> vte_feed v q ys = (r, b) \<Longrightarrow> vte_feed v p (xs @ ys) = (r, a @ b)"
  by (simp add: vte_feed_append)

definition perform_state :: "vte_action \<Rightarrow> tracker_state \<Rightarrow> tracker_state" where
  "perform_state a st = fst (perform a (st, False))"

lemma fst_perform: "fst (perform a (st, f)) = perform_state a st"
  by (cases a) (simp_all add: perform_state_def)

lemma fst_fold_perform: "fst (fold perform acts (st, f)) = fold perform_state acts st"
proof (induction acts arbitrary: st f)
  case Nil
  then show ?case by simp
next
  case (Cons a acts)
  obtain st' f' where p: "perform a (st, f) = (st', f')" by fastforce
  with fst_perform [of a st f] have "st' = perform_state a st" by simp
  with p Cons show ?case by simp
qed

lemma advance_feed:
  "vte_feed v (tk_parser t) bs = (p, acts) \<Longrightarrow>
     tk_parser (advance v bs t) = p \<and> tk_state (advance v bs t) = fold perform_state acts (tk_state t)"
proof (induction bs arbitrary: t p acts)
  case Nil
  then show ?case by (simp add: advance_def)
next
  case (Cons b bs)
  obtain q a1 where q: "vte_advance v (tk_parser t) b = (q, a1)" by fastforce
  obtain q' a2 where q': "vte_feed v q bs = (q', a2)" by fastforce
  obtain st f where st: "fold perform a1 (tk_state t, False) = (st, f)" by fastforce
  have "st = fold perform_state a1 (tk_state t)"
    using fst_fold_perform [of a1 "tk_state t" False] st by simp
  moreover have "advance v (b # bs) t = advance v bs \<lparr>tk_parser = q, tk_state = st, tk_at_safe_split = f\<rparr>"
    using q st by (simp add: advance_def advance_byte_def)
  ultimately show ?case
    using Cons.IH [of "\<lparr>tk_parser = q, tk_state = st, tk_at_safe_split = f\<rparr>" q' a2] Cons.prems q q'
    by (auto simp: Let_def)
qed

section \<open>What the prefix needs of vte\<close>

definition csi_seq :: "bytes \<Rightarrow> nat list \<Rightarrow> u8 \<Rightarrow> bytes" where
  "csi_seq ims ps final = [ESC] @ ascii ''['' @ ims @ join (ascii '';'') (map digits ps) @ [final]"

definition csi_args :: "nat list \<Rightarrow> u16 list list" where
  "csi_args ps = map (\<lambda>n. [of_nat n]) ps"

definition emits :: "'p vte \<Rightarrow> ('p \<Rightarrow> bool) \<Rightarrow> bytes \<Rightarrow> vte_action list \<Rightarrow> bool" where
  "emits v ground bs acts \<longleftrightarrow>
     (\<forall>p. ground p \<longrightarrow> ground (fst (vte_feed v p bs)) \<and> snd (vte_feed v p bs) = acts)"

text \<open>
  In its ground state, which it starts in, the parser dispatches a control sequence of at
  most 32 parameters, with or without a private marker, a character set designation, and
  a single control character, and is in its ground state again.
\<close>

definition vte_ecma48 :: "'p vte \<Rightarrow> ('p \<Rightarrow> bool) \<Rightarrow> bool" where
  "vte_ecma48 v ground \<longleftrightarrow>
     ground (vte_new v) \<and>
     (\<forall>ims ps final. ims \<in> {[], ascii ''?''} \<and> ps \<noteq> [] \<and> length ps \<le> 32 \<and> (\<forall>n \<in> set ps. n < 65536) \<and>
        0x40 \<le> final \<and> final \<le> 0x7e \<longrightarrow>
        emits v ground (csi_seq ims ps final) [VteCsi (csi_args ps) ims final]) \<and>
     (\<forall>m b. m \<in> set (ascii ''()*+'') \<and> 0x30 \<le> b \<and> b \<le> 0x7e \<longrightarrow>
        emits v ground [ESC, m, b] [VteEsc [m] b]) \<and>
     emits v ground [0x0f] [VteExecute 0x0f]"

lemma emits_append:
  assumes "emits v ground xs a" and "emits v ground ys b"
  shows "emits v ground (xs @ ys) (a @ b)"
  unfolding emits_def
proof (intro allI impI)
  fix p assume g: "ground p"
  obtain q a' where q: "vte_feed v p xs = (q, a')" by fastforce
  obtain r b' where r: "vte_feed v q ys = (r, b')" by fastforce
  from assms(1) g q have "ground q" "a' = a" unfolding emits_def by (metis fst_conv, metis snd_conv)
  moreover from assms(2) \<open>ground q\<close> r have "ground r" "b' = b"
    unfolding emits_def by (metis fst_conv, metis snd_conv)
  ultimately show "ground (fst (vte_feed v p (xs @ ys))) \<and> snd (vte_feed v p (xs @ ys)) = a @ b"
    using q r by (simp add: vte_feed_append)
qed

lemma emits_Nil: "emits v ground [] []"
  by (simp add: emits_def)

section \<open>SGR parameters read back\<close>

lemma nth_opt_shift: "nth_opt (pre @ xs) (length pre + i) = nth_opt xs i"
  by (simp add: nth_opt_def)

lemma ext_color_shift: "parse_extended_color (pre @ xs) (length pre + i) = parse_extended_color xs i"
proof -
  have k: "nth_opt (pre @ xs) (length pre + i + k) = nth_opt xs (i + k)" for k
    using nth_opt_shift [of pre xs "i + k"] by (simp add: add.assoc)
  show ?thesis by (simp only: parse_extended_color_def first_u8_def nth_opt_shift k)
qed

lemma sgr_code_shift: "sgr_code (pre @ xs) (length pre + i) s = sgr_code xs i s"
proof -
  have "(pre @ xs) ! (length pre + i) = xs ! i" by simp
  then show ?thesis by (simp only: sgr_code_def ext_color_shift)
qed

lemma sgr_loop_shift: "sgr_loop (pre @ xs) (length pre + i) s = sgr_loop xs i s"
proof (induction xs i s rule: sgr_loop.induct)
  case (1 xs i s)
  show ?case
  proof (cases "i < length xs")
    case True
    obtain s' k where c: "sgr_code xs i s = (s', k)" by fastforce
    have "sgr_loop (pre @ xs) (length pre + i) s = sgr_loop (pre @ xs) (length pre + (i + k + 1)) s'"
      using True c by (simp add: sgr_loop.simps [of "pre @ xs" "length pre + i"] sgr_code_shift add.assoc)
    also have "\<dots> = sgr_loop xs (i + k + 1) s'" using 1 True c by force
    also have "\<dots> = sgr_loop xs i s" using True c by (simp add: sgr_loop.simps [of xs i])
    finally show ?thesis .
  next
    case False
    then show ?thesis by (simp add: sgr_loop.simps [of "pre @ xs"] sgr_loop.simps [of xs i])
  qed
qed

lemma sgr_loop_step:
  assumes "sgr_code (pre @ xs) 0 s = (s', k)" and "Suc k = length pre"
  shows "sgr_loop (pre @ xs) 0 s = sgr_loop xs 0 s'"
proof -
  have "0 < length (pre @ xs)" using assms(2) by (cases pre) simp_all
  then show ?thesis
    using assms sgr_loop_shift [of pre xs 0 s'] by (simp add: sgr_loop.simps [of "pre @ xs" 0])
qed

text \<open>Palette entries are the 16 standard colours.\<close>

fun color_ok :: "color \<Rightarrow> bool" where
  "color_ok (Palette i) = (i < 16)"
| "color_ok _ = True"

definition sgr_ok :: "sgr_attrs \<Rightarrow> bool" where
  "sgr_ok s \<longleftrightarrow> (\<forall>c. sg_fg s = Some c \<longrightarrow> color_ok c) \<and> (\<forall>c. sg_bg s = Some c \<longrightarrow> color_ok c)"

lemma csi_args_simps [simp]:
  "csi_args [] = []" "csi_args (n # ns) = [of_nat n] # csi_args ns"
  "csi_args (xs @ ys) = csi_args xs @ csi_args ys"
  by (simp_all add: csi_args_def)

lemma unat_ucast_u8 [simp]: "unat (ucast (b :: u8) :: u16) = unat b"
  using unat_lt_pow [of b] by (simp add: unsigned_ucast_eq take_bit_nat_eq_self)

lemma unat_ucast_u16: "unat (ucast (w :: u16) :: u8) = unat w mod 256"
  by (simp add: unsigned_ucast_eq take_bit_eq_mod)

lemma u8_of_ucast [simp]: "u8_of_u16 (ucast b) = Some b"
  using unat_lt_pow [of b] by (simp add: u8_of_u16_def word_eq_unat unat_ucast_u16)

lemma sgr_flag_steps:
  "sgr_loop ([1] # xs) 0 s = sgr_loop xs 0 (s\<lparr>sg_bold := True\<rparr>)"
  "sgr_loop ([2] # xs) 0 s = sgr_loop xs 0 (s\<lparr>sg_faint := True\<rparr>)"
  "sgr_loop ([3] # xs) 0 s = sgr_loop xs 0 (s\<lparr>sg_italic := True\<rparr>)"
  "sgr_loop ([4] # xs) 0 s = sgr_loop xs 0 (s\<lparr>sg_underline := True\<rparr>)"
  "sgr_loop ([5] # xs) 0 s = sgr_loop xs 0 (s\<lparr>sg_blink := True\<rparr>)"
  "sgr_loop ([7] # xs) 0 s = sgr_loop xs 0 (s\<lparr>sg_reverse := True\<rparr>)"
  "sgr_loop ([9] # xs) 0 s = sgr_loop xs 0 (s\<lparr>sg_strikethrough := True\<rparr>)"
  using sgr_loop_step [of "[[_]]" xs s _ 0] by (simp_all add: sgr_code_def)

lemma sgr_indexed_code:
  "sgr_code ([[38], [5], [ucast i]] @ xs) 0 s = (s\<lparr>sg_fg := Some (Indexed i)\<rparr>, 2)"
  "sgr_code ([[48], [5], [ucast i]] @ xs) 0 s = (s\<lparr>sg_bg := Some (Indexed i)\<rparr>, 2)"
  by (simp_all add: sgr_code_def parse_extended_color_def first_u8_def sub_u8_def nth_opt_def)

lemma sgr_rgb_code:
  "sgr_code ([[38], [2], [ucast r], [ucast g], [ucast b]] @ xs) 0 s = (s\<lparr>sg_fg := Some (Rgb r g b)\<rparr>, 4)"
  "sgr_code ([[48], [2], [ucast r], [ucast g], [ucast b]] @ xs) 0 s = (s\<lparr>sg_bg := Some (Rgb r g b)\<rparr>, 4)"
  by (simp_all add: sgr_code_def parse_extended_color_def first_u8_def sub_u8_def nth_opt_def)

lemma below_16:
  assumes "(i :: u8) < 16"
  shows "i \<in> set [0, 1, 2, 3, 4, 5, 6, 7, 8, 9, 10, 11, 12, 13, 14, 15]"
proof -
  have "unat i < 16" using assms by (simp add: word_less_nat_alt)
  then have "unat i = 0 \<or> unat i = 1 \<or> unat i = 2 \<or> unat i = 3 \<or> unat i = 4 \<or> unat i = 5 \<or> unat i = 6 \<or>
      unat i = 7 \<or> unat i = 8 \<or> unat i = 9 \<or> unat i = 10 \<or> unat i = 11 \<or> unat i = 12 \<or> unat i = 13 \<or>
      unat i = 14 \<or> unat i = 15" by arith
  then show ?thesis by (simp add: word_eq_unat)
qed

lemma sgr_palette_code:
  assumes "i < 16"
  shows "sgr_code (csi_args (color_params (Palette i) True) @ xs) 0 s = (s\<lparr>sg_fg := Some (Palette i)\<rparr>, 0)"
    and "sgr_code (csi_args (color_params (Palette i) False) @ xs) 0 s = (s\<lparr>sg_bg := Some (Palette i)\<rparr>, 0)"
  using below_16 [OF assms]
  by (auto simp: sgr_code_def color_params_def palette_color_def u8_of_u16_def)

lemma sgr_color_fg:
  assumes "color_ok c"
  shows "sgr_loop (csi_args (color_params c True) @ xs) 0 s = sgr_loop xs 0 (s\<lparr>sg_fg := Some c\<rparr>)"
proof (cases c)
  case (Palette i)
  with assms have "i < 16" by simp
  from sgr_loop_step [OF sgr_palette_code(1) [OF this]] show ?thesis
    by (simp add: Palette color_params_def)
next
  case (Indexed i)
  with sgr_loop_step [OF sgr_indexed_code(1) [of i xs s]] show ?thesis by (simp add: color_params_def)
next
  case (Rgb r g b)
  with sgr_loop_step [OF sgr_rgb_code(1) [of r g b xs s]] show ?thesis by (simp add: color_params_def)
qed

lemma sgr_color_bg:
  assumes "color_ok c"
  shows "sgr_loop (csi_args (color_params c False) @ xs) 0 s = sgr_loop xs 0 (s\<lparr>sg_bg := Some c\<rparr>)"
proof (cases c)
  case (Palette i)
  with assms have "i < 16" by simp
  from sgr_loop_step [OF sgr_palette_code(2) [OF this]] show ?thesis
    by (simp add: Palette color_params_def)
next
  case (Indexed i)
  with sgr_loop_step [OF sgr_indexed_code(2) [of i xs s]] show ?thesis by (simp add: color_params_def)
next
  case (Rgb r g b)
  with sgr_loop_step [OF sgr_rgb_code(2) [of r g b xs s]] show ?thesis by (simp add: color_params_def)
qed

lemma sgr_loop_Nil [simp]: "sgr_loop [] 0 s = s"
  by (simp add: sgr_loop.simps)

lemma sgr_params_back:
  assumes "sgr_ok a"
  shows "sgr_loop (csi_args (sgr_params a)) 0 sgr_default = a"
proof -
  have fg: "sgr_loop (csi_args (case sg_fg a of None \<Rightarrow> [] | Some fg \<Rightarrow> color_params fg True) @ xs) 0 s =
      sgr_loop xs 0 (s\<lparr>sg_fg := (case sg_fg a of None \<Rightarrow> sg_fg s | Some c \<Rightarrow> Some c)\<rparr>)" for xs s
    using assms by (auto simp: sgr_ok_def sgr_color_fg split: option.splits)
  have bg: "sgr_loop (csi_args (case sg_bg a of None \<Rightarrow> [] | Some bg \<Rightarrow> color_params bg False)) 0 s =
      s\<lparr>sg_bg := (case sg_bg a of None \<Rightarrow> sg_bg s | Some c \<Rightarrow> Some c)\<rparr>" for s
    using assms sgr_color_bg [of _ "[]" s] by (auto simp: sgr_ok_def split: option.splits)
  have flag: "sgr_loop (csi_args (if b then [n] else []) @ xs) 0 s =
      (if b then sgr_loop ([of_nat n] # xs) 0 s else sgr_loop xs 0 s)" for b n xs s
    by simp
  show ?thesis
    unfolding sgr_params_def csi_args_simps(3) flag
    by (simp add: sgr_flag_steps fg bg)
      (cases a, auto simp: sgr_default_def split: option.splits)
qed

section \<open>Modes and cursor read back\<close>

definition replayed_mouse :: "mouse_mode \<Rightarrow> mouse_mode" where
  "replayed_mouse m = (if m = MouseAnyEvent then MouseAnyEvent else MouseOff)"

lemma private_modes_back:
  "fold (\<lambda>(m, on). mode_one on m) (private_modes modes) t =
     modes\<lparr>tm_mouse_reporting := replayed_mouse (tm_mouse_reporting modes)\<rparr>"
  by (cases "tm_mouse_reporting modes"; cases modes; cases t)
    (simp_all add: private_modes_def mode_one_def replayed_mouse_def)

lemma of_nat_unat_u16 [simp]: "(of_nat (unat (m :: u16)) :: u16) = m"
  by (metis of_nat_unat ucast_id)

lemma cursor_back:
  assumes "r < 65535"
  shows "sat_sub (let x = sat_add r 1 in if x \<noteq> 0 then x else 1) 1 = (r :: u16)"
proof -
  have u: "unat r < 65535" using assms by (simp add: word_less_nat_alt)
  then have "unat (sat_add r 1) = Suc (unat r)" by (simp add: unat_simps)
  then have "sat_add r 1 \<noteq> 0" by auto
  then show ?thesis using \<open>unat (sat_add r 1) = Suc (unat r)\<close> by (simp add: word_eq_unat unat_simps)
qed

section \<open>The prefix as a sequence of actions\<close>

definition mode_seq :: "u16 \<times> bool \<Rightarrow> bytes" where
  "mode_seq m = (case m of (mode, on) \<Rightarrow>
     csi_seq (ascii ''?'') [unat mode] (if on then of_char (CHR ''h'') else of_char (CHR ''l'')))"

definition mode_action :: "u16 \<times> bool \<Rightarrow> vte_action" where
  "mode_action m = (case m of (mode, on) \<Rightarrow>
     VteCsi [[mode]] (ascii ''?'') (if on then of_char (CHR ''h'') else of_char (CHR ''l'')))"

definition designations :: "u8 list \<Rightarrow> vte_action list" where
  "designations g = map2 (\<lambda>m b. VteEsc [m] b) (ascii ''()*+'') g"

definition prefix_actions :: "anchor_state \<Rightarrow> vte_action list" where
  "prefix_actions an =
     [VteCsi [[0]] [] (of_char (CHR ''m''))] @ [mode_action (25, True)] @
     (if sgr_params (an_sgr an) = [] then []
      else [VteCsi (csi_args (sgr_params (an_sgr an))) [] (of_char (CHR ''m''))]) @
     map mode_action (private_modes (an_modes an)) @
     designations (cs_g (an_charset an)) @ [VteExecute 0x0f] @
     [VteCsi [[sat_add (snd (an_cursor an)) 1], [sat_add (fst (an_cursor an)) 1]] [] (of_char (CHR ''H''))]"

text \<open>The anchors a tracker can take, with the cursor short of the largest column and row.\<close>

definition anchor_ok :: "anchor_state \<Rightarrow> bool" where
  "anchor_ok an \<longleftrightarrow> sgr_ok (an_sgr an) \<and> fst (an_cursor an) < 65535 \<and> snd (an_cursor an) < 65535 \<and>
     length (cs_g (an_charset an)) = 4 \<and> list_all (\<lambda>b. 0x30 \<le> b \<and> b \<le> 0x7e) (cs_g (an_charset an)) \<and>
     cs_gl (an_charset an) = 0 \<and> cs_gr (an_charset an) = 0"

lemma apply_modes_seq: "apply_modes modes out = out @ concat (map mode_seq (private_modes modes))"
proof -
  have "fold set_private_mode ms out = out @ concat (map mode_seq ms)" for ms
    by (induction ms arbitrary: out)
      (auto simp: set_private_mode_def mode_seq_def csi_seq_def ascii_def split: prod.splits)
  then show ?thesis by (simp add: apply_modes_def)
qed

lemma charset_seq:
  "length g = 4 \<Longrightarrow> list_all (\<lambda>b. 0x30 \<le> b \<and> b \<le> 0x7e) g \<Longrightarrow>
     charset_designations g 0 = concat (map2 (\<lambda>m b. [ESC, m, b]) (ascii ''()*+'') g)"
proof -
  assume l: "length g = 4" and r: "list_all (\<lambda>b. 0x30 \<le> b \<and> b \<le> 0x7e) g"
  from l obtain a b c d where g: "g = [a, b, c, d]" by (auto simp: length_Suc_conv numeral_eq_Suc)
  have "x < 128" if "x \<le> 0x7e" for x :: u8 using that by unat_arith
  with r g show ?thesis by (simp add: push_latin1_def ascii_def)
qed

lemma render_prefix_seq:
  assumes "anchor_ok an"
  shows "render_prefix_from_anchor an =
     csi_seq [] [0] (of_char (CHR ''m'')) @ mode_seq (25, True) @
     (if sgr_params (an_sgr an) = [] then []
      else csi_seq [] (sgr_params (an_sgr an)) (of_char (CHR ''m''))) @
     concat (map mode_seq (private_modes (an_modes an))) @
     concat (map2 (\<lambda>m b. [ESC, m, b]) (ascii ''()*+'') (cs_g (an_charset an))) @ [0x0f] @
     csi_seq [] [unat (sat_add (snd (an_cursor an)) 1), unat (sat_add (fst (an_cursor an)) 1)] (of_char (CHR ''H''))"
proof -
  have d: "digits 0 = ascii ''0''" "digits 25 = ascii ''25''" by (simp_all add: digits.simps ascii_def)
  have g: "apply_charset (an_charset an) out =
      out @ concat (map2 (\<lambda>m b. [ESC, m, b]) (ascii ''()*+'') (cs_g (an_charset an))) @ [0x0f]" for out
    using assms by (simp add: apply_charset_def charset_seq anchor_ok_def)
  have s: "apply_sgr (an_sgr an) out = out @ (if sgr_params (an_sgr an) = [] then []
      else csi_seq [] (sgr_params (an_sgr an)) (of_char (CHR ''m'')))" for out
    by (simp add: apply_sgr_def Let_def csi_seq_def ascii_def)
  show ?thesis
    unfolding render_prefix_from_anchor_def Let_def s g apply_modes_seq
    by (simp add: csi_seq_def mode_seq_def d ascii_def)
qed

lemma emits_concat:
  "list_all2 (\<lambda>bs a. emits v ground bs [a]) bss acts \<Longrightarrow> emits v ground (concat bss) acts"
proof (induction bss acts rule: list_all2_induct)
  case Nil
  then show ?case by (simp add: emits_Nil)
next
  case (Cons bs bss a acts)
  then show ?case using emits_append [of v ground bs "[a]" "concat bss" acts] by simp
qed

lemma emits_csi:
  assumes "vte_ecma48 v ground" and "ims \<in> {[], ascii ''?''}" and "ps \<noteq> []" and "length ps \<le> 32"
    and "\<forall>n \<in> set ps. n < 65536" and "0x40 \<le> final" and "final \<le> 0x7e"
  shows "emits v ground (csi_seq ims ps final) [VteCsi (csi_args ps) ims final]"
  using assms unfolding vte_ecma48_def by blast

lemma unat_u16_lt: "unat (m :: u16) < 65536"
  using unat_lt_pow [of m] by simp

lemma emits_mode: "vte_ecma48 v ground \<Longrightarrow> emits v ground (mode_seq m) [mode_action m]"
  using emits_csi [of v ground "ascii ''?''" "[unat (fst m)]" "if snd m then of_char (CHR ''h'') else of_char (CHR ''l'')"]
  by (cases m) (simp add: mode_seq_def mode_action_def unat_u16_lt)

lemma color_params_bound:
  "length (color_params c f) \<le> 5" "n \<in> set (color_params c f) \<Longrightarrow> n < 65536"
proof -
  have u: "unat (b :: u8) < 256" for b using unat_lt_pow [of b] by simp
  show "length (color_params c f) \<le> 5"
    by (cases c) (simp_all add: color_params_def Let_def)
  assume n: "n \<in> set (color_params c f)"
  show "n < 65536"
  proof (cases c)
    case (Palette i)
    then have "n \<le> 100 + unat (i mod 8)" using n by (simp add: color_params_def split: if_splits)
    with u [of "i mod 8"] show ?thesis by linarith
  next
    case (Indexed i)
    with n u [of i] show ?thesis by (auto simp: color_params_def split: if_splits)
  next
    case (Rgb r g b)
    with n u [of r] u [of g] u [of b] show ?thesis by (auto simp: color_params_def split: if_splits)
  qed
qed

lemma sgr_params_bound:
  "length (sgr_params a) \<le> 17" "\<forall>n \<in> set (sgr_params a). n < 65536"
proof -
  have o: "length (case x of None \<Rightarrow> [] | Some y \<Rightarrow> color_params y f) \<le> 5"
    "\<forall>n \<in> set (case x of None \<Rightarrow> [] | Some y \<Rightarrow> color_params y f). n < 65536" for x f
    using color_params_bound by (auto split: option.splits)
  have b: "length (if c then [k :: nat] else []) \<le> 1" for c k by simp
  show "length (sgr_params a) \<le> 17"
    unfolding sgr_params_def length_append
    using o(1) [of True "sg_fg a"] o(1) [of False "sg_bg a"] b [of "sg_bold a" 1] b [of "sg_faint a" 2]
      b [of "sg_italic a" 3] b [of "sg_underline a" 4] b [of "sg_blink a" 5] b [of "sg_reverse a" 7]
      b [of "sg_strikethrough a" 9] by linarith
  have b: "\<forall>n \<in> set (if c then [k :: nat] else []). n < 65536" if "k < 65536" for c k using that by simp
  show "\<forall>n \<in> set (sgr_params a). n < 65536"
    unfolding sgr_params_def set_append ball_Un by (intro conjI o(2) b) simp_all
qed

lemma emits_prefix:
  assumes v: "vte_ecma48 v ground" and ok: "anchor_ok an"
  shows "emits v ground (render_prefix_from_anchor an) (prefix_actions an)"
proof -
  have m: "emits v ground (concat (map mode_seq ms)) (map mode_action ms)" for ms
    using emits_mode [OF v] by (intro emits_concat) (simp add: list_all2_conv_all_nth)
  have g: "emits v ground (concat (map2 (\<lambda>m b. [ESC, m, b]) (ascii ''()*+'') (cs_g (an_charset an))))
      (designations (cs_g (an_charset an)))"
  proof (unfold designations_def, intro emits_concat, unfold list_all2_conv_all_nth, intro conjI allI impI)
    fix i assume i: "i < length (map2 (\<lambda>m b. [ESC, m, b]) (ascii ''()*+'') (cs_g (an_charset an)))"
    have "cs_g (an_charset an) ! i \<in> set (cs_g (an_charset an))" "ascii ''()*+'' ! i \<in> set (ascii ''()*+'')"
      using i ok by (auto simp: anchor_ok_def intro!: nth_mem)
    with v ok i show "emits v ground (map2 (\<lambda>m b. [ESC, m, b]) (ascii ''()*+'') (cs_g (an_charset an)) ! i)
        [map2 (\<lambda>m b. VteEsc [m] b) (ascii ''()*+'') (cs_g (an_charset an)) ! i]"
      unfolding vte_ecma48_def anchor_ok_def list_all_iff by simp
  qed simp
  have si: "emits v ground [0x0f] [VteExecute 0x0f]" using v by (simp add: vte_ecma48_def)
  have s0: "emits v ground (csi_seq [] [0] (of_char (CHR ''m''))) [VteCsi [[0]] [] (of_char (CHR ''m''))]"
    using emits_csi [OF v, of "[]" "[0]" "of_char (CHR ''m'')"] by simp
  have s: "emits v ground (if sgr_params (an_sgr an) = [] then []
      else csi_seq [] (sgr_params (an_sgr an)) (of_char (CHR ''m'')))
    (if sgr_params (an_sgr an) = [] then []
      else [VteCsi (csi_args (sgr_params (an_sgr an))) [] (of_char (CHR ''m''))])"
    using emits_csi [OF v, of "[]" "sgr_params (an_sgr an)" "of_char (CHR ''m'')"]
      sgr_params_bound [of "an_sgr an"]
    by (simp add: emits_Nil)
  have h: "emits v ground (csi_seq [] [unat (sat_add (snd (an_cursor an)) 1), unat (sat_add (fst (an_cursor an)) 1)] (of_char (CHR ''H'')))
      [VteCsi [[sat_add (snd (an_cursor an)) 1], [sat_add (fst (an_cursor an)) 1]] [] (of_char (CHR ''H''))]"
    using emits_csi [OF v, of "[]" "[unat (sat_add (snd (an_cursor an)) 1), unat (sat_add (fst (an_cursor an)) 1)]"
       "of_char (CHR ''H'')"]
    by (simp add: unat_u16_lt)
  show ?thesis
    unfolding render_prefix_seq [OF ok] prefix_actions_def
    by (intro emits_append s0 emits_mode [OF v] s m g si h)
qed

section \<open>The prefix restores the anchor\<close>

lemma perform_mode_actions:
  "fold perform_state (map mode_action ms) st =
     st\<lparr>ts_modes := fold (\<lambda>(m, on). mode_one on m) ms (ts_modes st)\<rparr>"
proof (induction ms arbitrary: st)
  case Nil
  then show ?case by simp
next
  case (Cons m ms)
  obtain k on where m: "m = (k, on)" by (cases m)
  have "perform_state (mode_action m) st = st\<lparr>ts_modes := mode_one on k (ts_modes st)\<rparr>"
    by (simp add: m perform_state_def mode_action_def csi_dispatch_def mode_set_def)
  with Cons m show ?case by simp
qed

lemma perform_designations:
  assumes "length g = 4" and "length (cs_g (ts_charset st)) = 4"
  shows "fold perform_state (designations g) st = st\<lparr>ts_charset := (ts_charset st)\<lparr>cs_g := g\<rparr>\<rparr>"
proof -
  obtain a b c d where g: "g = [a, b, c, d]"
    using assms(1) by (auto simp: length_Suc_conv numeral_eq_Suc)
  obtain e f h i where s: "cs_g (ts_charset st) = [e, f, h, i]"
    using assms(2) by (auto simp: length_Suc_conv numeral_eq_Suc)
  show ?thesis
    by (simp add: g designations_def ascii_def perform_state_def esc_dispatch_def s)
qed

lemma perform_sgr:
  "perform_state (VteCsi ps [] 109) st = sgr ps st"
  by (simp add: perform_state_def csi_dispatch_def)

lemma sgr_reset: "sgr [[0]] st = st\<lparr>ts_sgr := sgr_default\<rparr>"
  using sgr_loop_step [of "[[0]]" "[]" "ts_sgr st" sgr_default 0] by (simp add: sgr_def sgr_code_def)


section \<open>A parser that meets the description\<close>

text \<open>A small ECMA-48 parser; it stands for no code and shows that the hypothesis can hold.\<close>

datatype mini = MiniGround | MiniEsc | MiniDesignate u8 | MiniCsi "nat list" nat bytes

fun mini_step :: "mini \<Rightarrow> u8 \<Rightarrow> mini \<times> vte_action list" where
  "mini_step MiniGround b =
     (if b = ESC then (MiniEsc, [])
      else if b < 0x20 then (MiniGround, [VteExecute b]) else (MiniGround, [VtePrint (unat b)]))"
| "mini_step MiniEsc b =
     (if b = 0x5b then (MiniCsi [] 0 [], [])
      else if b \<in> set (ascii ''()*+'') then (MiniDesignate b, []) else (MiniGround, [VteEsc [] b]))"
| "mini_step (MiniDesignate m) b = (MiniGround, [VteEsc [m] b])"
| "mini_step (MiniCsi ps n ims) b =
     (if 0x30 \<le> b \<and> b \<le> 0x39 then (MiniCsi ps (n * 10 + (unat b - 48)) ims, [])
      else if b = 0x3b then (MiniCsi (ps @ [n]) 0 ims, [])
      else if b < 0x40 then (MiniCsi ps n (ims @ [b]), [])
      else (MiniGround, [VteCsi (csi_args (ps @ [n])) ims b]))"

definition mini_vte :: "mini vte" where
  "mini_vte = \<lparr>vte_new = MiniGround, vte_advance = mini_step\<rparr>"

lemma mini_digit:
  assumes "d < 10"
  shows "mini_step (MiniCsi ps n ims) (0x30 + of_nat d) = (MiniCsi ps (n * 10 + d) ims, [])"
proof -
  have d8: "unat (of_nat d :: u8) = d" using assms by (simp add: unat_of_nat)
  then have "unat (0x30 + of_nat d :: u8) = 48 + d"
    using unat_plus_if_lt [of "0x30" "of_nat d :: u8"] assms by simp
  with assms show ?thesis by (simp add: word_le_nat_alt)
qed

lemma mini_digits: "vte_feed mini_vte (MiniCsi ps 0 ims) (digits n) = (MiniCsi ps n ims, [])"
proof (induction n rule: digits.induct)
  case (1 n)
  show ?case
  proof (cases "n < 10")
    case True
    with mini_digit [of n ps 0 ims] show ?thesis
      by (simp add: digits.simps [of n] mini_vte_def)
  next
    case False
    with 1 have "vte_feed mini_vte (MiniCsi ps 0 ims) (digits (n div 10)) = (MiniCsi ps (n div 10) ims, [])" by simp
    with False mini_digit [of "n mod 10" ps "n div 10" ims] show ?thesis
      by (simp add: digits.simps [of n] vte_feed_append mini_vte_def)
  qed
qed

lemma mini_params:
  "ps \<noteq> [] \<Longrightarrow> vte_feed mini_vte (MiniCsi acc 0 ims) (join (ascii '';'') (map digits ps)) =
     (MiniCsi (acc @ butlast ps) (last ps) ims, [])"
proof (induction ps arbitrary: acc)
  case Nil
  then show ?case by simp
next
  case (Cons n ps)
  show ?case
  proof (cases ps)
    case Nil
    then show ?thesis by (simp add: mini_digits)
  next
    case (Cons m ms)
    have semi: "vte_feed mini_vte (MiniCsi acc n ims) (ascii '';'') = (MiniCsi (acc @ [n]) 0 ims, [])"
      by (simp add: ascii_def mini_vte_def)
    have "join (ascii '';'') (map digits (n # ps)) = digits n @ ascii '';'' @ join (ascii '';'') (map digits ps)"
      by (simp add: Cons)
    with Cons.IH [of "acc @ [n]"] Cons semi show ?thesis
      by (simp add: vte_feed_append mini_digits del: join.simps)
  qed
qed

lemma mini_csi:
  assumes "ims \<in> {[], ascii ''?''}" and "ps \<noteq> []" and "0x40 \<le> final"
  shows "vte_feed mini_vte MiniGround (csi_seq ims ps final) = (MiniGround, [VteCsi (csi_args ps) ims final])"
proof -
  have 1: "vte_feed mini_vte MiniGround ([ESC] @ ascii ''['' @ ims) = (MiniCsi [] 0 ims, [])"
    using assms(1) by (auto simp: mini_vte_def ascii_def)
  have f: "\<not> final \<le> 0x39" "final \<noteq> 0x3b" "\<not> final < 0x40"
    using assms(3) by unat_arith+
  have 2: "vte_feed mini_vte (MiniCsi (butlast ps) (last ps) ims) [final] = (MiniGround, [VteCsi (csi_args ps) ims final])"
    using f assms(2) by (simp add: mini_vte_def del: not_less)
  have "csi_seq ims ps final = ([ESC] @ ascii ''['' @ ims) @ join (ascii '';'') (map digits ps) @ [final]"
    by (simp add: csi_seq_def)
  moreover have "vte_feed mini_vte (MiniCsi [] 0 ims) (join (ascii '';'') (map digits ps)) =
      (MiniCsi (butlast ps) (last ps) ims, [])"
    using mini_params [OF assms(2), of "[]" ims] by simp
  ultimately show ?thesis
    using vte_feed_then [OF 1 vte_feed_then [OF _ 2]] by simp
qed

lemma mini_vte_ok: "vte_ecma48 mini_vte (\<lambda>p. p = MiniGround)"
proof -
  have d: "vte_feed mini_vte MiniGround [ESC, m, b] = (MiniGround, [VteEsc [m] b])"
    if "m \<in> set (ascii ''()*+'')" for m b
    using that by (auto simp: mini_vte_def ascii_def)
  have "vte_feed mini_vte MiniGround [0x0f] = (MiniGround, [VteExecute 0x0f])"
    by (simp add: mini_vte_def ESC_def)
  with d mini_csi show ?thesis by (auto simp: vte_ecma48_def emits_def mini_vte_def)
qed

definition sample_anchor :: anchor_state where
  "sample_anchor = \<lparr>an_cursor = (4, 2),
     an_sgr = sgr_default\<lparr>sg_bold := True, sg_fg := Some (Palette 9), sg_bg := Some (Rgb 1 2 255)\<rparr>,
     an_modes = modes_default\<lparr>tm_mouse_reporting := MouseNormal, tm_alt_screen := True\<rparr>,
     an_charset = charset_default, an_title = None\<rparr>"


end
