(* ===== verification/Pty_Ring.thy ===== *)
theory Pty_Ring
  imports Pty_Parser
begin

text \<open>
  \<open>crates/server/pty/src/ring.rs\<close>: the scrollback of a terminal. It keeps a suffix of the
  terminal's output, which starts at an anchor: an offset at which the output may be cut
  together with the terminal state there. The deques are lists, offsets are 64-bit words.
  A panic (a drain past the end, a clamp with its bounds reversed) is \<open>None\<close>.
\<close>

section \<open>State\<close>

definition DEFAULT_CAPACITY_BYTES :: usize where "DEFAULT_CAPACITY_BYTES = 4 * 1024 * 1024"
definition DEFAULT_ANCHOR_INTERVAL :: usize where "DEFAULT_ANCHOR_INTERVAL = 64 * 1024"
definition MAX_CAPACITY_BYTES :: usize where "MAX_CAPACITY_BYTES = 64 * 1024 * 1024"

datatype ring_error = CapacityTooLarge usize

record anchor =
  ac_byte_offset :: u64
  ac_state :: anchor_state

record history_slice =
  hs_start_seq :: stream_seq
  hs_end_seq :: stream_seq
  hs_bytes :: bytes
  hs_has_more :: bool

record 'p ring =
  rb_bytes :: bytes
  rb_anchors :: "anchor list"
  rb_head_seq :: u64
  rb_tail_offset :: u64
  rb_tracker :: "'p tracker"
  rb_bytes_since_anchor :: usize
  rb_cap :: usize
  rb_anchor_interval :: usize
  rb_cols :: u16
  rb_rows :: u16

section \<open>Operations\<close>

definition offset_to_relative :: "u64 \<Rightarrow> u64 \<Rightarrow> nat" where
  "offset_to_relative offset tail_offset = unat (sat_sub offset tail_offset)"

definition maybe_place_anchor :: "'p ring \<Rightarrow> 'p ring" where
  "maybe_place_anchor r =
     (if rb_anchors r \<noteq> [] \<and> rb_bytes_since_anchor r < rb_anchor_interval r then r
      else if rb_anchors r \<noteq> [] \<and> \<not> tk_at_safe_split (rb_tracker r) then r
      else r\<lparr>rb_anchors := rb_anchors r @
               [\<lparr>ac_byte_offset = rb_head_seq r, ac_state = snapshot_state (rb_tracker r)\<rparr>],
             rb_bytes_since_anchor := 0\<rparr>)"

definition ring_new :: "'p vte \<Rightarrow> u16 \<Rightarrow> u16 \<Rightarrow> usize option \<Rightarrow> (ring_error, 'p ring) result" where
  "ring_new v cols rows capacity =
     (let cap = (case capacity of None \<Rightarrow> DEFAULT_CAPACITY_BYTES | Some c \<Rightarrow> c) in
      if MAX_CAPACITY_BYTES < cap then Inl (CapacityTooLarge cap)
      else Inr (maybe_place_anchor
        \<lparr>rb_bytes = [], rb_anchors = [], rb_head_seq = 0, rb_tail_offset = 0, rb_tracker = tracker_new v,
         rb_bytes_since_anchor = - 1, rb_cap = cap,
         rb_anchor_interval = min DEFAULT_ANCHOR_INTERVAL (max cap 1), rb_cols = cols, rb_rows = rows\<rparr>))"

definition ring_head_seq :: "'p ring \<Rightarrow> stream_seq" where
  "ring_head_seq r = StreamSeq (rb_head_seq r)"

definition ring_tail_seq :: "'p ring \<Rightarrow> stream_seq" where
  "ring_tail_seq r = StreamSeq (rb_tail_offset r)"

definition ring_dims :: "'p ring \<Rightarrow> u16 \<times> u16" where
  "ring_dims r = (rb_cols r, rb_rows r)"

definition ring_cursor :: "'p ring \<Rightarrow> u16 \<times> u16" where
  "ring_cursor r = an_cursor (snapshot_state (rb_tracker r))"

definition set_dims :: "u16 \<Rightarrow> u16 \<Rightarrow> 'p ring \<Rightarrow> 'p ring" where
  "set_dims cols rows r = r\<lparr>rb_cols := cols, rb_rows := rows\<rparr>"

definition eviction_target :: "'p ring \<Rightarrow> u64 option" where
  "eviction_target r =
     (case nth_opt (rb_anchors r) 1 of
        None \<Rightarrow> None
      | Some a \<Rightarrow> if rb_tail_offset r < ac_byte_offset a then Some (ac_byte_offset a) else None)"

fun drop_stale :: "u64 \<Rightarrow> anchor list \<Rightarrow> anchor list" where
  "drop_stale tail (a # b # rest) =
     (if ac_byte_offset b \<le> tail then drop_stale tail (b # rest) else a # b # rest)"
| "drop_stale tail anchors = anchors"

definition drop_stale_anchors :: "'p ring \<Rightarrow> 'p ring" where
  "drop_stale_anchors r = r\<lparr>rb_anchors := drop_stale (rb_tail_offset r) (rb_anchors r)\<rparr>"

text \<open>The eviction loop; \<open>drain(..n)\<close> panics when \<open>n\<close> exceeds the length.\<close>

function maybe_evict :: "'p ring \<Rightarrow> 'p ring option" where
  "maybe_evict r =
     (if unat (rb_cap r) < length (rb_bytes r) then
        (case eviction_target r of
           None \<Rightarrow> Some r
         | Some target \<Rightarrow>
             (let to_drop = offset_to_relative target (rb_tail_offset r) in
              if to_drop = 0 then Some r
              else if length (rb_bytes r) < to_drop then None
              else maybe_evict (drop_stale_anchors (r\<lparr>rb_bytes := drop to_drop (rb_bytes r),
                     rb_tail_offset := sat_add (rb_tail_offset r) (of_nat to_drop)\<rparr>))))
      else Some r)"
  by pat_completeness auto

termination
  by (relation "measure (\<lambda>r. length (rb_bytes r))") (auto simp: drop_stale_anchors_def)

declare maybe_evict.simps [simp del]

definition push_byte :: "'p vte \<Rightarrow> u8 \<Rightarrow> 'p ring \<Rightarrow> 'p ring option" where
  "push_byte v b r =
     maybe_evict (maybe_place_anchor
       (r\<lparr>rb_tracker := advance v [b] (rb_tracker r),
          rb_bytes := rb_bytes r @ [b],
          rb_head_seq := sat_add (rb_head_seq r) 1,
          rb_bytes_since_anchor := sat_add (rb_bytes_since_anchor r) 1\<rparr>))"

fun push :: "'p vte \<Rightarrow> bytes \<Rightarrow> 'p ring \<Rightarrow> 'p ring option" where
  "push v [] r = Some r"
| "push v (b # chunk) r = (case push_byte v b r of None \<Rightarrow> None | Some r' \<Rightarrow> push v chunk r')"

definition snapshot_from_anchor :: "'p ring \<Rightarrow> anchor \<Rightarrow> snapshot" where
  "snapshot_from_anchor r a =
     \<lparr>sn_cols = rb_cols r, sn_rows = rb_rows r, sn_anchor_state = ac_state a,
      sn_bytes = drop (offset_to_relative (ac_byte_offset a) (rb_tail_offset r)) (rb_bytes r),
      sn_head_seq = StreamSeq (rb_head_seq r)\<rparr>"

definition ring_snapshot :: "'p ring \<Rightarrow> snapshot" where
  "ring_snapshot r =
     snapshot_from_anchor r
       (case rb_anchors r of
          a # _ \<Rightarrow> a
        | [] \<Rightarrow> \<lparr>ac_byte_offset = rb_tail_offset r, ac_state = snapshot_state (rb_tracker r)\<rparr>)"

definition snapshot_with_max_bytes :: "usize \<Rightarrow> 'p ring \<Rightarrow> snapshot" where
  "snapshot_with_max_bytes max_bytes r =
     (case List.find (\<lambda>a. sat_sub (rb_head_seq r) (ac_byte_offset a) \<le> max_bytes) (rev (rb_anchors r)) of
        None \<Rightarrow>
          \<lparr>sn_cols = rb_cols r, sn_rows = rb_rows r, sn_anchor_state = snapshot_state (rb_tracker r),
           sn_bytes = [], sn_head_seq = StreamSeq (rb_head_seq r)\<rparr>
      | Some a \<Rightarrow> snapshot_from_anchor r a)"

definition since :: "stream_seq \<Rightarrow> 'p ring \<Rightarrow> delta_slice option" where
  "since sq r =
     (if seq_val sq < rb_tail_offset r then None
      else if rb_head_seq r < seq_val sq then None
      else Some \<lparr>ds_bytes = drop (offset_to_relative (seq_val sq) (rb_tail_offset r)) (rb_bytes r),
                 ds_head_seq = StreamSeq (rb_head_seq r)\<rparr>)"

definition clamp :: "u64 \<Rightarrow> u64 \<Rightarrow> u64 \<Rightarrow> u64 option" where
  "clamp lo hi x = (if hi < lo then None else Some (if x < lo then lo else if hi < x then hi else x))"

definition ring_history_page :: "stream_seq option \<Rightarrow> usize \<Rightarrow> 'p ring \<Rightarrow> history_slice option" where
  "ring_history_page before max_bytes r =
     (case clamp (rb_tail_offset r) (rb_head_seq r)
             (case before of None \<Rightarrow> rb_head_seq r | Some sq \<Rightarrow> seq_val sq) of
        None \<Rightarrow> None
      | Some end_offset \<Rightarrow>
          (let available = sat_sub end_offset (rb_tail_offset r);
               page_len = min available max_bytes;
               start_offset = sat_sub end_offset page_len;
               start_rel = offset_to_relative start_offset (rb_tail_offset r)
           in Some \<lparr>hs_start_seq = StreamSeq start_offset, hs_end_seq = StreamSeq end_offset,
                    hs_bytes = take (unat page_len) (drop start_rel (rb_bytes r)),
                    hs_has_more = rb_tail_offset r < start_offset\<rparr>))"

section \<open>The scrollback as a window on the whole output\<close>

definition tracked :: "'p vte \<Rightarrow> bytes \<Rightarrow> 'p tracker" where
  "tracked v S = advance v S (tracker_new v)"

definition anchor_true :: "'p vte \<Rightarrow> bytes \<Rightarrow> anchor \<Rightarrow> bool" where
  "anchor_true v S a \<longleftrightarrow>
     unat (ac_byte_offset a) \<le> length S \<and>
     ac_state a = snapshot_state (tracked v (take (unat (ac_byte_offset a)) S)) \<and>
     tk_at_safe_split (tracked v (take (unat (ac_byte_offset a)) S))"

definition offsets :: "'p ring \<Rightarrow> nat list" where
  "offsets r = map (\<lambda>a. unat (ac_byte_offset a)) (rb_anchors r)"

text \<open>\<open>S\<close> is everything the terminal has written.\<close>

definition window :: "'p vte \<Rightarrow> bytes \<Rightarrow> 'p ring \<Rightarrow> bool" where
  "window v S r \<longleftrightarrow>
     length S < 2 ^ 64 \<and> unat (rb_head_seq r) = length S \<and> unat (rb_tail_offset r) \<le> length S \<and>
     rb_bytes r = drop (unat (rb_tail_offset r)) S \<and> rb_tracker r = tracked v S \<and>
     rb_anchors r \<noteq> [] \<and> ac_byte_offset (hd (rb_anchors r)) = rb_tail_offset r \<and>
     sorted_wrt (<) (offsets r) \<and> list_all (anchor_true v S) (rb_anchors r) \<and>
     unat (rb_bytes_since_anchor r) = length S - last (offsets r) \<and>
     0 < rb_anchor_interval r \<and> rb_anchor_interval r \<le> max (rb_cap r) 1"

definition settled :: "'p ring \<Rightarrow> bool" where
  "settled r \<longleftrightarrow> length (rb_bytes r) \<le> unat (rb_cap r) \<or> length (rb_anchors r) = 1"

text \<open>No anchor is due.\<close>

definition spaced :: "'p ring \<Rightarrow> bool" where
  "spaced r \<longleftrightarrow> rb_bytes_since_anchor r < rb_anchor_interval r \<or> \<not> tk_at_safe_split (rb_tracker r)"

lemma tracked_snoc: "tracked v (S @ [b]) = advance v [b] (tracked v S)"
  by (simp add: tracked_def advance_def)

lemma anchor_true_mono: "anchor_true v S a \<Longrightarrow> anchor_true v (S @ xs) a"
  by (simp add: anchor_true_def)

lemma place_fields [simp]:
  "rb_tail_offset (maybe_place_anchor r) = rb_tail_offset r" "rb_cap (maybe_place_anchor r) = rb_cap r"
  "rb_bytes (maybe_place_anchor r) = rb_bytes r" "rb_tracker (maybe_place_anchor r) = rb_tracker r"
  "rb_anchor_interval (maybe_place_anchor r) = rb_anchor_interval r"
  by (simp_all add: maybe_place_anchor_def)

lemma window_new:
  assumes "ring_new v cols rows capacity = Inr r"
  shows "window v [] r \<and> settled r \<and> spaced r"
proof -
  have "0 < (min DEFAULT_ANCHOR_INTERVAL (max c 1) :: usize)" for c
    unfolding word_less_nat_alt by (simp add: DEFAULT_ANCHOR_INTERVAL_def unat_simps)
  moreover have "min DEFAULT_ANCHOR_INTERVAL (max c 1) \<le> max c 1" for c :: usize by simp
  ultimately show ?thesis
    using assms
    by (auto simp: ring_new_def Let_def maybe_place_anchor_def window_def settled_def spaced_def offsets_def anchor_true_def
        tracked_def advance_def tracker_new_def split: if_splits)
qed

lemma window_place:
  assumes pre: "length S < 2 ^ 64" "unat (rb_head_seq r) = length S" "unat (rb_tail_offset r) \<le> length S"
     "rb_bytes r = drop (unat (rb_tail_offset r)) S" "rb_tracker r = tracked v S" "rb_anchors r \<noteq> []"
     "ac_byte_offset (hd (rb_anchors r)) = rb_tail_offset r" "sorted_wrt (<) (offsets r)"
     "list_all (anchor_true v S) (rb_anchors r)"
     "unat (rb_bytes_since_anchor r) = length S - last (offsets r)"
     "0 < rb_anchor_interval r" "rb_anchor_interval r \<le> max (rb_cap r) 1"
  shows "window v S (maybe_place_anchor r)"
proof (cases "rb_bytes_since_anchor r < rb_anchor_interval r \<or> \<not> tk_at_safe_split (rb_tracker r)")
  case True
  then have "maybe_place_anchor r = r" using pre by (auto simp: maybe_place_anchor_def)
  with pre show ?thesis by (simp add: window_def)
next
  case False
  let ?a = "\<lparr>ac_byte_offset = rb_head_seq r, ac_state = snapshot_state (rb_tracker r)\<rparr>"
  have m: "maybe_place_anchor r = r\<lparr>rb_anchors := rb_anchors r @ [?a], rb_bytes_since_anchor := 0\<rparr>"
    using False by (simp add: maybe_place_anchor_def)
  have "0 < unat (rb_bytes_since_anchor r)" using False pre(11) by (auto simp: word_less_nat_alt)
  then have lt: "last (offsets r) < length S" using pre(10) by simp
  have "x \<le> last (offsets r)" if "x \<in> set (offsets r)" for x
    using that pre(8) by (rule sorted_lt_last [rotated])
  with lt have "sorted_wrt (<) (offsets r @ [length S])" using pre(8) by (fastforce simp: sorted_wrt_append)
  moreover have "anchor_true v S ?a" using False pre(2,5) by (simp add: anchor_true_def)
  ultimately show ?thesis using pre m by (simp add: window_def offsets_def)
qed

lemma drop_stale_head:
  "sorted_wrt (<) (map (\<lambda>a. unat (ac_byte_offset a)) (a # b # rest)) \<Longrightarrow>
     drop_stale (ac_byte_offset b) (a # b # rest) = b # rest"
  by (cases rest) (auto simp: word_le_nat_alt not_le)

lemma window_evict_step:
  assumes w: "window v S r" and anchors: "rb_anchors r = a # b # rest"
    and target: "ac_byte_offset b = target" and n: "n = offset_to_relative target (rb_tail_offset r)"
  shows "0 < n \<and> n \<le> length (rb_bytes r) \<and>
     window v S (drop_stale_anchors (r\<lparr>rb_bytes := drop n (rb_bytes r),
        rb_tail_offset := sat_add (rb_tail_offset r) (of_nat n)\<rparr>))"
proof -
  let ?t = "unat (rb_tail_offset r)" and ?o = "unat target"
  have so: "sorted_wrt (<) (map (\<lambda>a. unat (ac_byte_offset a)) (a # b # rest))"
    using w anchors unfolding window_def offsets_def by metis
  have hd: "ac_byte_offset a = rb_tail_offset r" using w anchors by (simp add: window_def)
  have lt: "?t < ?o" using so hd target by simp
  have le: "?o \<le> length S" using w anchors target by (simp add: window_def anchor_true_def)
  have n': "n = ?o - ?t" using n by (simp add: offset_to_relative_def unat_simps)
  have len: "length S < 2 ^ 64" using w by (simp add: window_def)
  have "unat (of_nat n :: u64) = n" using n' le len by (simp add: unat_of_nat)
  then have tail: "sat_add (rb_tail_offset r) (of_nat n) = target"
    using lt le len n' by (simp add: word_eq_unat unat_simps)
  have st: "drop_stale target (a # b # rest) = b # rest" using drop_stale_head [OF so] target by simp
  have bytes: "drop n (rb_bytes r) = drop ?o S" using w n' lt by (simp add: window_def)
  obtain r' where r': "r' = drop_stale_anchors (r\<lparr>rb_bytes := drop n (rb_bytes r),
        rb_tail_offset := sat_add (rb_tail_offset r) (of_nat n)\<rparr>)" by blast
  have fields: "rb_anchors r' = b # rest" "rb_tail_offset r' = target" "rb_bytes r' = drop ?o S"
      "rb_head_seq r' = rb_head_seq r" "rb_tracker r' = rb_tracker r" "rb_cap r' = rb_cap r"
      "rb_anchor_interval r' = rb_anchor_interval r" "rb_bytes_since_anchor r' = rb_bytes_since_anchor r"
    using bytes by (simp_all add: r' drop_stale_anchors_def tail anchors st del: drop_stale.simps)
  have offs: "offsets r = unat (ac_byte_offset a) # offsets r'" "offsets r' \<noteq> []"
    by (simp_all add: offsets_def fields anchors)
  have "window v S r'"
    using w le anchors target by (simp add: window_def fields offs)
  moreover have "0 < n \<and> n \<le> length (rb_bytes r)"
    using lt le n' w by (simp add: window_def diff_le_mono)
  ultimately show ?thesis by (simp add: r')
qed

lemma evict_window:
  "window v S r \<Longrightarrow> \<exists>r'. maybe_evict r = Some r' \<and> window v S r' \<and> settled r' \<and> spaced r' = spaced r \<and>
     rb_tail_offset r \<le> rb_tail_offset r' \<and> rb_cap r' = rb_cap r"
proof (induction r rule: maybe_evict.induct)
  case (1 r)
  show ?case
  proof (cases "unat (rb_cap r) < length (rb_bytes r)")
    case False
    with 1(2) show ?thesis by (simp add: maybe_evict.simps [of r] settled_def)
  next
    case over: True
    show ?thesis
    proof (cases "\<exists>a b rest. rb_anchors r = a # b # rest")
      case True
      then obtain a b rest where an: "rb_anchors r = a # b # rest" by blast
      let ?target = "ac_byte_offset b"
      let ?n = "offset_to_relative ?target (rb_tail_offset r)"
      let ?r = "drop_stale_anchors (r\<lparr>rb_bytes := drop ?n (rb_bytes r),
        rb_tail_offset := sat_add (rb_tail_offset r) (of_nat ?n)\<rparr>)"
      have step: "0 < ?n" "?n \<le> length (rb_bytes r)" "window v S ?r"
        using window_evict_step [OF \<open>window v S r\<close> an refl refl] by auto
      have t: "eviction_target r = Some ?target"
        using step(1) by (simp add: eviction_target_def an offset_to_relative_def unat_simps word_less_nat_alt)
      obtain r' where r': "maybe_evict ?r = Some r'" "window v S r'" "settled r'" "spaced r' = spaced ?r"
          "rb_tail_offset ?r \<le> rb_tail_offset r'" "rb_cap r' = rb_cap ?r"
        using "1.IH" [OF over t refl] step by auto
      have "rb_tail_offset r \<le> rb_tail_offset ?r"
        using unat_lt_pow [of "rb_tail_offset r"]
        by (simp add: drop_stale_anchors_def word_le_nat_alt unat_simps)
      with r' over t step show ?thesis
        by (intro exI [of _ r']) (simp add: maybe_evict.simps [of r] Let_def drop_stale_anchors_def spaced_def)
    next
      case False
      with 1(2) obtain a where an: "rb_anchors r = [a]"
        by (metis list.exhaust window_def)
      then have "maybe_evict r = Some r" using over by (simp add: maybe_evict.simps [of r] eviction_target_def)
      with 1(2) an show ?thesis by (simp add: settled_def)
    qed
  qed
qed

lemma push_byte_window:
  assumes w: "window v S r" and room: "Suc (length S) < 2 ^ 64"
  shows "\<exists>r'. push_byte v b r = Some r' \<and> window v (S @ [b]) r' \<and> settled r' \<and> spaced r' \<and>
     rb_tail_offset r \<le> rb_tail_offset r' \<and> rb_cap r' = rb_cap r"
proof -
  let ?r = "r\<lparr>rb_tracker := advance v [b] (rb_tracker r), rb_bytes := rb_bytes r @ [b],
          rb_head_seq := sat_add (rb_head_seq r) 1,
          rb_bytes_since_anchor := sat_add (rb_bytes_since_anchor r) 1\<rparr>"
  have l: "last (offsets r) \<le> length S"
    using w by (auto simp: window_def offsets_def last_map anchor_true_def list_all_iff)
  have "window v (S @ [b]) (maybe_place_anchor ?r)"
  proof (rule window_place)
    show "list_all (anchor_true v (S @ [b])) (rb_anchors ?r)"
      using w by (auto simp: window_def list_all_iff intro: anchor_true_mono)
    show "unat (rb_bytes_since_anchor ?r) = length (S @ [b]) - last (offsets ?r)"
      using w l room by (simp add: window_def unat_simps offsets_def)
  qed (use w room in \<open>simp_all add: window_def unat_simps tracked_snoc offsets_def\<close>)
  moreover have "spaced (maybe_place_anchor ?r)"
    using w by (simp add: spaced_def maybe_place_anchor_def window_def)
  ultimately show ?thesis using evict_window by (fastforce simp: push_byte_def)
qed

lemma push_window:
  "window v S r \<Longrightarrow> settled r \<Longrightarrow> spaced r \<Longrightarrow> length S + length chunk < 2 ^ 64 \<Longrightarrow>
     \<exists>r'. push v chunk r = Some r' \<and> window v (S @ chunk) r' \<and> settled r' \<and> spaced r' \<and>
       rb_tail_offset r \<le> rb_tail_offset r' \<and> rb_cap r' = rb_cap r"
proof (induction chunk arbitrary: S r)
  case Nil
  then show ?case by simp
next
  case (Cons b chunk)
  obtain r1 where r1: "push_byte v b r = Some r1" "window v (S @ [b]) r1" "settled r1" "spaced r1"
      "rb_tail_offset r \<le> rb_tail_offset r1" "rb_cap r1 = rb_cap r"
    using push_byte_window [OF Cons.prems(1), of b] Cons.prems(4) by auto
  from Cons.IH [OF r1(2,3,4)] Cons.prems(4) r1 show ?case by (auto intro: order_trans)
qed

text \<open>
  C13. The scrollback is exact: a new ring that is fed any chunks of output, fewer than
  \<open>2 ^ 64\<close> bytes in all, never panics, and ends as a window on the output: it holds
  exactly the bytes from its tail to its head, the head is the number of bytes written,
  its first anchor is at the tail, and every anchor holds the terminal state after the
  bytes before it, at a point where the output may be cut.
\<close>

theorem ring_is_window:
  assumes "ring_new v cols rows capacity = Inr r0" and "length (concat chunks) < 2 ^ 64"
  shows "\<exists>r. push v (concat chunks) r0 = Some r \<and> window v (concat chunks) r"
  using push_window [of v "[]" r0 "concat chunks"] window_new [OF assms(1)] assms(2) by auto

text \<open>
  Memory: the scrollback exceeds its capacity only while the output is inside an
  escape sequence (or another place where it may not be cut); whenever it may be cut, at
  most the configured number of bytes is held.
\<close>

lemma ring_bounded:
  assumes "ring_new v cols rows capacity = Inr r0" and "length S < 2 ^ 64" and "push v S r0 = Some r"
  shows "length (rb_bytes r) \<le> unat (rb_cap r0) \<or> \<not> tk_at_safe_split (rb_tracker r)"
proof (rule ccontr)
  assume "\<not> ?thesis"
  then have big: "unat (rb_cap r0) < length (rb_bytes r)" and safe: "tk_at_safe_split (rb_tracker r)" by auto
  have r: "window v S r" "settled r" "spaced r" "rb_cap r = rb_cap r0"
    using push_window [of v "[]" r0 S] window_new [OF assms(1)] assms(2,3) by auto
  then obtain a where a: "rb_anchors r = [a]" "ac_byte_offset a = rb_tail_offset r"
    using big by (auto simp: settled_def window_def length_Suc_conv)
  then have "unat (rb_bytes_since_anchor r) = length (rb_bytes r)"
    using r(1) by (simp add: window_def offsets_def)
  moreover have "unat (rb_bytes_since_anchor r) < unat (max (rb_cap r) 1)"
    using r(1,3) safe by (auto simp: spaced_def window_def word_less_nat_alt word_le_nat_alt)
  ultimately show False using big r(4) by (simp add: unat_simps)
qed

section \<open>Reading the window\<close>

lemma since_window:
  assumes "window v S r"
  shows "since sq r =
    (if unat (rb_tail_offset r) \<le> unat (seq_val sq) \<and> unat (seq_val sq) \<le> length S
     then Some \<lparr>ds_bytes = drop (unat (seq_val sq)) S, ds_head_seq = StreamSeq (rb_head_seq r)\<rparr> else None)"
  using assms
  by (auto simp: since_def window_def offset_to_relative_def unat_simps word_less_nat_alt not_less)

text \<open>
  Catching up: a reader that has the output up to a sequence number gets exactly the
  output after it, as long as the scrollback still holds that position, and nothing if it
  does not or if the number lies in the future; two reads in a row fit together.
\<close>

lemma since_exact:
  assumes "window v S r" and "window v (S @ new) r'" and "since sq r = Some d"
    and "rb_tail_offset r' \<le> rb_head_seq r"
  shows "take (unat (seq_val sq)) S @ ds_bytes d = S \<and>
     (\<exists>d'. since (ds_head_seq d) r' = Some d' \<and> ds_bytes d' = new \<and> unat (seq_val (ds_head_seq d')) = length (S @ new))"
proof -
  have d: "ds_bytes d = drop (unat (seq_val sq)) S" "ds_head_seq d = StreamSeq (rb_head_seq r)"
    using assms(3) since_window [OF assms(1), of sq] by (auto split: if_splits)
  have h: "unat (rb_head_seq r) = length S" using assms(1) by (simp add: window_def)
  then have "since (ds_head_seq d) r' = Some \<lparr>ds_bytes = new, ds_head_seq = StreamSeq (rb_head_seq r')\<rparr>"
    using assms(4) d(2) by (simp add: since_window [OF assms(2)] word_le_nat_alt)
  then show ?thesis using d(1) assms(2) by (simp add: window_def)
qed

text \<open>
  What a reader of history relies on: a log that still holds its bytes from some position
  on answers a page request with the page that ends where asked (within the log), holds
  at most the bytes asked for, and says whether there is more before it.
\<close>

fun read_back :: "(stream_seq option \<Rightarrow> 'r \<Rightarrow> history_slice option) \<Rightarrow> nat \<Rightarrow> stream_seq option \<Rightarrow> 'r \<Rightarrow> bytes option" where
  "read_back page 0 before r = Some []"
| "read_back page (Suc k) before r =
     (case page before r of
        None \<Rightarrow> None
      | Some p \<Rightarrow>
          if hs_has_more p
          then map_option (\<lambda>bs. bs @ hs_bytes p) (read_back page k (Some (hs_start_seq p)) r)
          else Some (hs_bytes p))"

definition page_end :: "nat \<Rightarrow> nat \<Rightarrow> stream_seq option \<Rightarrow> nat" where
  "page_end start len before =
     (case before of None \<Rightarrow> len | Some sq \<Rightarrow> max start (min (unat (seq_val sq)) len))"

locale retained_log =
  fixes holds :: "bytes \<Rightarrow> 'r \<Rightarrow> bool"
    and start :: "'r \<Rightarrow> nat"
    and page :: "usize \<Rightarrow> stream_seq option \<Rightarrow> 'r \<Rightarrow> history_slice option"
  assumes start_le: "holds S r \<Longrightarrow> start r \<le> length S"
    and page_ok: "holds S r \<Longrightarrow> \<exists>p. page n before r = Some p \<and>
      unat (seq_val (hs_end_seq p)) = page_end (start r) (length S) before \<and>
      unat (seq_val (hs_start_seq p)) =
        page_end (start r) (length S) before - min (page_end (start r) (length S) before - start r) (unat n) \<and>
      hs_bytes p = take (unat (seq_val (hs_end_seq p)) - unat (seq_val (hs_start_seq p)))
                     (drop (unat (seq_val (hs_start_seq p))) S) \<and>
      (hs_has_more p \<longleftrightarrow> start r < unat (seq_val (hs_start_seq p)))"
begin

lemma page_end_bounds: "holds S r \<Longrightarrow> start r \<le> page_end (start r) (length S) before \<and> page_end (start r) (length S) before \<le> length S"
  using start_le by (auto simp: page_end_def split: option.splits)

lemma read_back_exact:
  "holds S r \<Longrightarrow> 0 < unat n \<Longrightarrow> page_end (start r) (length S) before - start r \<le> k * unat n \<Longrightarrow> 0 < k \<Longrightarrow>
     read_back (page n) k before r =
       Some (take (page_end (start r) (length S) before - start r) (drop (start r) S))"
proof (induction k arbitrary: before)
  case 0
  then show ?case by simp
next
  case (Suc k)
  let ?e = "page_end (start r) (length S) before"
  obtain p where p: "page n before r = Some p"
      "unat (seq_val (hs_end_seq p)) = ?e" "unat (seq_val (hs_start_seq p)) = ?e - min (?e - start r) (unat n)"
      "hs_bytes p = take (?e - unat (seq_val (hs_start_seq p))) (drop (unat (seq_val (hs_start_seq p))) S)"
      "hs_has_more p \<longleftrightarrow> start r < unat (seq_val (hs_start_seq p))"
    using page_ok [OF Suc.prems(1)] by metis
  let ?s = "unat (seq_val (hs_start_seq p))"
  have b: "start r \<le> ?e" "?e \<le> length S" using page_end_bounds [OF Suc.prems(1)] by auto
  show ?case
  proof (cases "hs_has_more p")
    case False
    then have "?s = start r" using p(3,5) b by linarith
    with False p(1,4) show ?thesis by simp
  next
    case True
    then have s: "start r < ?s" "?s = ?e - unat n" using p(3,5) b by auto
    have e': "page_end (start r) (length S) (Some (hs_start_seq p)) = ?s"
      using s b by (simp add: page_end_def)
    have "?s - start r \<le> k * unat n" using Suc.prems(3) s by simp
    moreover have "0 < k" using calculation s(1) by (cases k) auto
    ultimately have "read_back (page n) k (Some (hs_start_seq p)) r = Some (take (?s - start r) (drop (start r) S))"
      using Suc.IH [of "Some (hs_start_seq p)"] Suc.prems(1,2) e' by simp
    moreover have "take (?s - start r) (drop (start r) S) @ take (?e - ?s) (drop ?s S) =
        take (?e - start r) (drop (start r) S)"
    proof -
      have "drop ?s S = drop (?s - start r) (drop (start r) S)" using s(1) by simp
      moreover have "?e - start r = (?s - start r) + (?e - ?s)" using s b by simp
      ultimately show ?thesis by (simp only: take_add)
    qed
    ultimately show ?thesis using True p(1,4) by simp
  qed
qed

end

lemma clamp_window:
  assumes "window v S r"
  shows "\<exists>e. clamp (rb_tail_offset r) (rb_head_seq r)
      (case before of None \<Rightarrow> rb_head_seq r | Some sq \<Rightarrow> seq_val sq) = Some e \<and>
     unat e = page_end (unat (rb_tail_offset r)) (length S) before"
  using assms
  by (auto simp: clamp_def window_def page_end_def word_less_nat_alt not_less split: option.splits)

lemma history_page_window:
  assumes w: "window v S r"
  shows "\<exists>p. ring_history_page before n r = Some p \<and>
      unat (seq_val (hs_end_seq p)) = page_end (unat (rb_tail_offset r)) (length S) before \<and>
      unat (seq_val (hs_start_seq p)) = page_end (unat (rb_tail_offset r)) (length S) before -
        min (page_end (unat (rb_tail_offset r)) (length S) before - unat (rb_tail_offset r)) (unat n) \<and>
      hs_bytes p = take (unat (seq_val (hs_end_seq p)) - unat (seq_val (hs_start_seq p)))
                     (drop (unat (seq_val (hs_start_seq p))) S) \<and>
      (hs_has_more p \<longleftrightarrow> unat (rb_tail_offset r) < unat (seq_val (hs_start_seq p)))"
proof -
  let ?t = "unat (rb_tail_offset r)" and ?e = "page_end (unat (rb_tail_offset r)) (length S) before"
  obtain e where e: "clamp (rb_tail_offset r) (rb_head_seq r)
      (case before of None \<Rightarrow> rb_head_seq r | Some sq \<Rightarrow> seq_val sq) = Some e" "unat e = ?e"
    using clamp_window [OF w] by blast
  have te: "?t \<le> ?e" using w by (auto simp: page_end_def window_def split: option.splits)
  let ?len = "min (sat_sub e (rb_tail_offset r)) n"
  let ?s = "sat_sub e ?len"
  have len: "unat ?len = min (?e - ?t) (unat n)" using e(2) by (simp add: unat_simps)
  then have s: "unat ?s = ?e - min (?e - ?t) (unat n)" using e(2) by (simp add: unat_simps)
  have rel: "drop (offset_to_relative ?s (rb_tail_offset r)) (rb_bytes r) = drop (unat ?s) S"
    using w s te by (simp add: window_def offset_to_relative_def unat_simps)
  have "?e - (?e - min (?e - ?t) (unat n)) = min (?e - ?t) (unat n)" using te by simp
  then show ?thesis
    unfolding ring_history_page_def e(1) using e(2) s len rel
    by (simp add: Let_def word_less_nat_alt)
qed

interpretation scrollback: retained_log "window v" "\<lambda>r. unat (rb_tail_offset r)" "\<lambda>n before. ring_history_page before n" for v
proof
  fix S r n before
  show "window v S r \<Longrightarrow> unat (rb_tail_offset r) \<le> length S" by (simp add: window_def)
  show "window v S r \<Longrightarrow> \<exists>p. ring_history_page before n r = Some p \<and>
      unat (seq_val (hs_end_seq p)) = page_end (unat (rb_tail_offset r)) (length S) before \<and>
      unat (seq_val (hs_start_seq p)) =
        page_end (unat (rb_tail_offset r)) (length S) before -
          min (page_end (unat (rb_tail_offset r)) (length S) before - unat (rb_tail_offset r)) (unat n) \<and>
      hs_bytes p = take (unat (seq_val (hs_end_seq p)) - unat (seq_val (hs_start_seq p)))
                     (drop (unat (seq_val (hs_start_seq p))) S) \<and>
      (hs_has_more p \<longleftrightarrow> unat (rb_tail_offset r) < unat (seq_val (hs_start_seq p)))"
    by (rule history_page_window)
qed

text \<open>
  C19. Paging back through history loses nothing and repeats nothing: a reader that starts
  at the head and asks for page after page, each ending where the last one began, until
  it is told that there is no more, has read exactly what the scrollback holds; the number
  of pages is the one expected, and no request panics.
\<close>

theorem history_pages_tile:
  assumes "window v S r" and "0 < n" and "length (rb_bytes r) \<le> k * unat n" and "0 < k"
  shows "read_back (\<lambda>before. ring_history_page before n) k None r = Some (rb_bytes r)"
proof -
  have e: "page_end (unat (rb_tail_offset r)) (length S) None - unat (rb_tail_offset r) = length (rb_bytes r)"
    using assms(1) by (simp add: page_end_def window_def)
  have "0 < unat n" using assms(2) by (simp add: word_less_nat_alt)
  from scrollback.read_back_exact [OF assms(1) this, of None k] assms(3,4) e
  show ?thesis using assms(1) by (simp add: window_def)
qed

lemma find_last_sorted:
  assumes "as \<noteq> []" and "sorted_wrt (<) (map f as)" and "\<And>a b. f a < (f b :: nat) \<Longrightarrow> P a \<Longrightarrow> P b"
  shows "List.find P (rev as) = (if P (last as) then Some (last as) else None)"
proof -
  obtain bs b where as: "as = bs @ [b]" using assms(1) by (metis rev_exhaust)
  have "List.find P (rev bs) = None" if "\<not> P b"
    using assms(2,3) that by (fastforce simp: find_None_iff as sorted_wrt_append)
  with as show ?thesis by simp
qed

lemma snapshot_window:
  assumes "window v S r"
  shows "\<exists>k \<le> length S. sn_bytes (snapshot_with_max_bytes n r) = drop k S \<and>
     length (sn_bytes (snapshot_with_max_bytes n r)) \<le> unat n \<and>
     sn_anchor_state (snapshot_with_max_bytes n r) = snapshot_state (tracked v (take k S)) \<and>
     unat (seq_val (sn_head_seq (snapshot_with_max_bytes n r))) = length S \<and>
     (if length S - last (offsets r) \<le> unat n
      then k = last (offsets r) \<and> tk_at_safe_split (tracked v (take k S)) else k = length S)"
proof -
  let ?P = "\<lambda>a. sat_sub (rb_head_seq r) (ac_byte_offset a) \<le> n"
  have as: "rb_anchors r \<noteq> []" and so: "sorted_wrt (<) (map (\<lambda>a. unat (ac_byte_offset a)) (rb_anchors r))"
    using assms by (simp_all add: window_def offsets_def)
  have find: "List.find ?P (rev (rb_anchors r)) =
      (if ?P (last (rb_anchors r)) then Some (last (rb_anchors r)) else None)"
    by (rule find_last_sorted [OF as so]) (auto simp: word_le_nat_alt unat_simps)
  have l: "last (offsets r) = unat (ac_byte_offset (last (rb_anchors r)))"
    using as by (simp add: offsets_def last_map)
  have P: "?P (last (rb_anchors r)) \<longleftrightarrow> length S - last (offsets r) \<le> unat n"
    using assms l by (simp add: word_le_nat_alt unat_simps window_def)
  have true: "anchor_true v S (last (rb_anchors r))"
    using assms as by (simp add: window_def list_all_iff)
  show ?thesis
  proof (cases "?P (last (rb_anchors r))")
    case True
    have hd_le: "unat (rb_tail_offset r) \<le> last (offsets r)"
      using assms sorted_lt_last [of "offsets r" "unat (rb_tail_offset r)"]
      by (force simp: window_def offsets_def neq_Nil_conv)
    then have "drop (offset_to_relative (ac_byte_offset (last (rb_anchors r))) (rb_tail_offset r)) (rb_bytes r) =
        drop (last (offsets r)) S"
      using assms l by (simp add: window_def offset_to_relative_def unat_simps)
    with True true find P l assms show ?thesis
      by (intro exI [of _ "last (offsets r)"])
        (simp add: snapshot_with_max_bytes_def snapshot_from_anchor_def anchor_true_def window_def)
  next
    case False
    with find P assms show ?thesis
      by (intro exI [of _ "length S"]) (simp add: snapshot_with_max_bytes_def window_def)
  qed
qed

section \<open>Witnesses\<close>

text \<open>A parser that prints every byte; it stands for no code.\<close>

definition print_vte :: "unit vte" where
  "print_vte = \<lparr>vte_new = (), vte_advance = (\<lambda>_ b. ((), [VtePrint (unat b)]))\<rparr>"

lemma small_ring:
  "\<exists>r0 r. ring_new print_vte 80 24 (Some 4) = Inr r0 \<and> rb_cap r0 = 4 \<and>
     push print_vte [97, 98, 99, 100, 101, 102] r0 = Some r \<and> window print_vte [97, 98, 99, 100, 101, 102] r"
proof -
  obtain r0 where r0: "ring_new print_vte 80 24 (Some 4) = Inr r0" "rb_cap r0 = 4"
    by (simp add: ring_new_def MAX_CAPACITY_BYTES_def maybe_place_anchor_def)
  with push_window [of print_vte "[]" r0 "[97, 98, 99, 100, 101, 102]"] window_new [OF r0(1)]
  show ?thesis by auto
qed

theorem ring_is_window_witness:
  "\<exists>r0 r. ring_new print_vte 80 24 (Some 4) = Inr r0 \<and>
     push print_vte (concat [[97, 98], [99]]) r0 = Some r \<and> window print_vte (concat [[97, 98], [99]]) r"
proof -
  obtain r0 where "ring_new print_vte 80 24 (Some 4) = Inr r0" using small_ring by blast
  with ring_is_window [OF this, of "[[97, 98], [99]]"] show ?thesis by auto
qed

theorem history_pages_tile_witness:
  "\<exists>r. window print_vte [97, 98, 99, 100, 101, 102] r \<and>
     read_back (\<lambda>before. ring_history_page before 4) 2 None r = Some (rb_bytes r)"
proof -
  obtain r where w: "window print_vte [97, 98, 99, 100, 101, 102] r" using small_ring by blast
  then have "length (rb_bytes r) \<le> 2 * unat (4 :: usize)" by (simp add: window_def)
  from history_pages_tile [OF w _ this] w show ?thesis by auto
qed

end
