(* ===== verification/Pty_Output.thy ===== *)
theory Pty_Output
  imports Pty_Parser
begin

text \<open>
  The output filter of \<open>crates/server/pty/src/terminal.rs\<close> (\<open>ServerOutputProcessor\<close>): it
  answers cursor position queries, removes two private modes and the window title
  sequences, and holds back what may be the beginning of one of these. The loop over an
  index of the input is a recursion on the rest of the input.
\<close>

section \<open>Sequences\<close>

definition CURSOR_POSITION_QUERY :: bytes where "CURSOR_POSITION_QUERY = [0x1b, 0x5b, 0x36, 0x6e]"
definition WIN32_INPUT_MODE_PREFIX :: bytes where
  "WIN32_INPUT_MODE_PREFIX = [0x1b, 0x5b, 0x3f, 0x39, 0x30, 0x30, 0x31]"
definition FOCUS_EVENT_MODE_PREFIX :: bytes where
  "FOCUS_EVENT_MODE_PREFIX = [0x1b, 0x5b, 0x3f, 0x31, 0x30, 0x30, 0x34]"
definition OSC_PREFIX :: bytes where "OSC_PREFIX = [0x1b, 0x5d]"

datatype sequence_match = SeqConsumed nat | SeqIncomplete
datatype title_match = TitleConsumed nat "bytes option" | TitleIncomplete

definition split_prefixed_control_sequence :: "bytes \<Rightarrow> bytes \<Rightarrow> sequence_match option" where
  "split_prefixed_control_sequence bs prefix =
     (if starts_with prefix bs then Some SeqIncomplete
      else if starts_with bs prefix then
        (case nth_opt bs (length prefix) of
           Some suffix \<Rightarrow>
             if suffix = 0x68 \<or> suffix = 0x6c then Some (SeqConsumed (length prefix + 1)) else None
         | None \<Rightarrow> Some SeqIncomplete)
      else None)"

text \<open>The position and the length of the first terminator, from offset \<open>index\<close> on.\<close>

fun osc_terminator_from :: "nat \<Rightarrow> bytes \<Rightarrow> (nat \<times> nat) option" where
  "osc_terminator_from index [] = None"
| "osc_terminator_from index (b # bs) =
     (if b = 0x07 then Some (index, 1)
      else if b = 0x1b then
        (if nth_opt bs 0 = Some 0x5c then Some (index, 2)
         else if bs = [] then None
         else osc_terminator_from (index + 1) bs)
      else osc_terminator_from (index + 1) bs)"

definition find_osc_terminator :: "bytes \<Rightarrow> (nat \<times> nat) option" where
  "find_osc_terminator bs = osc_terminator_from 0 bs"

definition split_osc_title_sequence :: "bytes \<Rightarrow> title_match option" where
  "split_osc_title_sequence bs =
     (if starts_with OSC_PREFIX bs then Some TitleIncomplete
      else if \<not> starts_with bs OSC_PREFIX then None
      else (case nth_opt bs (length OSC_PREFIX) of
        None \<Rightarrow> Some TitleIncomplete
      | Some selector \<Rightarrow>
          if selector \<noteq> 0x30 \<and> selector \<noteq> 0x32 then None
          else (let title_start = length OSC_PREFIX + 2 in
            case nth_opt bs (length OSC_PREFIX + 1) of
              None \<Rightarrow> Some TitleIncomplete
            | Some c \<Rightarrow>
                if c \<noteq> 0x3b then None
                else (let title_bytes = drop title_start bs in
                  case find_osc_terminator title_bytes of
                    None \<Rightarrow> Some TitleIncomplete
                  | Some (title_len, terminator_len) \<Rightarrow>
                      Some (TitleConsumed (title_start + title_len + terminator_len)
                              (from_utf8 (take title_len title_bytes)))))))"

definition cursor_position_report :: "u16 \<times> u16 \<Rightarrow> bytes" where
  "cursor_position_report cursor =
     (case cursor of (col, row) \<Rightarrow>
        [ESC] @ ascii ''['' @ digits (unat (sat_add row 1)) @ ascii '';'' @ digits (unat (sat_add col 1)) @ ascii ''R'')"

section \<open>The processor\<close>

record processor =
  pr_pending :: bytes
  pr_pending_response :: bytes
  pr_pending_title :: "bytes option"
  pr_skip_next :: bool

definition processor_new :: "bool \<Rightarrow> processor" where
  "processor_new skip = \<lparr>pr_pending = [], pr_pending_response = [], pr_pending_title = None, pr_skip_next = skip\<rparr>"

text \<open>What the body of the loop decides for the rest of the input.\<close>

datatype decision = Hold | Answer | Skip nat | Title nat "bytes option" | Emit

definition decide :: "bytes \<Rightarrow> decision" where
  "decide remaining =
     (if starts_with CURSOR_POSITION_QUERY remaining then Hold
      else if starts_with remaining CURSOR_POSITION_QUERY then Answer
      else (case split_prefixed_control_sequence remaining WIN32_INPUT_MODE_PREFIX of
        Some (SeqConsumed n) \<Rightarrow> Skip n
      | Some SeqIncomplete \<Rightarrow> Hold
      | None \<Rightarrow>
          (case split_prefixed_control_sequence remaining FOCUS_EVENT_MODE_PREFIX of
             Some (SeqConsumed n) \<Rightarrow> Skip n
           | Some SeqIncomplete \<Rightarrow> Hold
           | None \<Rightarrow>
               (case split_osc_title_sequence remaining of
                  Some (TitleConsumed n title) \<Rightarrow> Title n title
                | Some TitleIncomplete \<Rightarrow> Hold
                | None \<Rightarrow> Emit))))"

lemma split_prefixed_pos: "split_prefixed_control_sequence bs prefix = Some (SeqConsumed n) \<Longrightarrow> 0 < n"
  by (auto simp: split_prefixed_control_sequence_def split: if_splits option.splits)

lemma split_osc_pos: "split_osc_title_sequence bs = Some (TitleConsumed n t) \<Longrightarrow> 0 < n"
  by (auto simp: split_osc_title_sequence_def Let_def split: if_splits option.splits prod.splits)

lemma decide_pos: "decide r = Skip n \<Longrightarrow> 0 < n" "decide r = Title n t \<Longrightarrow> 0 < n"
  by (auto simp: decide_def split: if_splits option.splits sequence_match.splits title_match.splits
      dest: split_prefixed_pos split_osc_pos)

function process_loop :: "u16 \<times> u16 \<Rightarrow> bytes \<Rightarrow> processor \<Rightarrow> bytes \<times> processor" where
  "process_loop cursor remaining p =
     (if remaining = [] then ([], p)
      else (case decide remaining of
        Hold \<Rightarrow> ([], p\<lparr>pr_pending := remaining\<rparr>)
      | Answer \<Rightarrow>
          process_loop cursor (drop (length CURSOR_POSITION_QUERY) remaining)
            (if pr_skip_next p then p\<lparr>pr_skip_next := False\<rparr>
             else p\<lparr>pr_pending_response := pr_pending_response p @ cursor_position_report cursor\<rparr>)
      | Skip n \<Rightarrow> process_loop cursor (drop n remaining) p
      | Title n title \<Rightarrow>
          process_loop cursor (drop n remaining)
            (case title of None \<Rightarrow> p | Some t \<Rightarrow> p\<lparr>pr_pending_title := Some t\<rparr>)
      | Emit \<Rightarrow>
          (case process_loop cursor (tl remaining) p of
             (filtered, p') \<Rightarrow> (hd remaining # filtered, p'))))"
  by pat_completeness auto

termination
  by (relation "measure (\<lambda>(c, r, p). length r)")
    (auto simp: CURSOR_POSITION_QUERY_def dest: decide_pos)

declare process_loop.simps [simp del]

definition process :: "bytes \<Rightarrow> u16 \<times> u16 \<Rightarrow> processor \<Rightarrow> bytes \<times> processor" where
  "process bs cursor p = process_loop cursor (pr_pending p @ bs) (p\<lparr>pr_pending := []\<rparr>)"

definition take_pending_response :: "processor \<Rightarrow> bytes \<times> processor" where
  "take_pending_response p = (pr_pending_response p, p\<lparr>pr_pending_response := []\<rparr>)"

definition take_pending_title :: "processor \<Rightarrow> bytes option \<times> processor" where
  "take_pending_title p = (pr_pending_title p, p\<lparr>pr_pending_title := None\<rparr>)"

section \<open>Decisions do not depend on later input\<close>

lemma starts_with_shorter: "starts_with p (r @ x) \<Longrightarrow> starts_with p r"
  by (auto simp: starts_with_iff)

lemma starts_with_extend: "starts_with (r @ x) p \<Longrightarrow> starts_with r p \<or> starts_with p r"
  by (auto simp: starts_with_iff append_eq_append_conv2)

lemma split_prefixed_append:
  "split_prefixed_control_sequence r prefix \<noteq> Some SeqIncomplete \<Longrightarrow>
     split_prefixed_control_sequence (r @ x) prefix = split_prefixed_control_sequence r prefix"
  using starts_with_shorter [of prefix r x] starts_with_extend [of r x prefix] starts_with_append [of r prefix x]
  by (auto simp: split_prefixed_control_sequence_def nth_opt_append split: if_splits option.splits)

lemma osc_terminator_append: "osc_terminator_from i r = Some t \<Longrightarrow> osc_terminator_from i (r @ x) = Some t"
proof (induction i r rule: osc_terminator_from.induct)
  case (1 index)
  then show ?case by simp
next
  case (2 index b bs)
  then show ?case by (cases bs) (auto split: if_splits)
qed

lemma osc_terminator_le: "osc_terminator_from i r = Some (j, k) \<Longrightarrow> i \<le> j \<and> j - i + k \<le> length r"
proof (induction i r rule: osc_terminator_from.induct)
  case (1 index)
  then show ?case by simp
next
  case (2 index b bs)
  have "Suc 0 \<le> length bs" if "nth_opt bs 0 = Some c" for c using that by (cases bs) simp_all
  with 2 show ?case by (force split: if_splits)
qed

lemma split_osc_append:
  assumes "split_osc_title_sequence r \<noteq> Some TitleIncomplete"
  shows "split_osc_title_sequence (r @ x) = split_osc_title_sequence r"
proof (cases "starts_with r OSC_PREFIX")
  case False
  then show ?thesis
    using assms starts_with_shorter [of OSC_PREFIX r x] starts_with_extend [of r x OSC_PREFIX]
    by (auto simp: split_osc_title_sequence_def split: if_splits)
next
  case True
  with assms show ?thesis
    using starts_with_shorter [of OSC_PREFIX r x] starts_with_append [of r OSC_PREFIX x]
      osc_terminator_append [of 0 "drop (length OSC_PREFIX + 2) r" _ "drop (length OSC_PREFIX + 2 - length r) x"]
      osc_terminator_le [of 0 "drop (length OSC_PREFIX + 2) r"]
    by (auto simp: split_osc_title_sequence_def Let_def find_osc_terminator_def nth_opt_append
        split: if_splits option.splits prod.splits)
qed

lemma decide_append: "decide r \<noteq> Hold \<Longrightarrow> decide (r @ x) = decide r"
proof -
  assume d: "decide r \<noteq> Hold"
  have q: "\<not> starts_with CURSOR_POSITION_QUERY r" using d by (auto simp: decide_def)
  then have q': "\<not> starts_with CURSOR_POSITION_QUERY (r @ x)" using starts_with_shorter by blast
  have a: "starts_with (r @ x) CURSOR_POSITION_QUERY = starts_with r CURSOR_POSITION_QUERY"
    using q starts_with_extend starts_with_append by blast
  show ?thesis
  proof (cases "starts_with r CURSOR_POSITION_QUERY")
    case True
    with q q' a show ?thesis by (simp add: decide_def)
  next
    case no: False
    have w: "split_prefixed_control_sequence r WIN32_INPUT_MODE_PREFIX \<noteq> Some SeqIncomplete"
      using d q no by (auto simp: decide_def)
    note w' = split_prefixed_append [OF w, of x]
    show ?thesis
    proof (cases "split_prefixed_control_sequence r WIN32_INPUT_MODE_PREFIX")
      case (Some m)
      with w w' q q' a no show ?thesis by (cases m) (simp_all add: decide_def)
    next
      case None
      have f: "split_prefixed_control_sequence r FOCUS_EVENT_MODE_PREFIX \<noteq> Some SeqIncomplete"
        using d q no None by (auto simp: decide_def)
      note f' = split_prefixed_append [OF f, of x]
      show ?thesis
      proof (cases "split_prefixed_control_sequence r FOCUS_EVENT_MODE_PREFIX")
        case (Some m)
        with None f f' w' q q' a no show ?thesis by (cases m) (simp_all add: decide_def)
      next
        case none: None
        have "split_osc_title_sequence r \<noteq> Some TitleIncomplete"
          using d q no None none by (auto simp: decide_def)
        from split_osc_append [OF this] None none f' w' q q' a no show ?thesis
          by (simp add: decide_def)
      qed
    qed
  qed
qed

lemma split_prefixed_le:
  "split_prefixed_control_sequence bs prefix = Some (SeqConsumed n) \<Longrightarrow> n \<le> length bs"
  by (auto simp: split_prefixed_control_sequence_def nth_opt_def split: if_splits)

lemma split_osc_le: "split_osc_title_sequence bs = Some (TitleConsumed n t) \<Longrightarrow> n \<le> length bs"
  using osc_terminator_le [of 0 "drop (length OSC_PREFIX + 2) bs"]
  by (fastforce simp: split_osc_title_sequence_def Let_def find_osc_terminator_def nth_opt_def
      split: if_splits option.splits prod.splits)

lemma decide_le:
  "decide r = Skip n \<Longrightarrow> n \<le> length r" "decide r = Title n t \<Longrightarrow> n \<le> length r"
  "decide r = Answer \<Longrightarrow> length CURSOR_POSITION_QUERY \<le> length r"
  by (auto simp: decide_def starts_with_iff split: if_splits option.splits sequence_match.splits title_match.splits
      dest: split_prefixed_le split_osc_le)

section \<open>Chunk boundaries do not matter\<close>

lemma pending_clear [simp]: "pr_pending p = [] \<Longrightarrow> p\<lparr>pr_pending := []\<rparr> = p"
  by (cases p) simp

definition then_more :: "u16 \<times> u16 \<Rightarrow> bytes \<Rightarrow> bytes \<times> processor \<Rightarrow> bytes \<times> processor" where
  "then_more cursor x fp =
     (case fp of (f, p) \<Rightarrow> (case process x cursor p of (g, p') \<Rightarrow> (f @ g, p')))"

lemma then_more_Cons: "then_more c x (b # f, p) = (case then_more c x (f, p) of (g, p') \<Rightarrow> (b # g, p'))"
  by (simp add: then_more_def split: prod.splits)

lemma process_loop_append:
  "pr_pending p = [] \<Longrightarrow> process_loop c (r @ x) p = then_more c x (process_loop c r p)"
proof (induction c r p rule: process_loop.induct)
  case (1 c r p)
  show ?case
  proof (cases "r = []")
    case True
    with 1(5) show ?thesis
      by (simp add: then_more_def process_def process_loop.simps [of c "[]"] split: prod.splits)
  next
    case r: False
    show ?thesis
    proof (cases "decide r")
      case Hold
      with r 1(5) show ?thesis
        by (simp add: process_loop.simps [of c r] then_more_def process_def split: prod.splits)
    next
      case Answer
      with r 1(1) [OF r Answer] 1(5) decide_le(3) [OF Answer] decide_append [of r x] show ?thesis
        by (simp add: process_loop.simps [of c r] process_loop.simps [of c "r @ x"])
    next
      case (Skip n)
      with r 1(2) [OF r Skip] 1(5) decide_le(1) [OF Skip] decide_append [of r x] show ?thesis
        by (simp add: process_loop.simps [of c r] process_loop.simps [of c "r @ x"])
    next
      case (Title n t)
      have "pr_pending (case t of None \<Rightarrow> p | Some t \<Rightarrow> p\<lparr>pr_pending_title := Some t\<rparr>) = []"
        using 1(5) by (cases t) simp_all
      with Title r 1(3) [OF r Title] decide_le(2) [OF Title] decide_append [of r x] show ?thesis
        by (simp add: process_loop.simps [of c r] process_loop.simps [of c "r @ x"])
    next
      case Emit
      have "tl (r @ x) = tl r @ x" "hd (r @ x) = hd r" using r by simp_all
      with Emit r 1(4) [OF r Emit] 1(5) decide_append [of r x] show ?thesis
        by (simp add: process_loop.simps [of c r] process_loop.simps [of c "r @ x"] then_more_Cons
            split: prod.splits)
    qed
  qed
qed

fun process_all :: "u16 \<times> u16 \<Rightarrow> bytes list \<Rightarrow> bytes \<times> processor \<Rightarrow> bytes \<times> processor" where
  "process_all c [] fp = fp"
| "process_all c (x # xs) fp = process_all c xs (then_more c x fp)"

text \<open>
  C20. Chunk boundaries do not matter: for one cursor position, filtering the reads of a
  terminal's output one after the other gives the same filtered output, the same answers,
  the same title, and holds back the same rest, as filtering all of them in one read;
  wherever the boundaries fall, also inside a query, a mode switch or a title.
\<close>

theorem process_chunks:
  "process_all cursor (x # xs) ([], p) = process (concat (x # xs)) cursor p"
proof -
  have "process_all c xs (process y c p) = process (y @ concat xs) c p" for c y
  proof (induction xs arbitrary: y)
    case Nil
    then show ?case by simp
  next
    case (Cons z zs)
    have "then_more c z (process y c p) = process (y @ z) c p"
      using process_loop_append [of "p\<lparr>pr_pending := []\<rparr>" c "pr_pending p @ y" z]
      by (simp add: process_def)
    with Cons [of "y @ z"] show ?case by simp
  qed
  then show ?thesis by (simp add: then_more_def split: prod.splits)
qed

section \<open>Plain text, queries and titles\<close>

lemma decide_text: "b \<noteq> 0x1b \<Longrightarrow> decide (b # r) = Emit"
  by (simp add: decide_def split_prefixed_control_sequence_def split_osc_title_sequence_def starts_with_iff
      CURSOR_POSITION_QUERY_def WIN32_INPUT_MODE_PREFIX_def FOCUS_EVENT_MODE_PREFIX_def OSC_PREFIX_def)

lemma process_text:
  "0x1b \<notin> set w \<Longrightarrow> process_loop c (w @ r) p = (case process_loop c r p of (f, p') \<Rightarrow> (w @ f, p'))"
proof (induction w)
  case Nil
  then show ?case by simp
next
  case (Cons b w)
  then have b: "b \<noteq> 0x1b" and w: "0x1b \<notin> set w" by auto
  from Cons.IH [OF w] show ?case
    by (simp add: process_loop.simps [of c "b # w @ r"] decide_text [OF b] split: prod.splits)
qed

lemma decide_query: "decide (CURSOR_POSITION_QUERY @ b # r) = Answer" "decide CURSOR_POSITION_QUERY = Hold"
  by (simp_all add: decide_def starts_with_iff CURSOR_POSITION_QUERY_def)

lemma process_query:
  "process_loop c (CURSOR_POSITION_QUERY @ b # r) p =
     process_loop c (b # r) (if pr_skip_next p then p\<lparr>pr_skip_next := False\<rparr>
        else p\<lparr>pr_pending_response := pr_pending_response p @ cursor_position_report c\<rparr>)"
  by (subst process_loop.simps) (simp add: decide_query)

text \<open>
  A cursor position query that ends a read is not answered: the program's text before
  it is passed on, the complete query is held back as if more of it could come, and the
  answer is only given when the program writes something else, which a program that waits
  for the answer does not do. When something follows, the answer is the cursor position
  given for this read, whatever the text before the query moved the cursor to.
\<close>

lemma query_at_end_unanswered:
  assumes "0x1b \<notin> set w" and "b \<noteq> 0x1b" and "pr_pending p = []" and "\<not> pr_skip_next p"
  shows "process (w @ CURSOR_POSITION_QUERY) c p = (w, p\<lparr>pr_pending := CURSOR_POSITION_QUERY\<rparr>) \<and>
     process [b] c' (p\<lparr>pr_pending := CURSOR_POSITION_QUERY\<rparr>) =
       ([b], p\<lparr>pr_pending_response := pr_pending_response p @ cursor_position_report c'\<rparr>) \<and>
     process (w @ CURSOR_POSITION_QUERY @ [b]) c p =
       (w @ [b], p\<lparr>pr_pending_response := pr_pending_response p @ cursor_position_report c\<rparr>)"
proof -
  have q: "process_loop c CURSOR_POSITION_QUERY p = ([], p\<lparr>pr_pending := CURSOR_POSITION_QUERY\<rparr>)" for c
    by (subst process_loop.simps) (simp add: decide_query, simp add: CURSOR_POSITION_QUERY_def)
  have b: "process_loop c [b] p' = ([b], p')" for c p'
    by (simp add: process_loop.simps [of c "[b]"] process_loop.simps [of c "[]"] decide_text [OF assms(2)])
  show ?thesis
    using assms(3,4) by (simp add: process_def process_text [OF assms(1)] q process_query b)
qed

lemma process_hold: "decide r = Hold \<Longrightarrow> r \<noteq> [] \<Longrightarrow> process_loop c r p = ([], p\<lparr>pr_pending := r\<rparr>)"
  by (simp add: process_loop.simps [of c r])

lemma osc_terminator_none: "0x07 \<notin> set t \<Longrightarrow> 0x1b \<notin> set t \<Longrightarrow> osc_terminator_from i t = None"
  by (induction t arbitrary: i) auto

text \<open>Until a title sequence is terminated, all output after its start is held back.\<close>

lemma unterminated_title_swallows:
  assumes "0x07 \<notin> set t" and "0x1b \<notin> set t" and "pr_pending p = []"
  shows "process (OSC_PREFIX @ [0x30, 0x3b] @ t) c p = ([], p\<lparr>pr_pending := OSC_PREFIX @ [0x30, 0x3b] @ t\<rparr>)"
proof -
  have "decide (OSC_PREFIX @ [0x30, 0x3b] @ t) = Hold"
    using osc_terminator_none [OF assms(1,2)]
    by (simp add: decide_def split_prefixed_control_sequence_def split_osc_title_sequence_def starts_with_iff
      CURSOR_POSITION_QUERY_def WIN32_INPUT_MODE_PREFIX_def FOCUS_EVENT_MODE_PREFIX_def OSC_PREFIX_def
      find_osc_terminator_def)
  then show ?thesis
    using assms(3) process_hold [of "OSC_PREFIX @ [0x30, 0x3b] @ t" c p] by (simp add: process_def)
qed

end
