(* ===== verification/Pty_Terminal.thy ===== *)
theory Pty_Terminal
  imports Pty_Ring Pty_Output
begin

text \<open>
  \<open>crates/server/pty/src/terminal.rs\<close> and \<open>output.rs\<close>: a terminal is a child process behind
  a pseudo terminal, its scrollback, and the threads that read its output and wait for
  its exit. What the operating system answers is an input of each operation (\<open>Inl\<close> the
  error text). The state of the reader thread is part of the record. What the terminal
  broadcasts is a log; the broadcast channel of tokio, which a slow subscriber can fall
  behind, is not modelled.
\<close>

section \<open>Types\<close>

datatype terminal_error = TeRing ring_error | TeIo string | TePty string | TeExited | TeInvalidCommand

record command =
  cm_program :: string
  cm_args :: "string list"
  cm_cwd :: "string option"
  cm_env :: "(string \<times> string) list"

record output_chunk =
  oc_seq_at_end :: stream_seq
  oc_bytes :: bytes

record 'p terminal =
  tr_id :: terminal_id
  tr_ring :: "'p ring"
  tr_title :: "bytes option"
  tr_size :: "u16 \<times> u16"
  tr_written :: bytes
  tr_chunks :: "output_chunk list"
  tr_exited :: bool
  tr_exit :: "exit_info option"
  tr_processor :: processor
  tr_reading :: bool

text \<open>The operating system's answers to \<open>spawn\<close>.\<close>

record spawn_env =
  se_openpty :: "(string, unit) result"
  se_take_writer :: "(string, unit) result"
  se_clone_reader :: "(string, unit) result"
  se_spawn_command :: "command \<Rightarrow> (string, unit) result"
  se_default_shell :: "string list"
  se_new_id :: terminal_id

section \<open>Spawning\<close>

text \<open>\<open>platform/unix.rs\<close>; the argument is the variable \<open>SHELL\<close>.\<close>

definition default_shell :: "string option \<Rightarrow> string list" where
  "default_shell shell =
     (case shell of
        None \<Rightarrow> [''/bin/sh'']
      | Some s \<Rightarrow> if s = [] then [''/bin/sh''] else [s])"

definition build_command :: "string list \<Rightarrow> terminal_create_params \<Rightarrow> (terminal_error, command) result" where
  "build_command shell params =
     (let argv = (if tcp_cmd params = [] then shell else tcp_cmd params) in
      case argv of
        [] \<Rightarrow> Inl TeInvalidCommand
      | program # args \<Rightarrow>
          Inr \<lparr>cm_program = program, cm_args = args, cm_cwd = tcp_cwd params, cm_env = tcp_env params\<rparr>)"

text \<open>On Unix the reader answers every cursor query (\<open>skip_initial_cursor_response\<close>).\<close>

definition skip_initial_cursor_response :: bool where
  "skip_initial_cursor_response = False"

text \<open>The result, and the child processes that were started on the way to it.\<close>

definition spawn ::
  "'p vte \<Rightarrow> spawn_env \<Rightarrow> terminal_create_params \<Rightarrow> usize \<Rightarrow>
   (terminal_error, 'p terminal) result \<times> command list" where
  "spawn v env params scrollback_bytes =
     (let cols = max (tcp_cols params) 1; rows = max (tcp_rows params) 1 in
      case se_openpty env of Inl e \<Rightarrow> (Inl (TePty e), []) | Inr _ \<Rightarrow>
      (case se_take_writer env of Inl e \<Rightarrow> (Inl (TePty e), []) | Inr _ \<Rightarrow>
      (case se_clone_reader env of Inl e \<Rightarrow> (Inl (TePty e), []) | Inr _ \<Rightarrow>
      (case build_command (se_default_shell env) params of Inl e \<Rightarrow> (Inl e, []) | Inr command \<Rightarrow>
      (case se_spawn_command env command of Inl e \<Rightarrow> (Inl (TePty e), []) | Inr _ \<Rightarrow>
      (case ring_new v cols rows (Some scrollback_bytes) of
         Inl e \<Rightarrow> (Inl (TeRing e), [command])
       | Inr ring \<Rightarrow>
           (Inr \<lparr>tr_id = se_new_id env, tr_ring = ring, tr_title = None, tr_size = (cols, rows),
                 tr_written = [], tr_chunks = [], tr_exited = False, tr_exit = None,
                 tr_processor = processor_new skip_initial_cursor_response, tr_reading = True\<rparr>,
            [command])))))))"

section \<open>Reads\<close>

definition terminal_dims :: "'p terminal \<Rightarrow> u16 \<times> u16" where
  "terminal_dims t = ring_dims (tr_ring t)"

definition terminal_head_seq :: "'p terminal \<Rightarrow> stream_seq" where
  "terminal_head_seq t = ring_head_seq (tr_ring t)"

definition terminal_snapshot_with_max_bytes :: "usize \<Rightarrow> 'p terminal \<Rightarrow> snapshot" where
  "terminal_snapshot_with_max_bytes n t = snapshot_with_max_bytes n (tr_ring t)"

definition terminal_since :: "stream_seq \<Rightarrow> 'p terminal \<Rightarrow> delta_slice option" where
  "terminal_since sq t = since sq (tr_ring t)"

definition terminal_history_page :: "stream_seq option \<Rightarrow> usize \<Rightarrow> 'p terminal \<Rightarrow> history_slice option" where
  "terminal_history_page before n t = ring_history_page before n (tr_ring t)"

section \<open>Commands\<close>

definition write_input :: "(string, unit) result \<Rightarrow> bytes \<Rightarrow> 'p terminal \<Rightarrow> (terminal_error, unit) result \<times> 'p terminal" where
  "write_input io bs t =
     (if tr_exited t then (Inl TeExited, t)
      else (case io of
        Inl e \<Rightarrow> (Inl (TeIo e), t)
      | Inr _ \<Rightarrow> (Inr (), t\<lparr>tr_written := tr_written t @ bs\<rparr>)))"

definition terminal_resize :: "(string, unit) result \<Rightarrow> u16 \<Rightarrow> u16 \<Rightarrow> 'p terminal \<Rightarrow> (terminal_error, unit) result \<times> 'p terminal" where
  "terminal_resize io cols rows t =
     (if tr_exited t then (Inl TeExited, t)
      else (let c = max cols 1; r = max rows 1 in
        case io of
          Inl e \<Rightarrow> (Inl (TePty e), t)
        | Inr _ \<Rightarrow> (Inr (), t\<lparr>tr_size := (c, r), tr_ring := set_dims c r (tr_ring t)\<rparr>)))"

text \<open>The ten polls of \<open>wait_briefly_for_exit\<close>, each of which may find the child gone.\<close>

definition wait_briefly_for_exit :: "bool list \<Rightarrow> bool" where
  "wait_briefly_for_exit polls = list_ex id (take 10 polls)"

definition map_kill_error :: "string \<Rightarrow> bool \<Rightarrow> (terminal_error, unit) result" where
  "map_kill_error e exited_after_error =
     (if exited_after_error then Inr () else Inl (TePty (''failed to kill PTY child: '' @ e)))"

text \<open>
  \<open>io\<close> is the killer's answer, \<open>gone\<close> the exited flag read after an error, and \<open>polls\<close> what
  the following polls see; the waiter thread may set the flag at any time.
\<close>

definition terminal_kill :: "(string, unit) result \<Rightarrow> bool \<Rightarrow> bool list \<Rightarrow> 'p terminal \<Rightarrow> (terminal_error, unit) result" where
  "terminal_kill io gone polls t =
     (if tr_exited t then Inr ()
      else (case io of
        Inr _ \<Rightarrow> Inr ()
      | Inl e \<Rightarrow> if gone then Inr () else map_kill_error e (wait_briefly_for_exit polls)))"

section \<open>The reader and the waiter thread\<close>

datatype read_result = ReadEof | ReadData bytes | ReadInterrupted | ReadFailed

text \<open>One round of the reader's loop; \<open>None\<close> is a panic in the scrollback.\<close>

definition reader_step :: "'p vte \<Rightarrow> (string, unit) result \<Rightarrow> read_result \<Rightarrow> 'p terminal \<Rightarrow> 'p terminal option" where
  "reader_step v io read t =
     (if \<not> tr_reading t then Some t
      else (case read of
        ReadEof \<Rightarrow> Some (t\<lparr>tr_reading := False\<rparr>)
      | ReadFailed \<Rightarrow> Some (t\<lparr>tr_reading := False\<rparr>)
      | ReadInterrupted \<Rightarrow> Some t
      | ReadData buffer \<Rightarrow>
          (let (filtered, p1) = process buffer (ring_cursor (tr_ring t)) (tr_processor t);
               (title, p2) = take_pending_title p1;
               (response, p3) = take_pending_response p2;
               t1 = t\<lparr>tr_processor := p3,
                      tr_title := (case title of None \<Rightarrow> tr_title t | Some x \<Rightarrow> Some x),
                      tr_written := (case io of Inl _ \<Rightarrow> tr_written t | Inr _ \<Rightarrow> tr_written t @ response)\<rparr>
           in if filtered = [] then Some t1
              else (case push v filtered (tr_ring t1) of
                None \<Rightarrow> None
              | Some ring \<Rightarrow>
                  Some (t1\<lparr>tr_ring := ring,
                           tr_chunks := tr_chunks t1 @
                             [\<lparr>oc_seq_at_end = ring_head_seq ring, oc_bytes = filtered\<rparr>]\<rparr>)))))"

definition default_exit_info :: "u64 \<Rightarrow> exit_info" where
  "default_exit_info now = \<lparr>ei_code = Some 1, ei_signal = None, ei_at_unix_ms = now\<rparr>"

definition exit_info_from_status :: "u32 \<Rightarrow> u64 \<Rightarrow> exit_info" where
  "exit_info_from_status code now =
     \<lparr>ei_code = (if unat code < 2 ^ 31 then Some (int (unat code)) else None),
      ei_signal = None, ei_at_unix_ms = now\<rparr>"

definition waiter_step :: "(string, u32) result \<Rightarrow> u64 \<Rightarrow> 'p terminal \<Rightarrow> 'p terminal" where
  "waiter_step status now t =
     t\<lparr>tr_exited := True,
       tr_exit := Some (case status of Inl _ \<Rightarrow> default_exit_info now | Inr code \<Rightarrow> exit_info_from_status code now)\<rparr>"

section \<open>Runs of a terminal\<close>

datatype terminal_event =
    ReaderEvent "(string, unit) result" read_result
  | InputEvent "(string, unit) result" bytes
  | ResizeEvent "(string, unit) result" u16 u16
  | ExitEvent "(string, u32) result" u64

definition terminal_step :: "'p vte \<Rightarrow> terminal_event \<Rightarrow> 'p terminal \<Rightarrow> 'p terminal option" where
  "terminal_step v ev t =
     (case ev of
        ReaderEvent io r \<Rightarrow> reader_step v io r t
      | InputEvent io bs \<Rightarrow> Some (snd (write_input io bs t))
      | ResizeEvent io c r \<Rightarrow> Some (snd (terminal_resize io c r t))
      | ExitEvent status now \<Rightarrow> Some (waiter_step status now t))"

fun terminal_run :: "'p vte \<Rightarrow> terminal_event list \<Rightarrow> 'p terminal \<Rightarrow> 'p terminal option" where
  "terminal_run v [] t = Some t"
| "terminal_run v (ev # evs) t =
     (case terminal_step v ev t of None \<Rightarrow> None | Some t' \<Rightarrow> terminal_run v evs t')"

fun bytes_read :: "terminal_event list \<Rightarrow> nat" where
  "bytes_read [] = 0"
| "bytes_read (ReaderEvent io (ReadData b) # evs) = length b + bytes_read evs"
| "bytes_read (_ # evs) = bytes_read evs"

text \<open>Every chunk carries the number of bytes broadcast up to its end.\<close>

fun numbered :: "nat \<Rightarrow> output_chunk list \<Rightarrow> bool" where
  "numbered n [] = True"
| "numbered n (c # cs) =
     (unat (seq_val (oc_seq_at_end c)) = n + length (oc_bytes c) \<and> oc_bytes c \<noteq> [] \<and>
      numbered (n + length (oc_bytes c)) cs)"

definition broadcast :: "'p terminal \<Rightarrow> bytes" where
  "broadcast t = concat (map oc_bytes (tr_chunks t))"

definition terminal_ok :: "'p vte \<Rightarrow> 'p terminal \<Rightarrow> bool" where
  "terminal_ok v t \<longleftrightarrow>
     window v (broadcast t) (tr_ring t) \<and> settled (tr_ring t) \<and> spaced (tr_ring t) \<and>
     numbered 0 (tr_chunks t) \<and> ring_dims (tr_ring t) = tr_size t \<and> 1 \<le> fst (tr_size t) \<and> 1 \<le> snd (tr_size t)"

lemma process_loop_length:
  "process_loop c r p = (f, p') \<Longrightarrow> pr_pending p = [] \<Longrightarrow> length f + length (pr_pending p') \<le> length r"
proof (induction c r p arbitrary: f p' rule: process_loop.induct)
  case (1 c r p)
  show ?case
  proof (cases "r = []")
    case True
    with 1(5,6) show ?thesis by (simp add: process_loop.simps [of c "[]"])
  next
    case r: False
    show ?thesis
    proof (cases "decide r")
      case Hold
      with r 1(5) show ?thesis by (auto simp: process_hold)
    next
      case Answer
      with r 1(5) have "process_loop c (drop (length CURSOR_POSITION_QUERY) r)
          (if pr_skip_next p then p\<lparr>pr_skip_next := False\<rparr>
           else p\<lparr>pr_pending_response := pr_pending_response p @ cursor_position_report c\<rparr>) = (f, p')"
        by (simp add: process_loop.simps [of c r])
      note run = this
      have "pr_pending (if pr_skip_next p then p\<lparr>pr_skip_next := False\<rparr>
           else p\<lparr>pr_pending_response := pr_pending_response p @ cursor_position_report c\<rparr>) = []"
        using 1(6) by simp
      from 1(1) [OF r Answer run this] show ?thesis by simp
    next
      case (Skip n)
      with r 1(5) have "process_loop c (drop n r) p = (f, p')" by (simp add: process_loop.simps [of c r])
      from 1(2) [OF r Skip this 1(6)] show ?thesis by simp
    next
      case (Title n t)
      with r 1(5) have "process_loop c (drop n r) (case t of None \<Rightarrow> p | Some t \<Rightarrow> p\<lparr>pr_pending_title := Some t\<rparr>) = (f, p')"
        by (simp add: process_loop.simps [of c r])
      note run = this
      have "pr_pending (case t of None \<Rightarrow> p | Some t \<Rightarrow> p\<lparr>pr_pending_title := Some t\<rparr>) = []"
        using 1(6) by (simp split: option.splits)
      from 1(3) [OF r Title run this] show ?thesis by simp
    next
      case Emit
      with r 1(5) obtain g where g: "process_loop c (tl r) p = (g, p')" "f = hd r # g"
        by (auto simp: process_loop.simps [of c r] split: prod.splits)
      have "length r = Suc (length (tl r))" "length f = Suc (length g)" using r g(2) by simp_all
      with 1(4) [OF r Emit g(1) 1(6)] show ?thesis by linarith
    qed
  qed
qed

lemma process_length:
  "process b c p = (f, p') \<Longrightarrow> length f + length (pr_pending p') \<le> length (pr_pending p) + length b"
  using process_loop_length [of c "pr_pending p @ b" "p\<lparr>pr_pending := []\<rparr>" f p'] by (simp add: process_def)

lemma numbered_snoc:
  "numbered n (cs @ [c]) \<longleftrightarrow> numbered n cs \<and>
     unat (seq_val (oc_seq_at_end c)) = n + length (concat (map oc_bytes (cs @ [c]))) \<and> oc_bytes c \<noteq> []"
  by (induction cs arbitrary: n) (auto simp: add.assoc)

lemma window_dims [simp]: "window v S (set_dims c r b) = window v S b"
  by (simp add: window_def set_dims_def offsets_def)

lemma push_dims: "push v bs r = Some r' \<Longrightarrow> ring_dims r' = ring_dims r"
proof (induction bs arbitrary: r)
  case Nil
  then show ?case by simp
next
  case (Cons b bs)
  have e: "maybe_evict s = Some s' \<Longrightarrow> ring_dims s' = ring_dims s" for s s' :: "'a ring"
  proof (induction s rule: maybe_evict.induct)
    case (1 s)
    then show ?case
      by (subst (asm) (2) maybe_evict.simps)
        (auto simp: Let_def ring_dims_def drop_stale_anchors_def split: if_splits option.splits)
  qed
  from Cons.prems obtain r1 where r1: "push_byte v b r = Some r1" "push v bs r1 = Some r'"
    by (auto split: option.splits)
  from e [OF r1(1) [unfolded push_byte_def]] have "ring_dims r1 = ring_dims r"
    by (simp add: ring_dims_def maybe_place_anchor_def)
  with Cons.IH [OF r1(2)] show ?case by simp
qed

section \<open>Properties\<close>

lemma take_pending [simp]:
  "pr_pending (snd (take_pending_title p)) = pr_pending p"
  "pr_pending (snd (take_pending_response p)) = pr_pending p"
  by (simp_all add: take_pending_title_def take_pending_response_def)

lemma ring_new_dims: "ring_new v c r n = Inr ring \<Longrightarrow> rb_cols ring = c \<and> rb_rows ring = r"
  by (simp add: ring_new_def Let_def maybe_place_anchor_def split: if_splits) force

lemma terminal_ok_spawn:
  assumes "spawn v env params n = (Inr t, started)"
  shows "terminal_ok v t \<and> broadcast t = [] \<and> pr_pending (tr_processor t) = []"
proof -
  obtain ring where r: "ring_new v (max (tcp_cols params) 1) (max (tcp_rows params) 1) (Some n) = Inr ring"
      "tr_ring t = ring" "tr_size t = (max (tcp_cols params) 1, max (tcp_rows params) 1)"
      "tr_chunks t = []" "tr_processor t = processor_new skip_initial_cursor_response"
    using assms by (auto simp: spawn_def Let_def split: sum.splits)
  then have "ring_dims ring = tr_size t" using ring_new_dims [OF r(1)] by (simp add: ring_dims_def)
  with r window_new [OF r(1)] show ?thesis
    by (simp add: terminal_ok_def broadcast_def processor_new_def)
qed

lemma reader_step_ok:
  assumes "terminal_ok v t" and "length (broadcast t) + length (pr_pending (tr_processor t)) + length b < 2 ^ 64"
  shows "\<exists>t'. reader_step v io (ReadData b) t = Some t' \<and> terminal_ok v t' \<and>
    length (broadcast t') + length (pr_pending (tr_processor t')) \<le>
      length (broadcast t) + length (pr_pending (tr_processor t)) + length b"
proof -
  obtain f p1 where f: "process b (ring_cursor (tr_ring t)) (tr_processor t) = (f, p1)" by fastforce
  obtain title p2 where p2: "take_pending_title p1 = (title, p2)" by fastforce
  obtain resp p3 where p3: "take_pending_response p2 = (resp, p3)" by fastforce
  have pend: "pr_pending p3 = pr_pending p1"
    using take_pending(1) [of p1] take_pending(2) [of p2] p2 p3 by simp
  from process_length [OF f] have len: "length f + length (pr_pending p1) \<le> length (pr_pending (tr_processor t)) + length b" .
  have room: "length (broadcast t) + length f < 2 ^ 64" using len assms(2) by linarith
  obtain r' where r': "push v f (tr_ring t) = Some r'" "window v (broadcast t @ f) r'" "settled r'" "spaced r'"
    using push_window [of v "broadcast t" "tr_ring t" f] assms(1) room unfolding terminal_ok_def by blast
  have head: "unat (seq_val (ring_head_seq r')) = length (broadcast t) + length f"
    using r'(2) by (simp add: window_def ring_head_seq_def)
  show ?thesis
  proof (cases "tr_reading t")
    case False
    with assms(1) show ?thesis by (auto simp: reader_step_def)
  next
    case True
    show ?thesis
    proof (cases "f = []")
      case True
      with \<open>tr_reading t\<close> f p2 p3 pend len assms(1) show ?thesis
        by (simp add: reader_step_def terminal_ok_def broadcast_def)
    next
      case False
      with \<open>tr_reading t\<close> f p2 p3 pend len r' head assms(1) push_dims [OF r'(1)] show ?thesis
        by (simp add: reader_step_def terminal_ok_def broadcast_def numbered_snoc)
    qed
  qed
qed

lemma broadcast_grows: "terminal_step v ev t = Some t' \<Longrightarrow> \<exists>x. broadcast t' = broadcast t @ x"
  by (auto simp: terminal_step_def reader_step_def write_input_def terminal_resize_def waiter_step_def broadcast_def Let_def
      split: terminal_event.splits read_result.splits if_splits sum.splits option.splits prod.splits)

lemma run_broadcast_grows: "terminal_run v evs t = Some t' \<Longrightarrow> \<exists>x. broadcast t' = broadcast t @ x"
proof (induction evs arbitrary: t)
  case (Cons ev evs)
  then obtain t1 where t1: "terminal_step v ev t = Some t1" "terminal_run v evs t1 = Some t'"
    by (auto split: option.splits)
  with broadcast_grows [OF t1(1)] Cons.IH [OF t1(2)] show ?case by auto
qed simp

lemma terminal_run_append:
  "terminal_run v (evs @ evs') t = (case terminal_run v evs t of None \<Rightarrow> None | Some t' \<Rightarrow> terminal_run v evs' t')"
  by (induction evs arbitrary: t) (simp_all split: option.splits)

lemma bytes_read_append: "bytes_read (evs @ evs') = bytes_read evs + bytes_read evs'"
  by (induction evs rule: bytes_read.induct) simp_all

lemma terminal_step_ok:
  assumes "terminal_ok v t"
    and "length (broadcast t) + length (pr_pending (tr_processor t)) + bytes_read (ev # evs) < 2 ^ 64"
  shows "\<exists>t'. terminal_step v ev t = Some t' \<and> terminal_ok v t' \<and>
    length (broadcast t') + length (pr_pending (tr_processor t')) + bytes_read evs < 2 ^ 64"
proof (cases ev)
  case (ReaderEvent io r)
  show ?thesis
  proof (cases r)
    case (ReadData b)
    from reader_step_ok [OF assms(1), of b io] assms(2) ReaderEvent ReadData obtain t' where
      "reader_step v io (ReadData b) t = Some t'" "terminal_ok v t'"
      "length (broadcast t') + length (pr_pending (tr_processor t')) \<le>
        length (broadcast t) + length (pr_pending (tr_processor t)) + length b" by auto
    with assms(2) ReaderEvent ReadData show ?thesis by (auto simp: terminal_step_def)
  qed (use assms ReaderEvent in \<open>auto simp: terminal_step_def reader_step_def terminal_ok_def broadcast_def\<close>)
next
  case (ResizeEvent io c r)
  with assms show ?thesis
    by (auto simp: terminal_step_def terminal_resize_def terminal_ok_def broadcast_def Let_def settled_def spaced_def
        ring_dims_def set_dims_def window_def offsets_def split: sum.splits)
qed (use assms in \<open>auto simp: terminal_step_def write_input_def waiter_step_def terminal_ok_def broadcast_def
       split: sum.splits\<close>)

lemma terminal_run_ok:
  "terminal_ok v t \<Longrightarrow> length (broadcast t) + length (pr_pending (tr_processor t)) + bytes_read evs < 2 ^ 64 \<Longrightarrow>
     \<exists>t'. terminal_run v evs t = Some t' \<and> terminal_ok v t'"
proof (induction evs arbitrary: t)
  case (Cons ev evs)
  from terminal_step_ok [OF Cons.prems] obtain t' where
    t': "terminal_step v ev t = Some t'" "terminal_ok v t'"
      "length (broadcast t') + length (pr_pending (tr_processor t')) + bytes_read evs < 2 ^ 64" by blast
  from Cons.IH [OF t'(2,3)] t'(1) show ?case by simp
qed simp

text \<open>
  C5. A terminal tells everyone the same story: after a successful spawn, whatever is
  read from the child (fewer than \<open>2 ^ 64\<close> bytes), typed, resized or reported by the
  operating system, in any order, the reader never panics, and the scrollback is a window
  on exactly the bytes that were broadcast; every broadcast chunk is labelled with the
  number of bytes up to its end, so chunks leave no gap and do not overlap; and the
  dimensions in the scrollback are those of the pseudo terminal, never zero.
\<close>

theorem terminal_broadcast_exact:
  assumes "spawn v env params n = (Inr t0, started)" and "bytes_read evs < 2 ^ 64"
  shows "\<exists>t. terminal_run v evs t0 = Some t \<and> window v (broadcast t) (tr_ring t) \<and> numbered 0 (tr_chunks t) \<and>
    ring_dims (tr_ring t) = tr_size t \<and> 1 \<le> fst (tr_size t) \<and> 1 \<le> snd (tr_size t)"
proof -
  have "terminal_ok v t0 \<and> broadcast t0 = [] \<and> pr_pending (tr_processor t0) = []"
    by (rule terminal_ok_spawn [OF assms(1)])
  with terminal_run_ok [of v t0 evs] assms(2) show ?thesis by (auto simp: terminal_ok_def)
qed

text \<open>
  A client that joins late misses nothing: it takes a snapshot and then reads the
  broadcast. Whatever happens after the snapshot, the rest of the broadcast after the
  snapshot's head is exactly what \<open>since\<close> returns for that head, as long as the
  scrollback still reaches back to it.
\<close>

lemma snapshot_then_broadcast:
  assumes "spawn v env params n = (Inr t0, started)" and "bytes_read (evs @ evs') < 2 ^ 64"
    and "terminal_run v evs t0 = Some t" and "terminal_run v evs' t = Some t'"
    and "rb_tail_offset (tr_ring t') \<le> seq_val (sn_head_seq (terminal_snapshot_with_max_bytes m t))"
  shows "\<exists>d. terminal_since (sn_head_seq (terminal_snapshot_with_max_bytes m t)) t' = Some d \<and>
    broadcast t' = broadcast t @ ds_bytes d \<and> ds_head_seq d = terminal_head_seq t'"
proof -
  have ok0: "terminal_ok v t0" "broadcast t0 = []" "pr_pending (tr_processor t0) = []"
    using terminal_ok_spawn [OF assms(1)] by auto
  have w: "window v (broadcast t) (tr_ring t)"
    using terminal_run_ok [OF ok0(1), of evs] assms(2,3) ok0 by (auto simp: bytes_read_append terminal_ok_def)
  have w': "window v (broadcast t') (tr_ring t')"
    using terminal_run_ok [OF ok0(1), of "evs @ evs'"] assms ok0 by (auto simp: terminal_run_append terminal_ok_def)
  obtain x where x: "broadcast t' = broadcast t @ x" using run_broadcast_grows [OF assms(4)] by blast
  have sn: "sn_head_seq (terminal_snapshot_with_max_bytes m t) = StreamSeq (rb_head_seq (tr_ring t))"
    by (simp add: terminal_snapshot_with_max_bytes_def snapshot_with_max_bytes_def Let_def ring_snapshot_def
        snapshot_from_anchor_def split: option.splits)
  have "unat (rb_tail_offset (tr_ring t')) \<le> length (broadcast t)" "unat (rb_head_seq (tr_ring t)) = length (broadcast t)"
    using assms(5) w by (auto simp: sn word_le_nat_alt window_def)
  then show ?thesis
    unfolding terminal_since_def since_window [OF w'] sn
    by (simp add: x terminal_head_seq_def ring_head_seq_def)
qed

text \<open>
  A configured scrollback above the built-in maximum of 64 MiB is only noticed after
  the child process has been started: \<open>spawn\<close> then fails, and the child it started is
  owned by nothing.
\<close>

lemma oversized_scrollback_orphans_child:
  assumes "MAX_CAPACITY_BYTES < n"
    and "se_openpty env = Inr ()" and "se_take_writer env = Inr ()" and "se_clone_reader env = Inr ()"
    and "build_command (se_default_shell env) params = Inr command" and "se_spawn_command env command = Inr ()"
  shows "spawn v env params n = (Inl (TeRing (CapacityTooLarge n)), [command])"
  using assms by (simp add: spawn_def Let_def ring_new_def)

section \<open>Witnesses\<close>

definition small_env :: spawn_env where
  "small_env = \<lparr>se_openpty = Inr (), se_take_writer = Inr (), se_clone_reader = Inr (),
     se_spawn_command = (\<lambda>_. Inr ()), se_default_shell = [''/bin/sh''], se_new_id = TerminalId 7\<rparr>"

definition small_params :: terminal_create_params where
  "small_params = \<lparr>tcp_cols = 80, tcp_rows = 0, tcp_cwd = None, tcp_cmd = [], tcp_env = []\<rparr>"

lemma process_loop_plain: "27 \<notin> set r \<Longrightarrow> process_loop c r p = (r, p)"
  using process_text [of r c "[]" p] by (simp add: process_loop.simps [of c "[]"])

lemma process_plain: "27 \<notin> set b \<Longrightarrow> pr_pending p = [] \<Longrightarrow> process b c p = (b, p)"
  by (simp add: process_def process_loop_plain)

lemma push_small:
  "length (rb_bytes r) + length bs \<le> unat (rb_cap r) \<Longrightarrow>
     \<exists>r'. push v bs r = Some r' \<and> rb_tail_offset r' = rb_tail_offset r \<and> rb_cap r' = rb_cap r \<and>
       rb_bytes r' = rb_bytes r @ bs"
proof (induction bs arbitrary: r)
  case (Cons b bs)
  obtain r1 where r1: "push_byte v b r = Some r1" "rb_tail_offset r1 = rb_tail_offset r" "rb_cap r1 = rb_cap r"
      "rb_bytes r1 = rb_bytes r @ [b]"
    using Cons.prems by (subst (asm) push_byte_def) (simp add: maybe_evict.simps)
  with Cons.IH [of r1] Cons.prems show ?case by auto
qed simp

lemma reader_plain:
  assumes "tr_reading t" and "pr_pending (tr_processor t) = []" and "27 \<notin> set b" and "b \<noteq> []"
    and "length (rb_bytes (tr_ring t)) + length b \<le> unat (rb_cap (tr_ring t))"
  shows "\<exists>t'. reader_step v io (ReadData b) t = Some t' \<and> tr_reading t' \<and> pr_pending (tr_processor t') = [] \<and>
    rb_tail_offset (tr_ring t') = rb_tail_offset (tr_ring t) \<and> rb_cap (tr_ring t') = rb_cap (tr_ring t) \<and>
    rb_bytes (tr_ring t') = rb_bytes (tr_ring t) @ b \<and> length (tr_chunks t') = Suc (length (tr_chunks t))"
  using push_small [OF assms(5), of v] assms(1-4) process_plain [OF assms(3,2)]
  by (auto simp: reader_step_def take_pending_title_def take_pending_response_def)

lemma small_terminal:
  "\<exists>t0 cs t1 t2. spawn print_vte small_env small_params 100 = (Inr t0, cs) \<and>
     terminal_run print_vte [ReaderEvent (Inr ()) (ReadData [97, 98])] t0 = Some t1 \<and>
     terminal_run print_vte [ReaderEvent (Inr ()) (ReadData [99])] t1 = Some t2 \<and>
     rb_tail_offset (tr_ring t2) = 0"
proof -
  obtain t0 cs where t0: "spawn print_vte small_env small_params 100 = (Inr t0, cs)" "tr_reading t0"
      "pr_pending (tr_processor t0) = []" "rb_tail_offset (tr_ring t0) = 0" "rb_bytes (tr_ring t0) = []"
      "rb_cap (tr_ring t0) = 100"
    by (simp add: spawn_def small_env_def small_params_def build_command_def ring_new_def Let_def MAX_CAPACITY_BYTES_def
      maybe_place_anchor_def processor_new_def)
  obtain t1 where t1: "reader_step print_vte (Inr ()) (ReadData [97, 98]) t0 = Some t1" "tr_reading t1"
      "pr_pending (tr_processor t1) = []" "rb_tail_offset (tr_ring t1) = 0" "rb_bytes (tr_ring t1) = [97, 98]"
      "rb_cap (tr_ring t1) = 100"
    using reader_plain [of t0 "[97, 98]" print_vte "Inr ()"] t0 by auto
  obtain t2 where t2: "reader_step print_vte (Inr ()) (ReadData [99]) t1 = Some t2" "rb_tail_offset (tr_ring t2) = 0"
    using reader_plain [of t1 "[99]" print_vte "Inr ()"] t1 by auto
  from t0(1) t1(1) t2 show ?thesis by (auto simp: terminal_step_def)
qed

theorem terminal_broadcast_exact_witness:
  "\<exists>t0 cs t. spawn print_vte small_env small_params 100 = (Inr t0, cs) \<and>
     terminal_run print_vte [ResizeEvent (Inr ()) 0 50, ReaderEvent (Inr ()) (ReadData [97, 98]), ExitEvent (Inr 0) 5] t0 = Some t \<and>
     window print_vte (broadcast t) (tr_ring t)"
proof -
  obtain t0 cs where "spawn print_vte small_env small_params 100 = (Inr t0, cs)" using small_terminal by blast
  with terminal_broadcast_exact [OF this,
      of "[ResizeEvent (Inr ()) 0 50, ReaderEvent (Inr ()) (ReadData [97, 98]), ExitEvent (Inr 0) 5]"]
  show ?thesis by auto
qed

end
