(* ===== verification/Daemon_Types.thy ===== *)
theory Daemon_Types
  imports Pty_Terminal Shared_Strings
begin

text \<open>
  What the daemon's modules share: its error type (\<open>crates/server/daemon-core/src/lib.rs\<close>)
  and the texts of the errors it wraps, and the data of its configuration
  (\<open>crates/server/daemon-core/src/config.rs\<close>).
\<close>

definition show_terminal_id :: "texts \<Rightarrow> terminal_id \<Rightarrow> string" where
  "show_terminal_id tx i = ''TerminalId('' @ tx_uuid tx (terminal_uuid i) @ '')''"

definition show_client_id :: "texts \<Rightarrow> client_id \<Rightarrow> string" where
  "show_client_id tx i = ''ClientId('' @ tx_uuid tx (client_uuid i) @ '')''"

section \<open>Errors\<close>

fun ring_error_text :: "ring_error \<Rightarrow> string" where
  "ring_error_text (CapacityTooLarge n) =
     ''capacity '' @ show_nat (unat n) @ '' exceeds the per-terminal limit '' @ show_nat (unat MAX_CAPACITY_BYTES)"

fun terminal_error_text :: "terminal_error \<Rightarrow> string" where
  "terminal_error_text (TeRing e) = ''ring error: '' @ ring_error_text e"
| "terminal_error_text (TeIo e) = ''io error: '' @ e"
| "terminal_error_text (TePty e) = ''portable-pty error: '' @ e"
| "terminal_error_text TeExited = ''terminal already exited''"
| "terminal_error_text TeInvalidCommand = ''command argv cannot be empty''"

datatype daemon_error =
    DaemonIo string
  | DaemonConfigError string
  | DaemonIdentity string
  | DaemonClientDb string
  | DaemonCrypto noise_error
  | DaemonTransport transport_error
  | DaemonProto codec_error
  | DaemonPty terminal_error
  | DaemonRevoked string
  | DaemonNotPaired string
  | DaemonInternal string

fun daemon_error_text :: "texts \<Rightarrow> daemon_error \<Rightarrow> string" where
  "daemon_error_text tx (DaemonIo e) = ''I/O: '' @ e"
| "daemon_error_text tx (DaemonConfigError e) = ''config: '' @ e"
| "daemon_error_text tx (DaemonIdentity e) = ''identity: '' @ e"
| "daemon_error_text tx (DaemonClientDb e) = ''client-db: '' @ e"
| "daemon_error_text tx (DaemonCrypto e) = ''crypto: '' @ noise_error_text e"
| "daemon_error_text tx (DaemonTransport e) = ''transport: '' @ transport_error_text e"
| "daemon_error_text tx (DaemonProto e) = ''proto: '' @ codec_error_text tx e"
| "daemon_error_text tx (DaemonPty e) = ''pty: '' @ terminal_error_text e"
| "daemon_error_text tx (DaemonRevoked e) = ''revoked: client '' @ e"
| "daemon_error_text tx (DaemonNotPaired e) = ''not paired: client '' @ e"
| "daemon_error_text tx (DaemonInternal e) = ''internal: '' @ e"

section \<open>Configuration\<close>

record listen_config =
  ln_addr :: ip_addr
  ln_port :: u16

record security_config =
  sy_identity_path :: os_path
  sy_clients_path :: os_path
  sy_revoked_path :: os_path

record relay_retry_config =
  rr_initial_ms :: u64
  rr_max_ms :: u64
  rr_mul_x10 :: u32

record daemon_relay_config =
  ry_base_url :: string
  ry_psk_hex :: string
  ry_server_auth_token :: "string option"
  ry_retry :: relay_retry_config

record limits_config =
  lc_max_terminals :: usize
  lc_scrollback_bytes :: usize
  lc_scrollback_anchor_interval :: usize
  lc_broadcast_capacity :: usize

text \<open>\<open>AppConfig\<close> has one field, \<open>base_url\<close>.\<close>

record app_config =
  ap_base_url :: string

record daemon_config =
  dc_listen :: listen_config
  dc_security :: security_config
  dc_config_path :: "os_path option"
  dc_relay :: daemon_relay_config
  dc_app :: app_config
  dc_limits :: limits_config

end
