(* ===== verification/Daemon_Session.thy ===== *)
theory Daemon_Session
  imports Daemon_Types
begin

text \<open>
  \<open>crates/server/daemon-core/src/session.rs\<close>: the daemon's terminals. A terminal is
  shared by the map, by the connections that have it open and by its own threads (an
  \<open>Arc\<close>), so terminals live in a list and a reference is an index of it. \<open>create\<close> takes the
  lock twice, once to check the limit and once to insert, and the reaper collects and
  removes under separate locks: these are separate steps.
\<close>

section \<open>State\<close>

record terminal_entry =
  en_terminal :: nat
  en_created_at_unix_ms :: u64

record 'p session_manager =
  sm_terminals :: "(terminal_id, terminal_entry) hash_map"
  sm_max_terminals :: usize
  sm_heap :: "'p terminal list"

definition session_manager_new :: "usize \<Rightarrow> 'p session_manager" where
  "session_manager_new max_terminals =
     \<lparr>sm_terminals = [], sm_max_terminals = max_terminals, sm_heap = []\<rparr>"

section \<open>Operations\<close>

definition create_check :: "'p session_manager \<Rightarrow> (daemon_error, unit) result" where
  "create_check m =
     (if unat (sm_max_terminals m) \<le> length (sm_terminals m)
      then Inl (DaemonInternal (''terminal limit reached ('' @ show_nat (unat (sm_max_terminals m)) @ '')''))
      else Inr ())"

definition terminal_info_of :: "terminal_id \<Rightarrow> u64 \<Rightarrow> 'p terminal \<Rightarrow> terminal_info" where
  "terminal_info_of i created t =
     \<lparr>ti_terminal = i, ti_cols = fst (terminal_dims t), ti_rows = snd (terminal_dims t),
      ti_created_at_unix_ms = created, ti_label = tr_title t,
      ti_attached_clients = 0\<rparr>"

definition create_insert :: "u64 \<Rightarrow> 'p terminal \<Rightarrow> 'p session_manager \<Rightarrow> 'p session_manager" where
  "create_insert now t m =
     m\<lparr>sm_heap := sm_heap m @ [t],
       sm_terminals := hm_insert (tr_id t) \<lparr>en_terminal = length (sm_heap m), en_created_at_unix_ms = now\<rparr>
                         (sm_terminals m)\<rparr>"

text \<open>The result, the new state, and the child processes that were started.\<close>

definition create ::
  "'p vte \<Rightarrow> spawn_env \<Rightarrow> u64 \<Rightarrow> terminal_create_params \<Rightarrow> usize \<Rightarrow> 'p session_manager \<Rightarrow>
   (daemon_error, terminal_info) result \<times> 'p session_manager \<times> command list" where
  "create v env now params scrollback_bytes m =
     (case create_check m of
        Inl e \<Rightarrow> (Inl e, m, [])
      | Inr _ \<Rightarrow>
          (case spawn v env params scrollback_bytes of
             (Inl e, started) \<Rightarrow> (Inl (DaemonPty e), m, started)
           | (Inr t, started) \<Rightarrow>
               (Inr (terminal_info_of (tr_id t) now t), create_insert now t m, started)))"

definition attach :: "terminal_id \<Rightarrow> 'p session_manager \<Rightarrow> nat option" where
  "attach i m = map_option en_terminal (hm_get (sm_terminals m) i)"

definition session_kill ::
  "texts \<Rightarrow> (string, unit) result \<Rightarrow> bool \<Rightarrow> bool list \<Rightarrow> terminal_id \<Rightarrow> 'p session_manager \<Rightarrow>
   (daemon_error, unit) result" where
  "session_kill tx io gone polls i m =
     (case hm_get (sm_terminals m) i of
        None \<Rightarrow> Inl (DaemonInternal (''unknown terminal '' @ show_terminal_id tx i))
      | Some entry \<Rightarrow>
          (case terminal_kill io gone polls (sm_heap m ! en_terminal entry) of
             Inl e \<Rightarrow> Inl (DaemonPty e)
           | Inr _ \<Rightarrow> Inr ()))"

definition session_list :: "'p session_manager \<Rightarrow> terminal_info list" where
  "session_list m =
     map (\<lambda>(i, entry). terminal_info_of i (en_created_at_unix_ms entry) (sm_heap m ! en_terminal entry))
         (sm_terminals m)"

definition session_count :: "'p session_manager \<Rightarrow> nat" where
  "session_count m = length (sm_terminals m)"

definition reap_collect :: "'p session_manager \<Rightarrow> terminal_id list" where
  "reap_collect m =
     map fst (filter (\<lambda>(i, entry). tr_exited (sm_heap m ! en_terminal entry)) (sm_terminals m))"

definition reap_remove :: "terminal_id list \<Rightarrow> 'p session_manager \<Rightarrow> 'p session_manager" where
  "reap_remove dead m = m\<lparr>sm_terminals := fold hm_remove dead (sm_terminals m)\<rparr>"

section \<open>The manager and its users\<close>

text \<open>
  Any number of connections create, terminals run, and the reaper works, interleaved.
  \<open>ss_pending\<close> counts the calls of \<open>create\<close> that have passed the check, \<open>ss_dead\<close> is what
  the reaper has collected. New identifiers are fresh (\<open>Uuid::now_v7\<close>).
\<close>

record 'p session_sys =
  ss_manager :: "'p session_manager"
  ss_pending :: nat
  ss_dead :: "terminal_id list"

inductive session_step :: "'p vte \<Rightarrow> nat \<Rightarrow> 'p session_sys \<Rightarrow> 'p session_sys \<Rightarrow> bool" for v callers where
  check_passes: "create_check (ss_manager s) = Inr () \<Longrightarrow> ss_pending s < callers \<Longrightarrow>
     session_step v callers s (s\<lparr>ss_pending := Suc (ss_pending s)\<rparr>)"
| spawn_fails: "0 < ss_pending s \<Longrightarrow> spawn v env params n = (Inl e, started) \<Longrightarrow>
     session_step v callers s (s\<lparr>ss_pending := ss_pending s - 1\<rparr>)"
| insert_terminal: "0 < ss_pending s \<Longrightarrow> spawn v env params n = (Inr t, started) \<Longrightarrow>
     \<forall>t' \<in> set (sm_heap (ss_manager s)). tr_id t' \<noteq> tr_id t \<Longrightarrow>
     session_step v callers s (s\<lparr>ss_pending := ss_pending s - 1, ss_manager := create_insert now t (ss_manager s)\<rparr>)"
| terminal_runs: "h < length (sm_heap (ss_manager s)) \<Longrightarrow>
     terminal_step v ev (sm_heap (ss_manager s) ! h) = Some t' \<Longrightarrow>
     session_step v callers s (s\<lparr>ss_manager := (ss_manager s)\<lparr>sm_heap := (sm_heap (ss_manager s))[h := t']\<rparr>\<rparr>)"
| reaper_collects: "session_step v callers s (s\<lparr>ss_dead := reap_collect (ss_manager s)\<rparr>)"
| reaper_removes: "session_step v callers s (s\<lparr>ss_manager := reap_remove (ss_dead s) (ss_manager s), ss_dead := []\<rparr>)"

inductive session_reach :: "'p vte \<Rightarrow> nat \<Rightarrow> usize \<Rightarrow> 'p session_sys \<Rightarrow> bool" for v callers limit where
  session_start: "session_reach v callers limit
     \<lparr>ss_manager = session_manager_new limit, ss_pending = 0, ss_dead = []\<rparr>"
| session_next: "session_reach v callers limit s \<Longrightarrow> session_step v callers s s' \<Longrightarrow> session_reach v callers limit s'"

inductive_cases session_stepE: "session_step v callers s s'"

section \<open>Invariant\<close>

definition registered :: "'p session_manager \<Rightarrow> bool" where
  "registered m \<longleftrightarrow>
     (\<forall>i en. hm_get (sm_terminals m) i = Some en \<longrightarrow>
        en_terminal en < length (sm_heap m) \<and> tr_id (sm_heap m ! en_terminal en) = i) \<and>
     (\<forall>h < length (sm_heap m). \<not> tr_exited (sm_heap m ! h) \<longrightarrow>
        (\<exists>en. hm_get (sm_terminals m) (tr_id (sm_heap m ! h)) = Some en \<and> en_terminal en = h))"

definition dead_exited :: "terminal_id list \<Rightarrow> 'p terminal list \<Rightarrow> bool" where
  "dead_exited dead heap \<longleftrightarrow> (\<forall>i \<in> set dead. \<exists>h < length heap. tr_id (heap ! h) = i \<and> tr_exited (heap ! h))"

definition session_inv :: "nat \<Rightarrow> usize \<Rightarrow> 'p session_sys \<Rightarrow> bool" where
  "session_inv callers limit s \<longleftrightarrow>
     hm_wf (sm_terminals (ss_manager s)) \<and> sm_max_terminals (ss_manager s) = limit \<and>
     distinct (map tr_id (sm_heap (ss_manager s))) \<and> ss_pending s \<le> callers \<and>
     (0 < ss_pending s \<or> sm_terminals (ss_manager s) \<noteq> [] \<longrightarrow>
        length (sm_terminals (ss_manager s)) + ss_pending s < unat limit + callers) \<and>
     registered (ss_manager s) \<and> dead_exited (ss_dead s) (sm_heap (ss_manager s))"

lemma heap_unique:
  "distinct (map tr_id heap) \<Longrightarrow> h < length heap \<Longrightarrow> k < length heap \<Longrightarrow> tr_id (heap ! h) = tr_id (heap ! k) \<Longrightarrow> h = k"
  by (simp add: distinct_conv_nth) metis

lemma terminal_step_id:
  "terminal_step v ev t = Some t' \<Longrightarrow> tr_id t' = tr_id t \<and> (tr_exited t \<longrightarrow> tr_exited t')"
  by (auto simp: terminal_step_def reader_step_def write_input_def terminal_resize_def waiter_step_def Let_def
      split: terminal_event.splits read_result.splits if_splits sum.splits option.splits prod.splits)

lemma hm_remove_all:
  "hm_wf m \<Longrightarrow> hm_wf (fold hm_remove ks m) \<and>
     hm_get (fold hm_remove ks m) i = (if i \<in> set ks then None else hm_get m i) \<and>
     length (fold hm_remove ks m) \<le> length m"
proof (induction ks arbitrary: m)
  case (Cons k ks)
  have "length (hm_remove k m) \<le> length m" by (simp add: hm_remove_def length_delete_le)
  with Cons.IH [of "hm_remove k m"] Cons.prems show ?case by (auto simp: hm_simps)
qed simp

lemma length_hm_insert: "length (hm_insert k v m) \<le> Suc (length m)"
  by (cases "hm_get m k") (simp_all add: length_hm_insert_fresh length_hm_insert_present)

lemma registered_insert:
  assumes r: "registered m" and fresh: "tr_id t \<notin> set (map tr_id (sm_heap m))"
  shows "registered (create_insert now t m)"
proof -
  have get: "hm_get (sm_terminals (create_insert now t m)) i =
      (if i = tr_id t then Some \<lparr>en_terminal = length (sm_heap m), en_created_at_unix_ms = now\<rparr>
       else hm_get (sm_terminals m) i)" for i
    by (simp add: create_insert_def hm_simps)
  have heap: "sm_heap (create_insert now t m) = sm_heap m @ [t]" by (simp add: create_insert_def)
  have "tr_id (sm_heap m ! h) \<noteq> tr_id t" if "h < length (sm_heap m)" for h
    using fresh that by (metis length_map nth_map nth_mem)
  with r show ?thesis
    unfolding registered_def get heap by (auto simp: nth_append less_Suc_eq)
qed

lemma dead_exited_mono: "dead_exited dead heap \<Longrightarrow> dead_exited dead (heap @ [t])"
  by (fastforce simp: dead_exited_def nth_append)

lemma session_inv_insert:
  assumes inv: "session_inv callers limit s" and p: "0 < ss_pending s"
    and fresh: "tr_id t \<notin> set (map tr_id (sm_heap (ss_manager s)))"
  shows "session_inv callers limit
    (s\<lparr>ss_pending := ss_pending s - 1, ss_manager := create_insert now t (ss_manager s)\<rparr>)"
proof -
  have "length (hm_insert (tr_id t) e (sm_terminals (ss_manager s))) + (ss_pending s - 1) < unat limit + callers" for e
    using length_hm_insert [of "tr_id t" e "sm_terminals (ss_manager s)"] inv p by (auto simp: session_inv_def)
  moreover have "registered (create_insert now t (ss_manager s))"
    using inv fresh by (intro registered_insert) (simp_all add: session_inv_def)
  moreover have "dead_exited (ss_dead s) (sm_heap (create_insert now t (ss_manager s)))"
    using inv dead_exited_mono by (auto simp: session_inv_def create_insert_def)
  ultimately show ?thesis
    using inv fresh by (auto simp: session_inv_def create_insert_def)
qed

lemma session_inv_run:
  assumes inv: "session_inv callers limit s" and h: "h < length (sm_heap (ss_manager s))"
    and t': "tr_id t' = tr_id (sm_heap (ss_manager s) ! h)" "tr_exited (sm_heap (ss_manager s) ! h) \<longrightarrow> tr_exited t'"
  shows "session_inv callers limit (s\<lparr>ss_manager := (ss_manager s)\<lparr>sm_heap := (sm_heap (ss_manager s))[h := t']\<rparr>\<rparr>)"
proof -
  let ?heap = "sm_heap (ss_manager s)"
  have ids: "tr_id (?heap[h := t'] ! k) = tr_id (?heap ! k)" for k
    using t'(1) h by (cases "k = h") simp_all
  have alive: "tr_exited (?heap ! k) \<longrightarrow> tr_exited (?heap[h := t'] ! k)" for k
    using t'(2) h by (cases "k = h") simp_all
  have "map tr_id (?heap[h := t']) = map tr_id ?heap"
    by (rule nth_equalityI) (simp_all add: ids)
  moreover have "registered ((ss_manager s)\<lparr>sm_heap := ?heap[h := t']\<rparr>)"
    using inv alive by (auto simp: session_inv_def registered_def ids)
  moreover have "dead_exited (ss_dead s) (?heap[h := t'])"
    using inv alive by (force simp: session_inv_def dead_exited_def ids)
  ultimately show ?thesis using inv by (simp add: session_inv_def)
qed

lemma session_inv_collect:
  assumes "session_inv callers limit s"
  shows "session_inv callers limit (s\<lparr>ss_dead := reap_collect (ss_manager s)\<rparr>)"
proof -
  have "dead_exited (reap_collect (ss_manager s)) (sm_heap (ss_manager s))"
    unfolding dead_exited_def
  proof
    fix i assume "i \<in> set (reap_collect (ss_manager s))"
    then obtain en where en: "(i, en) \<in> set (sm_terminals (ss_manager s))"
        "tr_exited (sm_heap (ss_manager s) ! en_terminal en)"
      by (auto simp: reap_collect_def)
    then have "hm_get (sm_terminals (ss_manager s)) i = Some en"
      using assms by (simp add: session_inv_def hm_get_Some)
    with en(2) assms show "\<exists>h < length (sm_heap (ss_manager s)).
        tr_id (sm_heap (ss_manager s) ! h) = i \<and> tr_exited (sm_heap (ss_manager s) ! h)"
      by (auto simp: session_inv_def registered_def)
  qed
  with assms show ?thesis by (simp add: session_inv_def)
qed

lemma registered_remove:
  assumes "registered m" and "hm_wf (sm_terminals m)" and "distinct (map tr_id (sm_heap m))"
    and "dead_exited dead (sm_heap m)"
  shows "registered (reap_remove dead m)"
proof -
  have get: "hm_get (sm_terminals (reap_remove dead m)) i = (if i \<in> set dead then None else hm_get (sm_terminals m) i)" for i
    using hm_remove_all [OF assms(2), of dead i] by (simp add: reap_remove_def)
  have heap: "sm_heap (reap_remove dead m) = sm_heap m" by (simp add: reap_remove_def)
  have "tr_exited (sm_heap m ! h)" if "h < length (sm_heap m)" "tr_id (sm_heap m ! h) \<in> set dead" for h
    using assms(4) that heap_unique [OF assms(3), of h] by (fastforce simp: dead_exited_def)
  with assms(1) show ?thesis unfolding registered_def get heap by auto
qed

lemma session_inv_remove:
  assumes inv: "session_inv callers limit s"
  shows "session_inv callers limit (s\<lparr>ss_manager := reap_remove (ss_dead s) (ss_manager s), ss_dead := []\<rparr>)"
proof -
  let ?left = "fold hm_remove (ss_dead s) (sm_terminals (ss_manager s))"
  have rm: "hm_wf ?left" "length ?left \<le> length (sm_terminals (ss_manager s))"
    using hm_remove_all [of "sm_terminals (ss_manager s)" "ss_dead s"] inv by (auto simp: session_inv_def)
  have "?left \<noteq> [] \<longrightarrow> sm_terminals (ss_manager s) \<noteq> []" using rm(2) by auto
  moreover have "registered (reap_remove (ss_dead s) (ss_manager s))"
    using inv by (intro registered_remove) (simp_all add: session_inv_def)
  ultimately show ?thesis
    using inv rm by (auto simp: session_inv_def reap_remove_def dead_exited_def)
qed

lemma session_inv_step:
  assumes "session_step v callers s s'" and inv: "session_inv callers limit s"
  shows "session_inv callers limit s'"
  using assms(1)
proof (cases rule: session_step.cases)
  case check_passes
  with inv show ?thesis by (auto simp: session_inv_def create_check_def split: if_splits)
next
  case spawn_fails
  with inv show ?thesis by (auto simp: session_inv_def)
next
  case (insert_terminal env params n t started now)
  then have "tr_id t \<notin> set (map tr_id (sm_heap (ss_manager s)))" by fastforce
  with insert_terminal session_inv_insert [OF inv] show ?thesis by blast
next
  case terminal_runs
  with session_inv_run [OF inv] terminal_step_id show ?thesis by blast
next
  case reaper_collects
  with session_inv_collect [OF inv] show ?thesis by simp
next
  case reaper_removes
  with session_inv_remove [OF inv] show ?thesis by simp
qed

lemma session_reach_inv: "session_reach v callers limit s \<Longrightarrow> session_inv callers limit s"
proof (induction rule: session_reach.induct)
  case session_start
  show ?case by (simp add: session_inv_def session_manager_new_def registered_def dead_exited_def)
next
  case (session_next s s')
  then show ?case using session_inv_step by blast
qed

text \<open>
  C25. The daemon's terminals, whatever the interleaving of connections that create them,
  of the terminals themselves and of the reaper: a terminal whose process runs is always
  registered, so a client can attach to it, and what is attached under an identifier is
  the terminal of that identifier; and with at most \<open>callers\<close> calls of \<open>create\<close> at a time
  there are fewer than the configured limit plus \<open>callers\<close> terminals (so with one call at
  a time the limit holds).
\<close>

theorem terminals_stay_registered:
  assumes "session_reach v callers limit s" and "0 < session_count (ss_manager s)"
  shows "session_count (ss_manager s) < unat limit + callers \<and>
    (\<forall>h < length (sm_heap (ss_manager s)). \<not> tr_exited (sm_heap (ss_manager s) ! h) \<longrightarrow>
       attach (tr_id (sm_heap (ss_manager s) ! h)) (ss_manager s) = Some h) \<and>
    (\<forall>i h. attach i (ss_manager s) = Some h \<longrightarrow>
       h < length (sm_heap (ss_manager s)) \<and> tr_id (sm_heap (ss_manager s) ! h) = i)"
  using session_reach_inv [OF assms(1)] assms(2)
  by (auto simp: session_inv_def registered_def session_count_def attach_def)

text \<open>Exited terminals go: a pass of the reaper leaves only terminals that were running when it looked.\<close>

lemma reap_removes_exited:
  assumes "hm_wf (sm_terminals m)" and "attach i (reap_remove (reap_collect m) m) = Some h"
  shows "\<not> tr_exited (sm_heap m ! h) \<and> attach i m = Some h"
  using assms hm_remove_all [OF assms(1), of "reap_collect m" i]
  by (auto simp: attach_def reap_remove_def reap_collect_def hm_get_Some image_iff split: if_splits)

section \<open>Two callers\<close>

lemma sample_spawn:
  "\<exists>t started. spawn print_vte (small_env\<lparr>se_new_id := i\<rparr>) small_params 4 = (Inr t, started) \<and> tr_id t = i \<and>
     \<not> tr_exited t"
  by (simp add: spawn_def small_env_def small_params_def build_command_def ring_new_def Let_def MAX_CAPACITY_BYTES_def
      maybe_place_anchor_def)

text \<open>
  The limit on terminals can be exceeded: two connections that create at the same time
  both pass the check before either inserts, and the daemon ends with one terminal more
  than its limit.
\<close>

lemma terminal_limit_exceeded:
  "\<exists>s. session_reach print_vte 2 1 s \<and> session_count (ss_manager s) = 2"
proof -
  obtain t1 x1 where t1: "spawn print_vte (small_env\<lparr>se_new_id := TerminalId 1\<rparr>) small_params 4 = (Inr t1, x1)"
      "tr_id t1 = TerminalId 1" using sample_spawn by blast
  obtain t2 x2 where t2: "spawn print_vte (small_env\<lparr>se_new_id := TerminalId 2\<rparr>) small_params 4 = (Inr t2, x2)"
      "tr_id t2 = TerminalId 2" using sample_spawn by blast
  let ?m0 = "session_manager_new 1"
  let ?s = "\<lambda>m k. \<lparr>ss_manager = m, ss_pending = k, ss_dead = []\<rparr>"
  have "session_reach print_vte 2 1 (?s ?m0 0)" by (rule session_start)
  moreover have "session_step print_vte 2 (?s ?m0 0) (?s ?m0 1)"
    using check_passes [of "?s ?m0 0" 2 print_vte] by (simp add: create_check_def session_manager_new_def)
  moreover have "session_step print_vte 2 (?s ?m0 1) (?s ?m0 2)"
    using check_passes [of "?s ?m0 1" 2 print_vte] by (simp add: create_check_def session_manager_new_def numeral_2_eq_2)
  moreover have "session_step print_vte 2 (?s ?m0 2) (?s (create_insert 0 t1 ?m0) 1)"
    using insert_terminal [of "?s ?m0 2", OF _ t1(1), of 2 0] by (simp add: session_manager_new_def)
  moreover have "session_step print_vte 2 (?s (create_insert 0 t1 ?m0) 1)
      (?s (create_insert 0 t2 (create_insert 0 t1 ?m0)) 0)"
    using insert_terminal [of "?s (create_insert 0 t1 ?m0) 1", OF _ t2(1), of 2 0] t1(2) t2(2)
    by (simp add: session_manager_new_def create_insert_def)
  ultimately have "session_reach print_vte 2 1 (?s (create_insert 0 t2 (create_insert 0 t1 ?m0)) 0)"
    by (metis session_next)
  moreover have "session_count (create_insert 0 t2 (create_insert 0 t1 ?m0)) = 2"
    using t1(2) t2(2) by (simp add: session_count_def create_insert_def session_manager_new_def hm_insert_def)
  ultimately show ?thesis by (metis session_sys.select_convs(1))
qed

theorem terminals_stay_registered_witness:
  "\<exists>s. session_reach print_vte 1 1 s \<and> session_count (ss_manager s) = 1 \<and>
     attach (TerminalId 1) (ss_manager s) = Some 0"
proof -
  obtain t x where t: "spawn print_vte (small_env\<lparr>se_new_id := TerminalId 1\<rparr>) small_params 4 = (Inr t, x)"
      "tr_id t = TerminalId 1" "\<not> tr_exited t" using sample_spawn by blast
  let ?m0 = "session_manager_new 1"
  let ?s = "\<lambda>m k. \<lparr>ss_manager = m, ss_pending = k, ss_dead = []\<rparr>"
  have "session_reach print_vte 1 1 (?s ?m0 0)" by (rule session_start)
  moreover have "session_step print_vte 1 (?s ?m0 0) (?s ?m0 1)"
    using check_passes [of "?s ?m0 0" 1 print_vte] by (simp add: create_check_def session_manager_new_def)
  moreover have "session_step print_vte 1 (?s ?m0 1) (?s (create_insert 0 t ?m0) 0)"
    using insert_terminal [of "?s ?m0 1", OF _ t(1), of 1 0] by (simp add: session_manager_new_def)
  ultimately have r: "session_reach print_vte 1 1 (?s (create_insert 0 t ?m0) 0)" by (metis session_next)
  have c: "session_count (create_insert 0 t ?m0) = 1" "sm_heap (create_insert 0 t ?m0) = [t]"
    by (simp_all add: session_count_def create_insert_def session_manager_new_def hm_insert_def)
  with terminals_stay_registered [OF r] t(2,3) have "attach (TerminalId 1) (create_insert 0 t ?m0) = Some 0" by simp
  with r c(1) show ?thesis by (metis session_sys.select_convs(1))
qed

end
