(* ===== verification/Daemon_ClientDb.thy ===== *)
theory Daemon_ClientDb
  imports Daemon_Types "HOL-Library.Product_Lexorder"
begin

text \<open>
  \<open>crates/server/daemon-core/src/client_db.rs\<close>: the clients that may connect and those
  that are revoked, kept in memory and in two JSON files. The files are written by
  replacing them atomically; a background task polls them every 50 ms and takes over
  what someone else (an operator, a second process) wrote. JSON is third-party code, a
  parameter; the answers of the file system are an input of each operation.
\<close>

section \<open>Data\<close>

record client_record =
  cr_client_id :: client_id
  cr_public_key :: bytes
  cr_paired_at :: u64

record json =
  js_write_clients :: "client_record list \<Rightarrow> (string, bytes) result"
  js_read_clients :: "bytes \<Rightarrow> (string, client_record list) result"
  js_write_revoked :: "client_id list \<Rightarrow> (string, bytes) result"
  js_read_revoked :: "bytes \<Rightarrow> (string, client_id list) result"

text \<open>The documented round trip of \<open>serde_json\<close>; what it writes is UTF-8.\<close>

definition json_ok :: "json \<Rightarrow> bool" where
  "json_ok js \<longleftrightarrow>
     (\<forall>cs. \<exists>b. js_write_clients js cs = Inr b \<and> js_read_clients js b = Inr cs \<and> utf8_valid b) \<and>
     (\<forall>rs. \<exists>b. js_write_revoked js rs = Inr b \<and> js_read_revoked js b = Inr rs \<and> utf8_valid b)"

text \<open>\<open>State\<close>; a hash set is the list of its elements.\<close>

record db_state =
  st_by_id :: "(client_id, client_record) hash_map"
  st_by_public :: "(bytes, client_id) hash_map"
  st_revoked :: "client_id list"

definition db_state_default :: db_state where
  "db_state_default = \<lparr>st_by_id = [], st_by_public = [], st_revoked = []\<rparr>"

section \<open>The state\<close>

definition check_new_record :: "texts \<Rightarrow> client_record \<Rightarrow> db_state \<Rightarrow> (daemon_error, unit) result" where
  "check_new_record tx r st =
     (if hm_get (st_by_id st) (cr_client_id r) \<noteq> None
      then Inl (DaemonClientDb (''duplicate client_id '' @ tx_uuid tx (client_uuid (cr_client_id r))))
      else if hm_get (st_by_public st) (cr_public_key r) \<noteq> None
      then Inl (DaemonClientDb ''duplicate public_key'')
      else Inr ())"

definition put_record :: "client_record \<Rightarrow> db_state \<Rightarrow> db_state" where
  "put_record r st =
     st\<lparr>st_by_public := hm_insert (cr_public_key r) (cr_client_id r) (st_by_public st),
        st_by_id := hm_insert (cr_client_id r) r (st_by_id st)\<rparr>"

definition with_added :: "texts \<Rightarrow> client_record \<Rightarrow> db_state \<Rightarrow> (daemon_error, db_state) result" where
  "with_added tx r st = and_then (check_new_record tx r st) (\<lambda>_. Inr (put_record r st))"

fun add_all :: "texts \<Rightarrow> client_record list \<Rightarrow> db_state \<Rightarrow> (daemon_error, db_state) result" where
  "add_all tx [] st = Inr st"
| "add_all tx (r # rs) st = and_then (with_added tx r st) (add_all tx rs)"

definition from_files :: "texts \<Rightarrow> client_record list \<Rightarrow> client_id list \<Rightarrow> (daemon_error, db_state) result" where
  "from_files tx clients revoked = add_all tx clients (db_state_default\<lparr>st_revoked := remdups revoked\<rparr>)"

definition with_revoked :: "client_id \<Rightarrow> db_state \<Rightarrow> db_state option" where
  "with_revoked i st = (if i \<in> set (st_revoked st) then None else Some (st\<lparr>st_revoked := i # st_revoked st\<rparr>))"

definition clients_file :: "db_state \<Rightarrow> client_record list" where
  "clients_file st =
     sort_key (\<lambda>r. (cr_paired_at r, client_uuid (cr_client_id r))) (hm_values (st_by_id st))"

definition revoked_file :: "db_state \<Rightarrow> client_id list" where
  "revoked_file st = sort_key client_uuid (st_revoked st)"

section \<open>Files\<close>

record path =
  pa_parent :: string
  pa_file_name :: "string option"

type_synonym file_system = "path \<Rightarrow> bytes option"

text \<open>What the operating system answers during one atomic write.\<close>

record write_env =
  we_create_dir :: "(string, unit) result"
  we_open :: "nat \<Rightarrow> (string, unit) result"
  we_write :: "(string, unit) result"
  we_partial :: bytes
  we_rename :: "(string, unit) result"
  we_remove :: bool
  we_pid :: nat
  we_nanos :: "nat \<Rightarrow> nat"

definition temp_path :: "write_env \<Rightarrow> path \<Rightarrow> nat \<Rightarrow> (daemon_error, path) result" where
  "temp_path env path attempt =
     (case pa_file_name path of
        None \<Rightarrow> Inl (DaemonClientDb ''path has no file name'')
      | Some name \<Rightarrow>
          Inr (path\<lparr>pa_file_name := Some (''.'' @ name @ ''.tmp.'' @ show_nat (we_pid env) @ ''.'' @
                 show_nat (we_nanos env attempt) @ ''.'' @ show_nat attempt)\<rparr>))"

definition remove_file :: "write_env \<Rightarrow> path \<Rightarrow> file_system \<Rightarrow> file_system" where
  "remove_file env path fs = (if we_remove env then fs(path := None) else fs)"

fun write_attempts :: "write_env \<Rightarrow> path \<Rightarrow> bytes \<Rightarrow> nat list \<Rightarrow> file_system \<Rightarrow> (daemon_error, unit) result \<times> file_system" where
  "write_attempts env path contents [] fs =
     (Inl (DaemonClientDb ''failed to create temp file for atomic write''), fs)"
| "write_attempts env path contents (attempt # attempts) fs =
     (case temp_path env path attempt of
        Inl e \<Rightarrow> (Inl e, fs)
      | Inr tmp \<Rightarrow>
          if fs tmp \<noteq> None then write_attempts env path contents attempts fs
          else (case we_open env attempt of
            Inl e \<Rightarrow> (Inl (DaemonIo e), fs)
          | Inr _ \<Rightarrow>
              (case we_write env of
                 Inl e \<Rightarrow> (Inl (DaemonIo e), remove_file env tmp (fs(tmp := Some (we_partial env))))
               | Inr _ \<Rightarrow>
                   (case we_rename env of
                      Inl e \<Rightarrow> (Inl (DaemonIo e), remove_file env tmp (fs(tmp := Some contents)))
                    | Inr _ \<Rightarrow> (Inr (), fs(tmp := None, path := Some contents))))))"

definition create_parent :: "write_env \<Rightarrow> path \<Rightarrow> (daemon_error, unit) result" where
  "create_parent env path =
     (if pa_parent path = [] then Inr ()
      else (case we_create_dir env of Inl e \<Rightarrow> Inl (DaemonIo e) | Inr _ \<Rightarrow> Inr ()))"

definition write_atomic :: "write_env \<Rightarrow> path \<Rightarrow> bytes \<Rightarrow> file_system \<Rightarrow> (daemon_error, unit) result \<times> file_system" where
  "write_atomic env path contents fs =
     (case create_parent env path of
        Inl e \<Rightarrow> (Inl e, fs)
      | Inr _ \<Rightarrow> write_attempts env path contents [0..<100] fs)"

definition write_json ::
  "write_env \<Rightarrow> path \<Rightarrow> (string, bytes) result \<Rightarrow> file_system \<Rightarrow> (daemon_error, unit) result \<times> file_system" where
  "write_json env path text fs =
     (case create_parent env path of
        Inl e \<Rightarrow> (Inl e, fs)
      | Inr _ \<Rightarrow>
          (case text of
             Inl e \<Rightarrow> (Inl (DaemonClientDb e), fs)
           | Inr b \<Rightarrow> write_atomic env path b fs))"

text \<open>\<open>read_to_string\<close>: the file has to be there and to be UTF-8.\<close>

definition read_text :: "path \<Rightarrow> file_system \<Rightarrow> bytes option" where
  "read_text path fs =
     (case fs path of None \<Rightarrow> None | Some b \<Rightarrow> if utf8_valid b then Some b else None)"

definition read_json :: "string \<Rightarrow> (bytes \<Rightarrow> (string, 'a) result) \<Rightarrow> path \<Rightarrow> file_system \<Rightarrow> (daemon_error, 'a) result" where
  "read_json io_error parse path fs =
     (case read_text path fs of
        None \<Rightarrow> Inl (DaemonIo io_error)
      | Some b \<Rightarrow> (case parse b of Inl e \<Rightarrow> Inl (DaemonClientDb e) | Inr a \<Rightarrow> Inr a))"

definition ensure_file ::
  "write_env \<Rightarrow> path \<Rightarrow> (string, bytes) result \<Rightarrow> file_system \<Rightarrow> (daemon_error, unit) result \<times> file_system" where
  "ensure_file env path default_text fs =
     (if fs path \<noteq> None then (Inr (), fs) else write_json env path default_text fs)"

section \<open>The database\<close>

record client_db =
  db_state :: db_state
  db_clients_path :: path
  db_revoked_path :: path
  db_revocations :: "client_id list"
  db_notified :: nat

text \<open>\<open>db_notified\<close> counts the sends on the watch channel, \<open>db_revocations\<close> is its value.\<close>

definition set_state :: "db_state \<Rightarrow> client_db \<Rightarrow> client_db" where
  "set_state st db = db\<lparr>db_state := st\<rparr>"

definition notify_revocations :: "client_db \<Rightarrow> client_db" where
  "notify_revocations db =
     db\<lparr>db_revocations := st_revoked (db_state db), db_notified := Suc (db_notified db)\<rparr>"

definition add_client ::
  "texts \<Rightarrow> json \<Rightarrow> write_env \<Rightarrow> client_record \<Rightarrow> client_db \<times> file_system \<Rightarrow>
   (daemon_error, unit) result \<times> client_db \<times> file_system" where
  "add_client tx js env r = (\<lambda>(db, fs).
     case with_added tx r (db_state db) of
       Inl e \<Rightarrow> (Inl e, db, fs)
     | Inr next \<Rightarrow>
         (case write_json env (db_clients_path db) (js_write_clients js (clients_file next)) fs of
            (Inl e, fs') \<Rightarrow> (Inl e, db, fs')
          | (Inr _, fs') \<Rightarrow> (Inr (), set_state next db, fs')))"

definition lookup_by_public :: "bytes \<Rightarrow> client_db \<Rightarrow> client_record option" where
  "lookup_by_public key db =
     Option.bind (hm_get (st_by_public (db_state db)) key) (hm_get (st_by_id (db_state db)))"

definition lookup_by_id :: "client_id \<Rightarrow> client_db \<Rightarrow> client_record option" where
  "lookup_by_id i db = hm_get (st_by_id (db_state db)) i"

definition add_or_lookup_by_public ::
  "texts \<Rightarrow> json \<Rightarrow> write_env \<Rightarrow> client_record \<Rightarrow> client_db \<times> file_system \<Rightarrow>
   (daemon_error, client_record) result \<times> client_db \<times> file_system" where
  "add_or_lookup_by_public tx js env r = (\<lambda>(db, fs).
     case lookup_by_public (cr_public_key r) db of
       Some existing \<Rightarrow> (Inr existing, db, fs)
     | None \<Rightarrow>
         (case add_client tx js env r (db, fs) of
            (Inl e, db', fs') \<Rightarrow> (Inl e, db', fs')
          | (Inr _, db', fs') \<Rightarrow> (Inr r, db', fs')))"

definition list_clients :: "client_db \<Rightarrow> client_record list" where
  "list_clients db = clients_file (db_state db)"

definition revoke ::
  "json \<Rightarrow> write_env \<Rightarrow> client_id \<Rightarrow> client_db \<times> file_system \<Rightarrow>
   (daemon_error, unit) result \<times> client_db \<times> file_system" where
  "revoke js env i = (\<lambda>(db, fs).
     case with_revoked i (db_state db) of
       None \<Rightarrow> (Inr (), db, fs)
     | Some next \<Rightarrow>
         (case write_json env (db_revoked_path db) (js_write_revoked js (revoked_file next)) fs of
            (Inl e, fs') \<Rightarrow> (Inl e, db, fs')
          | (Inr _, fs') \<Rightarrow> (Inr (), notify_revocations (set_state next db), fs')))"

definition is_revoked :: "client_id \<Rightarrow> client_db \<Rightarrow> bool" where
  "is_revoked i db \<longleftrightarrow> i \<in> set (st_revoked (db_state db))"

definition read_clients_file :: "json \<Rightarrow> path \<Rightarrow> file_system \<Rightarrow> (daemon_error, client_record list) result" where
  "read_clients_file js = read_json ''read failed'' (js_read_clients js)"

definition read_revoked_file :: "json \<Rightarrow> path \<Rightarrow> file_system \<Rightarrow> (daemon_error, client_id list) result" where
  "read_revoked_file js = read_json ''read failed'' (js_read_revoked js)"

definition load_state :: "texts \<Rightarrow> json \<Rightarrow> path \<Rightarrow> path \<Rightarrow> file_system \<Rightarrow> (daemon_error, db_state) result" where
  "load_state tx js clients_path revoked_path fs =
     and_then (read_clients_file js clients_path fs)
       (\<lambda>clients. and_then (read_revoked_file js revoked_path fs) (from_files tx clients))"

definition open_db ::
  "texts \<Rightarrow> json \<Rightarrow> write_env \<Rightarrow> path \<Rightarrow> path \<Rightarrow> file_system \<Rightarrow>
   (daemon_error, client_db) result \<times> file_system" where
  "open_db tx js env clients_path revoked_path fs =
     (case ensure_file env clients_path (js_write_clients js []) fs of
        (Inl e, fs1) \<Rightarrow> (Inl e, fs1)
      | (Inr _, fs1) \<Rightarrow>
          (case ensure_file env revoked_path (js_write_revoked js []) fs1 of
             (Inl e, fs2) \<Rightarrow> (Inl e, fs2)
           | (Inr _, fs2) \<Rightarrow>
               (case load_state tx js clients_path revoked_path fs2 of
                  Inl e \<Rightarrow> (Inl e, fs2)
                | Inr st \<Rightarrow>
                    (Inr \<lparr>db_state = st, db_clients_path = clients_path, db_revoked_path = revoked_path,
                          db_revocations = st_revoked st, db_notified = 0\<rparr>, fs2))))"

section \<open>The reload task\<close>

text \<open>
  A round of \<open>spawn_reload_task\<close> in the steps between which other tasks can run: it reads
  both texts, parses both files, compares the revocations, takes the new state over, and
  tells the watchers. \<open>rt_last\<close> are the texts of the last round that got that far.
\<close>

datatype reload_phase =
    Sleeping
  | TextsRead "bytes option \<times> bytes option"
  | Parsed "bytes option \<times> bytes option" db_state
  | Compared "bytes option \<times> bytes option" db_state bool
  | Replaced "bytes option \<times> bytes option" bool

record reload_task =
  rt_last :: "bytes option \<times> bytes option"
  rt_phase :: reload_phase

definition reload_step ::
  "texts \<Rightarrow> json \<Rightarrow> file_system \<Rightarrow> client_db \<times> reload_task \<Rightarrow> client_db \<times> reload_task" where
  "reload_step tx js fs = (\<lambda>(db, rt).
     case rt_phase rt of
       Sleeping \<Rightarrow>
         (let now = (read_text (db_clients_path db) fs, read_text (db_revoked_path db) fs) in
          if now = rt_last rt then (db, rt) else (db, rt\<lparr>rt_phase := TextsRead now\<rparr>))
     | TextsRead now \<Rightarrow>
         (case load_state tx js (db_clients_path db) (db_revoked_path db) fs of
            Inl e \<Rightarrow> (db, rt\<lparr>rt_phase := Sleeping\<rparr>)
          | Inr next \<Rightarrow> (db, rt\<lparr>rt_phase := Parsed now next\<rparr>))
     | Parsed now next \<Rightarrow>
         (db, rt\<lparr>rt_phase := Compared now next (set (st_revoked (db_state db)) \<noteq> set (st_revoked next))\<rparr>)
     | Compared now next changed \<Rightarrow> (set_state next db, rt\<lparr>rt_phase := Replaced now changed\<rparr>)
     | Replaced now changed \<Rightarrow>
         (if changed then notify_revocations db else db, rt\<lparr>rt_last := now, rt_phase := Sleeping\<rparr>))"

section \<open>Writing a file\<close>

definition plain_path :: "path \<Rightarrow> bool" where
  "plain_path p \<longleftrightarrow> (\<exists>c n. pa_file_name p = Some (c # n) \<and> c \<noteq> CHR ''.'')"

lemma temp_path_plain: "temp_path env path n = Inr tmp \<Longrightarrow> \<not> plain_path tmp"
  by (auto simp: temp_path_def plain_path_def split: option.splits)

lemma write_attempts_effect:
  assumes "write_attempts env path contents attempts fs = (r, fs')" and "plain_path path"
  shows "(r = Inr () \<longrightarrow> fs' = fs(path := Some contents)) \<and>
    (is_err r \<longrightarrow> (\<forall>q. plain_path q \<longrightarrow> fs' q = fs q))"
  using assms(1)
proof (induction attempts)
  case Nil
  then show ?case by auto
next
  case (Cons a as)
  show ?case
  proof (cases "temp_path env path a")
    case (Inl e)
    with Cons.prems show ?thesis by auto
  next
    case (Inr tmp)
    with temp_path_plain have tmp: "\<not> plain_path tmp" by blast
    show ?thesis
    proof (cases "fs tmp")
      case (Some x)
      with Cons Inr show ?thesis by simp
    next
      case None
      have "tmp \<noteq> path" using tmp assms(2) by blast
      moreover have "fs(tmp := None) = fs" using None by (simp add: fun_upd_idem)
      ultimately show ?thesis
        using None Cons.prems Inr tmp by (auto simp: remove_file_def split: sum.splits if_splits)
    qed
  qed
qed

lemma write_json_effect:
  assumes "write_json env path text fs = (r, fs')" and "plain_path path"
  shows "(r = Inr () \<longrightarrow> (\<exists>b. text = Inr b \<and> fs' = fs(path := Some b))) \<and>
    (is_err r \<longrightarrow> (\<forall>q. plain_path q \<longrightarrow> fs' q = fs q))"
  using assms write_attempts_effect [OF _ assms(2)]
  by (auto simp: write_json_def write_atomic_def split: sum.splits)

text \<open>
  Atomic writes: whatever the operating system answers, a write of a database file
  either reports success, and then the file holds exactly the new text and nothing else
  in the file system has changed (no temporary file is left), or it reports an error, and
  then this file and every other file that is not a dot file are as before.
\<close>

lemma write_all_or_nothing:
  assumes "plain_path path" and "write_json env path (Inr b) fs = (r, fs')"
  shows "case r of Inr _ \<Rightarrow> fs' = fs(path := Some b) | Inl _ \<Rightarrow> (\<forall>q. plain_path q \<longrightarrow> fs' q = fs q)"
  using write_json_effect [OF assms(2,1)] by (cases r) auto

section \<open>Consistent states\<close>

definition db_wf :: "db_state \<Rightarrow> bool" where
  "db_wf st \<longleftrightarrow>
     hm_wf (st_by_id st) \<and>
     (\<forall>i r. hm_get (st_by_id st) i = Some r \<longrightarrow>
        cr_client_id r = i \<and> hm_get (st_by_public st) (cr_public_key r) = Some i) \<and>
     (\<forall>k i. hm_get (st_by_public st) k = Some i \<longrightarrow>
        (\<exists>r. hm_get (st_by_id st) i = Some r \<and> cr_public_key r = k))"

text \<open>Two states that answer every question alike.\<close>

definition same_db :: "db_state \<Rightarrow> db_state \<Rightarrow> bool" where
  "same_db a b \<longleftrightarrow> hm_get (st_by_id a) = hm_get (st_by_id b) \<and> hm_get (st_by_public a) = hm_get (st_by_public b) \<and>
     set (st_revoked a) = set (st_revoked b)"

lemma same_db_refl [simp]: "same_db a a" by (simp add: same_db_def)

lemma check_ok: "check_new_record tx r st = Inr () \<longleftrightarrow>
    hm_get (st_by_id st) (cr_client_id r) = None \<and> hm_get (st_by_public st) (cr_public_key r) = None"
  by (simp add: check_new_record_def)

lemma with_added_ok: "with_added tx r st = Inr st' \<longleftrightarrow> check_new_record tx r st = Inr () \<and> st' = put_record r st"
  by (auto simp: with_added_def and_then_Inr)

lemma put_record_get [simp]:
  "hm_get (st_by_id (put_record r st)) = (hm_get (st_by_id st))(cr_client_id r \<mapsto> r)"
  "hm_get (st_by_public (put_record r st)) = (hm_get (st_by_public st))(cr_public_key r \<mapsto> cr_client_id r)"
  "st_revoked (put_record r st) = st_revoked st"
  by (simp_all add: put_record_def hm_simps)

lemma db_wf_put:
  assumes "db_wf st" and "check_new_record tx r st = Inr ()"
  shows "db_wf (put_record r st)"
proof -
  have "hm_wf (st_by_id (put_record r st))" using assms(1) by (simp add: db_wf_def put_record_def)
  moreover have "hm_get (st_by_id st) i = Some r' \<Longrightarrow> i \<noteq> cr_client_id r \<and> cr_public_key r' \<noteq> cr_public_key r" for i r'
    using assms unfolding db_wf_def check_ok by (metis option.distinct(1))
  moreover have "hm_get (st_by_public st) k = Some i \<Longrightarrow> k \<noteq> cr_public_key r \<and> i \<noteq> cr_client_id r" for k i
    using assms unfolding db_wf_def check_ok by (metis option.distinct(1))
  ultimately show ?thesis using assms(1) by (auto simp: db_wf_def)
qed

section \<open>Loading the files gives the state back\<close>

text \<open>The state that a list of records with distinct identifiers and keys stands for.\<close>

lemma add_all_distinct:
  "distinct (map cr_client_id rs) \<Longrightarrow> distinct (map cr_public_key rs) \<Longrightarrow>
   \<forall>r \<in> set rs. hm_get (st_by_id st) (cr_client_id r) = None \<and> hm_get (st_by_public st) (cr_public_key r) = None \<Longrightarrow>
   \<exists>st'. add_all tx rs st = Inr st' \<and>
     hm_get (st_by_id st') = hm_get (st_by_id st) ++ map_of (map (\<lambda>r. (cr_client_id r, r)) rs) \<and>
     hm_get (st_by_public st') = hm_get (st_by_public st) ++ map_of (map (\<lambda>r. (cr_public_key r, cr_client_id r)) rs) \<and>
     st_revoked st' = st_revoked st"
proof (induction rs arbitrary: st)
  case (Cons r rs)
  then have "\<forall>q \<in> set rs. hm_get (st_by_id (put_record r st)) (cr_client_id q) = None \<and>
      hm_get (st_by_public (put_record r st)) (cr_public_key q) = None"
    by (auto simp: image_iff)
  moreover have "distinct (map cr_client_id rs)" "distinct (map cr_public_key rs)" using Cons.prems by auto
  ultimately obtain st' where st': "add_all tx rs (put_record r st) = Inr st'"
      "hm_get (st_by_id st') = hm_get (st_by_id (put_record r st)) ++ map_of (map (\<lambda>r. (cr_client_id r, r)) rs)"
      "hm_get (st_by_public st') = hm_get (st_by_public (put_record r st)) ++
         map_of (map (\<lambda>r. (cr_public_key r, cr_client_id r)) rs)"
      "st_revoked st' = st_revoked (put_record r st)"
    using Cons.IH [of "put_record r st"] by blast
  have "with_added tx r st = Inr (put_record r st)" using Cons.prems by (simp add: with_added_ok check_ok)
  with st' Cons.prems(1,2) show ?case
    by (auto simp: fun_eq_iff map_add_def map_of_eq_None_iff image_image split: option.splits)
qed simp

lemma add_all_wf: "db_wf st \<Longrightarrow> add_all tx rs st = Inr st' \<Longrightarrow> db_wf st' \<and> st_revoked st' = st_revoked st"
proof (induction rs arbitrary: st)
  case (Cons r rs)
  then have "check_new_record tx r st = Inr ()" "add_all tx rs (put_record r st) = Inr st'"
    by (auto simp: and_then_Inr with_added_ok)
  with Cons.IH [OF db_wf_put [OF Cons.prems(1)]] show ?case by simp
qed simp

lemma db_wf_default: "db_wf (db_state_default\<lparr>st_revoked := rs\<rparr>)"
  by (simp add: db_wf_def db_state_default_def)

lemma from_files_wf: "from_files tx cs rs = Inr st \<Longrightarrow> db_wf st \<and> set (st_revoked st) = set rs"
  unfolding from_files_def using add_all_wf [OF db_wf_default] by fastforce

lemma values_ids:
  assumes "db_wf st"
  shows "map cr_client_id (hm_values (st_by_id st)) = hm_keys (st_by_id st)"
  unfolding hm_values_def hm_keys_def map_map
proof (rule map_cong [OF refl])
  fix x assume "x \<in> set (st_by_id st)"
  then have "hm_get (st_by_id st) (fst x) = Some (snd x)"
    using assms by (simp add: db_wf_def hm_get_Some)
  with assms show "(cr_client_id \<circ> snd) x = fst x" by (auto simp: db_wf_def)
qed

lemma values_distinct:
  assumes "db_wf st"
  shows "distinct (map cr_client_id (hm_values (st_by_id st)))" "distinct (map cr_public_key (hm_values (st_by_id st)))"
proof -
  show ids: "distinct (map cr_client_id (hm_values (st_by_id st)))"
    using assms by (simp add: values_ids db_wf_def hm_wf_def hm_keys_def)
  have "inj_on cr_public_key (set (hm_values (st_by_id st)))"
  proof (rule inj_onI)
    fix x y
    assume "x \<in> set (hm_values (st_by_id st))" "y \<in> set (hm_values (st_by_id st))" "cr_public_key x = cr_public_key y"
    moreover then obtain i j where "hm_get (st_by_id st) i = Some x" "hm_get (st_by_id st) j = Some y"
      using assms by (auto simp: db_wf_def hm_values_iff)
    ultimately show "x = y" using assms unfolding db_wf_def by (metis option.inject)
  qed
  moreover have "distinct (hm_values (st_by_id st))" using ids by (simp add: distinct_map)
  ultimately show "distinct (map cr_public_key (hm_values (st_by_id st)))" by (simp add: distinct_map)
qed

lemma sort_key_distinct: "distinct (map f xs) \<Longrightarrow> distinct (map f (sort_key k xs))"
  by (simp add: distinct_map)

lemma hm_get_Nil: "hm_get [] = Map.empty"
  by (rule ext) simp

text \<open>What is written by a consistent state loads as the same state.\<close>

lemma from_files_back:
  assumes "db_wf st"
  shows "\<exists>st'. from_files tx (clients_file st) (revoked_file st) = Inr st' \<and> same_db st st'"
proof -
  let ?vs = "hm_values (st_by_id st)"
  have mem: "r \<in> set (clients_file st) \<longleftrightarrow> hm_get (st_by_id st) (cr_client_id r) = Some r" for r
  proof -
    have "r \<in> set ?vs \<longleftrightarrow> (\<exists>i. hm_get (st_by_id st) i = Some r)" using assms by (simp add: db_wf_def hm_values_iff)
    then show ?thesis using assms by (auto simp: clients_file_def db_wf_def)
  qed
  have d: "distinct (map cr_client_id (clients_file st))" "distinct (map cr_public_key (clients_file st))"
    unfolding clients_file_def by (intro sort_key_distinct values_distinct assms)+
  obtain st' where st': "from_files tx (clients_file st) (revoked_file st) = Inr st'"
      "hm_get (st_by_id st') = map_of (map (\<lambda>r. (cr_client_id r, r)) (clients_file st))"
      "hm_get (st_by_public st') = map_of (map (\<lambda>r. (cr_public_key r, cr_client_id r)) (clients_file st))"
      "st_revoked st' = remdups (revoked_file st)"
    using add_all_distinct [OF d, of "db_state_default\<lparr>st_revoked := remdups (revoked_file st)\<rparr>" tx]
    by (auto simp: from_files_def db_state_default_def hm_get_Nil)
  have "hm_get (st_by_id st) i = hm_get (st_by_id st') i" for i
  proof (cases "hm_get (st_by_id st) i")
    case None
    then have "i \<notin> cr_client_id ` set (clients_file st)" by (auto simp: mem)
    then have "map_of (map (\<lambda>r. (cr_client_id r, r)) (clients_file st)) i = None"
      by (simp add: map_of_eq_None_iff image_image)
    then show ?thesis using None by (simp add: st'(2))
  next
    case (Some r)
    then have "cr_client_id r = i" "r \<in> set (clients_file st)" using assms by (auto simp: mem db_wf_def)
    then have "map_of (map (\<lambda>r. (cr_client_id r, r)) (clients_file st)) i = Some r"
      using d(1) by (intro map_of_is_SomeI) (auto simp: comp_def)
    then show ?thesis by (simp add: st'(2) Some)
  qed
  moreover have "hm_get (st_by_public st) k = hm_get (st_by_public st') k" for k
  proof (cases "hm_get (st_by_public st) k")
    case None
    have "cr_public_key r \<noteq> k" if "r \<in> set (clients_file st)" for r
    proof -
      from that have "hm_get (st_by_id st) (cr_client_id r) = Some r" by (simp only: mem)
      then have "hm_get (st_by_public st) (cr_public_key r) = Some (cr_client_id r)"
        using assms unfolding db_wf_def by blast
      with None show ?thesis by auto
    qed
    then have "k \<notin> cr_public_key ` set (clients_file st)" by blast
    then have "map_of (map (\<lambda>r. (cr_public_key r, cr_client_id r)) (clients_file st)) k = None"
      by (simp add: map_of_eq_None_iff image_image)
    then show ?thesis using None by (simp add: st'(3))
  next
    case (Some i)
    then obtain r where r: "hm_get (st_by_id st) i = Some r" "cr_public_key r = k"
      using assms unfolding db_wf_def by blast
    moreover have "cr_client_id r = i" using r assms unfolding db_wf_def by blast
    ultimately have "cr_client_id r = i" "cr_public_key r = k" "r \<in> set (clients_file st)" by (simp_all add: mem)
    then have "map_of (map (\<lambda>r. (cr_public_key r, cr_client_id r)) (clients_file st)) k = Some i"
      using d(2) by (intro map_of_is_SomeI) (auto simp: comp_def)
    then show ?thesis by (simp add: st'(3) Some)
  qed
  ultimately have "same_db st st'" using st'(4) by (auto simp: same_db_def revoked_file_def)
  with st'(1) show ?thesis by blast
qed

section \<open>Memory and disk agree\<close>

definition on_disk :: "texts \<Rightarrow> json \<Rightarrow> path \<Rightarrow> path \<Rightarrow> file_system \<Rightarrow> db_state \<Rightarrow> bool" where
  "on_disk tx js cp rp fs st \<longleftrightarrow>
     (\<exists>cs rs st'. read_clients_file js cp fs = Inr cs \<and> read_revoked_file js rp fs = Inr rs \<and>
        from_files tx cs rs = Inr st' \<and> same_db st st')"

lemma on_disk_load: "on_disk tx js cp rp fs st \<longleftrightarrow> (\<exists>st'. load_state tx js cp rp fs = Inr st' \<and> same_db st st')"
  by (auto simp: on_disk_def load_state_def and_then_Inr)

lemma with_added_revoked:
  "with_added tx r (st\<lparr>st_revoked := x\<rparr>) = and_then (with_added tx r st) (\<lambda>s. Inr (s\<lparr>st_revoked := x\<rparr>))"
  by (auto simp: with_added_def check_new_record_def put_record_def)

lemma add_all_revoked:
  "add_all tx cs (st\<lparr>st_revoked := x\<rparr>) = and_then (add_all tx cs st) (\<lambda>s. Inr (s\<lparr>st_revoked := x\<rparr>))"
proof (induction cs arbitrary: st)
  case (Cons r cs)
  show ?case
    by (cases "with_added tx r st") (simp_all add: with_added_revoked Cons.IH)
qed simp

lemma from_files_revoked:
  assumes "from_files tx cs rs = Inr st"
  shows "from_files tx cs rs' = Inr (st\<lparr>st_revoked := remdups rs'\<rparr>)"
  using assms add_all_revoked [where cs = cs and tx = tx and st = db_state_default and x = "remdups rs"]
    add_all_revoked [where cs = cs and tx = tx and st = db_state_default and x = "remdups rs'"]
  by (auto simp: from_files_def and_then_Inr)

lemma read_other: "p \<noteq> q \<Longrightarrow> read_json e f p (fs(q := x)) = read_json e f p fs"
  by (simp add: read_json_def read_text_def)

lemma read_same: "fs p = fs' p \<Longrightarrow> read_json e f p fs = read_json e f p fs'"
  by (simp add: read_json_def read_text_def)

lemma clients_back:
  assumes "json_ok js" and "js_write_clients js cs = Inr b"
  shows "read_clients_file js p (fs(p := Some b)) = Inr cs"
proof -
  have "js_read_clients js b = Inr cs" "utf8_valid b"
    using assms unfolding json_ok_def by (metis sum.inject(2))+
  then show ?thesis by (simp add: read_clients_file_def read_json_def read_text_def)
qed

lemma revoked_back:
  assumes "json_ok js" and "js_write_revoked js rs = Inr b"
  shows "read_revoked_file js p (fs(p := Some b)) = Inr rs"
proof -
  have "js_read_revoked js b = Inr rs" "utf8_valid b"
    using assms unfolding json_ok_def by (metis sum.inject(2))+
  then show ?thesis by (simp add: read_revoked_file_def read_json_def read_text_def)
qed

lemma on_disk_same:
  "on_disk tx js cp rp fs st \<Longrightarrow> fs' cp = fs cp \<Longrightarrow> fs' rp = fs rp \<Longrightarrow> on_disk tx js cp rp fs' st"
  unfolding on_disk_def read_clients_file_def read_revoked_file_def
  using read_same [of fs' cp fs] read_same [of fs' rp fs] by metis

lemma on_disk_clients:
  assumes d: "on_disk tx js cp rp fs st" and ne: "cp \<noteq> rp" and js: "json_ok js" and wf: "db_wf nst"
    and b: "js_write_clients js (clients_file nst) = Inr b" and rev: "st_revoked nst = st_revoked st"
  shows "on_disk tx js cp rp (fs(cp := Some b)) nst"
proof -
  obtain rs st' where rs: "read_revoked_file js rp fs = Inr rs" "set rs = set (st_revoked st)"
    using d from_files_wf by (fastforce simp: on_disk_def same_db_def)
  obtain s1 where s1: "from_files tx (clients_file nst) (revoked_file nst) = Inr s1" "same_db nst s1"
    using from_files_back [OF wf] by blast
  have "from_files tx (clients_file nst) rs = Inr (s1\<lparr>st_revoked := remdups rs\<rparr>)"
    by (rule from_files_revoked [OF s1(1)])
  moreover have "same_db nst (s1\<lparr>st_revoked := remdups rs\<rparr>)" using s1(2) rs(2) rev by (simp add: same_db_def)
  moreover have "read_revoked_file js rp (fs(cp := Some b)) = Inr rs"
    using rs(1) ne by (simp add: read_revoked_file_def read_other)
  ultimately show ?thesis using clients_back [OF js b] unfolding on_disk_def by blast
qed

lemma on_disk_revoked:
  assumes d: "on_disk tx js cp rp fs st" and ne: "cp \<noteq> rp" and js: "json_ok js"
    and b: "js_write_revoked js (revoked_file nst) = Inr b"
    and same: "st_by_id nst = st_by_id st" "st_by_public nst = st_by_public st"
  shows "on_disk tx js cp rp (fs(rp := Some b)) nst"
proof -
  obtain cs rs s1 where cs: "read_clients_file js cp fs = Inr cs" "from_files tx cs rs = Inr s1" "same_db st s1"
    using d by (auto simp: on_disk_def)
  have "from_files tx cs (revoked_file nst) = Inr (s1\<lparr>st_revoked := remdups (revoked_file nst)\<rparr>)"
    by (rule from_files_revoked [OF cs(2)])
  moreover have "same_db nst (s1\<lparr>st_revoked := remdups (revoked_file nst)\<rparr>)"
    using cs(3) same by (simp add: same_db_def revoked_file_def)
  moreover have "read_clients_file js cp (fs(rp := Some b)) = Inr cs"
    using cs(1) ne by (simp add: read_clients_file_def read_other)
  ultimately show ?thesis using revoked_back [OF js b] unfolding on_disk_def by blast
qed

section \<open>Operations one after the other\<close>

datatype db_op = OpAdd write_env client_record | OpAddOrLookup write_env client_record | OpRevoke write_env client_id | OpReload

fun reload_rest :: "texts \<Rightarrow> json \<Rightarrow> file_system \<Rightarrow> nat \<Rightarrow> client_db \<times> reload_task \<Rightarrow> client_db \<times> reload_task" where
  "reload_rest tx js fs 0 s = s"
| "reload_rest tx js fs (Suc n) s =
     (if rt_phase (snd s) = Sleeping then s else reload_rest tx js fs n (reload_step tx js fs s))"

text \<open>A whole round of the reload task without interruption: at most five steps.\<close>

definition reload_round :: "texts \<Rightarrow> json \<Rightarrow> file_system \<Rightarrow> client_db \<times> reload_task \<Rightarrow> client_db \<times> reload_task" where
  "reload_round tx js fs s = reload_rest tx js fs 4 (reload_step tx js fs s)"

fun db_op_step :: "texts \<Rightarrow> json \<Rightarrow> db_op \<Rightarrow> client_db \<times> reload_task \<times> file_system \<Rightarrow> client_db \<times> reload_task \<times> file_system" where
  "db_op_step tx js (OpAdd env r) (db, rt, fs) =
     (case add_client tx js env r (db, fs) of (_, db', fs') \<Rightarrow> (db', rt, fs'))"
| "db_op_step tx js (OpAddOrLookup env r) (db, rt, fs) =
     (case add_or_lookup_by_public tx js env r (db, fs) of (_, db', fs') \<Rightarrow> (db', rt, fs'))"
| "db_op_step tx js (OpRevoke env i) (db, rt, fs) =
     (case revoke js env i (db, fs) of (_, db', fs') \<Rightarrow> (db', rt, fs'))"
| "db_op_step tx js OpReload (db, rt, fs) =
     (case reload_round tx js fs (db, rt) of (db', rt') \<Rightarrow> (db', rt', fs))"

definition db_run ::
  "texts \<Rightarrow> json \<Rightarrow> db_op list \<Rightarrow> client_db \<times> reload_task \<times> file_system \<Rightarrow> client_db \<times> reload_task \<times> file_system" where
  "db_run tx js ops s = fold (db_op_step tx js) ops s"

definition db_inv :: "texts \<Rightarrow> json \<Rightarrow> path \<Rightarrow> path \<Rightarrow> client_db \<times> reload_task \<times> file_system \<Rightarrow> bool" where
  "db_inv tx js cp rp = (\<lambda>(db, rt, fs).
     db_clients_path db = cp \<and> db_revoked_path db = rp \<and> db_wf (db_state db) \<and>
     on_disk tx js cp rp fs (db_state db) \<and> rt_phase rt = Sleeping)"

lemma add_client_inv:
  assumes inv: "db_inv tx js cp rp (db, rt, fs)" and ok: "json_ok js" "plain_path cp" "plain_path rp" "cp \<noteq> rp"
    and a: "add_client tx js env r (db, fs) = (res, db', fs')"
  shows "db_inv tx js cp rp (db', rt, fs') \<and> st_revoked (db_state db') = st_revoked (db_state db)"
proof (cases "with_added tx r (db_state db)")
  case (Inl e)
  with a inv show ?thesis by (auto simp: add_client_def)
next
  case (Inr nst)
  then have c: "check_new_record tx r (db_state db) = Inr ()" "nst = put_record r (db_state db)"
    by (simp_all add: with_added_ok)
  obtain w fs1 where w: "write_json env cp (js_write_clients js (clients_file nst)) fs = (w, fs1)" by fastforce
  note eff = write_json_effect [OF w ok(2)]
  show ?thesis
  proof (cases w)
    case (Inl e)
    with eff ok have "fs1 cp = fs cp" "fs1 rp = fs rp" by auto
    with on_disk_same [of tx js cp rp fs _ fs1] a inv \<open>with_added _ _ _ = _\<close> w Inl show ?thesis
      by (auto simp: add_client_def db_inv_def)
  next
    case w': (Inr u)
    with eff obtain b where b: "js_write_clients js (clients_file nst) = Inr b" "fs1 = fs(cp := Some b)" by auto
    have wf: "db_wf nst" using inv c db_wf_put by (auto simp: db_inv_def)
    have "on_disk tx js cp rp fs1 nst"
      using on_disk_clients [OF _ ok(4,1) wf b(1), of tx fs "db_state db"] inv c(2) b(2) by (auto simp: db_inv_def)
    with wf a inv Inr w w' c(2) show ?thesis by (auto simp: add_client_def db_inv_def set_state_def)
  qed
qed

lemma revoke_inv:
  assumes inv: "db_inv tx js cp rp (db, rt, fs)" and ok: "json_ok js" "plain_path cp" "plain_path rp" "cp \<noteq> rp"
    and a: "revoke js env i (db, fs) = (res, db', fs')"
  shows "db_inv tx js cp rp (db', rt, fs') \<and> set (st_revoked (db_state db)) \<subseteq> set (st_revoked (db_state db')) \<and>
    (res = Inr () \<longrightarrow> is_revoked i db')"
proof (cases "with_revoked i (db_state db)")
  case None
  with a inv show ?thesis by (auto simp: revoke_def with_revoked_def is_revoked_def split: if_splits)
next
  case (Some nst)
  then have nst: "nst = (db_state db)\<lparr>st_revoked := i # st_revoked (db_state db)\<rparr>"
    by (auto simp: with_revoked_def split: if_splits)
  obtain w fs1 where w: "write_json env rp (js_write_revoked js (revoked_file nst)) fs = (w, fs1)" by fastforce
  note eff = write_json_effect [OF w ok(3)]
  show ?thesis
  proof (cases w)
    case (Inl e)
    with eff ok have "fs1 cp = fs cp" "fs1 rp = fs rp" by auto
    with on_disk_same [of tx js cp rp fs _ fs1] a inv Some w Inl show ?thesis
      by (auto simp: revoke_def db_inv_def)
  next
    case w': (Inr u)
    with eff obtain b where b: "js_write_revoked js (revoked_file nst) = Inr b" "fs1 = fs(rp := Some b)" by auto
    have "on_disk tx js cp rp fs1 nst"
      using on_disk_revoked [OF _ ok(4,1) b(1), of tx fs "db_state db"] inv nst b(2) by (auto simp: db_inv_def)
    with a inv Some w w' nst show ?thesis
      by (auto simp: revoke_def db_inv_def set_state_def notify_revocations_def is_revoked_def db_wf_def)
  qed
qed

lemma reload_inv:
  assumes inv: "db_inv tx js cp rp (db, rt, fs)" and r: "reload_round tx js fs (db, rt) = (db', rt')"
  shows "db_inv tx js cp rp (db', rt', fs) \<and> same_db (db_state db) (db_state db')"
proof -
  let ?now = "(read_text cp fs, read_text rp fs)"
  have p: "db_clients_path db = cp" "db_revoked_path db = rp" "rt_phase rt = Sleeping" "db_wf (db_state db)"
    and d: "on_disk tx js cp rp fs (db_state db)"
    using inv by (simp_all add: db_inv_def)
  from d obtain st where st: "load_state tx js cp rp fs = Inr st" "same_db (db_state db) st"
    by (auto simp: on_disk_load)
  show ?thesis
  proof (cases "?now = rt_last rt")
    case True
    with p r inv show ?thesis by (simp add: reload_round_def reload_step_def numeral_eq_Suc Let_def)
  next
    case False
    have wf: "db_wf st" "on_disk tx js cp rp fs st"
      using st(1) from_files_wf by (auto simp: load_state_def and_then_Inr on_disk_load)
    have "db' = (if set (st_revoked (db_state db)) \<noteq> set (st_revoked st) then notify_revocations (set_state st db)
        else set_state st db)" "rt_phase rt' = Sleeping"
      using False p r st(1)
      by (auto simp: reload_round_def reload_step_def numeral_eq_Suc Let_def set_state_def split: if_splits)
    with wf p st(2) show ?thesis by (auto simp: db_inv_def notify_revocations_def set_state_def)
  qed
qed

lemma db_op_inv:
  assumes inv: "db_inv tx js cp rp s" and ok: "json_ok js" "plain_path cp" "plain_path rp" "cp \<noteq> rp"
  shows "db_inv tx js cp rp (db_op_step tx js op s) \<and>
    (\<forall>i. is_revoked i (fst s) \<longrightarrow> is_revoked i (fst (db_op_step tx js op s)))"
proof -
  obtain db rt fs where s: "s = (db, rt, fs)" by (cases s)
  show ?thesis
  proof (cases op)
    case (OpAdd env r)
    obtain x db' fs' where a: "add_client tx js env r (db, fs) = (x, db', fs')" by (metis prod_cases3)
    with add_client_inv [OF inv [unfolded s] ok a] show ?thesis by (simp add: s OpAdd is_revoked_def)
  next
    case (OpAddOrLookup env r)
    obtain x db' fs' where a: "add_client tx js env r (db, fs) = (x, db', fs')" by (metis prod_cases3)
    with add_client_inv [OF inv [unfolded s] ok a] inv show ?thesis
      by (auto simp: s OpAddOrLookup is_revoked_def add_or_lookup_by_public_def split: option.splits sum.splits)
  next
    case (OpRevoke env i)
    obtain x db' fs' where a: "revoke js env i (db, fs) = (x, db', fs')" by (metis prod_cases3)
    with revoke_inv [OF inv [unfolded s] ok a] show ?thesis by (auto simp: s OpRevoke is_revoked_def)
  next
    case OpReload
    obtain db' rt' where a: "reload_round tx js fs (db, rt) = (db', rt')" by fastforce
    with reload_inv [OF inv [unfolded s] a] show ?thesis by (auto simp: s OpReload is_revoked_def same_db_def)
  qed
qed

lemma db_run_inv:
  assumes ok: "json_ok js" "plain_path cp" "plain_path rp" "cp \<noteq> rp"
  shows "db_inv tx js cp rp s \<Longrightarrow> db_inv tx js cp rp (db_run tx js ops s) \<and>
    (\<forall>i. is_revoked i (fst s) \<longrightarrow> is_revoked i (fst (db_run tx js ops s)))"
proof (induction ops arbitrary: s)
  case Nil
  then show ?case by (simp add: db_run_def)
next
  case (Cons op ops)
  from db_op_inv [OF Cons.prems ok, of op] have o: "db_inv tx js cp rp (db_op_step tx js op s)"
      "\<forall>i. is_revoked i (fst s) \<longrightarrow> is_revoked i (fst (db_op_step tx js op s))" by blast+
  from Cons.IH [OF o(1)] o(2) show ?case by (simp add: db_run_def)
qed

lemma open_db_inv:
  assumes "open_db tx js env cp rp fs = (Inr db, fs')" and "rt_phase rt = Sleeping"
  shows "db_inv tx js cp rp (db, rt, fs') \<and> load_state tx js cp rp fs' = Inr (db_state db)"
proof -
  have l: "load_state tx js cp rp fs' = Inr (db_state db)" "db_clients_path db = cp" "db_revoked_path db = rp"
    using assms(1) by (auto simp: open_db_def split: sum.splits prod.splits)
  then have "db_wf (db_state db)" using from_files_wf by (auto simp: load_state_def and_then_Inr)
  with l assms(2) show ?thesis by (auto simp: db_inv_def on_disk_load)
qed

lemma open_db_again:
  assumes "load_state tx js cp rp fs = Inr st"
  shows "open_db tx js env cp rp fs = (Inr \<lparr>db_state = st, db_clients_path = cp, db_revoked_path = rp,
           db_revocations = st_revoked st, db_notified = 0\<rparr>, fs)"
proof -
  have "fs cp \<noteq> None" "fs rp \<noteq> None"
    using assms by (auto simp: load_state_def and_then_Inr read_clients_file_def read_revoked_file_def read_json_def
        read_text_def split: option.splits if_splits)
  with assms show ?thesis by (simp add: open_db_def ensure_file_def)
qed


text \<open>The two indexes agree: the record found by a key is the one with that key.\<close>

lemma lookup_consistent:
  assumes "db_wf (db_state db)"
  shows "lookup_by_public k db = Some r \<longleftrightarrow> lookup_by_id (cr_client_id r) db = Some r \<and> cr_public_key r = k"
proof
  assume "lookup_by_public k db = Some r"
  then obtain i where i: "hm_get (st_by_public (db_state db)) k = Some i" "hm_get (st_by_id (db_state db)) i = Some r"
    by (auto simp: lookup_by_public_def bind_eq_Some_conv)
  moreover from assms i(1) obtain r' where "hm_get (st_by_id (db_state db)) i = Some r'" "cr_public_key r' = k"
    unfolding db_wf_def by blast
  moreover have "cr_client_id r = i" using assms i(2) unfolding db_wf_def by blast
  ultimately show "lookup_by_id (cr_client_id r) db = Some r \<and> cr_public_key r = k" by (simp add: lookup_by_id_def)
next
  assume r: "lookup_by_id (cr_client_id r) db = Some r \<and> cr_public_key r = k"
  then have "hm_get (st_by_public (db_state db)) (cr_public_key r) = Some (cr_client_id r)"
    using assms unfolding db_wf_def lookup_by_id_def by blast
  with r show "lookup_by_public k db = Some r" by (simp add: lookup_by_public_def lookup_by_id_def)
qed

section \<open>A reload that overlaps a revocation\<close>

definition quiet :: "write_env \<Rightarrow> bool" where
  "quiet env \<longleftrightarrow> we_create_dir env = Inr () \<and> we_open env 0 = Inr () \<and> we_write env = Inr () \<and> we_rename env = Inr ()"

lemma write_json_quiet:
  assumes "quiet env" and "plain_path p" and "\<forall>q. fs q \<noteq> None \<longrightarrow> plain_path q"
  shows "write_json env p (Inr b) fs = (Inr (), fs(p := Some b))"
proof -
  obtain tmp where tmp: "temp_path env p 0 = Inr tmp"
    using assms(2) by (auto simp: temp_path_def plain_path_def)
  then have "fs tmp = None" using temp_path_plain assms(3) by blast
  moreover have "[0..<100] = 0 # [1..<100]" by (simp add: upt_conv_Cons)
  moreover have "create_parent env p = Inr ()" using assms(1) by (simp add: create_parent_def quiet_def)
  ultimately show ?thesis
    using assms(1) tmp by (simp add: write_json_def write_atomic_def quiet_def fun_upd_idem)
qed

lemma set_revoked_file [simp]: "set (revoked_file st) = set (st_revoked st)"
  by (simp add: revoked_file_def)

lemma on_disk_revocations:
  assumes "on_disk tx js cp rp fs st" and "read_revoked_file js rp fs = Inr rs"
  shows "set rs = set (st_revoked st)"
proof -
  obtain cs st' where "from_files tx cs rs = Inr st'" "same_db st st'" using assms by (auto simp: on_disk_def)
  with from_files_wf show ?thesis by (auto simp: same_db_def)
qed

lemma revoke_quiet:
  assumes "quiet env" and "plain_path (db_revoked_path db)" and "\<forall>q. fs q \<noteq> None \<longrightarrow> plain_path q"
    and "\<not> is_revoked i db" and "js_write_revoked js (revoked_file (st\<lparr>st_revoked := i # st_revoked st\<rparr>)) = Inr b"
    and "db_state db = st"
  shows "revoke js env i (db, fs) =
    (Inr (), notify_revocations (set_state (st\<lparr>st_revoked := i # st_revoked st\<rparr>) db), fs(db_revoked_path db := Some b))"
  using assms write_json_quiet [OF assms(1-3)] by (simp add: revoke_def with_revoked_def is_revoked_def)

text \<open>
  A revocation can be lost: the reload task reads the files, a client is revoked (the
  call succeeds, file and memory are right), the task puts the state it read before into
  memory, and the next revocation of somebody else writes that state to the file. The
  first client is then revoked neither in memory nor on disk, though nobody but the daemon
  wrote the files and every write succeeded.
\<close>

lemma revocation_lost:
  assumes js: "json_ok js" and paths: "plain_path (db_clients_path db)" "plain_path (db_revoked_path db)"
      "db_clients_path db \<noteq> db_revoked_path db"
    and env: "quiet env" and files: "\<forall>q. fs q \<noteq> None \<longrightarrow> plain_path q"
    and start: "db_inv tx js (db_clients_path db) (db_revoked_path db) (db, rt, fs)"
      "rt_last rt = (read_text (db_clients_path db) fs, read_text (db_revoked_path db) fs)"
    and new: "\<not> is_revoked a db" "\<not> is_revoked b db" "\<not> is_revoked c db" "distinct [a, b, c]"
  shows "\<exists>db1 fs1 rt1 db2 fs2 db3 rt3 db4 fs4.
    revoke js env a (db, fs) = (Inr (), db1, fs1) \<and>
    reload_step tx js fs1 (reload_step tx js fs1 (db1, rt)) = (db1, rt1) \<and>
    revoke js env b (db1, fs1) = (Inr (), db2, fs2) \<and> is_revoked b db2 \<and>
    reload_step tx js fs2 (reload_step tx js fs2 (reload_step tx js fs2 (db2, rt1))) = (db3, rt3) \<and>
    rt_phase rt3 = Sleeping \<and>
    revoke js env c (db3, fs2) = (Inr (), db4, fs4) \<and>
    \<not> is_revoked b db4 \<and>
    (\<exists>st. load_state tx js (db_clients_path db) (db_revoked_path db) fs4 = Inr st \<and> b \<notin> set (st_revoked st))"
proof -
  let ?cp = "db_clients_path db" and ?rp = "db_revoked_path db"
  let ?st1 = "(db_state db)\<lparr>st_revoked := a # st_revoked (db_state db)\<rparr>"
  let ?db1 = "notify_revocations (set_state ?st1 db)"
  obtain ba where ba: "js_write_revoked js (revoked_file ?st1) = Inr ba" "js_read_revoked js ba = Inr (revoked_file ?st1)"
      "utf8_valid ba" using js unfolding json_ok_def by blast
  let ?fs1 = "fs(?rp := Some ba)"
  have r1: "revoke js env a (db, fs) = (Inr (), ?db1, ?fs1)"
    by (rule revoke_quiet [OF env paths(2) files new(1) ba(1) refl])
  have inv1: "db_inv tx js ?cp ?rp (?db1, rt, ?fs1)"
    using revoke_inv [OF start(1) js paths r1] by blast
  then obtain s1 where s1: "load_state tx js ?cp ?rp ?fs1 = Inr s1" "same_db ?st1 s1"
    by (auto simp: db_inv_def on_disk_load notify_revocations_def set_state_def)
  have "read_text ?rp fs \<noteq> Some ba"
  proof
    assume "read_text ?rp fs = Some ba"
    then have "read_revoked_file js ?rp fs = Inr (revoked_file ?st1)"
      using ba(2) by (simp add: read_revoked_file_def read_json_def)
    moreover have "on_disk tx js ?cp ?rp fs (db_state db)" using start(1) by (simp add: db_inv_def)
    ultimately have "set (revoked_file ?st1) = set (st_revoked (db_state db))" by (rule on_disk_revocations [rotated])
    moreover have "a \<in> set (revoked_file ?st1)" unfolding set_revoked_file by simp
    ultimately show False using new(1) unfolding is_revoked_def by blast
  qed
  then have "(read_text ?cp ?fs1, read_text ?rp ?fs1) \<noteq> rt_last rt"
    using start(2) ba(3) by (auto simp: read_text_def split: option.splits if_splits)
  moreover have "rt_phase rt = Sleeping" using start(1) by (simp add: db_inv_def)
  ultimately obtain now where r2: "reload_step tx js ?fs1 (reload_step tx js ?fs1 (?db1, rt)) =
      (?db1, rt\<lparr>rt_phase := Parsed now s1\<rparr>)"
    using s1(1) by (auto simp: reload_step_def Let_def notify_revocations_def set_state_def)
  let ?st2 = "?st1\<lparr>st_revoked := b # st_revoked ?st1\<rparr>"
  let ?db2 = "notify_revocations (set_state ?st2 ?db1)"
  obtain bb where bb: "js_write_revoked js (revoked_file ?st2) = Inr bb" using js unfolding json_ok_def by blast
  let ?fs2 = "?fs1(?rp := Some bb)"
  have files1: "\<forall>q. ?fs1 q \<noteq> None \<longrightarrow> plain_path q" using files paths(2) by simp
  have fields: "db_revoked_path ?db1 = ?rp" "db_state ?db1 = ?st1" "db_revoked_path ?db2 = ?rp"
    by (simp_all add: notify_revocations_def set_state_def)
  have nb: "\<not> is_revoked b ?db1" using new by (auto simp: is_revoked_def notify_revocations_def set_state_def)
  have r3: "revoke js env b (?db1, ?fs1) = (Inr (), ?db2, ?fs2)"
    using revoke_quiet [OF env _ files1 nb bb fields(2)] paths(2) unfolding fields(1) by blast
  obtain db3 rt3 where r4: "reload_step tx js ?fs2 (reload_step tx js ?fs2 (reload_step tx js ?fs2
      (?db2, rt\<lparr>rt_phase := Parsed now s1\<rparr>))) = (db3, rt3)" "db_state db3 = s1" "db_revoked_path db3 = ?rp"
      "rt_phase rt3 = Sleeping"
    by (auto simp: reload_step_def set_state_def notify_revocations_def)
  let ?st4 = "s1\<lparr>st_revoked := c # st_revoked s1\<rparr>"
  obtain bc where bc: "js_write_revoked js (revoked_file ?st4) = Inr bc" using js unfolding json_ok_def by blast
  have s1_rev: "set (st_revoked s1) = insert a (set (st_revoked (db_state db)))" using s1(2) by (simp add: same_db_def)
  then have nc: "\<not> is_revoked c db3" using new r4(2) by (auto simp: is_revoked_def)
  have files2: "\<forall>q. ?fs2 q \<noteq> None \<longrightarrow> plain_path q" using files paths(2) by simp
  let ?db4 = "notify_revocations (set_state ?st4 db3)" and ?fs4 = "?fs2(?rp := Some bc)"
  have r5: "revoke js env c (db3, ?fs2) = (Inr (), ?db4, ?fs4)"
    using revoke_quiet [OF env _ files2 nc bc r4(2)] paths(2) unfolding r4(3) by blast
  have "on_disk tx js ?cp ?rp ?fs1 s1" by (auto simp: on_disk_load s1(1))
  from on_disk_revoked [OF this paths(3) js bc] have "on_disk tx js ?cp ?rp ?fs4 ?st4" by simp
  then obtain st where st: "load_state tx js ?cp ?rp ?fs4 = Inr st" "same_db ?st4 st" by (auto simp: on_disk_load)
  have "b \<notin> set (st_revoked ?st4)" using s1_rev new by (auto simp: is_revoked_def)
  then have "b \<notin> set (st_revoked st)" using st(2) unfolding same_db_def by blast
  moreover have "\<not> is_revoked b ?db4"
    using \<open>b \<notin> set (st_revoked ?st4)\<close> by (simp add: is_revoked_def notify_revocations_def set_state_def)
  moreover have "is_revoked b ?db2" by (simp add: is_revoked_def notify_revocations_def set_state_def)
  ultimately show ?thesis using r1 r2 r3 r4(1,4) r5 st(1) by blast
qed

section \<open>Witnesses\<close>

text \<open>A toy serialiser: a value is its number in a list of zeros. It stands for no code.\<close>

instance client_id :: countable
  by countable_datatype

definition toy_json :: json where
  "toy_json = \<lparr>js_write_clients = (\<lambda>cs. Inr (replicate (to_nat (map (\<lambda>r. (cr_client_id r, cr_public_key r, cr_paired_at r)) cs)) 0)),
     js_read_clients = (\<lambda>b. Inr (map (\<lambda>(i, k, t). \<lparr>cr_client_id = i, cr_public_key = k, cr_paired_at = t\<rparr>) (from_nat (length b)))),
     js_write_revoked = (\<lambda>rs. Inr (replicate (to_nat rs) 0)), js_read_revoked = (\<lambda>b. Inr (from_nat (length b)))\<rparr>"

lemma utf8_zeros: "utf8_valid (replicate n 0)"
  by (induction n) simp_all

lemma toy_json_ok: "json_ok toy_json"
  by (simp add: json_ok_def toy_json_def utf8_zeros comp_def map_idI)

definition quiet_env :: write_env where
  "quiet_env = \<lparr>we_create_dir = Inr (), we_open = (\<lambda>_. Inr ()), we_write = Inr (), we_partial = [],
     we_rename = Inr (), we_remove = True, we_pid = 1, we_nanos = (\<lambda>n. n)\<rparr>"

definition failing_env :: write_env where
  "failing_env = quiet_env\<lparr>we_rename := Inl ''denied'', we_remove := False\<rparr>"

definition clients_path :: path where "clients_path = \<lparr>pa_parent = ''d'', pa_file_name = Some ''clients.json''\<rparr>"
definition revoked_path :: path where "revoked_path = \<lparr>pa_parent = ''d'', pa_file_name = Some ''revoked.json''\<rparr>"

lemma sample_paths [simp]: "plain_path clients_path" "plain_path revoked_path" "clients_path \<noteq> revoked_path"
    "revoked_path \<noteq> clients_path" "quiet quiet_env"
  by (simp_all add: plain_path_def clients_path_def revoked_path_def quiet_def quiet_env_def)

lemma toy_open:
  "\<exists>db fs. open_db tx toy_json quiet_env clients_path revoked_path (\<lambda>_. None) = (Inr db, fs) \<and>
     (\<forall>q. fs q \<noteq> None \<longrightarrow> plain_path q) \<and> st_revoked (db_state db) = [] \<and>
     db_clients_path db = clients_path \<and> db_revoked_path db = revoked_path \<and>
     st_by_id (db_state db) = [] \<and> st_by_public (db_state db) = []"
proof -
  obtain b where b: "js_write_clients toy_json [] = Inr b" using toy_json_ok unfolding json_ok_def by blast
  obtain c where c: "js_write_revoked toy_json [] = Inr c" using toy_json_ok unfolding json_ok_def by blast
  let ?fs1 = "(\<lambda>_. None)(clients_path := Some b)"
  let ?fs2 = "?fs1(revoked_path := Some c)"
  have "write_json quiet_env clients_path (Inr b) (\<lambda>_. None) = (Inr (), ?fs1)" by (rule write_json_quiet) simp_all
  moreover have "write_json quiet_env revoked_path (Inr c) ?fs1 = (Inr (), ?fs2)" by (rule write_json_quiet) simp_all
  moreover have "read_clients_file toy_json clients_path ?fs2 = Inr []"
    using clients_back [OF toy_json_ok b] by (simp add: read_clients_file_def read_other)
  moreover have "read_revoked_file toy_json revoked_path ?fs2 = Inr []"
    by (rule revoked_back [OF toy_json_ok c])
  moreover have "?fs1 revoked_path = None" by simp
  ultimately have "open_db tx toy_json quiet_env clients_path revoked_path (\<lambda>_. None) =
      (Inr \<lparr>db_state = db_state_default\<lparr>st_revoked := []\<rparr>, db_clients_path = clients_path, db_revoked_path = revoked_path,
            db_revocations = [], db_notified = 0\<rparr>, ?fs2)"
    by (simp add: open_db_def ensure_file_def b c load_state_def from_files_def)
  then show ?thesis by (auto simp: db_state_default_def)
qed


end
