(* ===== verification/Daemon_Resume.thy ===== *)
theory Daemon_Resume
  imports Wire_Types
begin

text \<open>
  \<open>crates/server/daemon-core/src/resume.rs\<close>: resume tokens, a body with its claims
  followed by the first 16 bytes of an HMAC-SHA256 of the body. The HMAC is third-party
  code, a parameter \<open>hmac\<close>; what is relied on is only that a tag has at least 16 bytes.
  The addition of the expiry wraps, as in a release build (a debug build panics).
\<close>

section \<open>Big-endian numbers\<close>

fun be_bytes :: "nat \<Rightarrow> nat \<Rightarrow> bytes" where
  "be_bytes 0 v = []"
| "be_bytes (Suc n) v = be_bytes n (v div 256) @ [of_nat (v mod 256)]"

definition from_be :: "bytes \<Rightarrow> nat" where
  "from_be bs = foldl (\<lambda>v b. 256 * v + unat b) 0 bs"

lemma from_be_snoc: "from_be (bs @ [b]) = 256 * from_be bs + unat b"
  by (simp add: from_be_def)

lemma length_be_bytes [simp]: "length (be_bytes n v) = n"
  by (induction n arbitrary: v) simp_all

lemma from_be_bytes: "v < 256 ^ n \<Longrightarrow> from_be (be_bytes n v) = v"
proof (induction n arbitrary: v)
  case 0
  then show ?case by (simp add: from_be_def)
next
  case (Suc n)
  then have "v div 256 < 256 ^ n" by (simp add: less_mult_imp_div_less mult.commute)
  from Suc.IH [OF this] show ?case
    by (simp add: from_be_snoc unat_of_nat)
qed

lemma from_be_less: "from_be bs < 256 ^ length bs"
proof (induction bs rule: rev_induct)
  case Nil
  show ?case by (simp add: from_be_def)
next
  case (snoc b bs)
  have "unat b < 256" using unat_lt_pow [of b] by simp
  with snoc show ?case by (simp add: from_be_snoc)
qed

lemma be_bytes_from_be: "length bs = n \<Longrightarrow> be_bytes n (from_be bs) = bs"
proof (induction n arbitrary: bs)
  case 0
  then show ?case by simp
next
  case (Suc n)
  then obtain b bs' where bs: "bs = bs' @ [b]" by (cases bs rule: rev_cases) auto
  have b: "unat b < 256" using unat_lt_pow [of b] by simp
  with Suc bs show ?case by (simp add: from_be_snoc)
qed

section \<open>Tokens\<close>

definition VERSION :: u8 where "VERSION = 1"
definition TAG_LEN :: nat where "TAG_LEN = 16"
definition BODY_LEN :: nat where "BODY_LEN = 1 + 16 + 16 + 8 + 8"
definition TOKEN_LEN :: nat where "TOKEN_LEN = BODY_LEN + TAG_LEN"

record verified_resume =
  vr_client_id :: client_id
  vr_terminal_id :: terminal_id
  vr_issued_ms :: u64
  vr_expiry_ms :: u64

datatype resume_error = ResumeMalformed | ResumeBadVersion | ResumeExpired | ResumeBadTag

definition mint ::
  "(bytes \<Rightarrow> bytes \<Rightarrow> bytes) \<Rightarrow> bytes \<Rightarrow> client_id \<Rightarrow> terminal_id \<Rightarrow> u64 \<Rightarrow> u64 \<Rightarrow> bytes" where
  "mint hmac secret client terminal now_ms ttl_ms =
     (let body = [VERSION] @ be_bytes 16 (unat (client_uuid client)) @ be_bytes 16 (unat (terminal_uuid terminal)) @
            be_bytes 8 (unat now_ms) @ be_bytes 8 (unat (now_ms + ttl_ms))
      in body @ take TAG_LEN (hmac secret body))"

definition verify ::
  "(bytes \<Rightarrow> bytes \<Rightarrow> bytes) \<Rightarrow> bytes \<Rightarrow> bytes \<Rightarrow> u64 \<Rightarrow> (resume_error, verified_resume) result" where
  "verify hmac secret token now_ms =
     (if length token \<noteq> TOKEN_LEN then Inl ResumeMalformed
      else (let body = take BODY_LEN token; tag = drop BODY_LEN token in
        if body ! 0 \<noteq> VERSION then Inl ResumeBadVersion
        else if take TAG_LEN (hmac secret body) \<noteq> tag then Inl ResumeBadTag
        else (let field = (\<lambda>from to. from_be (take (to - from) (drop from body)));
                  cid = field 1 17; tid = field 17 33;
                  issued_ms = of_nat (field 33 41); expiry_ms = of_nat (field 41 49) in
          if expiry_ms \<le> now_ms then Inl ResumeExpired
          else Inr \<lparr>vr_client_id = ClientId (of_nat cid), vr_terminal_id = TerminalId (of_nat tid),
                    vr_issued_ms = issued_ms, vr_expiry_ms = expiry_ms\<rparr>)))"

section \<open>Only minted tokens verify\<close>

lemma u64_be: "from_be (be_bytes 8 (unat (w :: u64))) = unat w"
  using unat_lt_pow [of w] by (simp add: from_be_bytes)

lemma uuid_be: "from_be (be_bytes 16 (unat (w :: uuid))) = unat w"
  using unat_lt_pow [of w] by (simp add: from_be_bytes)

lemma be_u64: "length bs = 8 \<Longrightarrow> be_bytes 8 (unat (of_nat (from_be bs) :: u64)) = bs"
  using from_be_less [of bs] by (simp add: unat_of_nat be_bytes_from_be)

lemma be_uuid: "length bs = 16 \<Longrightarrow> be_bytes 16 (unat (of_nat (from_be bs) :: uuid)) = bs"
  using from_be_less [of bs] by (simp add: unat_of_nat be_bytes_from_be)

lemma verify_mint:
  assumes "\<And>k m. 16 \<le> length (hmac k m)"
  shows "verify hmac secret (mint hmac secret c t issued ttl) now =
    (if issued + ttl \<le> now then Inl ResumeExpired
     else Inr \<lparr>vr_client_id = c, vr_terminal_id = t, vr_issued_ms = issued, vr_expiry_ms = issued + ttl\<rparr>)"
  using assms
  by (cases c; cases t)
    (simp add: verify_def mint_def Let_def TOKEN_LEN_def BODY_LEN_def TAG_LEN_def min_absorb2 u64_be uuid_be)

lemma verify_minted:
  assumes v: "verify hmac secret token now = Inr r"
  shows "token = mint hmac secret (vr_client_id r) (vr_terminal_id r) (vr_issued_ms r) (vr_expiry_ms r - vr_issued_ms r) \<and>
    now < vr_expiry_ms r"
proof -
  let ?f = "\<lambda>a b. take (b - a) (drop a (take BODY_LEN token))"
  have len: "length token = 65" and ver: "take BODY_LEN token ! 0 = VERSION"
    and tag: "take TAG_LEN (hmac secret (take BODY_LEN token)) = drop BODY_LEN token"
    and r: "r = \<lparr>vr_client_id = ClientId (of_nat (from_be (?f 1 17))), vr_terminal_id = TerminalId (of_nat (from_be (?f 17 33))),
      vr_issued_ms = of_nat (from_be (?f 33 41)), vr_expiry_ms = of_nat (from_be (?f 41 49))\<rparr>"
    and live: "now < vr_expiry_ms r"
    using v by (auto simp: verify_def Let_def TOKEN_LEN_def BODY_LEN_def TAG_LEN_def not_le split: if_splits)
  have body: "take BODY_LEN token = [VERSION] @ ?f 1 17 @ ?f 17 33 @ ?f 33 41 @ ?f 41 49"
  proof (rule nth_equalityI)
    show "length (take BODY_LEN token) = length ([VERSION] @ ?f 1 17 @ ?f 17 33 @ ?f 33 41 @ ?f 41 49)"
      using len by (simp add: BODY_LEN_def)
    fix i assume "i < length (take BODY_LEN token)"
    then have "i < 49" by (simp add: BODY_LEN_def)
    then show "take BODY_LEN token ! i = ([VERSION] @ ?f 1 17 @ ?f 17 33 @ ?f 33 41 @ ?f 41 49) ! i"
      using len ver by (auto simp: BODY_LEN_def nth_append nth_Cons split: nat.split)
  qed
  have len_f: "length (?f 1 17) = 16" "length (?f 17 33) = 16" "length (?f 33 41) = 8" "length (?f 41 49) = 8"
    using len by (simp_all add: BODY_LEN_def)
  have fields: "be_bytes 16 (unat (client_uuid (vr_client_id r))) = ?f 1 17"
    "be_bytes 16 (unat (terminal_uuid (vr_terminal_id r))) = ?f 17 33"
    "be_bytes 8 (unat (vr_issued_ms r)) = ?f 33 41" "be_bytes 8 (unat (vr_expiry_ms r)) = ?f 41 49"
    unfolding r using be_uuid [OF len_f(1)] be_uuid [OF len_f(2)] be_u64 [OF len_f(3)] be_u64 [OF len_f(4)] by simp_all
  have expiry: "vr_issued_ms r + (vr_expiry_ms r - vr_issued_ms r) = vr_expiry_ms r" by simp
  have "[VERSION] @ be_bytes 16 (unat (client_uuid (vr_client_id r))) @
      be_bytes 16 (unat (terminal_uuid (vr_terminal_id r))) @ be_bytes 8 (unat (vr_issued_ms r)) @
      be_bytes 8 (unat (vr_issued_ms r + (vr_expiry_ms r - vr_issued_ms r))) = take BODY_LEN token"
    unfolding expiry fields by (rule body [symmetric])
  then have "mint hmac secret (vr_client_id r) (vr_terminal_id r) (vr_issued_ms r) (vr_expiry_ms r - vr_issued_ms r) =
      take BODY_LEN token @ take TAG_LEN (hmac secret (take BODY_LEN token))"
    by (simp only: mint_def Let_def)
  with tag live show ?thesis by simp
qed

text \<open>
  Resume tokens: \<open>verify\<close> accepts a token exactly when it is, byte for byte, the token
  that \<open>mint\<close> makes under the same secret for the claims that \<open>verify\<close> returns, and those
  claims have not expired; no other bytes are accepted.
\<close>

lemma verify_iff_minted:
  assumes "\<And>k m. 16 \<le> length (hmac k m)"
  shows "verify hmac secret token now = Inr r \<longleftrightarrow>
    token = mint hmac secret (vr_client_id r) (vr_terminal_id r) (vr_issued_ms r) (vr_expiry_ms r - vr_issued_ms r) \<and>
    now < vr_expiry_ms r"
  using verify_minted [of hmac secret token now r] verify_mint [of hmac secret, OF assms] by (cases r) auto

end
