(* ===== verification/Daemon_Handshake.thy ===== *)
theory Daemon_Handshake
  imports Daemon_ClientDb
begin

text \<open>
  \<open>crates/server/daemon-core/src/handshake.rs\<close>: the responder's side of the two Noise
  handshakes, and the decision who may connect. The transport is the list of what its
  \<open>recv\<close> returns (at its end it is closed) and what was sent on it.
\<close>

section \<open>Transport\<close>

record transport =
  tp_incoming :: "(transport_error, bytes option) result list"
  tp_sent :: "bytes list"
  tp_answer :: "nat \<Rightarrow> (transport_error, unit) result"

definition transport_recv :: "transport \<Rightarrow> (transport_error, bytes option) result \<times> transport" where
  "transport_recv t =
     (case tp_incoming t of
        [] \<Rightarrow> (Inr None, t)
      | r # rs \<Rightarrow> (r, t\<lparr>tp_incoming := rs\<rparr>))"

definition transport_send :: "bytes \<Rightarrow> transport \<Rightarrow> (transport_error, unit) result \<times> transport" where
  "transport_send m t =
     (case tp_answer t (length (tp_sent t)) of
        Inl e \<Rightarrow> (Inl e, t)
      | Inr _ \<Rightarrow> (Inr (), t\<lparr>tp_sent := tp_sent t @ [m]\<rparr>))"

definition recv_or_closed :: "string \<Rightarrow> transport \<Rightarrow> (daemon_error, bytes) result \<times> transport" where
  "recv_or_closed closed t =
     (case transport_recv t of
        (Inl e, t') \<Rightarrow> (Inl (DaemonTransport e), t')
      | (Inr None, t') \<Rightarrow> (Inl (DaemonInternal closed), t')
      | (Inr (Some m), t') \<Rightarrow> (Inr m, t'))"

definition send_or_fail :: "bytes \<Rightarrow> transport \<Rightarrow> (daemon_error, unit) result \<times> transport" where
  "send_or_fail m t =
     (case transport_send m t of (Inl e, t') \<Rightarrow> (Inl (DaemonTransport e), t') | (Inr _, t') \<Rightarrow> (Inr (), t'))"

fun map_crypto :: "(noise_error, 'a) result \<Rightarrow> (daemon_error, 'a) result" where
  "map_crypto (Inl e) = Inl (DaemonCrypto e)"
| "map_crypto (Inr a) = Inr a"

section \<open>The three messages\<close>

definition read_step ::
  "('h, 't) snow \<Rightarrow> string \<Rightarrow> 'h noise_party \<times> transport \<Rightarrow>
   (daemon_error, unit) result \<times> 'h noise_party \<times> transport" where
  "read_step sw closed = (\<lambda>(p, t).
     case recv_or_closed closed t of
       (Inl e, t') \<Rightarrow> (Inl e, p, t')
     | (Inr m, t') \<Rightarrow> (case read_handshake sw m p of (r, p') \<Rightarrow> (map_crypto r, p', t')))"

definition write_step ::
  "('h, 't) snow \<Rightarrow> 'h noise_party \<times> transport \<Rightarrow> (daemon_error, unit) result \<times> 'h noise_party \<times> transport" where
  "write_step sw = (\<lambda>(p, t).
     case write_handshake sw p of
       (Inl e, p') \<Rightarrow> (Inl (DaemonCrypto e), p', t)
     | (Inr m, p') \<Rightarrow> (case send_or_fail m t of (r, t') \<Rightarrow> (r, p', t')))"

definition exchange_messages ::
  "('h, 't) snow \<Rightarrow> 'h noise_party \<times> transport \<Rightarrow> (daemon_error, unit) result \<times> 'h noise_party \<times> transport" where
  "exchange_messages sw s =
     (case read_step sw ''transport closed during handshake msg1'' s of
        (Inl e, s1) \<Rightarrow> (Inl e, s1)
      | (Inr _, s1) \<Rightarrow>
          (case write_step sw s1 of
             (Inl e, s2) \<Rightarrow> (Inl e, s2)
           | (Inr _, s2) \<Rightarrow> read_step sw ''transport closed during handshake msg3'' s2))"

section \<open>Who may connect\<close>

record 't accepted_handshake =
  ah_session :: 't
  ah_client :: client_record

text \<open>What the operating system gives: the answers to a write, a fresh uuid, the time.\<close>

record pair_env =
  pe_write :: write_env
  pe_fresh :: uuid
  pe_now_secs :: u64

definition authorize ::
  "texts \<Rightarrow> json \<Rightarrow> pair_env \<Rightarrow> bool \<Rightarrow> bytes \<Rightarrow> client_db \<times> file_system \<Rightarrow>
   (daemon_error, client_record) result \<times> client_db \<times> file_system" where
  "authorize tx js env auto_pair key = (\<lambda>(db, fs).
     let (found, db', fs') =
       (case lookup_by_public key db of
          Some record \<Rightarrow> (Inr record, db, fs)
        | None \<Rightarrow>
            if auto_pair
            then add_or_lookup_by_public tx js (pe_write env)
                   \<lparr>cr_client_id = ClientId (pe_fresh env), cr_public_key = key, cr_paired_at = pe_now_secs env\<rparr> (db, fs)
            else (Inl (DaemonNotPaired (tx_hex tx key)), db, fs))
     in case found of
          Inl e \<Rightarrow> (Inl e, db', fs')
        | Inr record \<Rightarrow>
            if is_revoked (cr_client_id record) db'
            then (Inl (DaemonRevoked (show_client_id tx (cr_client_id record))), db', fs')
            else (Inr record, db', fs'))"

text \<open>What follows the third message: the peer's key, the session, and the decision.\<close>

definition conclude ::
  "('h, 't) snow \<Rightarrow> texts \<Rightarrow> json \<Rightarrow> pair_env \<Rightarrow> bool \<Rightarrow> string \<Rightarrow> 'h noise_party \<Rightarrow> client_db \<times> file_system \<Rightarrow>
   (daemon_error, 't accepted_handshake) result \<times> client_db \<times> file_system" where
  "conclude sw tx js env auto_pair no_key p = (\<lambda>(db, fs).
     case remote_static_public sw p of
       None \<Rightarrow> (Inl (DaemonInternal no_key), db, fs)
     | Some key \<Rightarrow>
         (case finish sw p of
            Inl e \<Rightarrow> (Inl (DaemonCrypto e), db, fs)
          | Inr session \<Rightarrow>
              (case authorize tx js env auto_pair key (db, fs) of
                 (Inl e, db', fs') \<Rightarrow> (Inl e, db', fs')
               | (Inr record, db', fs') \<Rightarrow> (Inr \<lparr>ah_session = session, ah_client = record\<rparr>, db', fs'))))"

definition run_handshake ::
  "('h, 't) snow \<Rightarrow> texts \<Rightarrow> json \<Rightarrow> pair_env \<Rightarrow> bool \<Rightarrow> string \<Rightarrow> (noise_error, 'h noise_party) result \<Rightarrow>
   transport \<Rightarrow> client_db \<times> file_system \<Rightarrow>
   (daemon_error, 't accepted_handshake) result \<times> transport \<times> client_db \<times> file_system" where
  "run_handshake sw tx js env auto_pair no_key built t = (\<lambda>(db, fs).
     case built of
       Inl e \<Rightarrow> (Inl (DaemonCrypto e), t, db, fs)
     | Inr p \<Rightarrow>
         (case exchange_messages sw (p, t) of
            (Inl e, p', t') \<Rightarrow> (Inl e, t', db, fs)
          | (Inr _, p', t') \<Rightarrow>
              (case conclude sw tx js env auto_pair no_key p' (db, fs) of (r, db', fs') \<Rightarrow> (r, t', db', fs'))))"

definition responder_handshake ::
  "('h, 't) snow \<Rightarrow> texts \<Rightarrow> json \<Rightarrow> pair_env \<Rightarrow> key_pair \<Rightarrow> bytes option \<Rightarrow> bool \<Rightarrow> transport \<Rightarrow> client_db \<times> file_system \<Rightarrow>
   (daemon_error, 't accepted_handshake) result \<times> transport \<times> client_db \<times> file_system" where
  "responder_handshake sw tx js env identity psk auto_pair =
     run_handshake sw tx js env auto_pair ''XK handshake finished without remote static key'' (responder_new sw identity psk)"

definition anonymous_responder_handshake ::
  "('h, 't) snow \<Rightarrow> texts \<Rightarrow> json \<Rightarrow> pair_env \<Rightarrow> key_pair \<Rightarrow> bool \<Rightarrow> transport \<Rightarrow> client_db \<times> file_system \<Rightarrow>
   (daemon_error, 't accepted_handshake) result \<times> transport \<times> client_db \<times> file_system" where
  "anonymous_responder_handshake sw tx js env identity auto_pair =
     run_handshake sw tx js env auto_pair ''XX handshake finished without remote static key'' (anonymous_responder_new sw identity)"

section \<open>Only clients of the database are accepted\<close>

lemma put_lookup:
  "with_added tx r (db_state db) = Inr st \<Longrightarrow> lookup_by_public (cr_public_key r) (set_state st db) = Some r"
  by (auto simp: with_added_ok lookup_by_public_def set_state_def)

lemma add_or_lookup_result:
  assumes "add_or_lookup_by_public tx js env r (db, fs) = (Inr q, db', fs')"
  shows "lookup_by_public (cr_public_key r) db' = Some q"
  using assms put_lookup
  by (auto simp: add_or_lookup_by_public_def add_client_def split: option.splits sum.splits prod.splits)

lemma authorize_result:
  assumes "authorize tx js env auto_pair key (db, fs) = (Inr r, db', fs')"
  shows "lookup_by_public key db' = Some r \<and> \<not> is_revoked (cr_client_id r) db' \<and>
    (lookup_by_public key db \<noteq> None \<or> \<not> auto_pair \<longrightarrow> db' = db \<and> fs' = fs)"
  using assms
  by (auto simp: authorize_def Let_def split: option.splits sum.splits prod.splits if_splits
      dest: add_or_lookup_result [where r = "\<lparr>cr_client_id = _, cr_public_key = _, cr_paired_at = _\<rparr>"])

lemma authorize_inv:
  assumes "db_inv tx js cp rp (db, rt, fs)" and "json_ok js" "plain_path cp" "plain_path rp" "cp \<noteq> rp"
    and "authorize tx js env auto_pair key (db, fs) = (res, db', fs')"
  shows "db_inv tx js cp rp (db', rt, fs') \<and> st_revoked (db_state db') = st_revoked (db_state db)"
proof -
  have a: "db_inv tx js cp rp (db1, rt, fs1) \<and> st_revoked (db_state db1) = st_revoked (db_state db)"
    if "add_or_lookup_by_public tx js e r (db, fs) = (x, db1, fs1)" for e r x db1 fs1
  proof (cases "lookup_by_public (cr_public_key r) db")
    case None
    obtain y d f where y: "add_client tx js e r (db, fs) = (y, d, f)" by (metis prod_cases3)
    with that None have "d = db1" "f = fs1" by (cases y; simp add: add_or_lookup_by_public_def)+
    with add_client_inv [OF assms(1-5) y] show ?thesis by simp
  next
    case (Some q)
    with that assms(1) show ?thesis by (simp add: add_or_lookup_by_public_def)
  qed
  from assms(6) show ?thesis
    using assms(1) a by (auto simp: authorize_def Let_def split: option.splits sum.splits prod.splits if_splits)
qed

lemma run_handshake_ok:
  assumes "run_handshake sw tx js env auto_pair no_key built t (db, fs) = (Inr a, t', db', fs')"
  shows "\<exists>p key. remote_static_public sw p = Some key \<and> finish sw p = Inr (ah_session a) \<and>
    authorize tx js env auto_pair key (db, fs) = (Inr (ah_client a), db', fs')"
  using assms
  by (fastforce simp: run_handshake_def conclude_def split: sum.splits prod.splits option.splits)


section \<open>Witness\<close>

lemma toy_handshake:
  assumes "lookup_by_public (replicate 32 9) db = Some r" and "\<not> is_revoked (cr_client_id r) db"
  shows "anonymous_responder_handshake plain_snow tx js env \<lparr>kp_secret = [1], kp_public = [2]\<rparr> False
      \<lparr>tp_incoming = [Inr (Some [5]), Inr (Some (replicate 32 9))], tp_sent = [], tp_answer = (\<lambda>_. Inr ())\<rparr> (db, fs) =
    (Inr \<lparr>ah_session = 0, ah_client = r\<rparr>,
     \<lparr>tp_incoming = [], tp_sent = [[5]], tp_answer = (\<lambda>_. Inr ())\<rparr>, db, fs)"
  using assms
  by (simp add: anonymous_responder_handshake_def run_handshake_def anonymous_responder_new_def xx_noise_params_def
      parse_params_def party_def plain_snow_def exchange_messages_def read_step_def write_step_def recv_or_closed_def
      transport_recv_def transport_send_def send_or_fail_def read_handshake_def write_handshake_def conclude_def
      remote_static_public_def finish_def authorize_def)

lemma paired_sample:
  "\<exists>db fs r. db_inv \<lparr>tx_uuid = (\<lambda>_. []), tx_postcard = [], tx_hex = (\<lambda>_. [])\<rparr> toy_json clients_path revoked_path
      (db, \<lparr>rt_last = (None, None), rt_phase = Sleeping\<rparr>, fs) \<and>
    lookup_by_public (replicate 32 9) db = Some r \<and> \<not> is_revoked (cr_client_id r) db \<and>
    cr_client_id r = ClientId 1 \<and> cr_public_key r = replicate 32 9"
proof -
  let ?tx = "\<lparr>tx_uuid = (\<lambda>_. []), tx_postcard = [], tx_hex = (\<lambda>_. [])\<rparr>"
  let ?r = "\<lparr>cr_client_id = ClientId 1, cr_public_key = replicate 32 9, cr_paired_at = 3\<rparr>"
  let ?rt = "\<lparr>rt_last = (None, None), rt_phase = Sleeping\<rparr>"
  obtain db0 fs0 where o: "open_db ?tx toy_json quiet_env clients_path revoked_path (\<lambda>_. None) = (Inr db0, fs0)"
      "\<forall>q. fs0 q \<noteq> None \<longrightarrow> plain_path q" "st_revoked (db_state db0) = []" "db_clients_path db0 = clients_path"
      "st_by_id (db_state db0) = []" "st_by_public (db_state db0) = []"
    using toy_open by blast
  have inv0: "db_inv ?tx toy_json clients_path revoked_path (db0, ?rt, fs0)" using open_db_inv [OF o(1), of ?rt] by simp
  obtain b where b: "js_write_clients toy_json (clients_file (put_record ?r (db_state db0))) = Inr b"
    using toy_json_ok unfolding json_ok_def by blast
  have "with_added ?tx ?r (db_state db0) = Inr (put_record ?r (db_state db0))"
    by (simp add: with_added_ok check_ok o(5,6))
  then have a: "add_client ?tx toy_json quiet_env ?r (db0, fs0) =
      (Inr (), set_state (put_record ?r (db_state db0)) db0, fs0(clients_path := Some b))"
    using write_json_quiet [OF sample_paths(5,1) o(2), of b] by (simp add: add_client_def o(4) b)
  from add_client_inv [OF inv0 toy_json_ok sample_paths(1,2,3) a] o(3) show ?thesis
    by (intro exI [of _ "set_state (put_record ?r (db_state db0)) db0"] exI [of _ "fs0(clients_path := Some b)"]
        exI [of _ ?r] conjI) (simp_all add: lookup_by_public_def set_state_def is_revoked_def)
qed


end
