(* ===== verification/Daemon_Connection.thy ===== *)
theory Daemon_Connection
  imports Daemon_Session Daemon_Handshake
begin

text \<open>
  \<open>crates/server/daemon-core/src/connection.rs\<close>: one connection after its handshake. It
  reads requests from an encrypted channel, works on the daemon's terminals and
  configuration, and forwards the live output of the one terminal it has open. The
  operating system's answers to a request are an input of the request. A panic (in a
  scrollback) is \<open>None\<close>.
\<close>

definition OUTPUT_CHUNK_BYTES :: nat where "OUTPUT_CHUNK_BYTES = 16 * 1024"
definition OPEN_TERMINAL_MAX_BYTES :: usize where "OPEN_TERMINAL_MAX_BYTES = 48 * 1024"

section \<open>The encrypted channel\<close>

text \<open>\<open>ch_sent\<close> records the frames that went out; the code has no such field.\<close>

record 't channel =
  ch_transport :: transport
  ch_session :: 't
  ch_sent :: "frame list"

text \<open>The third-party code of a connection.\<close>

record ('h, 't, 'p) crates =
  cr_snow :: "('h, 't) snow"
  cr_codec :: frame_codec
  cr_texts :: texts
  cr_vte :: "'p vte"

definition send_frame ::
  "('h, 't, 'p) crates \<Rightarrow> frame \<Rightarrow> 't channel \<Rightarrow> (daemon_error, unit) result \<times> 't channel" where
  "send_frame cr f ch =
     (case encode_frame (cr_codec cr) f of
        Inl e \<Rightarrow> (Inl (DaemonProto e), ch)
      | Inr plaintext \<Rightarrow>
          (case encrypt (cr_snow cr) plaintext (ch_session ch) of
             (Inl e, s) \<Rightarrow> (Inl (DaemonCrypto e), ch\<lparr>ch_session := s\<rparr>)
           | (Inr ciphertext, s) \<Rightarrow>
               (case send_or_fail ciphertext (ch_transport ch) of
                  (Inl e, t) \<Rightarrow> (Inl e, ch\<lparr>ch_session := s, ch_transport := t\<rparr>)
                | (Inr _, t) \<Rightarrow>
                    (Inr (), ch\<lparr>ch_session := s, ch_transport := t, ch_sent := ch_sent ch @ [f]\<rparr>))))"

definition recv_frame ::
  "('h, 't, 'p) crates \<Rightarrow> 't channel \<Rightarrow> (daemon_error, frame) result \<times> 't channel" where
  "recv_frame cr ch =
     (case recv_or_closed ''transport closed during frame recv'' (ch_transport ch) of
        (Inl e, t) \<Rightarrow> (Inl e, ch\<lparr>ch_transport := t\<rparr>)
      | (Inr ciphertext, t) \<Rightarrow>
          (case decrypt (cr_snow cr) ciphertext (ch_session ch) of
             (Inl e, s) \<Rightarrow> (Inl (DaemonCrypto e), ch\<lparr>ch_transport := t, ch_session := s\<rparr>)
           | (Inr plaintext, s) \<Rightarrow>
               (case decode_frame (cr_codec cr) plaintext of
                  Inl e \<Rightarrow> (Inl (DaemonProto e), ch\<lparr>ch_transport := t, ch_session := s\<rparr>)
                | Inr f \<Rightarrow> (Inr f, ch\<lparr>ch_transport := t, ch_session := s\<rparr>))))"

section \<open>State\<close>

record outbound_output =
  ob_stream :: stream_id
  ob_terminal_id :: terminal_id
  ob_frame :: stream_data_frame

text \<open>
  A forwarder task is its subscription (the next chunk of the terminal's broadcast) and
  the frames it has not handed over yet. \<open>fw_start\<close> and \<open>fw_lagged\<close> record where it began
  and whether it was ever too slow; the code has no such fields.
\<close>

record forwarder =
  fw_next :: nat
  fw_frames :: "outbound_output list"
  fw_done :: bool
  fw_start :: nat
  fw_lagged :: bool

record attached_stream =
  as_terminal :: nat
  as_terminal_id :: terminal_id
  as_writer :: forwarder

record stream_context =
  sc_map :: "(stream_id, attached_stream) hash_map"
  sc_next_local_stream_id :: u32
  sc_output :: "outbound_output list"

record 'p daemon =
  dm_sessions :: "'p session_manager"
  dm_db :: client_db
  dm_config :: daemon_config
  dm_server_info :: server_info

record 't connection =
  cn_chan :: "'t channel"
  cn_streams :: stream_context
  cn_client :: client_id
  cn_seen :: nat

text \<open>The operating system's answers to one request; \<open>re_during\<close> is what a terminal does while it is opened.\<close>

record request_env =
  re_spawn :: spawn_env
  re_now_ms :: u64
  re_kill :: "(string, unit) result"
  re_kill_gone :: bool
  re_kill_polls :: "bool list"
  re_write :: "(string, unit) result"
  re_resize :: "(string, unit) result"
  re_save :: "(daemon_error, unit) result"
  re_during :: "terminal_event list"

section \<open>Responses\<close>

definition send_ok_response ::
  "('h, 't, 'p) crates \<Rightarrow> request_id \<Rightarrow> response_body \<Rightarrow> 't channel \<Rightarrow> (daemon_error, unit) result \<times> 't channel" where
  "send_ok_response cr i body = send_frame cr (FResponse \<lparr>rs_id = i, rs_result = Inr body\<rparr>)"

definition send_error_response ::
  "('h, 't, 'p) crates \<Rightarrow> request_id \<Rightarrow> protocol_error \<Rightarrow> 't channel \<Rightarrow> (daemon_error, unit) result \<times> 't channel" where
  "send_error_response cr i code =
     send_frame cr (FResponse \<lparr>rs_id = i, rs_result = Inl \<lparr>re_code = code, re_message = protocol_error_text code\<rparr>\<rparr>)"

text \<open>\<open>Ok(body)\<close> is sent as it is, an error as \<open>ProtocolError::Other\<close> of its text.\<close>

definition answer ::
  "('h, 't, 'p) crates \<Rightarrow> request_id \<Rightarrow> (daemon_error, response_body) result \<Rightarrow> 't channel \<Rightarrow>
   (daemon_error, unit) result \<times> 't channel" where
  "answer cr i r ch =
     (case r of
        Inr body \<Rightarrow> send_ok_response cr i body ch
      | Inl e \<Rightarrow> send_error_response cr i (OtherError (daemon_error_text (cr_texts cr) e)) ch)"

section \<open>Live output\<close>

function pieces :: "nat \<Rightarrow> 'a list \<Rightarrow> 'a list list" where
  "pieces n xs = (if xs = [] \<or> n = 0 then [] else take n xs # pieces n (drop n xs))"
  by pat_completeness auto

termination
  by (relation "measure (length \<circ> snd)") auto

declare pieces.simps [simp del]

fun number_pieces :: "stream_id \<Rightarrow> terminal_id \<Rightarrow> u64 \<Rightarrow> nat \<Rightarrow> bytes list \<Rightarrow> outbound_output list" where
  "number_pieces stream i start sent [] = []"
| "number_pieces stream i start sent (piece # rest) =
     (let sent' = sent + length piece in
      \<lparr>ob_stream = stream, ob_terminal_id = i,
       ob_frame = \<lparr>sd_stream_id = stream, sd_seq = StreamSeq (sat_add start (of_nat sent')), sd_offset = None,
                   sd_bytes = piece, sd_last = False\<rparr>\<rparr> # number_pieces stream i start sent' rest)"

definition live_output_frames ::
  "texts \<Rightarrow> stream_id \<Rightarrow> terminal_id \<Rightarrow> output_chunk \<Rightarrow> (daemon_error, outbound_output list) result" where
  "live_output_frames tx stream i chunk =
     (let total = length (oc_bytes chunk) in
      if total = 0 then Inr []
      else (case checked_sub (seq_val (oc_seq_at_end chunk)) (of_nat total) of
        None \<Rightarrow> Inl (DaemonInternal (''output sequence underflow for terminal '' @ show_terminal_id tx i))
      | Some start_seq \<Rightarrow> Inr (number_pieces stream i start_seq 0 (pieces OUTPUT_CHUNK_BYTES (oc_bytes chunk)))))"

text \<open>
  \<open>OutputStream::recv\<close> on the broadcast channel of tokio: a receiver that is more than
  \<open>SUBSCRIBER_CAP\<close> chunks behind is told so and moved to the oldest chunk still kept.
\<close>

definition SUBSCRIBER_CAP :: nat where "SUBSCRIBER_CAP = 1024"

datatype output_recv = RecvPending | RecvChunk output_chunk | RecvLagged nat

definition subscription_recv :: "output_chunk list \<Rightarrow> nat \<Rightarrow> output_recv \<times> nat" where
  "subscription_recv chunks next =
     (if length chunks \<le> next then (RecvPending, next)
      else if SUBSCRIBER_CAP < length chunks - next
      then (RecvLagged (length chunks - SUBSCRIBER_CAP - next), length chunks - SUBSCRIBER_CAP)
      else (RecvChunk (chunks ! next), Suc next))"

text \<open>A round of the forwarder: once its frames are handed over, it waits for the next chunk.\<close>

definition forwarder_recv :: "texts \<Rightarrow> stream_id \<Rightarrow> terminal_id \<Rightarrow> output_chunk list \<Rightarrow> forwarder \<Rightarrow> forwarder" where
  "forwarder_recv tx stream i chunks w =
     (if fw_done w \<or> fw_frames w \<noteq> [] then w
      else (case subscription_recv chunks (fw_next w) of
        (RecvPending, n) \<Rightarrow> w
      | (RecvLagged skipped, n) \<Rightarrow> w\<lparr>fw_next := n, fw_lagged := True\<rparr>
      | (RecvChunk c, n) \<Rightarrow>
          (case live_output_frames tx stream i c of
             Inl e \<Rightarrow> w\<lparr>fw_next := n, fw_done := True\<rparr>
           | Inr fs \<Rightarrow> w\<lparr>fw_next := n, fw_frames := fs\<rparr>)))"

text \<open>It hands one frame over when the queue, of 64 places, has room.\<close>

definition forwarder_send :: "stream_id \<Rightarrow> stream_context \<Rightarrow> stream_context" where
  "forwarder_send stream sc =
     (case hm_get (sc_map sc) stream of
        None \<Rightarrow> sc
      | Some a \<Rightarrow>
          (case fw_frames (as_writer a) of
             [] \<Rightarrow> sc
           | f # fs \<Rightarrow>
               if 64 \<le> length (sc_output sc) then sc
               else sc\<lparr>sc_output := sc_output sc @ [f],
                       sc_map := hm_insert stream (a\<lparr>as_writer := (as_writer a)\<lparr>fw_frames := fs\<rparr>\<rparr>) (sc_map sc)\<rparr>))"

definition forwarder_round :: "texts \<Rightarrow> 'p terminal list \<Rightarrow> stream_id \<Rightarrow> stream_context \<Rightarrow> stream_context" where
  "forwarder_round tx heap stream sc =
     (case hm_get (sc_map sc) stream of
        None \<Rightarrow> sc
      | Some a \<Rightarrow>
          sc\<lparr>sc_map := hm_insert stream (a\<lparr>as_writer := forwarder_recv tx stream (as_terminal_id a)
                 (tr_chunks (heap ! as_terminal a)) (as_writer a)\<rparr>) (sc_map sc)\<rparr>)"

text \<open>Dropping the streams aborts their tasks; what they queued stays in the queue.\<close>

definition clear_attached_streams :: "stream_context \<Rightarrow> stream_context" where
  "clear_attached_streams sc = sc\<lparr>sc_map := []\<rparr>"

section \<open>Requests\<close>

definition set_chan :: "'t channel \<Rightarrow> 't connection \<Rightarrow> 't connection" where
  "set_chan ch cn = cn\<lparr>cn_chan := ch\<rparr>"

definition respond ::
  "((daemon_error, unit) result \<times> 't channel) \<Rightarrow> 'p daemon \<times> 't connection \<Rightarrow>
   ((daemon_error, unit) result \<times> 'p daemon \<times> 't connection) option" where
  "respond sent = (\<lambda>(dm, cn). case sent of (r, ch) \<Rightarrow> Some (r, dm, set_chan ch cn))"

definition set_terminal :: "nat \<Rightarrow> 'p terminal \<Rightarrow> 'p daemon \<Rightarrow> 'p daemon" where
  "set_terminal h t dm = dm\<lparr>dm_sessions := (dm_sessions dm)\<lparr>sm_heap := (sm_heap (dm_sessions dm))[h := t]\<rparr>\<rparr>"

definition terminal_at :: "'p daemon \<Rightarrow> nat \<Rightarrow> 'p terminal" where
  "terminal_at dm h = sm_heap (dm_sessions dm) ! h"

definition current_scrollback_bytes :: "'p daemon \<Rightarrow> usize" where
  "current_scrollback_bytes dm = lc_scrollback_bytes (dc_limits (dm_config dm))"

definition server_config_from_deps :: "'p daemon \<Rightarrow> (daemon_error, server_config) result" where
  "server_config_from_deps dm =
     (if unat (current_scrollback_bytes dm) < 2 ^ 32
      then Inr \<lparr>sc_scrollback_bytes = ucast (current_scrollback_bytes dm)\<rparr>
      else Inl (DaemonConfigError ''limits.scrollback_bytes exceeds u32::MAX''))"

definition apply_server_config_update ::
  "(daemon_error, unit) result \<Rightarrow> server_config \<Rightarrow> 'p daemon \<Rightarrow> (daemon_error, server_config) result \<times> 'p daemon" where
  "apply_server_config_update saved config dm =
     (let updated = (dm_config dm)\<lparr>dc_limits := (dc_limits (dm_config dm))\<lparr>lc_scrollback_bytes :=
                      ucast (sc_scrollback_bytes config)\<rparr>\<rparr> in
      case (if dc_config_path updated \<noteq> None then saved else Inr ()) of
        Inl e \<Rightarrow> (Inl e, dm)
      | Inr _ \<Rightarrow> (Inr config, dm\<lparr>dm_config := updated\<rparr>))"

definition find_attached :: "terminal_id \<Rightarrow> stream_context \<Rightarrow> attached_stream option" where
  "find_attached i sc = List.find (\<lambda>a. as_terminal_id a = i) (hm_values (sc_map sc))"

definition handle_open_terminal_request ::
  "('h, 't, 'p) crates \<Rightarrow> terminal_event list \<Rightarrow> request_id \<Rightarrow> terminal_id \<Rightarrow> 'p daemon \<times> 't connection \<Rightarrow>
   ((daemon_error, unit) result \<times> 'p daemon \<times> 't connection) option" where
  "handle_open_terminal_request cr during rid i = (\<lambda>(dm, cn).
     case attach i (dm_sessions dm) of
       None \<Rightarrow> respond (send_error_response cr rid UnknownTerminal (cn_chan cn)) (dm, cn)
     | Some h \<Rightarrow>
         (let sc = clear_attached_streams (cn_streams cn);
              stream = StreamId (sc_next_local_stream_id sc);
              cn1 = cn\<lparr>cn_streams := sc\<lparr>sc_next_local_stream_id := sat_add (sc_next_local_stream_id sc) 1\<rparr>\<rparr>;
              subscription = length (tr_chunks (terminal_at dm h))
          in case terminal_run (cr_vte cr) during (terminal_at dm h) of
               None \<Rightarrow> None
             | Some t \<Rightarrow>
                 (let dm1 = set_terminal h t dm;
                      snapshot = terminal_snapshot_with_max_bytes OPEN_TERMINAL_MAX_BYTES t;
                      start_seq = StreamSeq (sat_sub (seq_val (sn_head_seq snapshot)) (of_nat (length (sn_bytes snapshot))));
                      render_bytes = render_prefix_from_anchor (sn_anchor_state snapshot) @ sn_bytes snapshot
                  in case List.find (\<lambda>info. ti_terminal info = i) (session_list (dm_sessions dm1)) of
                       None \<Rightarrow> respond (send_error_response cr rid UnknownTerminal (cn_chan cn1)) (dm1, cn1)
                     | Some info \<Rightarrow>
                         (case terminal_history_page (Some start_seq) 1 t of
                            None \<Rightarrow> None
                          | Some page \<Rightarrow>
                              (case send_ok_response cr rid (RspOpenTerminal
                                  \<lparr>oa_stream_id = stream, oa_info = info, oa_start_seq = start_seq,
                                   oa_end_seq = sn_head_seq snapshot, oa_render_bytes = render_bytes,
                                   oa_has_more_history = hs_has_more page\<rparr>) (cn_chan cn1) of
                                 (Inl e, ch) \<Rightarrow> Some (Inl e, dm1, set_chan ch cn1)
                               | (Inr _, ch) \<Rightarrow>
                                   Some (Inr (), dm1, set_chan ch (cn1\<lparr>cn_streams := (cn_streams cn1)\<lparr>sc_map :=
                                     hm_insert stream
                                       \<lparr>as_terminal = h, as_terminal_id = i,
                                        as_writer = \<lparr>fw_next = subscription, fw_frames = [], fw_done = False,
                                                     fw_start = subscription, fw_lagged = False\<rparr>\<rparr>
                                       (sc_map (cn_streams cn1))\<rparr>\<rparr>)))))))"

definition handle_history_read_request ::
  "('h, 't, 'p) crates \<Rightarrow> request_id \<Rightarrow> terminal_id \<Rightarrow> stream_seq option \<Rightarrow> u32 \<Rightarrow> 'p daemon \<times> 't connection \<Rightarrow>
   ((daemon_error, unit) result \<times> 'p daemon \<times> 't connection) option" where
  "handle_history_read_request cr rid i before max_bytes = (\<lambda>(dm, cn).
     case attach i (dm_sessions dm) of
       None \<Rightarrow> respond (send_error_response cr rid UnknownTerminal (cn_chan cn)) (dm, cn)
     | Some h \<Rightarrow>
         (case terminal_history_page before (ucast max_bytes) (terminal_at dm h) of
            None \<Rightarrow> None
          | Some page \<Rightarrow>
              respond (send_ok_response cr rid (RspReadHistory
                \<lparr>hp_terminal_id = i, hp_start_seq = hs_start_seq page, hp_end_seq = hs_end_seq page,
                 hp_bytes = hs_bytes page, hp_has_more = hs_has_more page\<rparr>) (cn_chan cn)) (dm, cn)))"

definition handle_request ::
  "('h, 't, 'p) crates \<Rightarrow> request_env \<Rightarrow> request_frame \<Rightarrow> 'p daemon \<times> 't connection \<Rightarrow>
   ((daemon_error, unit) result \<times> 'p daemon \<times> 't connection) option" where
  "handle_request cr env rq = (\<lambda>(dm, cn).
     case rq_body rq of
       ReqListTerminals \<Rightarrow>
         respond (send_ok_response cr (rq_id rq) (RspListTerminals (session_list (dm_sessions dm))) (cn_chan cn)) (dm, cn)
     | ReqCreateTerminal params \<Rightarrow>
         (case create (cr_vte cr) (re_spawn env) (re_now_ms env) params (current_scrollback_bytes dm) (dm_sessions dm) of
            (r, m, started) \<Rightarrow>
              respond (answer cr (rq_id rq) (and_then r (\<lambda>info. Inr (RspCreateTerminal info))) (cn_chan cn))
                (dm\<lparr>dm_sessions := m\<rparr>, cn))
     | ReqOpenTerminal i \<Rightarrow> handle_open_terminal_request cr (re_during env) (rq_id rq) i (dm, cn)
     | ReqReadHistory i before max_bytes \<Rightarrow> handle_history_read_request cr (rq_id rq) i before max_bytes (dm, cn)
     | ReqKillTerminal i \<Rightarrow>
         respond (answer cr (rq_id rq) (and_then (session_kill (cr_texts cr) (re_kill env) (re_kill_gone env)
           (re_kill_polls env) i (dm_sessions dm)) (\<lambda>_. Inr RspKillTerminal)) (cn_chan cn)) (dm, cn)
     | ReqGetServerConfig \<Rightarrow>
         respond (answer cr (rq_id rq) (and_then (server_config_from_deps dm) (\<lambda>c. Inr (RspGetServerConfig c))) (cn_chan cn))
           (dm, cn)
     | ReqSetServerConfig config \<Rightarrow>
         (case apply_server_config_update (re_save env) config dm of
            (r, dm') \<Rightarrow>
              respond (answer cr (rq_id rq) (and_then r (\<lambda>c. Inr (RspSetServerConfig c))) (cn_chan cn)) (dm', cn))
     | ReqSendInput i bs \<Rightarrow>
         (case find_attached i (cn_streams cn) of
            None \<Rightarrow> respond (send_error_response cr (rq_id rq) UnknownTerminal (cn_chan cn)) (dm, cn)
          | Some a \<Rightarrow>
              respond (send_ok_response cr (rq_id rq) RspSendInput (cn_chan cn))
                (set_terminal (as_terminal a) (snd (write_input (re_write env) bs (terminal_at dm (as_terminal a)))) dm, cn))
     | ReqResizeTerminal i cols rows \<Rightarrow>
         (case find_attached i (cn_streams cn) of
            None \<Rightarrow> respond (send_error_response cr (rq_id rq) UnknownTerminal (cn_chan cn)) (dm, cn)
          | Some a \<Rightarrow>
              respond (send_ok_response cr (rq_id rq) RspResizeTerminal (cn_chan cn))
                (set_terminal (as_terminal a)
                  (snd (terminal_resize (re_resize env) cols rows (terminal_at dm (as_terminal a)))) dm, cn)))"

section \<open>The connection\<close>

definition validate_hello :: "hello \<Rightarrow> (daemon_error, unit) result" where
  "validate_hello h =
     (if PROTOCOL_VERSION < h_protocol_min h \<or> h_protocol_max h < PROTOCOL_VERSION
      then Inl (DaemonInternal (''protocol version mismatch: client supports '' @ show_nat (unat (h_protocol_min h)) @
             ''..'' @ show_nat (unat (h_protocol_max h)) @ '', server is '' @ show_nat (unat PROTOCOL_VERSION)))
      else Inr ())"

text \<open>\<open>run_connection_post_handshake\<close> up to its loop.\<close>

definition start_connection ::
  "('h, 't, 'p) crates \<Rightarrow> session_id \<Rightarrow> client_id \<Rightarrow> 'p daemon \<Rightarrow> 't channel \<Rightarrow>
   (daemon_error, 't connection) result \<times> 't channel" where
  "start_connection cr sid client dm ch =
     (case recv_frame cr ch of
        (Inl e, ch1) \<Rightarrow> (Inl e, ch1)
      | (Inr (FHello hello), ch1) \<Rightarrow>
          (case validate_hello hello of
             Inl e \<Rightarrow> (Inl e, ch1)
           | Inr _ \<Rightarrow>
               (case send_frame cr (FHelloOk \<lparr>ho_protocol = PROTOCOL_VERSION, ho_server_info = dm_server_info dm,
                       ho_session_id = sid, ho_resumed = (h_resume hello \<noteq> None)\<rparr>) ch1 of
                  (Inl e, ch2) \<Rightarrow> (Inl e, ch2)
                | (Inr _, ch2) \<Rightarrow>
                    (Inr \<lparr>cn_chan = ch2,
                          cn_streams = \<lparr>sc_map = [], sc_next_local_stream_id = 1, sc_output = []\<rparr>,
                          cn_client = client, cn_seen = db_notified (dm_db dm)\<rparr>, ch2)))
      | (Inr _, ch1) \<Rightarrow>
          (case send_frame cr (FBye (ByeProtocolError ProtocolMismatch)) ch1 of
             (Inl e, ch2) \<Rightarrow> (Inl e, ch2)
           | (Inr _, ch2) \<Rightarrow> (Inl (DaemonInternal ''expected Hello as first frame''), ch2)))"

datatype loop_result = Loop | Stop "(daemon_error, unit) result"

fun loop_of :: "(daemon_error, unit) result \<Rightarrow> loop_result" where
  "loop_of (Inl e) = Stop (Inl e)"
| "loop_of (Inr _) = Loop"

text \<open>The three branches of the loop's \<open>select!\<close>.\<close>

definition on_revocation_change ::
  "('h, 't, 'p) crates \<Rightarrow> 'p daemon \<Rightarrow> 't connection \<Rightarrow> loop_result \<times> 't connection" where
  "on_revocation_change cr dm cn =
     (let cn1 = cn\<lparr>cn_seen := db_notified (dm_db dm)\<rparr> in
      if is_revoked (cn_client cn) (dm_db dm)
      then (Stop (Inr ()), set_chan (snd (send_frame cr (FBye ByeRevoked) (cn_chan cn1))) cn1)
      else (Loop, cn1))"

definition on_frame ::
  "('h, 't, 'p) crates \<Rightarrow> request_env \<Rightarrow> 'p daemon \<times> 't connection \<Rightarrow> (loop_result \<times> 'p daemon \<times> 't connection) option" where
  "on_frame cr env = (\<lambda>(dm, cn).
     case recv_frame cr (cn_chan cn) of
       (Inl e, ch) \<Rightarrow> Some (Stop (Inl e), dm, set_chan ch cn)
     | (Inr (FRequest rq), ch) \<Rightarrow>
         map_option (\<lambda>(r, dm', cn'). (loop_of r, dm', cn')) (handle_request cr env rq (dm, set_chan ch cn))
     | (Inr (FPing nonce), ch) \<Rightarrow>
         (case send_frame cr (FPong nonce) ch of (r, ch') \<Rightarrow> Some (loop_of r, dm, set_chan ch' cn))
     | (Inr (FBye reason), ch) \<Rightarrow> Some (Stop (Inr ()), dm, set_chan ch cn)
     | (Inr _, ch) \<Rightarrow> Some (Loop, dm, set_chan ch cn))"

definition on_output :: "('h, 't, 'p) crates \<Rightarrow> 't connection \<Rightarrow> loop_result \<times> 't connection" where
  "on_output cr cn =
     (case sc_output (cn_streams cn) of
        [] \<Rightarrow> (Loop, cn)
      | out # rest \<Rightarrow>
          (let cn1 = cn\<lparr>cn_streams := (cn_streams cn)\<lparr>sc_output := rest\<rparr>\<rparr> in
           case hm_get (sc_map (cn_streams cn1)) (ob_stream out) of
             None \<Rightarrow> (Loop, cn1)
           | Some a \<Rightarrow>
               if as_terminal_id a = ob_terminal_id out
               then (case send_frame cr (FStreamData (ob_frame out)) (cn_chan cn1) of
                       (r, ch) \<Rightarrow> (loop_of r, set_chan ch cn1))
               else (Loop, cn1)))"

text \<open>
  One iteration: \<open>biased\<close> looks at the revocations first; \<open>frame_ready\<close> says whether the
  channel has a frame, which comes before output.
\<close>

definition connection_iteration ::
  "('h, 't, 'p) crates \<Rightarrow> request_env \<Rightarrow> bool \<Rightarrow> 'p daemon \<times> 't connection \<Rightarrow>
   (loop_result \<times> 'p daemon \<times> 't connection) option" where
  "connection_iteration cr env frame_ready = (\<lambda>(dm, cn).
     if cn_seen cn \<noteq> db_notified (dm_db dm)
     then (case on_revocation_change cr dm cn of (r, cn') \<Rightarrow> Some (r, dm, cn'))
     else if frame_ready then on_frame cr env (dm, cn)
     else (case on_output cr cn of (r, cn') \<Rightarrow> Some (r, dm, cn')))"

end
