(* ===== verification/Daemon_Stream.thy ===== *)
theory Daemon_Stream
  imports Daemon_Connection
begin

text \<open>
  The live output of a connection: the connection's loop, its forwarder task, the
  terminals and the rest of the daemon run interleaved. Every frame the client gets is a
  true part of the output of the terminal it opened, and nothing is missing.
\<close>

section \<open>Cutting a chunk into frames\<close>

lemma pieces_Nil [simp]: "pieces n [] = []"
  by (simp add: pieces.simps)

lemma pieces_Cons: "xs \<noteq> [] \<Longrightarrow> 0 < n \<Longrightarrow> pieces n xs = take n xs # pieces n (drop n xs)"
  by (simp add: pieces.simps [of n xs])

lemma pieces_spec: "0 < n \<Longrightarrow> concat (pieces n xs) = xs \<and> (\<forall>p \<in> set (pieces n xs). p \<noteq> [] \<and> length p \<le> n)"
proof (induction n xs rule: pieces.induct)
  case (1 n xs)
  then show ?case by (cases "xs = []") (auto simp: pieces_Cons [of xs n])
qed

text \<open>A frame of live output holds the bytes of \<open>S\<close> that end at its sequence number.\<close>

definition frame_true :: "bytes \<Rightarrow> stream_data_frame \<Rightarrow> bool" where
  "frame_true S f \<longleftrightarrow>
     (let q = unat (seq_val (sd_seq f)); n = length (sd_bytes f) in
      sd_offset f = None \<and> 0 < n \<and> n \<le> OUTPUT_CHUNK_BYTES \<and> n \<le> q \<and> q \<le> length S \<and> sd_bytes f = take n (drop (q - n) S))"

lemma frame_true_mono: "frame_true S f \<Longrightarrow> frame_true (S @ x) f"
  by (auto simp: frame_true_def Let_def)

text \<open>Frames that continue one another from a position on.\<close>

fun contiguous :: "nat \<Rightarrow> stream_data_frame list \<Rightarrow> bool" where
  "contiguous n [] \<longleftrightarrow> True"
| "contiguous n (f # fs) \<longleftrightarrow> unat (seq_val (sd_seq f)) = n + length (sd_bytes f) \<and> contiguous (n + length (sd_bytes f)) fs"

definition data_bytes :: "stream_data_frame list \<Rightarrow> bytes" where
  "data_bytes ds = concat (map sd_bytes ds)"

lemma data_bytes_simps [simp]: "data_bytes [] = []" "data_bytes (d # ds) = sd_bytes d @ data_bytes ds"
    "data_bytes (ds @ es) = data_bytes ds @ data_bytes es"
  by (simp_all add: data_bytes_def)

lemma contiguous_append [simp]:
  "contiguous n (fs @ gs) \<longleftrightarrow> contiguous n fs \<and> contiguous (n + length (data_bytes fs)) gs"
  by (induction fs arbitrary: n) (auto simp: add.assoc)

lemma number_pieces_contiguous:
  "unat start + sent + length (concat ps) < 2 ^ 64 \<Longrightarrow>
     contiguous (unat start + sent) (map ob_frame (number_pieces stream i start sent ps)) \<and>
     data_bytes (map ob_frame (number_pieces stream i start sent ps)) = concat ps"
proof (induction ps arbitrary: sent)
  case (Cons p ps)
  have "unat (of_nat (sent + length p) :: u64) = sent + length p"
    using Cons.prems by (simp add: unat_of_nat del: of_nat_add)
  then have "unat (sat_add start (of_nat (sent + length p)) :: u64) = unat start + sent + length p"
    using Cons.prems by (simp add: unat_simps del: of_nat_add)
  moreover have "contiguous (unat start + (sent + length p)) (map ob_frame (number_pieces stream i start (sent + length p) ps)) \<and>
      data_bytes (map ob_frame (number_pieces stream i start (sent + length p) ps)) = concat ps"
    by (rule Cons.IH) (use Cons.prems in simp)
  ultimately show ?case by (simp add: Let_def add.assoc)
qed simp

lemma number_pieces_spec:
  assumes "\<forall>p \<in> set ps. p \<noteq> [] \<and> length p \<le> OUTPUT_CHUNK_BYTES"
    and "unat start + sent + length (concat ps) < 2 ^ 64"
    and "length pre = unat start + sent"
  shows "(\<forall>o' \<in> set (number_pieces stream i start sent ps). ob_stream o' = stream \<and> ob_terminal_id o' = i \<and>
       sd_stream_id (ob_frame o') = stream \<and> frame_true (pre @ concat ps @ post) (ob_frame o'))"
  using assms
proof (induction ps arbitrary: sent pre)
  case Nil
  then show ?case by simp
next
  case (Cons p ps)
  have l: "length (pre @ p) = unat start + (sent + length p)" using Cons.prems(3) by simp
  have ps: "\<forall>q \<in> set ps. q \<noteq> [] \<and> length q \<le> OUTPUT_CHUNK_BYTES" using Cons.prems(1) by simp
  have room: "unat start + (sent + length p) + length (concat ps) < 2 ^ 64" using Cons.prems(2) by simp
  have sq: "unat (sat_add start (of_nat (sent + length p)) :: u64) = unat start + (sent + length p)"
  proof -
    have "unat (of_nat (sent + length p) :: u64) = sent + length p"
      using room by (simp add: unat_of_nat del: of_nat_add)
    then show ?thesis using room by (simp add: unat_simps del: of_nat_add)
  qed
  from Cons.IH [OF ps room l] show ?case
    using Cons.prems(1,3) sq by (auto simp: frame_true_def Let_def)
qed

lemma numbered_seq:
  "numbered n cs \<Longrightarrow> k < length cs \<Longrightarrow>
     unat (seq_val (oc_seq_at_end (cs ! k))) = n + length (concat (map oc_bytes (take (Suc k) cs))) \<and> oc_bytes (cs ! k) \<noteq> []"
proof (induction cs arbitrary: n k)
  case (Cons c cs)
  then show ?case by (cases k) auto
qed simp

lemma broadcast_split:
  "k < length (tr_chunks t) \<Longrightarrow>
     broadcast t = concat (map oc_bytes (take k (tr_chunks t))) @ oc_bytes (tr_chunks t ! k) @
       concat (map oc_bytes (drop (Suc k) (tr_chunks t)))"
  unfolding broadcast_def
  by (subst id_take_nth_drop [of k "tr_chunks t"]) simp_all

lemma live_output_frames_true:
  assumes ok: "terminal_ok v t" and k: "k < length (tr_chunks t)"
  shows "\<exists>fs. live_output_frames tx stream i (tr_chunks t ! k) = Inr fs \<and>
    data_bytes (map ob_frame fs) = oc_bytes (tr_chunks t ! k) \<and>
    contiguous (length (concat (map oc_bytes (take k (tr_chunks t))))) (map ob_frame fs) \<and>
    (\<forall>f \<in> set fs. ob_stream f = stream \<and> ob_terminal_id f = i \<and> sd_stream_id (ob_frame f) = stream \<and>
       frame_true (broadcast t) (ob_frame f))"
proof -
  let ?c = "tr_chunks t ! k" and ?pre = "concat (map oc_bytes (take k (tr_chunks t)))"
    and ?post = "concat (map oc_bytes (drop (Suc k) (tr_chunks t)))"
  have S: "broadcast t = ?pre @ oc_bytes ?c @ ?post" by (rule broadcast_split [OF k])
  have small: "length (broadcast t) < 2 ^ 64" using ok by (simp add: terminal_ok_def window_def)
  have q: "unat (seq_val (oc_seq_at_end ?c)) = length ?pre + length (oc_bytes ?c)" "oc_bytes ?c \<noteq> []"
    using numbered_seq [of 0 "tr_chunks t" k] ok k by (simp_all add: terminal_ok_def take_Suc_conv_app_nth)
  have n: "unat (of_nat (length (oc_bytes ?c)) :: u64) = length (oc_bytes ?c)"
    using small S by (simp add: unat_of_nat)
  then obtain start where start: "checked_sub (seq_val (oc_seq_at_end ?c)) (of_nat (length (oc_bytes ?c))) = Some start"
      "unat start = length ?pre"
    using q(1) by (auto simp: checked_sub_def word_le_nat_alt unat_sub)
  let ?ps = "pieces OUTPUT_CHUNK_BYTES (oc_bytes ?c)"
  have ps: "concat ?ps = oc_bytes ?c" "\<forall>p \<in> set ?ps. p \<noteq> [] \<and> length p \<le> OUTPUT_CHUNK_BYTES"
    using pieces_spec [of OUTPUT_CHUNK_BYTES "oc_bytes ?c"] by (simp_all add: OUTPUT_CHUNK_BYTES_def)
  have "unat start + 0 + length (concat ?ps) < 2 ^ 64" using start(2) small S ps(1) by simp
  from number_pieces_spec [OF ps(2) this, of ?pre stream i ?post] start(2) ps(1)
  have np: "\<forall>f \<in> set (number_pieces stream i start 0 ?ps). ob_stream f = stream \<and> ob_terminal_id f = i \<and>
         sd_stream_id (ob_frame f) = stream \<and> frame_true (broadcast t) (ob_frame f)"
    by (simp_all add: S [symmetric])
  have "unat start + 0 + length (concat ?ps) < 2 ^ 64" using start(2) small S ps(1) by simp
  note cont = number_pieces_contiguous [OF this, of stream i]
  have "live_output_frames tx stream i ?c = Inr (number_pieces stream i start 0 ?ps)"
    using start(1) q(2) by (simp add: live_output_frames_def)
  with np cont start(2) ps(1) show ?thesis by auto
qed

section \<open>Terminals only grow\<close>

definition later :: "'p terminal \<Rightarrow> 'p terminal \<Rightarrow> bool" where
  "later t t' \<longleftrightarrow> tr_id t' = tr_id t \<and> (\<exists>x. tr_chunks t' = tr_chunks t @ x)"

definition heap_later :: "'p terminal list \<Rightarrow> 'p terminal list \<Rightarrow> bool" where
  "heap_later H H' \<longleftrightarrow> length H \<le> length H' \<and> (\<forall>h < length H. later (H ! h) (H' ! h))"

lemma later_refl [simp]: "later t t"
  by (simp add: later_def)

lemma heap_later_refl [simp]: "heap_later H H"
  by (simp add: heap_later_def)

lemma heap_later_append [simp]: "heap_later H (H @ ts)"
  by (simp add: heap_later_def nth_append)

lemma heap_later_update: "later (H ! h) t \<Longrightarrow> heap_later H (H[h := t])"
  by (cases "h < length H") (auto simp: heap_later_def nth_list_update)

lemma later_broadcast: "later t t' \<Longrightarrow> \<exists>x. broadcast t' = broadcast t @ x"
  by (auto simp: later_def broadcast_def)

lemma later_step: "terminal_step v ev t = Some t' \<Longrightarrow> later t t'"
  by (auto simp: later_def terminal_step_def reader_step_def write_input_def terminal_resize_def waiter_step_def Let_def
      split: terminal_event.splits read_result.splits if_splits sum.splits option.splits prod.splits)

lemma later_run: "terminal_run v evs t = Some t' \<Longrightarrow> later t t'"
proof (induction evs arbitrary: t)
  case (Cons ev evs)
  then obtain t1 where "terminal_step v ev t = Some t1" "terminal_run v evs t1 = Some t'"
    by (auto split: option.splits)
  with Cons.IH later_step show ?case by (fastforce simp: later_def)
qed simp

lemma terminal_ok_input: "terminal_ok v t \<Longrightarrow> terminal_ok v (snd (write_input io bs t))"
  by (auto simp: write_input_def terminal_ok_def broadcast_def split: sum.splits)

lemma terminal_ok_resize: "terminal_ok v t \<Longrightarrow> terminal_ok v (snd (terminal_resize io c r t))"
  by (auto simp: terminal_resize_def terminal_ok_def broadcast_def Let_def settled_def spaced_def
      ring_dims_def set_dims_def window_def offsets_def split: sum.splits)

lemma later_input: "later t (snd (write_input io bs t))"
  by (auto simp: write_input_def later_def split: sum.splits)

lemma later_resize: "later t (snd (terminal_resize io c r t))"
  by (auto simp: terminal_resize_def later_def Let_def split: sum.splits)

text \<open>No terminal writes \<open>2 ^ 64\<close> bytes.\<close>

definition terminal_room :: "terminal_event list \<Rightarrow> 'p terminal \<Rightarrow> bool" where
  "terminal_room evs t \<longleftrightarrow> length (broadcast t) + length (pr_pending (tr_processor t)) + bytes_read evs < 2 ^ 64"

lemma terminal_ok_run: "terminal_ok v t \<Longrightarrow> terminal_room evs t \<Longrightarrow> \<exists>t'. terminal_run v evs t = Some t' \<and> terminal_ok v t'"
  using terminal_run_ok by (simp add: terminal_room_def)

definition sessions_ok :: "'p vte \<Rightarrow> 'p session_manager \<Rightarrow> bool" where
  "sessions_ok v m \<longleftrightarrow> hm_wf (sm_terminals m) \<and> list_all (terminal_ok v) (sm_heap m) \<and>
     (\<forall>i en. hm_get (sm_terminals m) i = Some en \<longrightarrow>
        en_terminal en < length (sm_heap m) \<and> tr_id (sm_heap m ! en_terminal en) = i)"

lemma sessions_ok_attach:
  "sessions_ok v m \<Longrightarrow> attach i m = Some h \<Longrightarrow> h < length (sm_heap m) \<and> tr_id (sm_heap m ! h) = i \<and> terminal_ok v (sm_heap m ! h)"
  by (auto simp: sessions_ok_def attach_def list_all_length)

lemma sessions_ok_update:
  assumes "sessions_ok v m" and "terminal_ok v t" and "later (sm_heap m ! h) t"
  shows "sessions_ok v (m\<lparr>sm_heap := (sm_heap m)[h := t]\<rparr>)"
proof -
  have "tr_id ((sm_heap m)[h := t] ! k) = tr_id (sm_heap m ! k)" for k
    using assms(3)
    by (cases "h < length (sm_heap m)"; cases "k = h") (auto simp: later_def list_update_beyond not_less)
  moreover have "terminal_ok v ((sm_heap m)[h := t] ! k)" if "k < length (sm_heap m)" for k
    using assms(1,2) that by (cases "k = h") (auto simp: sessions_ok_def list_all_length)
  ultimately show ?thesis using assms(1) by (simp add: sessions_ok_def list_all_length)
qed

lemma sessions_ok_create:
  assumes "sessions_ok v m" and "create v env now params n m = (r, m', started)"
  shows "sessions_ok v m' \<and> heap_later (sm_heap m) (sm_heap m')"
proof (cases "create_check m")
  case (Inl e)
  with assms show ?thesis by (simp add: create_def)
next
  case (Inr u)
  obtain x st where sp: "spawn v env params n = (x, st)" by fastforce
  show ?thesis
  proof (cases x)
    case (Inl e)
    with assms Inr sp show ?thesis by (simp add: create_def)
  next
    case x: (Inr t)
    have "terminal_ok v t" using terminal_ok_spawn sp x by blast
    moreover have "m' = create_insert now t m" using assms(2) Inr sp x by (simp add: create_def)
    ultimately show ?thesis
      using assms(1) by (auto simp: sessions_ok_def create_insert_def hm_simps nth_append less_Suc_eq split: if_splits)
  qed
qed

lemma sessions_ok_remove: "sessions_ok v m \<Longrightarrow> sessions_ok v (reap_remove dead m)"
  using hm_remove_all [of "sm_terminals m" dead] by (auto simp: sessions_ok_def reap_remove_def split: if_splits)

section \<open>The invariant of a connection\<close>

definition stream_frames :: "frame list \<Rightarrow> stream_data_frame list" where
  "stream_frames fs = concat (map (\<lambda>f. case f of FStreamData d \<Rightarrow> [d] | _ \<Rightarrow> []) fs)"

definition sent_on :: "stream_id \<Rightarrow> frame list \<Rightarrow> stream_data_frame list" where
  "sent_on s fs = filter (\<lambda>f. sd_stream_id f = s) (stream_frames fs)"

definition queued_on :: "stream_id \<Rightarrow> outbound_output list \<Rightarrow> stream_data_frame list" where
  "queued_on s q = map ob_frame (filter (\<lambda>f. ob_stream f = s) q)"

definition is_ack :: "frame list \<Rightarrow> open_terminal_ack \<Rightarrow> bool" where
  "is_ack fs ack \<longleftrightarrow> (\<exists>i. FResponse \<lparr>rs_id = i, rs_result = Inr (RspOpenTerminal ack)\<rparr> \<in> set fs)"

text \<open>
  What an ack says is true of its terminal: the rendered bytes are the prefix for the
  terminal's state at the start, then the output from start to end; and live output
  begins no later than that end.
\<close>

definition ack_true :: "'p vte \<Rightarrow> 'p terminal \<Rightarrow> nat \<Rightarrow> open_terminal_ack \<Rightarrow> bool" where
  "ack_true v t sub ack \<longleftrightarrow>
     (let st = unat (seq_val (oa_start_seq ack)); e = unat (seq_val (oa_end_seq ack)) in
      st \<le> e \<and> e \<le> length (broadcast t) \<and> sub \<le> e \<and> ti_terminal (oa_info ack) = tr_id t \<and>
      oa_render_bytes ack = render_prefix_from_anchor (snapshot_state (tracked v (take st (broadcast t)))) @
        take (e - st) (drop st (broadcast t)))"

definition chunk_bytes :: "output_chunk list \<Rightarrow> bytes" where
  "chunk_bytes cs = concat (map oc_bytes cs)"

definition outbound_true :: "stream_id \<Rightarrow> terminal_id \<Rightarrow> bytes \<Rightarrow> outbound_output \<Rightarrow> bool" where
  "outbound_true s i S out \<longleftrightarrow> ob_stream out = s \<and> ob_terminal_id out = i \<and> sd_stream_id (ob_frame out) = s \<and>
     frame_true S (ob_frame out)"

definition attached_ok ::
  "'p vte \<Rightarrow> 'p terminal list \<Rightarrow> frame list \<Rightarrow> outbound_output list \<Rightarrow> stream_id \<Rightarrow> attached_stream \<Rightarrow> bool" where
  "attached_ok v H sent queue s a \<longleftrightarrow>
     (let t = H ! as_terminal a; w = as_writer a in
      as_terminal a < length H \<and> tr_id t = as_terminal_id a \<and>
      fw_start w \<le> fw_next w \<and> fw_next w \<le> length (tr_chunks t) \<and> \<not> fw_done w \<and>
      list_all (outbound_true s (as_terminal_id a) (broadcast t)) (fw_frames w) \<and>
      list_all (\<lambda>out. ob_stream out = s \<longrightarrow> outbound_true s (as_terminal_id a) (broadcast t) out) queue \<and>
      (\<exists>ack. is_ack sent ack \<and> oa_stream_id ack = s \<and>
         ack_true v t (length (chunk_bytes (take (fw_start w) (tr_chunks t)))) ack) \<and>
      (\<not> fw_lagged w \<longrightarrow>
         (let fs = sent_on s sent @ queued_on s queue @ map ob_frame (fw_frames w) in
          contiguous (length (chunk_bytes (take (fw_start w) (tr_chunks t)))) fs \<and>
          data_bytes fs @ chunk_bytes (drop (fw_next w) (tr_chunks t)) = chunk_bytes (drop (fw_start w) (tr_chunks t)))))"

definition sent_true :: "'p terminal list \<Rightarrow> frame list \<Rightarrow> bool" where
  "sent_true H sent \<longleftrightarrow>
     (\<forall>f \<in> set (stream_frames sent). \<exists>ack h. is_ack sent ack \<and> oa_stream_id ack = sd_stream_id f \<and> h < length H \<and>
        tr_id (H ! h) = ti_terminal (oa_info ack) \<and> frame_true (broadcast (H ! h)) f)"

text \<open>Stream identifiers in use are below the next one; acks and frames carry used ones.\<close>

definition ids_used :: "nat \<Rightarrow> 't connection \<Rightarrow> bool" where
  "ids_used n cn \<longleftrightarrow>
     (\<forall>s. hm_get (sc_map (cn_streams cn)) s \<noteq> None \<longrightarrow> unat (stream_val s) < n) \<and>
     (\<forall>out \<in> set (sc_output (cn_streams cn)). unat (stream_val (ob_stream out)) < n) \<and>
     (\<forall>f \<in> set (stream_frames (ch_sent (cn_chan cn))). unat (stream_val (sd_stream_id f)) < n)"

definition conn_inv :: "'p vte \<Rightarrow> 'p session_manager \<Rightarrow> 't connection \<Rightarrow> bool" where
  "conn_inv v m cn \<longleftrightarrow>
     sessions_ok v m \<and>
     ids_used (unat (sc_next_local_stream_id (cn_streams cn))) cn \<and>
     (\<forall>s a. hm_get (sc_map (cn_streams cn)) s = Some a \<longrightarrow>
        attached_ok v (sm_heap m) (ch_sent (cn_chan cn)) (sc_output (cn_streams cn)) s a) \<and>
     sent_true (sm_heap m) (ch_sent (cn_chan cn))"

section \<open>Steps that do not touch the streams\<close>

lemma ack_true_later: "ack_true v t sub ack \<Longrightarrow> later t t' \<Longrightarrow> ack_true v t' sub ack"
  using later_broadcast [of t t'] by (auto simp: ack_true_def Let_def later_def)

lemma outbound_true_mono: "outbound_true s i S out \<Longrightarrow> outbound_true s i (S @ x) out"
  by (simp add: outbound_true_def frame_true_mono)

lemma attached_ok_later:
  assumes a: "attached_ok v H sent queue s a" and H: "heap_later H H'"
  shows "attached_ok v H' sent queue s a"
proof -
  let ?t = "H ! as_terminal a" and ?t' = "H' ! as_terminal a" and ?w = "as_writer a"
  have h: "as_terminal a < length H" using a by (simp add: attached_ok_def Let_def)
  then have l: "later ?t ?t'" "as_terminal a < length H'" using H by (auto simp: heap_later_def)
  then obtain x where x: "tr_chunks ?t' = tr_chunks ?t @ x" by (auto simp: later_def)
  then have bx: "broadcast ?t' = broadcast ?t @ chunk_bytes x" by (simp add: broadcast_def chunk_bytes_def)
  have w: "fw_start ?w \<le> fw_next ?w" "fw_next ?w \<le> length (tr_chunks ?t)" using a by (simp_all add: attached_ok_def Let_def)
  have dr: "drop (fw_next ?w) (tr_chunks ?t') = drop (fw_next ?w) (tr_chunks ?t) @ x"
      "drop (fw_start ?w) (tr_chunks ?t') = drop (fw_start ?w) (tr_chunks ?t) @ x"
      "take (fw_start ?w) (tr_chunks ?t') = take (fw_start ?w) (tr_chunks ?t)"
    using w x by simp_all
  have "\<exists>ack. is_ack sent ack \<and> oa_stream_id ack = s \<and>
      ack_true v ?t' (length (chunk_bytes (take (fw_start ?w) (tr_chunks ?t')))) ack"
    using a ack_true_later [OF _ l(1)] unfolding attached_ok_def Let_def dr(3) by blast
  moreover have "list_all (outbound_true s (as_terminal_id a) (broadcast ?t')) (fw_frames ?w)"
    "list_all (\<lambda>out. ob_stream out = s \<longrightarrow> outbound_true s (as_terminal_id a) (broadcast ?t') out) queue"
    using a outbound_true_mono unfolding attached_ok_def Let_def bx list_all_iff by blast+
  moreover have "\<not> fw_lagged ?w \<longrightarrow> (let fs = sent_on s sent @ queued_on s queue @ map ob_frame (fw_frames ?w) in
      contiguous (length (chunk_bytes (take (fw_start ?w) (tr_chunks ?t')))) fs \<and>
      data_bytes fs @ chunk_bytes (drop (fw_next ?w) (tr_chunks ?t')) = chunk_bytes (drop (fw_start ?w) (tr_chunks ?t')))"
    using a unfolding attached_ok_def Let_def dr by (auto simp: chunk_bytes_def)
  moreover have "tr_id ?t' = as_terminal_id a" "fw_next ?w \<le> length (tr_chunks ?t')" "\<not> fw_done ?w"
    using a l(1) w x by (simp_all add: attached_ok_def Let_def later_def)
  ultimately show ?thesis using l(2) w(1) by (simp add: attached_ok_def Let_def)
qed

lemma sent_true_later:
  assumes "sent_true H sent" and "heap_later H H'"
  shows "sent_true H' sent"
  unfolding sent_true_def
proof
  fix f
  assume "f \<in> set (stream_frames sent)"
  then obtain ack h where f: "is_ack sent ack" "oa_stream_id ack = sd_stream_id f" "h < length H"
      "tr_id (H ! h) = ti_terminal (oa_info ack)" "frame_true (broadcast (H ! h)) f"
    using assms(1) by (auto simp: sent_true_def)
  then have "later (H ! h) (H' ! h)" "h < length H'" using assms(2) by (auto simp: heap_later_def)
  moreover from this obtain x where "broadcast (H' ! h) = broadcast (H ! h) @ x" using later_broadcast by blast
  ultimately show "\<exists>ack h. is_ack sent ack \<and> oa_stream_id ack = sd_stream_id f \<and> h < length H' \<and>
      tr_id (H' ! h) = ti_terminal (oa_info ack) \<and> frame_true (broadcast (H' ! h)) f"
    using f frame_true_mono [OF f(5)] by (intro exI [of _ ack] exI [of _ h]) (simp add: later_def)
qed

lemma conn_inv_later:
  "conn_inv v m cn \<Longrightarrow> sessions_ok v m' \<Longrightarrow> heap_later (sm_heap m) (sm_heap m') \<Longrightarrow> conn_inv v m' cn"
  unfolding conn_inv_def using attached_ok_later sent_true_later by blast

lemma stream_frames_append [simp]: "stream_frames (fs @ gs) = stream_frames fs @ stream_frames gs"
  by (simp add: stream_frames_def)

lemma sent_on_append [simp]: "sent_on s (fs @ gs) = sent_on s fs @ sent_on s gs"
  by (simp add: sent_on_def)

lemma is_ack_append: "is_ack fs ack \<Longrightarrow> is_ack (fs @ gs) ack"
  by (auto simp: is_ack_def)

lemma attached_ok_sent:
  "attached_ok v H sent queue s a \<Longrightarrow> stream_frames fs = [] \<Longrightarrow> attached_ok v H (sent @ fs) queue s a"
  unfolding attached_ok_def Let_def using is_ack_append by (auto simp: sent_on_def)

lemma conn_inv_sent:
  assumes "conn_inv v m cn" and "ch_sent ch = ch_sent (cn_chan cn) @ fs" and "stream_frames fs = []"
  shows "conn_inv v m (set_chan ch cn)"
proof -
  have "sent_true (sm_heap m) (ch_sent (cn_chan cn) @ fs)"
    using assms(1,3) is_ack_append unfolding conn_inv_def sent_true_def stream_frames_append by fastforce
  moreover have "attached_ok v (sm_heap m) (ch_sent (cn_chan cn) @ fs) (sc_output (cn_streams cn)) s a"
    if "hm_get (sc_map (cn_streams cn)) s = Some a" for s a
    using assms(1,3) that attached_ok_sent unfolding conn_inv_def by blast
  ultimately show ?thesis
    using assms unfolding conn_inv_def set_chan_def by (simp add: ids_used_def)
qed


section \<open>The forwarder and the queue\<close>

lemma attached_ok_recv:
  assumes a: "attached_ok v H sent queue s a" and ok: "terminal_ok v (H ! as_terminal a)"
  shows "attached_ok v H sent queue s
    (a\<lparr>as_writer := forwarder_recv tx s (as_terminal_id a) (tr_chunks (H ! as_terminal a)) (as_writer a)\<rparr>)"
proof -
  let ?t = "H ! as_terminal a" and ?w = "as_writer a"
  let ?cs = "tr_chunks ?t"
  consider "forwarder_recv tx s (as_terminal_id a) ?cs ?w = ?w"
    | "fw_frames ?w = []" "fw_next ?w < length ?cs" "SUBSCRIBER_CAP < length ?cs - fw_next ?w"
      "forwarder_recv tx s (as_terminal_id a) ?cs ?w = ?w\<lparr>fw_next := length ?cs - SUBSCRIBER_CAP, fw_lagged := True\<rparr>"
    | fs where "fw_frames ?w = []" "fw_next ?w < length ?cs"
      "data_bytes (map ob_frame fs) = oc_bytes (?cs ! fw_next ?w)"
      "contiguous (length (chunk_bytes (take (fw_next ?w) ?cs))) (map ob_frame fs)" "\<forall>f \<in> set fs. outbound_true s (as_terminal_id a) (broadcast ?t) f"
      "forwarder_recv tx s (as_terminal_id a) ?cs ?w = ?w\<lparr>fw_next := Suc (fw_next ?w), fw_frames := fs\<rparr>"
  proof (cases "fw_done ?w \<or> fw_frames ?w \<noteq> [] \<or> length ?cs \<le> fw_next ?w")
    case True
    then have "forwarder_recv tx s (as_terminal_id a) ?cs ?w = ?w"
      by (auto simp: forwarder_recv_def subscription_recv_def)
    with that(1) show ?thesis .
  next
    case False
    show ?thesis
    proof (cases "SUBSCRIBER_CAP < length ?cs - fw_next ?w")
      case True
      with False that(2) show ?thesis by (simp add: forwarder_recv_def subscription_recv_def)
    next
      case n: False
      from False obtain fs where fs: "live_output_frames tx s (as_terminal_id a) (?cs ! fw_next ?w) = Inr fs"
          "data_bytes (map ob_frame fs) = oc_bytes (?cs ! fw_next ?w)"
      "contiguous (length (chunk_bytes (take (fw_next ?w) ?cs))) (map ob_frame fs)" "\<forall>f \<in> set fs. outbound_true s (as_terminal_id a) (broadcast ?t) f"
        using live_output_frames_true [OF ok, of "fw_next ?w" tx s "as_terminal_id a"] by (auto simp: outbound_true_def chunk_bytes_def)
      with False n that(3) [of fs] show ?thesis by (simp add: forwarder_recv_def subscription_recv_def)
    qed
  qed
  then show ?thesis
  proof cases
    case 1
    then show ?thesis using a by simp
  next
    case 2
    then show ?thesis using a unfolding attached_ok_def Let_def by auto
  next
    case 3
    have d: "chunk_bytes (drop (fw_next ?w) ?cs) = oc_bytes (?cs ! fw_next ?w) @ chunk_bytes (drop (Suc (fw_next ?w)) ?cs)"
      using 3(2) by (simp add: chunk_bytes_def Cons_nth_drop_Suc [symmetric])
    have whole: "chunk_bytes (take k ?cs) @ chunk_bytes (drop k ?cs) = chunk_bytes ?cs" for k
      unfolding chunk_bytes_def by (metis append_take_drop_id concat_append map_append)
    have "length (chunk_bytes (take (fw_start ?w) ?cs)) + length (data_bytes (sent_on s sent @ queued_on s queue)) =
        length (chunk_bytes (take (fw_next ?w) ?cs))"
      if "data_bytes (sent_on s sent @ queued_on s queue) @ chunk_bytes (drop (fw_next ?w) ?cs) = chunk_bytes (drop (fw_start ?w) ?cs)"
    proof -
      have "length (data_bytes (sent_on s sent @ queued_on s queue)) + length (chunk_bytes (drop (fw_next ?w) ?cs)) =
          length (chunk_bytes (drop (fw_start ?w) ?cs))"
        using arg_cong [OF that, of length] by (simp only: length_append)
      with arg_cong [OF whole [of "fw_next ?w"], of length] arg_cong [OF whole [of "fw_start ?w"], of length]
      show ?thesis by simp
    qed
    then show ?thesis using a 3 d unfolding attached_ok_def Let_def by (simp add: list_all_iff add.assoc)
  qed
qed

definition set_streams :: "stream_context \<Rightarrow> 't connection \<Rightarrow> 't connection" where
  "set_streams sc cn = cn\<lparr>cn_streams := sc\<rparr>"

lemma conn_inv_round:
  assumes inv: "conn_inv v m cn"
  shows "conn_inv v m (set_streams (forwarder_round tx (sm_heap m) s (cn_streams cn)) cn)"
proof (cases "hm_get (sc_map (cn_streams cn)) s")
  case None
  then show ?thesis using inv by (simp add: set_streams_def forwarder_round_def)
next
  case (Some a)
  then have a: "attached_ok v (sm_heap m) (ch_sent (cn_chan cn)) (sc_output (cn_streams cn)) s a"
    using inv by (simp add: conn_inv_def)
  then have "terminal_ok v (sm_heap m ! as_terminal a)"
    using inv by (simp add: conn_inv_def sessions_ok_def list_all_length attached_ok_def Let_def)
  from attached_ok_recv [OF a this] show ?thesis
    using inv Some by (simp add: conn_inv_def set_streams_def forwarder_round_def hm_simps ids_used_def)
qed

lemma queued_on_append [simp]: "queued_on s (q @ q') = queued_on s q @ queued_on s q'"
  by (simp add: queued_on_def)

lemma attached_ok_queue_other:
  "attached_ok v H sent queue s a \<Longrightarrow> ob_stream f \<noteq> s \<Longrightarrow> attached_ok v H sent (queue @ [f]) s a"
  by (auto simp: attached_ok_def Let_def queued_on_def)

lemma attached_ok_handed:
  assumes "attached_ok v H sent queue s a" and "fw_frames (as_writer a) = f # fs"
  shows "attached_ok v H sent (queue @ [f]) s (a\<lparr>as_writer := (as_writer a)\<lparr>fw_frames := fs\<rparr>\<rparr>) \<and> ob_stream f = s"
  using assms by (auto simp: attached_ok_def Let_def queued_on_def outbound_true_def)

lemma conn_inv_send:
  assumes inv: "conn_inv v m cn"
  shows "conn_inv v m (set_streams (forwarder_send s (cn_streams cn)) cn)"
proof (cases "forwarder_send s (cn_streams cn) = cn_streams cn")
  case True
  then show ?thesis using inv by (simp add: set_streams_def)
next
  case False
  then obtain a f fs where a: "hm_get (sc_map (cn_streams cn)) s = Some a" "fw_frames (as_writer a) = f # fs"
      "forwarder_send s (cn_streams cn) = (cn_streams cn)\<lparr>sc_output := sc_output (cn_streams cn) @ [f],
         sc_map := hm_insert s (a\<lparr>as_writer := (as_writer a)\<lparr>fw_frames := fs\<rparr>\<rparr>) (sc_map (cn_streams cn))\<rparr>"
    by (auto simp: forwarder_send_def split: option.splits list.splits if_splits)
  have ok: "attached_ok v (sm_heap m) (ch_sent (cn_chan cn)) (sc_output (cn_streams cn)) s a"
    using inv a(1) by (simp add: conn_inv_def)
  from attached_ok_handed [OF this a(2)] show ?thesis
    using inv a(1) attached_ok_queue_other [of v "sm_heap m" _ _ _ _ f]
    unfolding conn_inv_def set_streams_def a(3) by (auto simp: hm_simps ids_used_def)
qed

section \<open>Output and requests\<close>

lemma send_frame_sent:
  "send_frame cr f ch = (r, ch') \<Longrightarrow> ch_sent ch' = ch_sent ch @ (if r = Inr () then [f] else [])"
  by (auto simp: send_frame_def split: sum.splits prod.splits)

lemma recv_frame_sent: "recv_frame cr ch = (r, ch') \<Longrightarrow> ch_sent ch' = ch_sent ch"
  by (auto simp: recv_frame_def split: sum.splits prod.splits)

lemma conn_inv_dropped:
  assumes "conn_inv v m cn" and "sc_output (cn_streams cn) = out # rest" and "hm_get (sc_map (cn_streams cn)) (ob_stream out) = None"
  shows "conn_inv v m (set_streams ((cn_streams cn)\<lparr>sc_output := rest\<rparr>) cn)"
proof -
  have "attached_ok v (sm_heap m) (ch_sent (cn_chan cn)) rest s a" if "hm_get (sc_map (cn_streams cn)) s = Some a" for s a
  proof -
    have "attached_ok v (sm_heap m) (ch_sent (cn_chan cn)) (out # rest) s a"
      using assms(1,2) that by (simp add: conn_inv_def)
    moreover have "ob_stream out \<noteq> s" using assms(3) that by auto
    ultimately show ?thesis by (simp add: attached_ok_def Let_def queued_on_def)
  qed
  then show ?thesis using assms(1,2) by (simp add: conn_inv_def set_streams_def ids_used_def)
qed

lemma conn_inv_written:
  assumes inv: "conn_inv v m cn" and q: "sc_output (cn_streams cn) = out # rest"
    and a: "hm_get (sc_map (cn_streams cn)) (ob_stream out) = Some a"
    and ch: "ch_sent ch = ch_sent (cn_chan cn) @ [FStreamData (ob_frame out)]"
  shows "conn_inv v m (set_chan ch (set_streams ((cn_streams cn)\<lparr>sc_output := rest\<rparr>) cn))"
proof -
  let ?sent = "ch_sent (cn_chan cn)" and ?fr = "FStreamData (ob_frame out)"
  have sf: "stream_frames [?fr] = [ob_frame out]" by (simp add: stream_frames_def)
  have all: "attached_ok v (sm_heap m) ?sent (out # rest) s b" if "hm_get (sc_map (cn_streams cn)) s = Some b" for s b
    using inv q that by (simp add: conn_inv_def)
  have out: "outbound_true (ob_stream out) (as_terminal_id a) (broadcast (sm_heap m ! as_terminal a)) out"
    using all [OF a] by (simp add: attached_ok_def Let_def)
  have "attached_ok v (sm_heap m) (?sent @ [?fr]) rest s b" if b: "hm_get (sc_map (cn_streams cn)) s = Some b" for s b
  proof (cases "s = ob_stream out")
    case True
    then show ?thesis
      using all [OF b] out is_ack_append [of ?sent] unfolding attached_ok_def Let_def
      by (auto simp: sent_on_def sf queued_on_def outbound_true_def)
  next
    case False
    then show ?thesis
      using all [OF b] out is_ack_append [of ?sent] unfolding attached_ok_def Let_def
      by (auto simp: sent_on_def sf queued_on_def outbound_true_def)
  qed
  moreover have "sent_true (sm_heap m) (?sent @ [?fr])"
  proof -
    obtain ack where ack: "is_ack ?sent ack" "oa_stream_id ack = ob_stream out"
        "ti_terminal (oa_info ack) = tr_id (sm_heap m ! as_terminal a)" "as_terminal a < length (sm_heap m)"
      using all [OF a] by (auto simp: attached_ok_def Let_def ack_true_def)
    with out is_ack_append [OF ack(1)] have "\<exists>ack h. is_ack (?sent @ [?fr]) ack \<and> oa_stream_id ack = sd_stream_id (ob_frame out) \<and>
        h < length (sm_heap m) \<and> tr_id (sm_heap m ! h) = ti_terminal (oa_info ack) \<and>
        frame_true (broadcast (sm_heap m ! h)) (ob_frame out)"
      unfolding outbound_true_def by metis
    moreover have "\<forall>f \<in> set (stream_frames ?sent). \<exists>ack h. is_ack (?sent @ [?fr]) ack \<and> oa_stream_id ack = sd_stream_id f \<and>
        h < length (sm_heap m) \<and> tr_id (sm_heap m ! h) = ti_terminal (oa_info ack) \<and> frame_true (broadcast (sm_heap m ! h)) f"
      using inv is_ack_append unfolding conn_inv_def sent_true_def by meson
    ultimately show ?thesis by (simp add: sent_true_def sf)
  qed
  ultimately show ?thesis
    using inv q out ch unfolding conn_inv_def set_chan_def set_streams_def by (auto simp: ids_used_def sf outbound_true_def)
qed

lemma conn_inv_output:
  assumes inv: "conn_inv v m cn" and "on_output cr cn = (Loop, cn')"
  shows "conn_inv v m cn'"
proof (cases "sc_output (cn_streams cn)")
  case Nil
  then show ?thesis using assms by (simp add: on_output_def)
next
  case (Cons out rest)
  show ?thesis
  proof (cases "hm_get (sc_map (cn_streams cn)) (ob_stream out)")
    case None
    with conn_inv_dropped [OF inv Cons] assms(2) Cons show ?thesis by (simp add: on_output_def set_streams_def)
  next
    case (Some a)
    then have "attached_ok v (sm_heap m) (ch_sent (cn_chan cn)) (out # rest) (ob_stream out) a"
      using inv Cons by (simp add: conn_inv_def)
    then have i: "as_terminal_id a = ob_terminal_id out" by (simp add: attached_ok_def Let_def outbound_true_def)
    obtain r ch where s: "send_frame cr (FStreamData (ob_frame out)) (cn_chan cn) = (r, ch)" by fastforce
    have "r = Inr ()" using assms(2) Cons Some i s by (cases r) (simp_all add: on_output_def Let_def)
    with s send_frame_sent [OF s] conn_inv_written [OF inv Cons Some, of ch] assms(2) Cons Some i
    show ?thesis by (simp add: on_output_def Let_def set_streams_def)
  qed
qed

end
