(* ===== verification/Daemon_Live.thy ===== *)
theory Daemon_Live
  imports Daemon_Stream
begin

text \<open>
  The requests of a connection, and all the interleavings of its loop with its forwarder,
  the terminals, other connections and the reaper: what a client is sent is true and
  complete, and nothing it asks for makes the daemon panic.
\<close>

section \<open>Opening a terminal\<close>

text \<open>The code returns, the invariant holds and no output was lost from \<open>m\<close> on.\<close>

definition handled ::
  "'p vte \<Rightarrow> 'p session_manager \<Rightarrow> ('r \<times> 'p daemon \<times> 't connection) option \<Rightarrow> bool" where
  "handled v m x \<longleftrightarrow> (\<exists>r dm' cn'. x = Some (r, dm', cn') \<and> conn_inv v (dm_sessions dm') cn' \<and>
     heap_later (sm_heap m) (sm_heap (dm_sessions dm')))"

lemma attached_ok_opened:
  assumes "\<forall>out \<in> set queue. ob_stream out \<noteq> s" and "\<forall>f \<in> set (stream_frames sent). sd_stream_id f \<noteq> s"
    and "h < length H" and "tr_id (H ! h) = i" and "n \<le> length (tr_chunks (H ! h))"
    and "is_ack sent ack" and "oa_stream_id ack = s" and "ack_true v (H ! h) (length (chunk_bytes (take n (tr_chunks (H ! h))))) ack"
  shows "attached_ok v H sent queue s \<lparr>as_terminal = h, as_terminal_id = i,
    as_writer = \<lparr>fw_next = n, fw_frames = [], fw_done = False, fw_start = n, fw_lagged = False\<rparr>\<rparr>"
proof -
  have "sent_on s sent = []" "queued_on s queue = []" using assms(1,2)
    by (auto simp: sent_on_def queued_on_def filter_empty_conv)
  with assms show ?thesis unfolding attached_ok_def Let_def by (auto simp: list_all_iff)
qed

text \<open>What the server answers to a request to open a terminal is true of the terminal.\<close>

lemma opened_ack_true:
  assumes ok: "terminal_ok v t" and sub: "sub \<le> length (broadcast t)"
    and sn: "sn = terminal_snapshot_with_max_bytes n t"
    and start: "start = StreamSeq (sat_sub (seq_val (sn_head_seq sn)) (of_nat (length (sn_bytes sn))))"
    and info: "ti_terminal info = tr_id t"
  shows "ack_true v t sub \<lparr>oa_stream_id = stream, oa_info = info, oa_start_seq = start, oa_end_seq = sn_head_seq sn,
      oa_render_bytes = render_prefix_from_anchor (sn_anchor_state sn) @ sn_bytes sn, oa_has_more_history = b\<rparr> \<and>
    unat (seq_val (sn_head_seq sn)) = length (broadcast t)"
proof -
  let ?S = "broadcast t"
  have w: "window v ?S (tr_ring t)" using ok by (simp add: terminal_ok_def)
  from snapshot_window [OF w, of n] obtain k where k: "k \<le> length ?S" "sn_bytes sn = drop k ?S"
      "sn_anchor_state sn = snapshot_state (tracked v (take k ?S))" "unat (seq_val (sn_head_seq sn)) = length ?S"
    unfolding sn terminal_snapshot_with_max_bytes_def by blast
  have small: "length ?S < 2 ^ 64" using w by (simp add: window_def)
  have "unat (of_nat (length (sn_bytes sn)) :: u64) = length ?S - k"
    using k(2) small by (simp add: unat_of_nat)
  then have "unat (seq_val start) = k" using k(1,4) start by (simp add: unat_simps)
  then show ?thesis using k sub info by (simp add: ack_true_def)
qed

lemma sent_true_quiet: "sent_true H sent \<Longrightarrow> stream_frames fs = [] \<Longrightarrow> sent_true H (sent @ fs)"
  using is_ack_append unfolding sent_true_def stream_frames_append by fastforce

lemma sat_next: "a \<noteq> - 1 \<Longrightarrow> unat (sat_add a 1 :: u32) = Suc (unat a)"
proof -
  assume "a \<noteq> - 1"
  then have "unat a \<noteq> unat (- 1 :: u32)" using word_unat_eq_iff by blast
  moreover have "unat a < 2 ^ 32" using unat_lt_pow [of a] by simp
  ultimately show ?thesis by (simp add: unat_simps unat_max_word)
qed

definition next_stream :: "'t connection \<Rightarrow> stream_context" where
  "next_stream cn = (clear_attached_streams (cn_streams cn))
     \<lparr>sc_next_local_stream_id := sat_add (sc_next_local_stream_id (cn_streams cn)) 1\<rparr>"

lemma conn_inv_cleared:
  assumes "conn_inv v m cn" and "sc_next_local_stream_id (cn_streams cn) \<noteq> - 1"
  shows "conn_inv v m (set_streams (next_stream cn) cn)"
  using assms sat_next [OF assms(2)]
  by (auto simp: conn_inv_def set_streams_def clear_attached_streams_def next_stream_def ids_used_def intro: less_SucI)

lemma conn_inv_opened:
  assumes inv: "conn_inv v m cn" and ids: "sc_next_local_stream_id (cn_streams cn) \<noteq> - 1"
    and s: "s = StreamId (sc_next_local_stream_id (cn_streams cn))"
    and ch: "ch_sent ch = ch_sent (cn_chan cn) @ [FResponse \<lparr>rs_id = rid, rs_result = Inr (RspOpenTerminal ack)\<rparr>]"
    and h: "h < length (sm_heap m)" "tr_id (sm_heap m ! h) = i" "n \<le> length (tr_chunks (sm_heap m ! h))"
    and ack: "oa_stream_id ack = s" "ack_true v (sm_heap m ! h) (length (chunk_bytes (take n (tr_chunks (sm_heap m ! h))))) ack"
  shows "conn_inv v m (set_chan ch (set_streams ((next_stream cn)\<lparr>sc_map := hm_insert s \<lparr>as_terminal = h, as_terminal_id = i,
    as_writer = \<lparr>fw_next = n, fw_frames = [], fw_done = False, fw_start = n, fw_lagged = False\<rparr>\<rparr> (sc_map (next_stream cn))\<rparr>) cn))"
proof -
  let ?sent = "ch_sent (cn_chan cn)" and ?q = "sc_output (cn_streams cn)"
  have sf: "stream_frames (ch_sent ch) = stream_frames ?sent" by (simp add: ch stream_frames_def)
  have is_ack: "is_ack (ch_sent ch) ack" by (auto simp: is_ack_def ch)
  have "\<forall>out \<in> set ?q. ob_stream out \<noteq> s" "\<forall>f \<in> set (stream_frames (ch_sent ch)). sd_stream_id f \<noteq> s"
    using inv unfolding conn_inv_def ids_used_def s sf by fastforce+
  from attached_ok_opened [OF this h is_ack ack] 
  have "attached_ok v (sm_heap m) (ch_sent ch) ?q s \<lparr>as_terminal = h, as_terminal_id = i,
    as_writer = \<lparr>fw_next = n, fw_frames = [], fw_done = False, fw_start = n, fw_lagged = False\<rparr>\<rparr>" .
  moreover have "sent_true (sm_heap m) (ch_sent ch)"
    unfolding ch by (rule sent_true_quiet) (use inv in \<open>simp_all add: conn_inv_def stream_frames_def\<close>)
  moreover have "ids_used (Suc (unat (sc_next_local_stream_id (cn_streams cn)))) (set_chan ch (set_streams ((next_stream cn)
    \<lparr>sc_map := hm_insert s a (sc_map (next_stream cn))\<rparr>) cn))" for a
    using inv by (auto simp: conn_inv_def ids_used_def set_chan_def set_streams_def next_stream_def clear_attached_streams_def
        hm_simps sf s intro: less_SucI)
  ultimately show ?thesis
    using inv sat_next [OF ids]
    by (simp add: conn_inv_def set_chan_def set_streams_def next_stream_def clear_attached_streams_def hm_simps)
qed

lemma session_list_find:
  assumes "hm_get (sm_terminals m) i = Some en" and "sm_terminals m' = sm_terminals m"
  shows "\<exists>info. List.find (\<lambda>info. ti_terminal info = i) (session_list m') = Some info \<and> ti_terminal info = i"
proof -
  have "(i, en) \<in> set (sm_terminals m')" using assms by (simp add: hm_get_def map_of_SomeD)
  then have "\<exists>info \<in> set (session_list m'). ti_terminal info = i"
    by (force simp: session_list_def terminal_info_of_def)
  then show ?thesis by (cases "List.find (\<lambda>info. ti_terminal info = i) (session_list m')")
    (auto simp: find_None_iff find_Some_iff)
qed

text \<open>The stream the connection has after it opened the terminal at \<open>h\<close>, subscribed after \<open>n\<close> chunks.\<close>

definition opened_streams :: "nat \<Rightarrow> terminal_id \<Rightarrow> nat \<Rightarrow> 't connection \<Rightarrow> stream_context" where
  "opened_streams h i n cn = (next_stream cn)\<lparr>sc_map := hm_insert (StreamId (sc_next_local_stream_id (cn_streams cn)))
     \<lparr>as_terminal = h, as_terminal_id = i, as_writer = \<lparr>fw_next = n, fw_frames = [], fw_done = False,
        fw_start = n, fw_lagged = False\<rparr>\<rparr> (sc_map (next_stream cn))\<rparr>"

lemma open_answer:
  assumes ok: "sessions_ok v (dm_sessions dm)" and v: "v = cr_vte cr" and h: "attach i (dm_sessions dm) = Some h"
    and t: "terminal_run v during (terminal_at dm h) = Some t" "terminal_ok v t"
    and sub: "n = length (tr_chunks (terminal_at dm h))"
  shows "\<exists>ack. oa_stream_id ack = StreamId (sc_next_local_stream_id (cn_streams cn)) \<and>
    ack_true v t (length (chunk_bytes (take n (tr_chunks t)))) ack \<and> unat (seq_val (oa_end_seq ack)) = length (broadcast t) \<and>
    ti_terminal (oa_info ack) = i \<and>
    handle_open_terminal_request cr during rid i (dm, cn) =
      (case send_ok_response cr rid (RspOpenTerminal ack) (cn_chan cn) of
         (Inl e, ch) \<Rightarrow> Some (Inl e, set_terminal h t dm, set_chan ch (set_streams (next_stream cn) cn))
       | (Inr _, ch) \<Rightarrow> Some (Inr (), set_terminal h t dm, set_chan ch (set_streams (opened_streams h i n cn) cn)))"
proof -
  let ?sn = "terminal_snapshot_with_max_bytes OPEN_TERMINAL_MAX_BYTES t" and ?n = "sc_next_local_stream_id (cn_streams cn)"
  let ?start = "StreamSeq (sat_sub (seq_val (sn_head_seq ?sn)) (of_nat (length (sn_bytes ?sn))))"
  obtain en where en: "hm_get (sm_terminals (dm_sessions dm)) i = Some en" using h by (auto simp: attach_def)
  obtain info where info: "List.find (\<lambda>info. ti_terminal info = i) (session_list (dm_sessions (set_terminal h t dm))) = Some info"
      "ti_terminal info = i"
    using session_list_find [OF en, of "dm_sessions (set_terminal h t dm)"] by (auto simp: set_terminal_def)
  obtain page where page: "terminal_history_page (Some ?start) 1 t = Some page"
    using history_page_window [of v "broadcast t" "tr_ring t"] t(2) by (auto simp: terminal_ok_def terminal_history_page_def)
  obtain x where x: "tr_chunks t = tr_chunks (terminal_at dm h) @ x" "tr_id t = i"
    using later_run [OF t(1)] sessions_ok_attach [OF ok h] by (auto simp: later_def terminal_at_def)
  let ?ack = "\<lparr>oa_stream_id = StreamId ?n, oa_info = info, oa_start_seq = ?start, oa_end_seq = sn_head_seq ?sn,
      oa_render_bytes = render_prefix_from_anchor (sn_anchor_state ?sn) @ sn_bytes ?sn, oa_has_more_history = hs_has_more page\<rparr>"
  have "ack_true v t (length (chunk_bytes (take n (tr_chunks t)))) ?ack \<and> unat (seq_val (sn_head_seq ?sn)) = length (broadcast t)"
    by (rule opened_ack_true [OF t(2) _ refl refl]) (use x info sub in \<open>auto simp: chunk_bytes_def broadcast_def\<close>)
  moreover obtain r ch where s: "send_ok_response cr rid (RspOpenTerminal ?ack) (cn_chan cn) = (r, ch)" by fastforce
  ultimately show ?thesis using h t(1) info page v sub
    by (intro exI [of _ ?ack]; cases r) (simp_all add: handle_open_terminal_request_def Let_def set_streams_def next_stream_def
        clear_attached_streams_def opened_streams_def)
qed

lemma handle_open_ok:
  assumes inv: "conn_inv v (dm_sessions dm) cn" and v: "v = cr_vte cr"
    and room: "\<And>h. attach i (dm_sessions dm) = Some h \<Longrightarrow> terminal_room during (terminal_at dm h)"
    and ids: "sc_next_local_stream_id (cn_streams cn) \<noteq> - 1"
  shows "handled v (dm_sessions dm) (handle_open_terminal_request cr during rid i (dm, cn))"
proof (cases "attach i (dm_sessions dm)")
  case None
  obtain r ch where s: "send_error_response cr rid UnknownTerminal (cn_chan cn) = (r, ch)" by fastforce
  then have "\<exists>fs. ch_sent ch = ch_sent (cn_chan cn) @ fs \<and> stream_frames fs = []"
    using send_frame_sent [OF s [unfolded send_error_response_def]] by (auto simp: stream_frames_def)
  with conn_inv_sent [OF inv] None s show ?thesis
    by (auto simp: handle_open_terminal_request_def respond_def handled_def)
next
  case (Some h)
  let ?m = "dm_sessions dm" and ?t0 = "terminal_at dm h" and ?n = "length (tr_chunks (terminal_at dm h))"
  have ok: "sessions_ok v ?m" using inv by (simp add: conn_inv_def)
  have h: "h < length (sm_heap ?m)" "tr_id ?t0 = i" "terminal_ok v ?t0"
    using sessions_ok_attach [OF ok Some] by (simp_all add: terminal_at_def)
  obtain t where t: "terminal_run v during ?t0 = Some t" "terminal_ok v t"
    using terminal_ok_run [OF h(3) room [OF Some]] by blast
  have l: "later ?t0 t" by (rule later_run [OF t(1)])
  let ?dm = "set_terminal h t dm"
  have ok1: "sessions_ok v (dm_sessions ?dm)" and l1: "heap_later (sm_heap ?m) (sm_heap (dm_sessions ?dm))"
    using sessions_ok_update [OF ok t(2)] heap_later_update l by (simp_all add: terminal_at_def set_terminal_def)
  have inv1: "conn_inv v (dm_sessions ?dm) cn" by (rule conn_inv_later [OF inv ok1 l1])
  have at: "sm_heap (dm_sessions ?dm) ! h = t" "h < length (sm_heap (dm_sessions ?dm))" "tr_id t = i" "?n \<le> length (tr_chunks t)"
    using h l by (auto simp: set_terminal_def later_def)
  obtain ack where ack: "oa_stream_id ack = StreamId (sc_next_local_stream_id (cn_streams cn))"
      "ack_true v t (length (chunk_bytes (take ?n (tr_chunks t)))) ack"
      "handle_open_terminal_request cr during rid i (dm, cn) =
      (case send_ok_response cr rid (RspOpenTerminal ack) (cn_chan cn) of
         (Inl e, ch) \<Rightarrow> Some (Inl e, ?dm, set_chan ch (set_streams (next_stream cn) cn))
       | (Inr _, ch) \<Rightarrow> Some (Inr (), ?dm, set_chan ch (set_streams (opened_streams h i ?n cn) cn)))"
    using open_answer [OF ok v Some t refl] by blast
  obtain r ch where s: "send_ok_response cr rid (RspOpenTerminal ack) (cn_chan cn) = (r, ch)" by fastforce
  note sent = send_frame_sent [OF s [unfolded send_ok_response_def]]
  show ?thesis
  proof (cases r)
    case (Inl e)
    with sent have "ch_sent ch = ch_sent (cn_chan (set_streams (next_stream cn) cn)) @ []" by (simp add: set_streams_def)
    from conn_inv_sent [OF conn_inv_cleared [OF inv1 ids] this] ack(3) s Inl l1 show ?thesis
      by (simp add: stream_frames_def handled_def)
  next
    case (Inr u)
    with sent have "ch_sent ch = ch_sent (cn_chan cn) @ [FResponse \<lparr>rs_id = rid, rs_result = Inr (RspOpenTerminal ack)\<rparr>]"
      by simp
    from conn_inv_opened [OF inv1 ids refl this at(2), of i ?n] at ack s Inr l1 show ?thesis
      by (simp add: handled_def opened_streams_def)
  qed
qed

section \<open>The other requests\<close>

lemma respond_handled:
  assumes "conn_inv v (dm_sessions dm) cn" and "heap_later (sm_heap m) (sm_heap (dm_sessions dm))"
    and "send_frame cr f (cn_chan cn) = s" and "stream_frames [f] = []"
  shows "handled v m (respond s (dm, cn))"
proof -
  obtain r ch where s: "s = (r, ch)" by fastforce
  have "ch_sent ch = ch_sent (cn_chan cn) @ (if r = Inr () then [f] else [])" using send_frame_sent assms(3) s by blast
  then have "conn_inv v (dm_sessions dm) (set_chan ch cn)"
    by (rule conn_inv_sent [OF assms(1)]) (use assms(4) in \<open>simp add: stream_frames_def\<close>)
  with assms(2) show ?thesis by (simp add: respond_def s handled_def)
qed

lemma stream_frames_response [simp]: "stream_frames [FResponse x] = []"
  by (simp add: stream_frames_def)

lemma answer_frame: "\<exists>x. answer cr i r ch = send_frame cr (FResponse x) ch"
  by (auto simp: answer_def send_ok_response_def send_error_response_def split: sum.splits)

lemma responses_handled:
  assumes "conn_inv v (dm_sessions dm) cn" and "heap_later (sm_heap m) (sm_heap (dm_sessions dm))"
  shows "handled v m (respond (send_ok_response cr i b (cn_chan cn)) (dm, cn))"
    and "handled v m (respond (send_error_response cr i e (cn_chan cn)) (dm, cn))"
    and "handled v m (respond (answer cr i r (cn_chan cn)) (dm, cn))"
proof -
  note h = respond_handled [OF assms _ stream_frames_response]
  show "handled v m (respond (send_ok_response cr i b (cn_chan cn)) (dm, cn))"
    "handled v m (respond (send_error_response cr i e (cn_chan cn)) (dm, cn))"
    using h [OF refl] by (simp_all add: send_ok_response_def send_error_response_def)
  show "handled v m (respond (answer cr i r (cn_chan cn)) (dm, cn))"
    using h answer_frame [of cr i r "cn_chan cn"] by metis
qed

lemma sessions_ok_change:
  assumes "sessions_ok v m" and "\<And>t. terminal_ok v t \<Longrightarrow> terminal_ok v (f t)" and "\<And>t. later t (f t)"
  shows "sessions_ok v (m\<lparr>sm_heap := (sm_heap m)[h := f (sm_heap m ! h)]\<rparr>) \<and>
    heap_later (sm_heap m) ((sm_heap m)[h := f (sm_heap m ! h)])"
proof (cases "h < length (sm_heap m)")
  case True
  then have "terminal_ok v (sm_heap m ! h)" using assms(1) by (simp add: sessions_ok_def list_all_length)
  with sessions_ok_update [OF assms(1) assms(2)] assms(3) heap_later_update show ?thesis by blast
next
  case False
  then show ?thesis using assms(1) by (simp add: list_update_beyond)
qed

lemma change_ok:
  assumes inv: "conn_inv v (dm_sessions dm) cn"
    and "\<And>t. terminal_ok v t \<Longrightarrow> terminal_ok v (f t)" and "\<And>t. later t (f t)"
  shows "conn_inv v (dm_sessions (set_terminal h (f (terminal_at dm h)) dm)) cn \<and>
    heap_later (sm_heap (dm_sessions dm)) (sm_heap (dm_sessions (set_terminal h (f (terminal_at dm h)) dm)))"
proof -
  have "sessions_ok v (dm_sessions dm)" using inv by (simp add: conn_inv_def)
  from sessions_ok_change [OF this assms(2,3), of h] conn_inv_later [OF inv]
  show ?thesis by (simp add: set_terminal_def terminal_at_def)
qed

text \<open>No terminal that a request opens writes \<open>2 ^ 64\<close> bytes, and no connection opens \<open>2 ^ 32\<close> streams.\<close>

definition request_room :: "request_env \<Rightarrow> 'p daemon \<times> 't connection \<Rightarrow> bool" where
  "request_room env s \<longleftrightarrow>
     list_all (terminal_room (re_during env)) (sm_heap (dm_sessions (fst s))) \<and>
     sc_next_local_stream_id (cn_streams (snd s)) \<noteq> - 1"

lemma handle_history_ok:
  assumes inv: "conn_inv v (dm_sessions dm) cn"
  shows "handled v (dm_sessions dm) (handle_history_read_request cr rid i before n (dm, cn))"
proof (cases "attach i (dm_sessions dm)")
  case None
  with responses_handled [OF inv heap_later_refl] show ?thesis by (simp add: handle_history_read_request_def)
next
  case (Some h)
  have "terminal_ok v (terminal_at dm h)"
    using inv sessions_ok_attach [OF _ Some] by (auto simp: conn_inv_def terminal_at_def)
  then obtain p where "terminal_history_page before (ucast n) (terminal_at dm h) = Some p"
    using history_page_window [of v _ "tr_ring (terminal_at dm h)" before "ucast n"]
    by (auto simp: terminal_ok_def terminal_history_page_def)
  with Some responses_handled [OF inv heap_later_refl] show ?thesis
    by (simp add: handle_history_read_request_def)
qed

lemma handle_request_ok:
  assumes inv: "conn_inv v (dm_sessions dm) cn" and v: "v = cr_vte cr" and room: "request_room env (dm, cn)"
  shows "handled v (dm_sessions dm) (handle_request cr env rq (dm, cn))"
proof (cases "rq_body rq")
  case (ReqCreateTerminal params)
  obtain r m st where c: "create (cr_vte cr) (re_spawn env) (re_now_ms env) params (current_scrollback_bytes dm) (dm_sessions dm)
      = (r, m, st)" by (metis prod_cases3)
  have m: "sessions_ok v m" "heap_later (sm_heap (dm_sessions dm)) (sm_heap m)"
    using sessions_ok_create [of v "dm_sessions dm"] c inv v by (auto simp: conn_inv_def)
  then have "conn_inv v (dm_sessions (dm\<lparr>dm_sessions := m\<rparr>)) cn" using conn_inv_later [OF inv] by simp
  from responses_handled(3) [OF this] m(2) show ?thesis
    by (simp add: handle_request_def ReqCreateTerminal c)
next
  case (ReqOpenTerminal i)
  have "terminal_room (re_during env) (terminal_at dm h)" if "attach i (dm_sessions dm) = Some h" for h
    using that room sessions_ok_attach [of v "dm_sessions dm" i h] inv
    by (auto simp: request_room_def list_all_length conn_inv_def terminal_at_def)
  with handle_open_ok [OF inv v] room show ?thesis
    by (simp add: handle_request_def ReqOpenTerminal request_room_def)
next
  case (ReqReadHistory i before n)
  with handle_history_ok [OF inv] show ?thesis by (simp add: handle_request_def)
next
  case (ReqSetServerConfig c)
  obtain r dm' where c: "apply_server_config_update (re_save env) c dm = (r, dm')" by fastforce
  then have d: "dm_sessions dm' = dm_sessions dm" by (auto simp: apply_server_config_update_def Let_def split: sum.splits)
  then have "conn_inv v (dm_sessions dm') cn" using inv by simp
  from responses_handled(3) [OF this, of "dm_sessions dm"] d show ?thesis by (simp add: handle_request_def ReqSetServerConfig c)
next
  case (ReqSendInput i bs)
  note ok = change_ok [OF inv, where f = "\<lambda>t. snd (write_input (re_write env) bs t)", OF terminal_ok_input later_input]
  show ?thesis
    using responses_handled(2) [OF inv heap_later_refl, where cr = cr]
      responses_handled(1) [OF conjunct1 [OF ok] conjunct2 [OF ok], where cr = cr]
    by (simp add: handle_request_def ReqSendInput split: option.splits)
next
  case (ReqResizeTerminal i c r)
  note ok = change_ok [OF inv, where f = "\<lambda>t. snd (terminal_resize (re_resize env) c r t)", OF terminal_ok_resize later_resize]
  show ?thesis
    using responses_handled(2) [OF inv heap_later_refl, where cr = cr]
      responses_handled(1) [OF conjunct1 [OF ok] conjunct2 [OF ok], where cr = cr]
    by (simp add: handle_request_def ReqResizeTerminal split: option.splits)
qed (use responses_handled [OF inv heap_later_refl] in \<open>simp_all add: handle_request_def\<close>)


section \<open>A connection among the daemon's other activities\<close>

text \<open>
  What happens apart from the connection: a terminal's threads run, another connection
  writes to, resizes or creates a terminal, the reaper removes exited ones, the database
  or the configuration changes.
\<close>

inductive daemon_step :: "'p vte \<Rightarrow> 'p daemon \<Rightarrow> 'p daemon \<Rightarrow> bool" for v where
  daemon_terminal: "h < length (sm_heap (dm_sessions dm)) \<Longrightarrow> terminal_room evs (terminal_at dm h) \<Longrightarrow>
    terminal_run v evs (terminal_at dm h) = Some t \<Longrightarrow> daemon_step v dm (set_terminal h t dm)"
| daemon_create: "create v env now params n (dm_sessions dm) = (r, m, started) \<Longrightarrow>
    daemon_step v dm (dm\<lparr>dm_sessions := m\<rparr>)"
| daemon_reap: "daemon_step v dm (dm\<lparr>dm_sessions := reap_remove dead (dm_sessions dm)\<rparr>)"
| daemon_other: "daemon_step v dm (dm\<lparr>dm_db := db, dm_config := config\<rparr>)"

inductive daemon_reach :: "'p vte \<Rightarrow> 'p daemon \<Rightarrow> bool" for v where
  daemon_start: "dm_sessions dm = session_manager_new limit \<Longrightarrow> daemon_reach v dm"
| daemon_continue: "daemon_reach v dm \<Longrightarrow> daemon_step v dm dm' \<Longrightarrow> daemon_reach v dm'"

inductive conn_step :: "('h, 't, 'p) crates \<Rightarrow> 'p daemon \<times> 't connection \<Rightarrow> 'p daemon \<times> 't connection \<Rightarrow> bool" for cr where
  conn_loop: "request_room env (dm, cn) \<Longrightarrow>
    connection_iteration cr env frame_ready (dm, cn) = Some (Loop, s) \<Longrightarrow> conn_step cr (dm, cn) s"
| conn_recv: "conn_step cr (dm, cn)
    (dm, set_streams (forwarder_round (cr_texts cr) (sm_heap (dm_sessions dm)) s (cn_streams cn)) cn)"
| conn_hand: "conn_step cr (dm, cn) (dm, set_streams (forwarder_send s (cn_streams cn)) cn)"
| conn_daemon: "daemon_step (cr_vte cr) dm dm' \<Longrightarrow> conn_step cr (dm, cn) (dm', cn)"

inductive conn_reach :: "('h, 't, 'p) crates \<Rightarrow> 'p daemon \<times> 't connection \<Rightarrow> bool" for cr where
  conn_start: "daemon_reach (cr_vte cr) dm \<Longrightarrow>
    start_connection cr sid client dm \<lparr>ch_transport = tp, ch_session = ns, ch_sent = []\<rparr> = (Inr cn, ch) \<Longrightarrow>
    conn_reach cr (dm, cn)"
| conn_continue: "conn_reach cr s \<Longrightarrow> conn_step cr s s' \<Longrightarrow> conn_reach cr s'"

lemma daemon_step_ok:
  assumes "daemon_step v dm dm'" and "sessions_ok v (dm_sessions dm)"
  shows "sessions_ok v (dm_sessions dm') \<and> heap_later (sm_heap (dm_sessions dm)) (sm_heap (dm_sessions dm'))"
  using assms
proof cases
  case (daemon_terminal h evs t)
  have "terminal_ok v (terminal_at dm h)"
    using assms(2) daemon_terminal(2) by (simp add: sessions_ok_def list_all_length terminal_at_def)
  then have "terminal_ok v t" using terminal_ok_run [of v "terminal_at dm h" evs] daemon_terminal(3,4) by auto
  then show ?thesis
    using sessions_ok_update [OF assms(2)] heap_later_update later_run [OF daemon_terminal(4)] daemon_terminal(1)
    by (simp add: set_terminal_def terminal_at_def)
next
  case daemon_create
  then show ?thesis using sessions_ok_create [OF assms(2)] by auto
next
  case daemon_reap
  then show ?thesis using sessions_ok_remove [OF assms(2)] by (simp add: reap_remove_def)
next
  case daemon_other
  then show ?thesis using assms(2) by simp
qed

lemma daemon_reach_ok: "daemon_reach v dm \<Longrightarrow> sessions_ok v (dm_sessions dm)"
  by (induction rule: daemon_reach.induct)
    (auto simp: sessions_ok_def session_manager_new_def dest: daemon_step_ok [unfolded sessions_ok_def])

lemma iteration_ok:
  assumes inv: "conn_inv (cr_vte cr) (dm_sessions dm) cn" and room: "request_room env (dm, cn)"
  shows "\<exists>l dm' cn'. connection_iteration cr env frame_ready (dm, cn) = Some (l, dm', cn') \<and>
    (l = Loop \<longrightarrow> conn_inv (cr_vte cr) (dm_sessions dm') cn')"
proof (cases "cn_seen cn \<noteq> db_notified (dm_db dm)")
  case True
  have "conn_inv (cr_vte cr) (dm_sessions dm) (cn\<lparr>cn_seen := n\<rparr>)" for n
    using inv by (simp add: conn_inv_def ids_used_def)
  with True show ?thesis by (auto simp: connection_iteration_def on_revocation_change_def Let_def split: prod.splits)
next
  case seen: False
  show ?thesis
  proof (cases frame_ready)
    case False
    then show ?thesis using seen conn_inv_output [OF inv]
      by (auto simp: connection_iteration_def split: prod.splits)
  next
    case True
    obtain x ch where rf: "recv_frame cr (cn_chan cn) = (x, ch)" by fastforce
    have inv1: "conn_inv (cr_vte cr) (dm_sessions dm) (set_chan ch cn)"
      using conn_inv_sent [OF inv, of ch "[]"] recv_frame_sent [OF rf] by (simp add: stream_frames_def)
    have room1: "request_room env (dm, set_chan ch cn)" using room by (simp add: request_room_def set_chan_def)
    have it: "connection_iteration cr env frame_ready (dm, cn) = on_frame cr env (dm, cn)"
      using seen True by (simp add: connection_iteration_def)
    show ?thesis
    proof (cases "\<exists>rq. x = Inr (FRequest rq)")
      case True
      then obtain rq where rq: "x = Inr (FRequest rq)" by blast
      from handle_request_ok [OF inv1 refl room1, of rq] show ?thesis
        unfolding it by (auto simp: on_frame_def rf rq handled_def)
    next
      case False
      have "conn_inv (cr_vte cr) (dm_sessions dm) (set_chan ch' cn)" if "send_frame cr (FPong n) ch = (r, ch')" for n r ch'
        by (rule conn_inv_sent [OF inv, where fs = "if r = Inr () then [FPong n] else []"])
          (use send_frame_sent [OF that] recv_frame_sent [OF rf] in \<open>simp_all add: stream_frames_def\<close>)
      with False inv1 show ?thesis unfolding it
        by (auto simp: on_frame_def rf split: sum.splits frame.splits prod.splits)
    qed
  qed
qed

lemma conn_inv_start:
  assumes "start_connection cr sid client dm \<lparr>ch_transport = tp, ch_session = ns, ch_sent = []\<rparr> = (Inr cn, ch)"
    and "sessions_ok v (dm_sessions dm)"
  shows "conn_inv v (dm_sessions dm) cn"
proof -
  have "\<exists>h. ch_sent (cn_chan cn) = [FHelloOk h]" "cn_streams cn = \<lparr>sc_map = [], sc_next_local_stream_id = 1, sc_output = []\<rparr>"
    using assms(1) by (auto simp: start_connection_def dest!: recv_frame_sent send_frame_sent split: sum.splits prod.splits frame.splits)
  then show ?thesis using assms(2) by (auto simp: conn_inv_def ids_used_def sent_true_def stream_frames_def)
qed

lemma conn_step_inv:
  assumes "conn_step cr s s'" and "conn_inv (cr_vte cr) (dm_sessions (fst s)) (snd s)"
  shows "conn_inv (cr_vte cr) (dm_sessions (fst s')) (snd s')"
  using assms
proof cases
  case (conn_loop env dm cn frame_ready)
  with iteration_ok [of cr dm cn env frame_ready] assms(2) show ?thesis by auto
next
  case (conn_recv dm cn st)
  with assms(2) conn_inv_round show ?thesis by simp
next
  case (conn_hand dm cn st)
  with assms(2) conn_inv_send show ?thesis by simp
next
  case (conn_daemon dm dm' cn)
  then have "sessions_ok (cr_vte cr) (dm_sessions dm)" using assms(2) by (simp add: conn_inv_def)
  from daemon_step_ok [OF conn_daemon(3) this] conn_inv_later assms(2) conn_daemon(1,2) show ?thesis by auto
qed

lemma conn_reach_inv: "conn_reach cr s \<Longrightarrow> conn_inv (cr_vte cr) (dm_sessions (fst s)) (snd s)"
proof (induction rule: conn_reach.induct)
  case (conn_start dm sid client tp ns cn ch)
  then show ?case using conn_inv_start daemon_reach_ok by fastforce
next
  case (conn_continue s s')
  then show ?case using conn_step_inv by blast
qed


section \<open>Properties\<close>

text \<open>
  C26. What a client sees is real: every frame of live output a connection ever sent carries
  a stream identifier that an earlier answer gave to a terminal, and its bytes, at least
  one and at most 16 KiB, are the output of that terminal that ends at the frame's sequence
  number. This holds in every interleaving of the loop, the forwarder, the terminals, other
  connections and the reaper.
\<close>

theorem live_frames_true:
  assumes "conn_reach cr (dm, cn)" and "f \<in> set (stream_frames (ch_sent (cn_chan cn)))"
  shows "\<exists>ack t. is_ack (ch_sent (cn_chan cn)) ack \<and> oa_stream_id ack = sd_stream_id f \<and>
    t \<in> set (sm_heap (dm_sessions dm)) \<and> tr_id t = ti_terminal (oa_info ack) \<and> frame_true (broadcast t) f"
  using conn_reach_inv [OF assms(1)] assms(2) unfolding conn_inv_def sent_true_def by (force simp: in_set_conv_nth)

text \<open>The part of the output that a stream covers begins where the subscription did.\<close>

definition stream_begin :: "'p daemon \<Rightarrow> attached_stream \<Rightarrow> nat" where
  "stream_begin dm a = length (chunk_bytes (take (fw_start (as_writer a)) (tr_chunks (terminal_at dm (as_terminal a)))))"

lemma stream_complete:
  assumes "conn_reach cr (dm, cn)" and "hm_get (sc_map (cn_streams cn)) s = Some a" and "\<not> fw_lagged (as_writer a)"
  shows "\<exists>ack st e. is_ack (ch_sent (cn_chan cn)) ack \<and> oa_stream_id ack = s \<and> ti_terminal (oa_info ack) = as_terminal_id a \<and>
    st = unat (seq_val (oa_start_seq ack)) \<and> e = unat (seq_val (oa_end_seq ack)) \<and> stream_begin dm a \<le> e \<and> st \<le> e \<and>
    (let S = broadcast (terminal_at dm (as_terminal a));
         ds = sent_on s (ch_sent (cn_chan cn)) @ queued_on s (sc_output (cn_streams cn)) @ map ob_frame (fw_frames (as_writer a));
         live = data_bytes ds @ chunk_bytes (drop (fw_next (as_writer a)) (tr_chunks (terminal_at dm (as_terminal a))))
     in contiguous (stream_begin dm a) ds \<and> live = drop (stream_begin dm a) S \<and>
        oa_render_bytes ack = render_prefix_from_anchor (snapshot_state (tracked (cr_vte cr) (take st S))) @
          take (e - st) (drop st S) \<and>
        take (e - st) (drop st S) @ drop (e - stream_begin dm a) live = drop st S)"
proof -
  let ?t = "terminal_at dm (as_terminal a)" and ?w = "as_writer a"
  let ?n = "length (chunk_bytes (take (fw_start ?w) (tr_chunks ?t)))"
  let ?ds = "sent_on s (ch_sent (cn_chan cn)) @ queued_on s (sc_output (cn_streams cn)) @ map ob_frame (fw_frames ?w)"
  have a: "attached_ok (cr_vte cr) (sm_heap (dm_sessions dm)) (ch_sent (cn_chan cn)) (sc_output (cn_streams cn)) s a"
    using conn_reach_inv [OF assms(1)] assms(2) by (simp add: conn_inv_def)
  then obtain ack where ack: "is_ack (ch_sent (cn_chan cn)) ack" "oa_stream_id ack = s" "ack_true (cr_vte cr) ?t ?n ack"
      "tr_id ?t = as_terminal_id a"
    by (auto simp: attached_ok_def Let_def terminal_at_def)
  have S: "broadcast ?t = chunk_bytes (take (fw_start ?w) (tr_chunks ?t)) @ chunk_bytes (drop (fw_start ?w) (tr_chunks ?t))"
    unfolding broadcast_def chunk_bytes_def by (metis append_take_drop_id concat_append map_append)
  have n: "drop ?n (broadcast ?t) = chunk_bytes (drop (fw_start ?w) (tr_chunks ?t))" by (simp add: S)
  have "contiguous ?n ?ds \<and> data_bytes ?ds @ chunk_bytes (drop (fw_next ?w) (tr_chunks ?t)) =
      chunk_bytes (drop (fw_start ?w) (tr_chunks ?t))"
    using a assms(3) unfolding attached_ok_def Let_def terminal_at_def by blast
  then have live: "data_bytes ?ds @ chunk_bytes (drop (fw_next ?w) (tr_chunks ?t)) = drop ?n (broadcast ?t)" "contiguous ?n ?ds"
    unfolding n by blast+
  let ?st = "unat (seq_val (oa_start_seq ack))" and ?e = "unat (seq_val (oa_end_seq ack))"
  have e: "?n \<le> ?e" "?st \<le> ?e" using ack(3) by (simp_all add: ack_true_def Let_def)
  have "take (?e - ?st) (drop ?st (broadcast ?t)) @ drop (?e - ?n) (drop ?n (broadcast ?t)) = drop ?st (broadcast ?t)"
    using e append_take_drop_id [of "?e - ?st" "drop ?st (broadcast ?t)"] by simp
  with ack e live show ?thesis unfolding Let_def live(1)
    by (intro exI [of _ ack] exI [of _ ?st] exI [of _ ?e]) (simp add: ack_true_def Let_def stream_begin_def)
qed


text \<open>
  No client can make its connection panic: in every reachable state, whatever frame
  comes next and whatever the operating system answers, an iteration of the loop returns.
\<close>

lemma requests_never_panic:
  assumes "conn_reach cr (dm, cn)" and "request_room env (dm, cn)"
  shows "connection_iteration cr env frame_ready (dm, cn) \<noteq> None"
proof -
  have "conn_inv (cr_vte cr) (dm_sessions dm) cn" using conn_reach_inv [OF assms(1)] by simp
  from iteration_ok [OF this assms(2), of frame_ready] show ?thesis by auto
qed


section \<open>Witnesses\<close>

text \<open>Concrete third-party code for the witnesses: a cipher and a codec that hide nothing.\<close>

definition clear_snow :: "(bytes, unit) snow" where
  "clear_snow = \<lparr>sw_parse_params = (\<lambda>_. Inr ()), sw_build_initiator = (\<lambda>b. Inr (nb_local_private b)),
     sw_build_responder = (\<lambda>b. Inr (nb_local_private b)), sw_write_message = (\<lambda>h p n. (Inr h, h)),
     sw_read_message = (\<lambda>h m n. (Inr [], m)), sw_remote_static = Some, sw_is_finished = (\<lambda>_. True),
     sw_into_transport = (\<lambda>_. Inr ()), sw_transport_write = (\<lambda>t m n. (Inr m, t)), sw_transport_read = (\<lambda>t c n. (Inr c, t))\<rparr>"

definition toy_codec :: frame_codec where
  "toy_codec = \<lparr>fc_ser = (\<lambda>_. Some []), fc_de = (\<lambda>b. case b of
     [] \<Rightarrow> None
   | x # _ \<Rightarrow> if x = 1
       then Some (FHello \<lparr>h_protocol_min = 1, h_protocol_max = 1, h_resume = None\<rparr>)
       else Some (FRequest \<lparr>rq_id = RequestId 3, rq_body = ReqOpenTerminal (TerminalId 7)\<rparr>))\<rparr>"

definition toy_crates :: "(bytes, unit, unit) crates" where
  "toy_crates = \<lparr>cr_snow = clear_snow, cr_codec = toy_codec,
     cr_texts = \<lparr>tx_uuid = (\<lambda>_. []), tx_postcard = [], tx_hex = (\<lambda>_. [])\<rparr>, cr_vte = print_vte\<rparr>"


lemma spawn_fresh: "spawn v env p n = (Inr t, started) \<Longrightarrow> tr_id t = se_new_id env \<and> tr_chunks t = []"
  by (auto simp: spawn_def Let_def split: sum.splits)

lemma sample_terminal:
  "\<exists>t0 cs t1. spawn print_vte small_env small_params 100 = (Inr t0, cs) \<and> tr_id t0 = TerminalId 7 \<and> tr_chunks t0 = [] \<and>
     terminal_ok print_vte t0 \<and> terminal_room [ReaderEvent (Inr ()) (ReadData [97, 98])] t0 \<and>
     terminal_run print_vte [ReaderEvent (Inr ()) (ReadData [97, 98])] t0 = Some t1 \<and>
     tr_chunks t1 = [\<lparr>oc_seq_at_end = StreamSeq 2, oc_bytes = [97, 98]\<rparr>] \<and> pr_pending (tr_processor t1) = []"
proof -
  obtain t0 cs where t0: "spawn print_vte small_env small_params 100 = (Inr t0, cs)" "tr_reading t0"
      "pr_pending (tr_processor t0) = []" "rb_tail_offset (tr_ring t0) = 0" "rb_bytes (tr_ring t0) = []"
      "rb_cap (tr_ring t0) = 100"
    by (simp add: spawn_def small_env_def small_params_def build_command_def ring_new_def Let_def MAX_CAPACITY_BYTES_def
      maybe_place_anchor_def processor_new_def)
  have new: "tr_chunks t0 = []" "tr_id t0 = TerminalId 7" using spawn_fresh [OF t0(1)] by (simp_all add: small_env_def)
  have ok: "terminal_ok print_vte t0" using terminal_ok_spawn [OF t0(1)] by simp
  have room: "terminal_room [ReaderEvent (Inr ()) (ReadData [97, 98])] t0"
    using t0(3) new by (simp add: terminal_room_def broadcast_def)
  obtain r' where "push print_vte [97, 98] (tr_ring t0) = Some r'"
    using push_small [of "tr_ring t0" "[97, 98]" print_vte] t0(5,6) by auto
  moreover obtain q where "ring_head_seq r' = StreamSeq q" by (cases "ring_head_seq r'")
  moreover have "process [97, 98] c (tr_processor t0) = ([97, 98], tr_processor t0)" for c
    by (rule process_plain [OF _ t0(3)]) simp
  ultimately have "\<exists>t1. reader_step print_vte (Inr ()) (ReadData [97, 98]) t0 = Some t1 \<and>
      tr_chunks t1 = [\<lparr>oc_seq_at_end = StreamSeq q, oc_bytes = [97, 98]\<rparr>] \<and> pr_pending (tr_processor t1) = []"
    using t0(2,3) new(1) by (simp add: reader_step_def take_pending_title_def take_pending_response_def)
  then obtain t1 where t1: "terminal_run print_vte [ReaderEvent (Inr ()) (ReadData [97, 98])] t0 = Some t1"
      "tr_chunks t1 = [\<lparr>oc_seq_at_end = StreamSeq q, oc_bytes = [97, 98]\<rparr>]" "pr_pending (tr_processor t1) = []"
    by (auto simp: terminal_step_def)
  moreover have "terminal_ok print_vte t1" using terminal_ok_run [OF ok room] t1(1) by auto
  then have "unat q = unat (2 :: u64)" using t1(2) by (simp add: terminal_ok_def)
  then have "q = 2" using word_unat_eq_iff by blast
  ultimately show ?thesis using t0(1) new ok room by blast
qed

definition toy_config :: daemon_config where
  "toy_config = \<lparr>dc_listen = \<lparr>ln_addr = IpV4 0, ln_port = 7842\<rparr>,
    dc_security = \<lparr>sy_identity_path = [], sy_clients_path = [], sy_revoked_path = []\<rparr>, dc_config_path = None,
    dc_relay = \<lparr>ry_base_url = [], ry_psk_hex = [], ry_server_auth_token = None,
      ry_retry = \<lparr>rr_initial_ms = 500, rr_max_ms = 30000, rr_mul_x10 = 20\<rparr>\<rparr>,
    dc_app = \<lparr>ap_base_url = []\<rparr>,
    dc_limits = \<lparr>lc_max_terminals = 8, lc_scrollback_bytes = 100, lc_scrollback_anchor_interval = 65536,
      lc_broadcast_capacity = 1024\<rparr>\<rparr>"

definition toy_daemon :: "unit daemon" where
  "toy_daemon = \<lparr>dm_sessions = session_manager_new 8,
    dm_db = \<lparr>db_state = db_state_default, db_clients_path = clients_path, db_revoked_path = revoked_path,
             db_revocations = [], db_notified = 0\<rparr>,
    dm_config = toy_config,
    dm_server_info = \<lparr>si_server_version = [], si_server_label = None\<rparr>\<rparr>"

lemma toy_recv:
  "tp_incoming (ch_transport ch) = Inr (Some [x]) # rest \<Longrightarrow> recv_frame toy_crates ch =
     (Inr (the (fc_de toy_codec [x])), ch\<lparr>ch_transport := (ch_transport ch)\<lparr>tp_incoming := rest\<rparr>\<rparr>)"
  by (simp add: recv_frame_def recv_or_closed_def transport_recv_def toy_crates_def decrypt_def
      NOISE_MAX_MSG_LEN_def clear_snow_def decode_frame_def toy_codec_def)

lemma toy_send:
  "tp_answer (ch_transport ch) = (\<lambda>_. Inr ()) \<Longrightarrow> send_frame toy_crates f ch =
     (Inr (), ch\<lparr>ch_transport := (ch_transport ch)\<lparr>tp_sent := tp_sent (ch_transport ch) @ [[]]\<rparr>, ch_sent := ch_sent ch @ [f]\<rparr>)"
  by (cases ch) (simp add: send_frame_def toy_crates_def encode_frame_def toy_codec_def encrypt_def NOISE_MAX_MSG_LEN_def
      NOISE_TAG_LEN_def clear_snow_def send_or_fail_def transport_send_def)


lemma toy_start:
  "\<exists>cn ch. start_connection toy_crates (SessionId 1) (ClientId 1) dm
      \<lparr>ch_transport = \<lparr>tp_incoming = [Inr (Some [1]), Inr (Some [2])], tp_sent = [], tp_answer = (\<lambda>_. Inr ())\<rparr>,
       ch_session = (), ch_sent = []\<rparr> = (Inr cn, ch) \<and>
    cn_streams cn = \<lparr>sc_map = [], sc_next_local_stream_id = 1, sc_output = []\<rparr> \<and> cn_seen cn = db_notified (dm_db dm) \<and>
    stream_frames (ch_sent (cn_chan cn)) = [] \<and> tp_incoming (ch_transport (cn_chan cn)) = [Inr (Some [2])] \<and>
    tp_answer (ch_transport (cn_chan cn)) = (\<lambda>_. Inr ()) \<and> (\<forall>ack. \<not> is_ack (ch_sent (cn_chan cn)) ack)"
  by (simp add: start_connection_def toy_recv toy_send) (simp add: toy_codec_def validate_hello_def PROTOCOL_VERSION_def
      toy_send stream_frames_def is_ack_def)

definition toy_env :: request_env where
  "toy_env = \<lparr>re_spawn = small_env, re_now_ms = 0, re_kill = Inr (), re_kill_gone = False, re_kill_polls = [],
     re_write = Inr (), re_resize = Inr (), re_save = Inr (), re_during = []\<rparr>"

definition toy_open_daemon :: "unit terminal \<Rightarrow> unit daemon" where
  "toy_open_daemon t = toy_daemon\<lparr>dm_sessions := create_insert 0 t (session_manager_new 8)\<rparr>"

lemma toy_daemon_reach:
  assumes "spawn print_vte small_env small_params 100 = (Inr t, cs)"
  shows "daemon_reach print_vte (toy_open_daemon t)"
proof -
  have "create print_vte small_env 0 small_params 100 (dm_sessions toy_daemon) =
      (Inr (terminal_info_of (tr_id t) 0 t), create_insert 0 t (session_manager_new 8), cs)"
    using assms by (simp add: create_def create_check_def session_manager_new_def toy_daemon_def)
  from daemon_continue [OF daemon_start daemon_create [OF this], of 8] show ?thesis
    by (simp add: toy_open_daemon_def toy_daemon_def)
qed

lemma toy_opened:
  assumes t: "tr_id t = TerminalId 7" "tr_chunks t = []" "terminal_ok print_vte t" "pr_pending (tr_processor t) = []"
    and cn: "cn_streams cn = \<lparr>sc_map = [], sc_next_local_stream_id = 1, sc_output = []\<rparr>" "cn_seen cn = 0"
      "tp_incoming (ch_transport (cn_chan cn)) = [Inr (Some [2])]" "tp_answer (ch_transport (cn_chan cn)) = (\<lambda>_. Inr ())"
      "stream_frames (ch_sent (cn_chan cn)) = []" "\<forall>ack. \<not> is_ack (ch_sent (cn_chan cn)) ack"
  shows "\<exists>cn'. conn_step toy_crates (toy_open_daemon t, cn) (toy_open_daemon t, cn') \<and>
    (\<forall>ack. is_ack (ch_sent (cn_chan cn')) ack \<longrightarrow> unat (seq_val (oa_end_seq ack)) = 0) \<and>
    cn_streams cn' = \<lparr>sc_map = [(StreamId 1, \<lparr>as_terminal = 0, as_terminal_id = TerminalId 7,
        as_writer = \<lparr>fw_next = 0, fw_frames = [], fw_done = False, fw_start = 0, fw_lagged = False\<rparr>\<rparr>)],
      sc_next_local_stream_id = 2, sc_output = []\<rparr> \<and> cn_seen cn' = 0 \<and>
    tp_answer (ch_transport (cn_chan cn')) = (\<lambda>_. Inr ()) \<and> stream_frames (ch_sent (cn_chan cn')) = []"
proof -
  let ?dm = "toy_open_daemon t"
  let ?ch = "(cn_chan cn)\<lparr>ch_transport := (ch_transport (cn_chan cn))\<lparr>tp_incoming := []\<rparr>\<rparr>"
  let ?cn = "set_chan ?ch cn"
  have ok: "sessions_ok print_vte (dm_sessions ?dm)" "attach (TerminalId 7) (dm_sessions ?dm) = Some 0" "terminal_at ?dm 0 = t"
    using t by (simp_all add: sessions_ok_def toy_open_daemon_def create_insert_def session_manager_new_def hm_simps attach_def
        terminal_at_def)
  have v: "print_vte = cr_vte toy_crates" by (simp add: toy_crates_def)
  have run: "terminal_run print_vte [] (terminal_at ?dm 0) = Some t" using ok(3) by simp
  obtain ack where ack: "unat (seq_val (oa_end_seq ack)) = length (broadcast t)"
      "handle_open_terminal_request toy_crates [] (RequestId 3) (TerminalId 7) (?dm, ?cn) =
      (case send_ok_response toy_crates (RequestId 3) (RspOpenTerminal ack) (cn_chan ?cn) of
         (Inl e, ch) \<Rightarrow> Some (Inl e, set_terminal 0 t ?dm, set_chan ch (set_streams (next_stream ?cn) ?cn))
       | (Inr _, ch) \<Rightarrow> Some (Inr (), set_terminal 0 t ?dm, set_chan ch (set_streams (opened_streams 0 (TerminalId 7)
            (length (tr_chunks (terminal_at ?dm 0))) ?cn) ?cn)))"
    using open_answer [OF ok(1) v ok(2) run t(3) refl] by blast
  have st: "set_terminal 0 t ?dm = ?dm"
    by (simp add: set_terminal_def toy_open_daemon_def create_insert_def session_manager_new_def)
  let ?ch' = "?ch\<lparr>ch_transport := (ch_transport ?ch)\<lparr>tp_sent := tp_sent (ch_transport ?ch) @ [[]]\<rparr>,
    ch_sent := ch_sent ?ch @ [FResponse \<lparr>rs_id = RequestId 3, rs_result = Inr (RspOpenTerminal ack)\<rparr>]\<rparr>"
  let ?cn' = "set_chan ?ch' (set_streams (opened_streams 0 (TerminalId 7) 0 ?cn) ?cn)"
  have "send_ok_response toy_crates (RequestId 3) (RspOpenTerminal ack) (cn_chan ?cn) = (Inr (), ?ch')"
    using toy_send [of ?ch] cn(4) by (simp add: send_ok_response_def set_chan_def)
  then have h: "handle_open_terminal_request toy_crates [] (RequestId 3) (TerminalId 7) (?dm, ?cn) = Some (Inr (), ?dm, ?cn')"
    using ack(2) st ok(3) t(2) by simp
  have it: "connection_iteration toy_crates toy_env True (?dm, cn) = Some (Loop, ?dm, ?cn')"
    using toy_recv [OF cn(3)] h cn(2)
    by (simp add: connection_iteration_def on_frame_def toy_codec_def handle_request_def toy_env_def toy_open_daemon_def toy_daemon_def)
  have room: "request_room toy_env (?dm, cn)"
    using t cn(1) by (simp add: request_room_def toy_env_def toy_open_daemon_def create_insert_def session_manager_new_def
        terminal_room_def broadcast_def)
  have "conn_step toy_crates (?dm, cn) (?dm, ?cn')" by (rule conn_loop [OF room it])
  moreover have "cn_streams ?cn' = \<lparr>sc_map = [(StreamId 1, \<lparr>as_terminal = 0, as_terminal_id = TerminalId 7,
        as_writer = \<lparr>fw_next = 0, fw_frames = [], fw_done = False, fw_start = 0, fw_lagged = False\<rparr>\<rparr>)],
      sc_next_local_stream_id = 2, sc_output = []\<rparr>"
    using cn(1) by (simp add: set_chan_def set_streams_def opened_streams_def next_stream_def clear_attached_streams_def
        hm_insert_def sat_add_def)
  moreover have "stream_frames (ch_sent (cn_chan ?cn')) = []" using cn(5) by (simp add: set_chan_def)
  moreover have "\<forall>ack. is_ack (ch_sent (cn_chan ?cn')) ack \<longrightarrow> unat (seq_val (oa_end_seq ack)) = 0"
    using cn(6) ack(1) t(2) by (auto simp: set_chan_def is_ack_def broadcast_def)
  ultimately show ?thesis using cn(2,4) by (intro exI [of _ ?cn']) (simp add: set_chan_def set_streams_def)
qed


lemma toy_forwarded:
  assumes t: "tr_chunks t = [\<lparr>oc_seq_at_end = StreamSeq 2, oc_bytes = [97, 98]\<rparr>]" "sm_heap (dm_sessions dm) = [t]"
    "db_notified (dm_db dm) = 0"
    and cn: "cn_streams cn = \<lparr>sc_map = [(StreamId 1, \<lparr>as_terminal = 0, as_terminal_id = TerminalId 7,
        as_writer = \<lparr>fw_next = 0, fw_frames = [], fw_done = False, fw_start = 0, fw_lagged = False\<rparr>\<rparr>)],
      sc_next_local_stream_id = 2, sc_output = []\<rparr>" "cn_seen cn = 0"
      "tp_answer (ch_transport (cn_chan cn)) = (\<lambda>_. Inr ())" "stream_frames (ch_sent (cn_chan cn)) = []"
    and acks: "\<forall>ack. is_ack (ch_sent (cn_chan cn)) ack \<longrightarrow> unat (seq_val (oa_end_seq ack)) = 0"
    and reach: "conn_reach toy_crates (dm, cn)" and room: "request_room toy_env (dm, cn)"
  shows "\<exists>cn' f a. conn_reach toy_crates (dm, cn') \<and> stream_frames (ch_sent (cn_chan cn')) = [f] \<and> sd_bytes f = [97, 98] \<and>
    hm_get (sc_map (cn_streams cn')) (StreamId 1) = Some a \<and> \<not> fw_lagged (as_writer a) \<and>
    sd_stream_id f = StreamId 1 \<and> request_room toy_env (dm, cn') \<and> fw_start (as_writer a) = 0 \<and>
    as_terminal_id a = TerminalId 7 \<and> (\<forall>ack. is_ack (ch_sent (cn_chan cn')) ack \<longrightarrow> unat (seq_val (oa_end_seq ack)) = 0)"
proof -
  let ?f = "\<lparr>sd_stream_id = StreamId 1, sd_seq = StreamSeq 2, sd_offset = None, sd_bytes = [97, 98], sd_last = False\<rparr>"
  let ?out = "\<lparr>ob_stream = StreamId 1, ob_terminal_id = TerminalId 7, ob_frame = ?f\<rparr>"
  let ?map = "\<lambda>fs. [(StreamId 1, \<lparr>as_terminal = 0, as_terminal_id = TerminalId 7,
        as_writer = \<lparr>fw_next = 1, fw_frames = fs, fw_done = False, fw_start = 0, fw_lagged = False\<rparr>\<rparr>)]"
  let ?cn1 = "set_streams \<lparr>sc_map = ?map [?out], sc_next_local_stream_id = 2, sc_output = []\<rparr> cn"
  let ?cn2 = "set_streams \<lparr>sc_map = ?map [], sc_next_local_stream_id = 2, sc_output = [?out]\<rparr> cn"
  have "pieces OUTPUT_CHUNK_BYTES [97, 98 :: u8] = [[97, 98]]"
    by (simp add: pieces_Cons OUTPUT_CHUNK_BYTES_def)
  then have "set_streams (forwarder_round (cr_texts toy_crates) (sm_heap (dm_sessions dm)) (StreamId 1) (cn_streams cn)) cn = ?cn1"
    using t(1,2) cn(1) by (simp add: forwarder_round_def hm_get_def hm_insert_def forwarder_recv_def subscription_recv_def
        SUBSCRIBER_CAP_def live_output_frames_def checked_sub_def sat_add_def)
  then have r1: "conn_reach toy_crates (dm, ?cn1)" using conn_continue [OF reach conn_recv, of "StreamId 1"] by simp
  have "set_streams (forwarder_send (StreamId 1) (cn_streams ?cn1)) ?cn1 = ?cn2"
    by (simp add: forwarder_send_def set_streams_def hm_get_def hm_insert_def)
  then have r2: "conn_reach toy_crates (dm, ?cn2)" using conn_continue [OF r1 conn_hand, of "StreamId 1"] by simp
  let ?ch = "(cn_chan cn)\<lparr>ch_transport := (ch_transport (cn_chan cn))\<lparr>tp_sent := tp_sent (ch_transport (cn_chan cn)) @ [[]]\<rparr>,
    ch_sent := ch_sent (cn_chan cn) @ [FStreamData ?f]\<rparr>"
  let ?cn3 = "set_chan ?ch (set_streams \<lparr>sc_map = ?map [], sc_next_local_stream_id = 2, sc_output = []\<rparr> cn)"
  have it: "connection_iteration toy_crates toy_env False (dm, ?cn2) = Some (Loop, dm, ?cn3)"
    using toy_send [OF cn(3), of "FStreamData ?f"] cn(2) t(3)
    by (simp add: connection_iteration_def on_output_def set_streams_def hm_get_def Let_def)
  have "request_room toy_env (dm, ?cn2)" using room by (simp add: request_room_def set_streams_def)
  from conn_continue [OF r2 conn_loop [OF this it]] cn(4) room acks show ?thesis
    by (intro exI [of _ ?cn3] exI [of _ ?f]) (simp add: set_chan_def set_streams_def stream_frames_def hm_get_def
        request_room_def cn(1) is_ack_def)
qed

lemma sample_live:
  "\<exists>dm cn f a. conn_reach toy_crates (dm, cn) \<and> stream_frames (ch_sent (cn_chan cn)) = [f] \<and> sd_bytes f = [97, 98] \<and>
     hm_get (sc_map (cn_streams cn)) (StreamId 1) = Some a \<and> \<not> fw_lagged (as_writer a) \<and>
     sd_stream_id f = StreamId 1 \<and> request_room toy_env (dm, cn) \<and> fw_start (as_writer a) = 0 \<and>
     as_terminal_id a = TerminalId 7 \<and> (\<forall>ack. is_ack (ch_sent (cn_chan cn)) ack \<longrightarrow> unat (seq_val (oa_end_seq ack)) = 0)"
proof -
  let ?evs = "[ReaderEvent (Inr ()) (ReadData [97, 98])]"
  obtain t0 cs t1 where t: "spawn print_vte small_env small_params 100 = (Inr t0, cs)" "tr_id t0 = TerminalId 7"
      "tr_chunks t0 = []" "terminal_ok print_vte t0" "terminal_room ?evs t0" "terminal_run print_vte ?evs t0 = Some t1"
      "tr_chunks t1 = [\<lparr>oc_seq_at_end = StreamSeq 2, oc_bytes = [97, 98]\<rparr>]" "pr_pending (tr_processor t1) = []"
    using sample_terminal by blast
  let ?dm = "toy_open_daemon t0" and ?dm1 = "set_terminal 0 t1 (toy_open_daemon t0)"
  have at: "terminal_at ?dm 0 = t0" "sm_heap (dm_sessions ?dm) = [t0]" "db_notified (dm_db ?dm) = 0"
    by (simp_all add: terminal_at_def toy_open_daemon_def create_insert_def session_manager_new_def toy_daemon_def)
  have dr: "daemon_reach (cr_vte toy_crates) ?dm" using toy_daemon_reach [OF t(1)] by (simp add: toy_crates_def)
  obtain cn ch where cn: "start_connection toy_crates (SessionId 1) (ClientId 1) ?dm
      \<lparr>ch_transport = \<lparr>tp_incoming = [Inr (Some [1]), Inr (Some [2])], tp_sent = [], tp_answer = (\<lambda>_. Inr ())\<rparr>,
       ch_session = (), ch_sent = []\<rparr> = (Inr cn, ch)"
    "cn_streams cn = \<lparr>sc_map = [], sc_next_local_stream_id = 1, sc_output = []\<rparr>" "cn_seen cn = db_notified (dm_db ?dm)"
    "stream_frames (ch_sent (cn_chan cn)) = []" "tp_incoming (ch_transport (cn_chan cn)) = [Inr (Some [2])]"
    "tp_answer (ch_transport (cn_chan cn)) = (\<lambda>_. Inr ())" "\<forall>ack. \<not> is_ack (ch_sent (cn_chan cn)) ack"
    using toy_start by blast
  have r0: "conn_reach toy_crates (?dm, cn)" by (rule conn_start [OF dr cn(1)])
  have p: "pr_pending (tr_processor t0) = []" using terminal_ok_spawn [OF t(1)] by simp
  have seen: "cn_seen cn = 0" using cn(3) at(3) by simp
  obtain cn' where cn': "conn_step toy_crates (?dm, cn) (?dm, cn')"
    "cn_streams cn' = \<lparr>sc_map = [(StreamId 1, \<lparr>as_terminal = 0, as_terminal_id = TerminalId 7,
        as_writer = \<lparr>fw_next = 0, fw_frames = [], fw_done = False, fw_start = 0, fw_lagged = False\<rparr>\<rparr>)],
      sc_next_local_stream_id = 2, sc_output = []\<rparr>" "cn_seen cn' = 0"
    "tp_answer (ch_transport (cn_chan cn')) = (\<lambda>_. Inr ())" "stream_frames (ch_sent (cn_chan cn')) = []"
    "\<forall>ack. is_ack (ch_sent (cn_chan cn')) ack \<longrightarrow> unat (seq_val (oa_end_seq ack)) = 0"
    using toy_opened [OF t(2,3,4) p cn(2) seen cn(5,6,4,7)] by blast
  have "daemon_step (cr_vte toy_crates) ?dm ?dm1"
    using daemon_terminal [of 0 ?dm ?evs print_vte t1] t(5,6) at by (simp add: toy_crates_def)
  then have r1: "conn_reach toy_crates (?dm1, cn')"
    using conn_continue [OF conn_continue [OF r0 cn'(1)] conn_daemon] by blast
  have heap: "sm_heap (dm_sessions ?dm1) = [t1]" "db_notified (dm_db ?dm1) = 0" using at by (simp_all add: set_terminal_def)
  have room: "request_room toy_env (?dm1, cn')"
    using heap(1) cn'(2) t(7,8) by (simp add: request_room_def toy_env_def terminal_room_def broadcast_def)
  from toy_forwarded [OF t(7) heap cn'(2-6) r1 room] show ?thesis by blast
qed

theorem live_frames_true_witness:
  "\<exists>dm cn f. conn_reach toy_crates (dm, cn) \<and> f \<in> set (stream_frames (ch_sent (cn_chan cn))) \<and> sd_bytes f = [97, 98] \<and>
     (\<exists>t. t \<in> set (sm_heap (dm_sessions dm)) \<and> frame_true (broadcast t) f)"
proof -
  obtain dm cn f where r: "conn_reach toy_crates (dm, cn)" "stream_frames (ch_sent (cn_chan cn)) = [f]" "sd_bytes f = [97, 98]"
    using sample_live by blast
  then have "f \<in> set (stream_frames (ch_sent (cn_chan cn)))" by simp
  from live_frames_true [OF r(1) this] r this show ?thesis by blast
qed


end
