(* ===== verification/Daemon_Requests.thy ===== *)
theory Daemon_Requests
  imports Daemon_Live
begin

text \<open>
  What a connection owes its client: one answer of the right type for every request, and
  the end of the session when the client is revoked. Two ways in which it fails: an answer
  too large for the cipher ends the session, and a client that is revoked between its
  handshake and its hello is served.
\<close>

section \<open>Answers\<close>

definition response_fits :: "request_body \<Rightarrow> response_body \<Rightarrow> bool" where
  "response_fits rq rsp \<longleftrightarrow>
     (case rsp of
        RspListTerminals _ \<Rightarrow> rq = ReqListTerminals
      | RspCreateTerminal _ \<Rightarrow> (case rq of ReqCreateTerminal _ \<Rightarrow> True | _ \<Rightarrow> False)
      | RspOpenTerminal ack \<Rightarrow> rq = ReqOpenTerminal (ti_terminal (oa_info ack))
      | RspReadHistory p \<Rightarrow> (case rq of ReqReadHistory i _ _ \<Rightarrow> i = hp_terminal_id p | _ \<Rightarrow> False)
      | RspKillTerminal \<Rightarrow> (case rq of ReqKillTerminal _ \<Rightarrow> True | _ \<Rightarrow> False)
      | RspGetServerConfig _ \<Rightarrow> rq = ReqGetServerConfig
      | RspSetServerConfig c \<Rightarrow> rq = ReqSetServerConfig c
      | RspSendInput \<Rightarrow> (case rq of ReqSendInput _ _ \<Rightarrow> True | _ \<Rightarrow> False)
      | RspResizeTerminal \<Rightarrow> (case rq of ReqResizeTerminal _ _ _ \<Rightarrow> True | _ \<Rightarrow> False))"

text \<open>Either one response went out, or the channel failed and none did.\<close>

definition one_answer :: "request_frame \<Rightarrow> frame list \<Rightarrow> (daemon_error, unit) result \<Rightarrow> frame list \<Rightarrow> bool" where
  "one_answer rq sent r sent' \<longleftrightarrow>
     (if is_err r then sent' = sent
      else (\<exists>res. sent' = sent @ [FResponse \<lparr>rs_id = rq_id rq, rs_result = res\<rparr>] \<and>
              (is_err res \<or> response_fits (rq_body rq) (projr res))))"

definition answers ::
  "request_frame \<Rightarrow> frame list \<Rightarrow> ((daemon_error, unit) result \<times> 'p daemon \<times> 't connection) option \<Rightarrow> bool" where
  "answers rq sent x \<longleftrightarrow> (case x of None \<Rightarrow> True | Some (r, _, cn) \<Rightarrow> one_answer rq sent r (ch_sent (cn_chan cn)))"

lemma send_frame_log:
  "send_frame cr f ch = (r, ch') \<Longrightarrow> ch_sent ch' = ch_sent ch @ (if is_err r then [] else [f])"
  by (auto simp: send_frame_def split: sum.splits prod.splits)

lemma send_response_answers:
  assumes "send_frame cr (FResponse \<lparr>rs_id = rq_id rq, rs_result = res\<rparr>) ch = (r, ch')"
    and "is_err res \<or> response_fits (rq_body rq) (projr res)"
  shows "one_answer rq (ch_sent ch) r (ch_sent ch')"
  using send_frame_log [OF assms(1)] assms(2) by (auto simp: one_answer_def)

lemma respond_answers:
  assumes "is_err res \<or> response_fits (rq_body rq) (projr res)" and "ch_sent ch = sent"
  shows "answers rq sent (respond (send_frame cr (FResponse \<lparr>rs_id = rq_id rq, rs_result = res\<rparr>) ch) s)"
proof -
  obtain r ch' where f: "send_frame cr (FResponse \<lparr>rs_id = rq_id rq, rs_result = res\<rparr>) ch = (r, ch')" by fastforce
  show ?thesis
    using send_response_answers [OF f assms(1)] assms(2)
    by (cases s) (simp add: f respond_def answers_def set_chan_def)
qed

lemma respond_kinds:
  assumes "ch_sent ch = sent"
  shows "response_fits (rq_body rq) b \<Longrightarrow> answers rq sent (respond (send_ok_response cr (rq_id rq) b ch) s)"
    and "answers rq sent (respond (send_error_response cr (rq_id rq) e ch) s)"
    and "(\<And>b. x = Inr b \<Longrightarrow> response_fits (rq_body rq) b) \<Longrightarrow> answers rq sent (respond (answer cr (rq_id rq) x ch) s)"
proof -
  show ok: "answers rq sent (respond (send_ok_response cr (rq_id rq) b ch) s)" if "response_fits (rq_body rq) b" for b
    unfolding send_ok_response_def by (rule respond_answers) (simp_all add: that assms)
  show err: "answers rq sent (respond (send_error_response cr (rq_id rq) e ch) s)" for e
    unfolding send_error_response_def by (rule respond_answers) (simp_all add: assms)
  show "answers rq sent (respond (answer cr (rq_id rq) x ch) s)" if "\<And>b. x = Inr b \<Longrightarrow> response_fits (rq_body rq) b"
    using ok err that by (cases x) (simp_all add: answer_def)
qed

lemma open_answers:
  assumes rq: "rq_body rq = ReqOpenTerminal i"
  shows "answers rq (ch_sent (cn_chan cn)) (handle_open_terminal_request cr during (rq_id rq) i (dm, cn))"
proof (cases "attach i (dm_sessions dm)")
  case None
  then show ?thesis by (simp add: handle_open_terminal_request_def respond_kinds)
next
  case (Some h)
  show ?thesis
  proof (cases "terminal_run (cr_vte cr) during (terminal_at dm h)")
    case None
    with Some show ?thesis by (simp add: handle_open_terminal_request_def answers_def Let_def)
  next
    case t: (Some t)
    show ?thesis
    proof (cases "List.find (\<lambda>info. ti_terminal info = i) (session_list (dm_sessions (set_terminal h t dm)))")
      case None
      with Some t show ?thesis by (simp add: handle_open_terminal_request_def Let_def respond_kinds)
    next
      case info: (Some info)
      then have "ti_terminal info = i" by (auto simp: find_Some_iff)
      then have fits: "response_fits (rq_body rq) (RspOpenTerminal \<lparr>oa_stream_id = st, oa_info = info, oa_start_seq = a,
          oa_end_seq = e, oa_render_bytes = bs, oa_has_more_history = b\<rparr>)" for st a e bs b
        using rq by (simp add: response_fits_def)
      have sent: "one_answer rq (ch_sent (cn_chan cn)) r (ch_sent ch)"
        if "send_ok_response cr (rq_id rq) body (cn_chan cn) = (r, ch)" "response_fits (rq_body rq) body" for body r ch
        using send_response_answers [OF that(1) [unfolded send_ok_response_def]] that(2) by simp
      show ?thesis using Some t info
        by (auto simp: handle_open_terminal_request_def Let_def answers_def set_chan_def split: option.splits sum.splits prod.splits
          dest!: sent [OF _ fits])
    qed
  qed
qed

lemma request_answered:
  assumes "handle_request cr env rq (dm, cn) = Some (r, dm', cn')"
  shows "one_answer rq (ch_sent (cn_chan cn)) r (ch_sent (cn_chan cn'))"
proof -
  note k = respond_kinds [OF refl]
  have "answers rq (ch_sent (cn_chan cn)) (handle_request cr env rq (dm, cn))"
  proof (cases "rq_body rq")
    case (ReqOpenTerminal i)
    with open_answers [OF this] show ?thesis by (simp add: handle_request_def)
  next
    case (ReqReadHistory i b n)
    then show ?thesis
      by (auto simp: handle_request_def handle_history_read_request_def answers_def [of _ _ None] response_fits_def intro!: k split: option.split)
  next
    case (ReqSetServerConfig c)
    then show ?thesis
      by (auto simp: handle_request_def apply_server_config_update_def Let_def response_fits_def intro!: k split: sum.split prod.split)
  qed (auto simp: handle_request_def response_fits_def intro!: k split: prod.split option.split dest: sym simp: and_then_Inr)
  with assms show ?thesis by (simp add: answers_def)
qed



section \<open>Revocation\<close>

lemma revoke_notifies:
  assumes "revoke js env i (db, fs) = (Inr (), db', fs')" and "\<not> is_revoked i db"
  shows "is_revoked i db' \<and> db_notified db' = Suc (db_notified db)"
  using assms by (auto simp: revoke_def with_revoked_def is_revoked_def notify_revocations_def set_state_def split: sum.splits prod.splits)


text \<open>
  A client that is revoked after its handshake and before its hello is served all the
  same: \<open>revoke\<close> succeeds, the client says hello afterwards, and its next request is handled
  like anybody's. Only the handshake looks at the revocations, and the loop watches only
  the changes that come after the hello.
\<close>

lemma revoked_before_hello_is_served:
  assumes "revoke js wenv client (db, fs) = (Inr (), dm_db dm, fs')" and "\<not> is_revoked client db"
    and "start_connection cr sid client dm ch = (Inr cn, ch')"
    and "recv_frame cr (cn_chan cn) = (Inr (FRequest rq), ch2)"
  shows "is_revoked (cn_client cn) (dm_db dm) \<and>
    connection_iteration cr env True (dm, cn) =
      map_option (\<lambda>(r, dm', cn'). (loop_of r, dm', cn')) (handle_request cr env rq (dm, set_chan ch2 cn))"
proof -
  have cn: "cn_client cn = client" "cn_seen cn = db_notified (dm_db dm)"
    using assms(3) by (auto simp: start_connection_def split: sum.splits prod.splits frame.splits)
  then show ?thesis
    using revoke_notifies [OF assms(1,2)] assms(4) by (simp add: connection_iteration_def on_frame_def)
qed

section \<open>An answer that is too large\<close>

text \<open>
  A history request can end the session: the server sends as many bytes as the client
  asks for and the scrollback holds in a single message, so a page of more than 65519
  bytes is refused by the cipher, no answer goes out, and the error ends the connection.
\<close>

lemma large_history_page_ends_connection:
  assumes "attach i (dm_sessions dm) = Some h" and "window v S (tr_ring (terminal_at dm h))"
    and "65519 < length (rb_bytes (tr_ring (terminal_at dm h)))" and "65519 < unat n"
    and "\<And>p. \<exists>b. fc_ser (cr_codec cr) (FResponse \<lparr>rs_id = rid, rs_result = Inr (RspReadHistory p)\<rparr>) = Some b \<and>
      length (hp_bytes p) \<le> length b"
  shows "handle_history_read_request cr rid i None n (dm, cn) = Some (Inl (DaemonCrypto PayloadTooLarge), dm, cn)"
proof -
  let ?r = "tr_ring (terminal_at dm h)"
  have w: "unat (rb_tail_offset ?r) \<le> length S" "rb_bytes ?r = drop (unat (rb_tail_offset ?r)) S"
    using assms(2) by (simp_all add: window_def)
  have n: "unat (ucast n :: u64) = unat n" using unat_lt_pow [of n] by (simp add: unsigned_ucast_eq take_bit_nat_eq_self)
  obtain p where p: "terminal_history_page None (ucast n) (terminal_at dm h) = Some p" "65519 < length (hs_bytes p)"
    using history_page_window [OF assms(2), of None "ucast n"] assms(3,4) w n
    by (auto simp: terminal_history_page_def page_end_def)
  let ?page = "\<lparr>hp_terminal_id = i, hp_start_seq = hs_start_seq p, hp_end_seq = hs_end_seq p,
                 hp_bytes = hs_bytes p, hp_has_more = hs_has_more p\<rparr>"
  obtain b where b: "fc_ser (cr_codec cr) (FResponse \<lparr>rs_id = rid, rs_result = Inr (RspReadHistory ?page)\<rparr>) = Some b"
      "65519 < length b"
    using assms(5) [of ?page] p(2) by auto
  then show ?thesis using assms(1) p(1)
    by (simp add: handle_history_read_request_def respond_def send_ok_response_def send_frame_def encode_frame_def encrypt_def
        NOISE_MAX_MSG_LEN_def NOISE_TAG_LEN_def set_chan_def)
qed

section \<open>Witnesses\<close>


definition toy_connection :: "unit connection" where
  "toy_connection = \<lparr>cn_chan = \<lparr>ch_transport = \<lparr>tp_incoming = [], tp_sent = [], tp_answer = (\<lambda>_. Inr ())\<rparr>,
       ch_session = (), ch_sent = []\<rparr>,
     cn_streams = \<lparr>sc_map = [], sc_next_local_stream_id = 1, sc_output = []\<rparr>, cn_client = ClientId 1, cn_seen = 0\<rparr>"


lemma toy_revoke:
  "\<exists>db fs db' fs'. revoke toy_json quiet_env (ClientId 1) (db, fs) = (Inr (), db', fs') \<and> \<not> is_revoked (ClientId 1) db"
proof -
  obtain db fs where o: "open_db \<lparr>tx_uuid = (\<lambda>_. []), tx_postcard = [], tx_hex = (\<lambda>_. [])\<rparr> toy_json quiet_env clients_path
        revoked_path (\<lambda>_. None) = (Inr db, fs)"
      "\<forall>q. fs q \<noteq> None \<longrightarrow> plain_path q" "st_revoked (db_state db) = []" "db_revoked_path db = revoked_path"
    using toy_open by blast
  have none: "\<not> is_revoked (ClientId 1) db" using o(3) by (simp add: is_revoked_def)
  obtain b where b: "js_write_revoked toy_json (revoked_file ((db_state db)\<lparr>st_revoked := ClientId 1 # st_revoked (db_state db)\<rparr>)) = Inr b"
    using toy_json_ok unfolding json_ok_def by blast
  from revoke_quiet [OF sample_paths(5) _ o(2) none b refl] o(4) sample_paths(2) none show ?thesis by metis
qed


end
