(* ===== verification/Client_Types.thy ===== *)
theory Client_Types
  imports Shared_Texts
begin

text \<open>
  What the client's modules (\<open>crates/client/client-core/src\<close>) share: its errors
  (\<open>error.rs\<close>), events (\<open>events.rs\<close>), pages and answers (\<open>history.rs\<close>, \<open>open_ack.rs\<close>), the
  handle of the open terminal and its commands (\<open>terminal.rs\<close>), and a client's transport
  (\<open>traits.rs\<close>). The texts that \<open>derive(Debug)\<close> makes are a parameter.
\<close>

record client_texts =
  ct_texts :: texts
  ct_frame :: "frame \<Rightarrow> string"
  ct_ctrl :: "relay_ctrl \<Rightarrow> string"
  ct_close_reason :: "pair_close_reason \<Rightarrow> string"
  ct_bye :: "bye_reason \<Rightarrow> string"

section \<open>Errors\<close>

datatype client_error =
    ClientTransport string
  | ClientCrypto string
  | ClientProto string
  | ClientIdentityError string
  | ClientRejected bye_reason
  | NotConnected
  | NoTerminal
  | ClientClosed
  | ConnectTimeout u64
  | ClientInternal string

fun client_error_text :: "client_texts \<Rightarrow> client_error \<Rightarrow> string" where
  "client_error_text tx (ClientTransport e) = ''transport: '' @ e"
| "client_error_text tx (ClientCrypto e) = ''crypto: '' @ e"
| "client_error_text tx (ClientProto e) = ''proto: '' @ e"
| "client_error_text tx (ClientIdentityError e) = ''identity store: '' @ e"
| "client_error_text tx (ClientRejected r) = ''rejected: '' @ ct_bye tx r"
| "client_error_text tx NotConnected = ''not connected''"
| "client_error_text tx NoTerminal = ''terminal not attached''"
| "client_error_text tx ClientClosed = ''backend closed''"
| "client_error_text tx (ConnectTimeout n) = ''connection timed out after '' @ show_nat (unat n) @ ''ms''"
| "client_error_text tx (ClientInternal e) = ''internal: '' @ e"

definition from_noise :: "noise_error \<Rightarrow> client_error" where
  "from_noise e = ClientCrypto (noise_error_text e)"

definition from_codec :: "client_texts \<Rightarrow> codec_error \<Rightarrow> client_error" where
  "from_codec tx e = ClientProto (codec_error_text (ct_texts tx) e)"

definition from_transport :: "transport_error \<Rightarrow> client_error" where
  "from_transport e = ClientTransport (transport_error_text e)"

text \<open>\<open>?\<close> on a result of another module.\<close>

fun map_err :: "('e \<Rightarrow> 'f) \<Rightarrow> ('e, 'a) result \<Rightarrow> ('f, 'a) result" where
  "map_err f (Inl e) = Inl (f e)"
| "map_err f (Inr a) = Inr a"

section \<open>What a client sees\<close>

record terminal_open_ack =
  to_stream_id :: stream_id
  to_info :: terminal_info
  to_start_seq :: stream_seq
  to_end_seq :: stream_seq
  to_render_bytes :: bytes
  to_has_more_history :: bool

record terminal_history =
  th_terminal_id :: terminal_id
  th_start_seq :: stream_seq
  th_end_seq :: stream_seq
  th_bytes :: bytes
  th_has_more :: bool

datatype client_event =
    EventConnecting
  | EventConnected session_id "string option"
  | EventDisconnected bool string
  | EventTerminalCreated terminal_info
  | EventTerminalOutput terminal_id stream_seq bytes
  | EventError string

text \<open>The handle of the open terminal; the commands it takes go into a queue of the session.\<close>

record terminal_handle =
  hd_info :: terminal_info
  hd_stream :: stream_id
  hd_last_seq :: "stream_seq option"

definition handle_terminal_id :: "terminal_handle \<Rightarrow> terminal_id" where
  "handle_terminal_id h = ti_terminal (hd_info h)"

datatype terminal_cmd =
    CmdInput terminal_id bytes
  | CmdResize terminal_id u16 u16
  | CmdKill terminal_id

text \<open>\<open>closed\<close> says that the session dropped its end of the queue.\<close>

definition queue_cmd :: "bool \<Rightarrow> 'c \<Rightarrow> 'c list \<Rightarrow> (client_error, unit) result \<times> 'c list" where
  "queue_cmd closed c q = (if closed then (Inl ClientClosed, q) else (Inr (), q @ [c]))"

definition handle_write_input ::
  "bool \<Rightarrow> bytes \<Rightarrow> terminal_handle \<Rightarrow> terminal_cmd list \<Rightarrow> (client_error, unit) result \<times> terminal_cmd list" where
  "handle_write_input closed bs h = queue_cmd closed (CmdInput (handle_terminal_id h) bs)"

definition handle_resize ::
  "bool \<Rightarrow> u16 \<Rightarrow> u16 \<Rightarrow> terminal_handle \<Rightarrow> terminal_cmd list \<Rightarrow> (client_error, unit) result \<times> terminal_cmd list" where
  "handle_resize closed cols rows h = queue_cmd closed (CmdResize (handle_terminal_id h) cols rows)"

definition handle_kill ::
  "bool \<Rightarrow> terminal_handle \<Rightarrow> terminal_cmd list \<Rightarrow> (client_error, unit) result \<times> terminal_cmd list" where
  "handle_kill closed h = queue_cmd closed (CmdKill (handle_terminal_id h))"

section \<open>Transport\<close>

text \<open>
  A transport is the list of what its \<open>recv\<close> will return (at its end it is closed), what was
  sent, the answer to each \<open>send\<close>, and whether it was closed.
\<close>

record client_transport =
  cp_incoming :: "(client_error, bytes option) result list"
  cp_sent :: "bytes list"
  cp_answer :: "nat \<Rightarrow> (client_error, unit) result"
  cp_closed :: bool

definition cp_recv :: "client_transport \<Rightarrow> (client_error, bytes option) result \<times> client_transport" where
  "cp_recv t = (case cp_incoming t of [] \<Rightarrow> (Inr None, t) | r # rs \<Rightarrow> (r, t\<lparr>cp_incoming := rs\<rparr>))"

definition cp_send :: "bytes \<Rightarrow> client_transport \<Rightarrow> (client_error, unit) result \<times> client_transport" where
  "cp_send m t =
     (case cp_answer t (length (cp_sent t)) of
        Inl e \<Rightarrow> (Inl e, t)
      | Inr _ \<Rightarrow> (Inr (), t\<lparr>cp_sent := cp_sent t @ [m]\<rparr>))"

definition cp_close :: "client_transport \<Rightarrow> client_transport" where
  "cp_close t = t\<lparr>cp_closed := True\<rparr>"

definition recv_transport :: "client_transport \<Rightarrow> (client_error, bytes) result \<times> client_transport" where
  "recv_transport t =
     (case cp_recv t of
        (Inl e, t') \<Rightarrow> (Inl e, t')
      | (Inr None, t') \<Rightarrow> (Inl ClientClosed, t')
      | (Inr (Some m), t') \<Rightarrow> (Inr m, t'))"

end
