(* ===== verification/Client_Runtime.thy ===== *)
theory Client_Runtime
  imports Client_Types
begin

text \<open>
  The requests and streams of one connection of the client
  (\<open>crates/client/client-core/src/session.rs\<close>): what is pending, which terminal is open, and
  how commands become requests and frames become answers and events. A reply channel is
  the number of its cell; answering takes the sender out of the cell, so a cell is answered
  at most once, and the log records the answers in their order.
\<close>

section \<open>Commands and pending requests\<close>

type_synonym reply = nat

datatype reply_value =
    ReplyOpen terminal_open_ack
  | ReplyHistory terminal_history
  | ReplyCreated terminal_info
  | ReplyList "terminal_info list"
  | ReplyConfig server_config
  | ReplyUnit

type_synonym reply_log = "(reply \<times> (client_error, reply_value) result) list"

definition send_reply :: "reply \<Rightarrow> (client_error, reply_value) result \<Rightarrow> reply_log \<Rightarrow> reply_log" where
  "send_reply i r log = (if i \<in> set (map fst log) then log else log @ [(i, r)])"

definition fail_shared_reply :: "reply \<Rightarrow> client_error \<Rightarrow> reply_log \<Rightarrow> reply_log" where
  "fail_shared_reply i e = send_reply i (Inl e)"

datatype session_command =
    CmdCreateTerminal terminal_create_params reply
  | CmdOpenTerminal terminal_id reply
  | CmdListTerminals reply
  | CmdReadHistory terminal_id "stream_seq option" u32 reply
  | CmdGetServerConfig reply
  | CmdSetServerConfig server_config reply
  | CmdKillTerminal terminal_id reply
  | CmdShutdown

datatype request_txn =
    TxnOpenTerminal terminal_id reply
  | TxnReadHistory terminal_id reply
  | TxnCreateTerminal reply
  | TxnListTerminals reply
  | TxnGetConfig reply
  | TxnSetConfig reply
  | TxnSendInputAck
  | TxnResizeAck
  | TxnKillTerminal "reply option"

section \<open>RuntimeState\<close>

record active_terminal =
  at_terminal :: terminal_id
  at_stream :: stream_id
  at_last_seq :: "stream_seq option"

record output_state =
  os_terminal_id :: terminal_id
  os_last_seq :: stream_seq

record runtime_state =
  rn_active :: "active_terminal option"
  rn_info_cache :: "(terminal_id, terminal_info) hash_map"
  rn_pending_requests :: "(u32, request_txn) hash_map"
  rn_active_streams :: "(stream_id, output_state) hash_map"

definition runtime_default :: runtime_state where
  "runtime_default = \<lparr>rn_active = None, rn_info_cache = [], rn_pending_requests = [], rn_active_streams = []\<rparr>"

definition active_stream :: "runtime_state \<Rightarrow> stream_id option" where
  "active_stream rn = map_option at_stream (rn_active rn)"

definition active_terminal_id :: "runtime_state \<Rightarrow> terminal_id option" where
  "active_terminal_id rn = map_option at_terminal (rn_active rn)"

definition update_active_seq :: "stream_seq \<Rightarrow> runtime_state \<Rightarrow> runtime_state" where
  "update_active_seq sq rn = rn\<lparr>rn_active := map_option (\<lambda>a. a\<lparr>at_last_seq := Some sq\<rparr>) (rn_active rn)\<rparr>"

definition store_info :: "terminal_info \<Rightarrow> runtime_state \<Rightarrow> runtime_state" where
  "store_info info rn = rn\<lparr>rn_info_cache := hm_insert (ti_terminal info) info (rn_info_cache rn)\<rparr>"

definition set_active :: "terminal_info \<Rightarrow> stream_id \<Rightarrow> stream_seq option \<Rightarrow> runtime_state \<Rightarrow> runtime_state" where
  "set_active info stream last_seq rn =
     (store_info info rn)\<lparr>rn_active := Some \<lparr>at_terminal = ti_terminal info, at_stream = stream, at_last_seq = last_seq\<rparr>\<rparr>"

definition clear_active :: "runtime_state \<Rightarrow> runtime_state" where
  "clear_active rn =
     rn\<lparr>rn_active_streams := (case rn_active rn of
            None \<Rightarrow> rn_active_streams rn
          | Some a \<Rightarrow> hm_remove (at_stream a) (rn_active_streams rn)),
        rn_active := None\<rparr>"

text \<open>\<open>record_create\<close>, \<open>record_list\<close> and the like.\<close>

definition record_txn :: "u32 \<Rightarrow> request_txn \<Rightarrow> runtime_state \<Rightarrow> runtime_state" where
  "record_txn i txn rn = rn\<lparr>rn_pending_requests := hm_insert i txn (rn_pending_requests rn)\<rparr>"

definition remove_txn :: "u32 \<Rightarrow> runtime_state \<Rightarrow> request_txn option \<times> runtime_state" where
  "remove_txn i rn =
     (hm_get (rn_pending_requests rn) i, rn\<lparr>rn_pending_requests := hm_remove i (rn_pending_requests rn)\<rparr>)"

definition remove_pending_create :: "u32 \<Rightarrow> runtime_state \<Rightarrow> reply option \<times> runtime_state" where
  "remove_pending_create i rn =
     (case remove_txn i rn of (Some (TxnCreateTerminal r), rn') \<Rightarrow> (Some r, rn') | (_, rn') \<Rightarrow> (None, rn'))"

definition take_pending_ack :: "u32 \<Rightarrow> runtime_state \<Rightarrow> bool \<times> runtime_state" where
  "take_pending_ack i rn =
     (case remove_txn i rn of
        (Some TxnSendInputAck, rn') \<Rightarrow> (True, rn')
      | (Some TxnResizeAck, rn') \<Rightarrow> (True, rn')
      | (_, rn') \<Rightarrow> (False, rn'))"

section \<open>The state of a connection\<close>

record client_state =
  cl_runtime :: runtime_state
  cl_terminal :: "terminal_handle option"
  cl_next_id :: u32
  cl_replies :: reply_log

definition set_runtime :: "runtime_state \<Rightarrow> client_state \<Rightarrow> client_state" where
  "set_runtime rn st = st\<lparr>cl_runtime := rn\<rparr>"

definition reply_with :: "reply \<Rightarrow> (client_error, reply_value) result \<Rightarrow> client_state \<Rightarrow> client_state" where
  "reply_with i r st = st\<lparr>cl_replies := send_reply i r (cl_replies st)\<rparr>"

definition request_frame_of :: "u32 \<Rightarrow> request_body \<Rightarrow> frame" where
  "request_frame_of i body = FRequest \<lparr>rq_id = RequestId i, rq_body = body\<rparr>"

text \<open>Every request takes the next identifier and is recorded under it.\<close>

definition new_request :: "request_txn \<Rightarrow> request_body \<Rightarrow> client_state \<Rightarrow> frame \<times> client_state" where
  "new_request txn body st =
     (let i = cl_next_id st in
      (request_frame_of i body,
       st\<lparr>cl_next_id := sat_add i 1, cl_runtime := record_txn i txn (cl_runtime st)\<rparr>))"

definition clear_active_terminal :: "client_state \<Rightarrow> client_state" where
  "clear_active_terminal st = st\<lparr>cl_runtime := clear_active (cl_runtime st), cl_terminal := None\<rparr>"

section \<open>Commands become requests\<close>

definition command_terminal :: "terminal_cmd \<Rightarrow> terminal_id" where
  "command_terminal cmd = (case cmd of CmdInput i _ \<Rightarrow> i | CmdResize i _ _ \<Rightarrow> i | CmdKill i \<Rightarrow> i)"

definition frame_for_command :: "terminal_cmd \<Rightarrow> client_state \<Rightarrow> frame option \<times> client_state" where
  "frame_for_command cmd st =
     (case cl_terminal st of
        None \<Rightarrow> (None, st)
      | Some handle \<Rightarrow>
          if handle_terminal_id handle \<noteq> command_terminal cmd then (None, st)
          else (case (case cmd of
                  CmdInput i bs \<Rightarrow> new_request TxnSendInputAck (ReqSendInput (handle_terminal_id handle) bs) st
                | CmdResize i cols rows \<Rightarrow> new_request TxnResizeAck (ReqResizeTerminal (handle_terminal_id handle) cols rows) st
                | CmdKill i \<Rightarrow> new_request (TxnKillTerminal None) (ReqKillTerminal (handle_terminal_id handle)) st)
                of (f, st') \<Rightarrow> (Some f, st')))"

text \<open>\<open>Shutdown\<close> never gets here (\<open>unreachable!\<close> in the code): \<open>None\<close>.\<close>

definition frame_for_session_command :: "session_command \<Rightarrow> client_state \<Rightarrow> (frame \<times> client_state) option" where
  "frame_for_session_command cmd st =
     (case cmd of
        CmdCreateTerminal params r \<Rightarrow> Some (new_request (TxnCreateTerminal r) (ReqCreateTerminal params) st)
      | CmdOpenTerminal target r \<Rightarrow>
          (case new_request (TxnOpenTerminal target r) (ReqOpenTerminal target) st of
             (f, st') \<Rightarrow> Some (f, if cl_terminal st' \<noteq> None then clear_active_terminal st' else st'))
      | CmdListTerminals r \<Rightarrow> Some (new_request (TxnListTerminals r) ReqListTerminals st)
      | CmdReadHistory terminal before max_bytes r \<Rightarrow>
          Some (new_request (TxnReadHistory terminal r) (ReqReadHistory terminal before max_bytes) st)
      | CmdGetServerConfig r \<Rightarrow> Some (new_request (TxnGetConfig r) ReqGetServerConfig st)
      | CmdSetServerConfig config r \<Rightarrow> Some (new_request (TxnSetConfig r) (ReqSetServerConfig config) st)
      | CmdKillTerminal terminal r \<Rightarrow>
          (case new_request (TxnKillTerminal (Some r)) (ReqKillTerminal terminal) st of
             (f, st') \<Rightarrow>
               Some (f, if active_terminal_id (cl_runtime st') = Some terminal then clear_active_terminal st' else st'))
      | CmdShutdown \<Rightarrow> None)"

section \<open>Responses\<close>

datatype action =
    ActSend frame
  | ActSendPendingCommand frame
  | ActDropPendingCommand
  | ActSendPendingSessionCommand frame
  | ActEmit client_event
  | ActReturn "(client_error, unit) result"
  | ActNone

type_synonym handled = "(client_error, action) result \<times> client_state"

definition txn_reply :: "request_txn \<Rightarrow> reply option" where
  "txn_reply txn =
     (case txn of
        TxnOpenTerminal _ r \<Rightarrow> Some r
      | TxnReadHistory _ r \<Rightarrow> Some r
      | TxnCreateTerminal r \<Rightarrow> Some r
      | TxnListTerminals r \<Rightarrow> Some r
      | TxnGetConfig r \<Rightarrow> Some r
      | TxnSetConfig r \<Rightarrow> Some r
      | TxnSendInputAck \<Rightarrow> None
      | TxnResizeAck \<Rightarrow> None
      | TxnKillTerminal r \<Rightarrow> r)"

definition fail_txn :: "client_error \<Rightarrow> request_txn \<Rightarrow> reply_log \<Rightarrow> reply_log" where
  "fail_txn e txn log = (case txn_reply txn of None \<Rightarrow> log | Some r \<Rightarrow> fail_shared_reply r e log)"

definition unknown_request :: "string \<Rightarrow> u32 \<Rightarrow> client_error" where
  "unknown_request what i = ClientProto (what @ '' for unknown request '' @ show_nat (unat i))"

definition fail_request :: "u32 \<Rightarrow> client_error \<Rightarrow> client_state \<Rightarrow> (client_error, unit) result \<times> client_state" where
  "fail_request i e st =
     (case remove_txn i (cl_runtime st) of
        (None, rn) \<Rightarrow> (Inl (unknown_request ''response'' i), set_runtime rn st)
      | (Some txn, rn) \<Rightarrow>
          (Inr (), (set_runtime rn st)\<lparr>cl_replies := fail_txn e txn (cl_replies st)\<rparr>))"

definition fail_all_pending_requests :: "client_error \<Rightarrow> client_state \<Rightarrow> client_state" where
  "fail_all_pending_requests e st =
     st\<lparr>cl_replies := fold (fail_txn e) (hm_values (rn_pending_requests (cl_runtime st))) (cl_replies st),
        cl_runtime := clear_active ((cl_runtime st)\<lparr>rn_pending_requests := [], rn_active_streams := []\<rparr>)\<rparr>"

definition open_ack_of :: "open_terminal_ack \<Rightarrow> terminal_open_ack" where
  "open_ack_of ack =
     \<lparr>to_stream_id = oa_stream_id ack, to_info = oa_info ack, to_start_seq = oa_start_seq ack,
      to_end_seq = oa_end_seq ack, to_render_bytes = oa_render_bytes ack,
      to_has_more_history = oa_has_more_history ack\<rparr>"

definition history_of :: "history_page \<Rightarrow> terminal_history" where
  "history_of p =
     \<lparr>th_terminal_id = hp_terminal_id p, th_start_seq = hp_start_seq p, th_end_seq = hp_end_seq p,
      th_bytes = hp_bytes p, th_has_more = hp_has_more p\<rparr>"

definition complete_open_terminal ::
  "u32 \<Rightarrow> stream_id \<Rightarrow> terminal_open_ack \<Rightarrow> client_state \<Rightarrow> (string, unit) result \<times> client_state" where
  "complete_open_terminal i stream ack st =
     (case remove_txn i (cl_runtime st) of
        (Some (TxnOpenTerminal terminal r), rn) \<Rightarrow>
          if terminal \<noteq> ti_terminal (to_info ack)
          then (Inl ''open terminal response terminal mismatch'', set_runtime rn st)
          else (let streams = hm_insert stream \<lparr>os_terminal_id = ti_terminal (to_info ack), os_last_seq = to_end_seq ack\<rparr>
                                (rn_active_streams rn);
                    active = map_option (\<lambda>a. if at_stream a = stream then a\<lparr>at_last_seq := Some (to_end_seq ack)\<rparr> else a)
                               (rn_active rn)
                in (Inr (), reply_with r (Inr (ReplyOpen ack))
                              (set_runtime (rn\<lparr>rn_active_streams := streams, rn_active := active\<rparr>) st)))
      | (_, rn) \<Rightarrow> (Inl (''open terminal response for unknown request '' @ show_nat (unat i)), set_runtime rn st))"

definition handle_open_response :: "u32 \<Rightarrow> open_terminal_ack \<Rightarrow> client_state \<Rightarrow> handled" where
  "handle_open_response i ack st =
     (case hm_get (rn_pending_requests (cl_runtime st)) i of
        Some (TxnOpenTerminal _ _) \<Rightarrow>
          (let stream = oa_stream_id ack; info = oa_info ack;
               rn = set_active info stream (Some (oa_end_seq ack)) (store_info info (cl_runtime st));
               st1 = st\<lparr>cl_runtime := rn,
                        cl_terminal := Some \<lparr>hd_info = info, hd_stream = stream, hd_last_seq = Some (oa_end_seq ack)\<rparr>\<rparr>
           in case complete_open_terminal i stream (open_ack_of ack) st1 of
                (Inl e, st2) \<Rightarrow> (Inl (ClientProto e), st2)
              | (Inr _, st2) \<Rightarrow> (Inr ActNone, st2))
      | _ \<Rightarrow> (Inl (unknown_request ''open terminal response'' i), st))"

definition handle_response_frame :: "response_frame \<Rightarrow> client_state \<Rightarrow> handled" where
  "handle_response_frame rsp st =
     (let i = request_val (rs_id rsp) in
      case rs_result rsp of
        Inl e \<Rightarrow>
          (case fail_request i (ClientProto (re_message e)) st of
             (Inl err, st') \<Rightarrow> (Inl err, st') | (Inr _, st') \<Rightarrow> (Inr ActNone, st'))
      | Inr body \<Rightarrow>
          (case body of
             RspListTerminals terminals \<Rightarrow>
               (case remove_txn i (fold store_info terminals (cl_runtime st)) of
                  (Some (TxnListTerminals r), rn) \<Rightarrow>
                    (Inr ActNone, reply_with r (Inr (ReplyList terminals)) (set_runtime rn st))
                | (_, rn) \<Rightarrow> (Inl (unknown_request ''terminal list response'' i), set_runtime rn st))
           | RspCreateTerminal info \<Rightarrow>
               (case remove_pending_create i (cl_runtime st) of
                  (Some r, rn) \<Rightarrow>
                    (Inr (ActEmit (EventTerminalCreated info)),
                     reply_with r (Inr (ReplyCreated info)) (set_runtime (store_info info rn) st))
                | (None, rn) \<Rightarrow> (Inl (unknown_request ''terminal create response'' i), set_runtime rn st))
           | RspOpenTerminal ack \<Rightarrow> handle_open_response i ack st
           | RspReadHistory page \<Rightarrow>
               (case remove_txn i (cl_runtime st) of
                  (Some (TxnReadHistory terminal r), rn) \<Rightarrow>
                    if terminal \<noteq> hp_terminal_id page
                    then (Inl (ClientProto ''history response terminal mismatch''), set_runtime rn st)
                    else (Inr ActNone, reply_with r (Inr (ReplyHistory (history_of page))) (set_runtime rn st))
                | (_, rn) \<Rightarrow> (Inl (unknown_request ''history response'' i), set_runtime rn st))
           | RspKillTerminal \<Rightarrow>
               (case remove_txn i (cl_runtime st) of
                  (Some (TxnKillTerminal (Some r)), rn) \<Rightarrow> (Inr ActNone, reply_with r (Inr ReplyUnit) (set_runtime rn st))
                | (Some (TxnKillTerminal None), rn) \<Rightarrow> (Inr ActNone, set_runtime rn st)
                | (_, rn) \<Rightarrow> (Inl (unknown_request ''kill response'' i), set_runtime rn st))
           | RspGetServerConfig config \<Rightarrow>
               (case remove_txn i (cl_runtime st) of
                  (Some (TxnGetConfig r), rn) \<Rightarrow> (Inr ActNone, reply_with r (Inr (ReplyConfig config)) (set_runtime rn st))
                | (_, rn) \<Rightarrow> (Inl (unknown_request ''server config get response'' i), set_runtime rn st))
           | RspSetServerConfig config \<Rightarrow>
               (case remove_txn i (cl_runtime st) of
                  (Some (TxnSetConfig r), rn) \<Rightarrow> (Inr ActNone, reply_with r (Inr (ReplyConfig config)) (set_runtime rn st))
                | (_, rn) \<Rightarrow> (Inl (unknown_request ''server config set response'' i), set_runtime rn st))
           | RspSendInput \<Rightarrow>
               (case take_pending_ack i (cl_runtime st) of
                  (True, rn) \<Rightarrow> (Inr ActNone, set_runtime rn st)
                | (False, rn) \<Rightarrow> (Inl (unknown_request ''ack response'' i), set_runtime rn st))
           | RspResizeTerminal \<Rightarrow>
               (case take_pending_ack i (cl_runtime st) of
                  (True, rn) \<Rightarrow> (Inr ActNone, set_runtime rn st)
                | (False, rn) \<Rightarrow> (Inl (unknown_request ''ack response'' i), set_runtime rn st))))"

section \<open>Live output and the other frames\<close>

definition handle_stream_data_frame :: "stream_data_frame \<Rightarrow> client_state \<Rightarrow> handled" where
  "handle_stream_data_frame d st =
     (case hm_get (rn_active_streams (cl_runtime st)) (sd_stream_id d) of
        None \<Rightarrow> (Inl (ClientProto ''stream data on unknown stream''), st)
      | Some os \<Rightarrow>
          if sd_offset d \<noteq> None then (Inl (ClientProto ''output stream chunk must not include offset''), st)
          else if active_stream (cl_runtime st) \<noteq> Some (sd_stream_id d) then (Inr ActNone, st)
          else if active_terminal_id (cl_runtime st) \<noteq> None \<and> active_terminal_id (cl_runtime st) \<noteq> Some (os_terminal_id os)
          then (Inl (ClientProto ''output terminal mismatch''), st)
          else if active_terminal_id (cl_runtime st) \<noteq> None \<and> sd_seq d < os_last_seq os
          then (Inl (ClientProto ''output sequence moved backwards''), st)
          else (let st1 = set_runtime ((cl_runtime st)\<lparr>rn_active_streams :=
                            hm_insert (sd_stream_id d) (os\<lparr>os_last_seq := sd_seq d\<rparr>) (rn_active_streams (cl_runtime st))\<rparr>) st
                in case cl_terminal st1 of
                     None \<Rightarrow> (Inr ActNone, st1)
                   | Some handle \<Rightarrow>
                       (Inr (ActEmit (EventTerminalOutput (handle_terminal_id handle) (sd_seq d) (sd_bytes d))),
                        st1\<lparr>cl_terminal := Some (handle\<lparr>hd_last_seq := Some (sd_seq d)\<rparr>),
                            cl_runtime := update_active_seq (sd_seq d) (cl_runtime st1)\<rparr>)))"

definition handle_event_frame :: "event_body \<Rightarrow> client_state \<Rightarrow> action \<times> client_state" where
  "handle_event_frame ev st =
     (case ev of
        EvTerminalCreated info \<Rightarrow> (ActEmit (EventTerminalCreated info), set_runtime (store_info info (cl_runtime st)) st)
      | EvError code message \<Rightarrow> (ActEmit (EventError message), st)
      | EvDisconnected reason \<Rightarrow> (ActEmit (EventDisconnected True reason), st)
      | EvConnected \<Rightarrow> (ActNone, st))"

definition is_recoverable_bye :: "bye_reason \<Rightarrow> bool" where
  "is_recoverable_bye reason \<longleftrightarrow> reason = ByeServerShutdown \<or> reason = ByeProtocolError BackpressureExceeded"

definition handle_inbound_frame :: "frame \<Rightarrow> client_state \<Rightarrow> handled" where
  "handle_inbound_frame f st =
     (case f of
        FResponse rsp \<Rightarrow> handle_response_frame rsp st
      | FStreamData d \<Rightarrow> handle_stream_data_frame d st
      | FEvent ev \<Rightarrow> (case handle_event_frame ev st of (a, st') \<Rightarrow> (Inr a, st'))
      | FBye reason \<Rightarrow>
          (Inr (ActReturn (Inl (if is_recoverable_bye reason then ClientClosed else ClientRejected reason))), st)
      | FPing nonce \<Rightarrow> (Inr (ActSend (FPong nonce)), st)
      | _ \<Rightarrow> (Inr ActNone, st))"

end
