(* ===== verification/Client_Channel.thy ===== *)
theory Client_Channel
  imports Client_Types
begin

text \<open>
  The client's end of an encrypted connection: how it is set up through a relay
  (\<open>crates/client/client-core/src/relay.rs\<close>) and by the handshake, the frames on it and the
  heartbeat that watches over it (\<open>session.rs\<close>). The clock is an input of every round.
\<close>

section \<open>Configuration\<close>

datatype session_endpoint =
    Direct string
  | Relay string server_id string bytes

record session_config =
  cg_endpoint :: session_endpoint
  cg_resume_token :: "resume_token option"
  cg_backoff :: "u64 \<times> u64 \<times> u32"

text \<open>The third-party code of a client; \<open>hex::decode\<close> gives the bytes or a text.\<close>

record ('h, 't) client_crates =
  kr_snow :: "('h, 't) snow"
  kr_codec :: frame_codec
  kr_postcard :: postcard
  kr_texts :: client_texts
  kr_hex_decode :: "string \<Rightarrow> (string, bytes) result"

definition parse_psk_hex :: "('h, 't) client_crates \<Rightarrow> string \<Rightarrow> (client_error, bytes) result" where
  "parse_psk_hex kr psk_hex =
     (case kr_hex_decode kr psk_hex of
        Inl e \<Rightarrow> Inl (ClientTransport (''relay psk_hex: '' @ e))
      | Inr b \<Rightarrow> if length b \<noteq> 32 then Inl (ClientTransport ''relay psk_hex must be 32 bytes'') else Inr b)"

section \<open>Through a relay\<close>

definition recv_ctrl ::
  "('h, 't) client_crates \<Rightarrow> client_transport \<Rightarrow> (client_error, relay_ctrl) result \<times> client_transport" where
  "recv_ctrl kr t =
     (case recv_transport t of
        (Inl e, t') \<Rightarrow> (Inl e, t')
      | (Inr b, t') \<Rightarrow>
          (case decode_relay (kr_postcard kr) b of
             Inl e \<Rightarrow> (Inl (from_codec (kr_texts kr) e), t')
           | Inr (WireCtrl c) \<Rightarrow> (Inr c, t')
           | Inr (WireData d) \<Rightarrow> (Inl (ClientTransport ''unexpected relay data frame before pair open''), t')))"

definition open_client_pair ::
  "('h, 't) client_crates \<Rightarrow> server_id \<Rightarrow> client_transport \<Rightarrow> (client_error, pair_id) result \<times> client_transport" where
  "open_client_pair kr server t =
     (case encode_relay_ctrl (kr_postcard kr) (ClientConnect server) of
        Inl e \<Rightarrow> (Inl (from_codec (kr_texts kr) e), t)
      | Inr m \<Rightarrow>
          (case cp_send m t of
             (Inl e, t1) \<Rightarrow> (Inl e, t1)
           | (Inr _, t1) \<Rightarrow>
               (case recv_ctrl kr t1 of
                  (Inl e, t2) \<Rightarrow> (Inl e, t2)
                | (Inr (PairOpen pair), t2) \<Rightarrow> (Inr pair, t2)
                | (Inr (PairClose _ reason), t2) \<Rightarrow>
                    (Inl (ClientTransport (''relay closed pair before open: '' @ ct_close_reason (kr_texts kr) reason)), t2)
                | (Inr other, t2) \<Rightarrow>
                    (Inl (ClientTransport (''unexpected relay control frame before pair open: '' @
                       ct_ctrl (kr_texts kr) other)), t2))))"

definition maybe_handle_pair_close ::
  "('h, 't) client_crates \<Rightarrow> client_transport \<Rightarrow> (client_error, relay_ctrl option) result \<times> client_transport" where
  "maybe_handle_pair_close kr t =
     (case cp_recv t of
        (Inl e, t') \<Rightarrow> (Inl e, t')
      | (Inr None, t') \<Rightarrow> (Inr None, t')
      | (Inr (Some b), t') \<Rightarrow>
          (case decode_relay (kr_postcard kr) b of
             Inr (WireCtrl c) \<Rightarrow> (Inr (Some c), t')
           | Inr (WireData d) \<Rightarrow> (Inl (ClientTransport ''unexpected relay server data on client leg''), t')
           | Inl e \<Rightarrow> (Inl (ClientTransport ''unexpected relay control frame after pair open''), t')))"

section \<open>Encrypted frames\<close>

text \<open>\<open>ec_log\<close> records the frames that went out; the code has no such field.\<close>

record 't client_channel =
  ec_transport :: client_transport
  ec_session :: 't
  ec_log :: "frame list"

definition send_encrypted ::
  "('h, 't) client_crates \<Rightarrow> frame \<Rightarrow> 't client_channel \<Rightarrow> (client_error, unit) result \<times> 't client_channel" where
  "send_encrypted kr f ch =
     (case encode_frame (kr_codec kr) f of
        Inl e \<Rightarrow> (Inl (from_codec (kr_texts kr) e), ch)
      | Inr plaintext \<Rightarrow>
          (case encrypt (kr_snow kr) plaintext (ec_session ch) of
             (Inl e, s) \<Rightarrow> (Inl (from_noise e), ch\<lparr>ec_session := s\<rparr>)
           | (Inr ciphertext, s) \<Rightarrow>
               (case cp_send ciphertext (ec_transport ch) of
                  (Inl e, t) \<Rightarrow> (Inl e, ch\<lparr>ec_session := s, ec_transport := t\<rparr>)
                | (Inr _, t) \<Rightarrow> (Inr (), ch\<lparr>ec_session := s, ec_transport := t, ec_log := ec_log ch @ [f]\<rparr>))))"

definition recv_encrypted ::
  "('h, 't) client_crates \<Rightarrow> 't client_channel \<Rightarrow> (client_error, frame) result \<times> 't client_channel" where
  "recv_encrypted kr ch =
     (case recv_transport (ec_transport ch) of
        (Inl e, t) \<Rightarrow> (Inl e, ch\<lparr>ec_transport := t\<rparr>)
      | (Inr ciphertext, t) \<Rightarrow>
          (case decrypt (kr_snow kr) ciphertext (ec_session ch) of
             (Inl e, s) \<Rightarrow> (Inl (from_noise e), ch\<lparr>ec_transport := t, ec_session := s\<rparr>)
           | (Inr plaintext, s) \<Rightarrow>
               (map_err (from_codec (kr_texts kr)) (decode_frame (kr_codec kr) plaintext),
                ch\<lparr>ec_transport := t, ec_session := s\<rparr>)))"

section \<open>Setting up\<close>

definition initiator_write ::
  "('h, 't) client_crates \<Rightarrow> 'h noise_party \<times> client_transport \<Rightarrow>
   (client_error, unit) result \<times> 'h noise_party \<times> client_transport" where
  "initiator_write kr = (\<lambda>(p, t).
     case write_handshake (kr_snow kr) p of
       (Inl e, p') \<Rightarrow> (Inl (from_noise e), p', t)
     | (Inr m, p') \<Rightarrow> (case cp_send m t of (r, t') \<Rightarrow> (r, p', t')))"

definition initiator_read ::
  "('h, 't) client_crates \<Rightarrow> 'h noise_party \<times> client_transport \<Rightarrow>
   (client_error, unit) result \<times> 'h noise_party \<times> client_transport" where
  "initiator_read kr = (\<lambda>(p, t).
     case recv_transport t of
       (Inl e, t') \<Rightarrow> (Inl e, p, t')
     | (Inr m, t') \<Rightarrow> (case read_handshake (kr_snow kr) m p of (r, p') \<Rightarrow> (map_err from_noise r, p', t')))"

definition initiator_handshake ::
  "('h, 't) client_crates \<Rightarrow> (noise_error, 'h noise_party) result \<Rightarrow> client_transport \<Rightarrow>
   (client_error, 't) result \<times> client_transport" where
  "initiator_handshake kr built t =
     (case built of
        Inl e \<Rightarrow> (Inl (from_noise e), t)
      | Inr p \<Rightarrow>
          (case initiator_write kr (p, t) of
             (Inl e, p1, t1) \<Rightarrow> (Inl e, t1)
           | (Inr _, p1, t1) \<Rightarrow>
               (case initiator_read kr (p1, t1) of
                  (Inl e, p2, t2) \<Rightarrow> (Inl e, t2)
                | (Inr _, p2, t2) \<Rightarrow>
                    (case initiator_write kr (p2, t2) of
                       (Inl e, p3, t3) \<Rightarrow> (Inl e, t3)
                     | (Inr _, p3, t3) \<Rightarrow> (map_err from_noise (finish (kr_snow kr) p3), t3)))))"

definition open_noise ::
  "('h, 't) client_crates \<Rightarrow> key_pair \<Rightarrow> session_config \<Rightarrow> client_transport \<Rightarrow>
   (client_error, 't) result \<times> client_transport" where
  "open_noise kr identity cfg t =
     (case cg_endpoint cfg of
        Direct url \<Rightarrow> initiator_handshake kr (anonymous_initiator_new (kr_snow kr) identity) t
      | Relay url server psk_hex server_public \<Rightarrow>
          (case open_client_pair kr server t of
             (Inl e, t1) \<Rightarrow> (Inl e, t1)
           | (Inr _, t1) \<Rightarrow>
               (case parse_psk_hex kr psk_hex of
                  Inl e \<Rightarrow> (Inl e, t1)
                | Inr psk \<Rightarrow> initiator_handshake kr (initiator_new (kr_snow kr) identity server_public (Some psk)) t1)))"

definition establish_session ::
  "('h, 't) client_crates \<Rightarrow> key_pair \<Rightarrow> session_config \<Rightarrow> client_transport \<Rightarrow>
   (client_error, 't client_channel \<times> session_id \<times> string option) result \<times> client_transport" where
  "establish_session kr identity cfg t =
     (case open_noise kr identity cfg t of
        (Inl e, t1) \<Rightarrow> (Inl e, t1)
      | (Inr s, t1) \<Rightarrow>
          (case send_encrypted kr (FHello \<lparr>h_protocol_min = PROTOCOL_VERSION, h_protocol_max = PROTOCOL_VERSION,
                  h_resume = cg_resume_token cfg\<rparr>) \<lparr>ec_transport = t1, ec_session = s, ec_log = []\<rparr> of
             (Inl e, ch) \<Rightarrow> (Inl e, ec_transport ch)
           | (Inr _, ch) \<Rightarrow>
               (case recv_encrypted kr ch of
                  (Inl e, ch') \<Rightarrow> (Inl e, ec_transport ch')
                | (Inr (FHelloOk ok), ch') \<Rightarrow>
                    (Inr (ch', ho_session_id ok, si_server_label (ho_server_info ok)), ec_transport ch')
                | (Inr other, ch') \<Rightarrow>
                    (Inl (ClientProto (''unexpected hello reply: '' @ ct_frame (kr_texts kr) other)), ec_transport ch'))))"

section \<open>The heartbeat\<close>

definition HEARTBEAT_IDLE_MS :: u64 where "HEARTBEAT_IDLE_MS = 10000"
definition HEARTBEAT_TIMEOUT_MS :: u64 where "HEARTBEAT_TIMEOUT_MS = 30000"
definition CONNECT_ATTEMPT_TIMEOUT_MS :: u64 where "CONNECT_ATTEMPT_TIMEOUT_MS = 15000"

record heartbeat =
  hb_last_inbound_at_ms :: u64
  hb_ping_outstanding :: bool

datatype poll_result = HbSendPing u32 | HbTimeout | HbWait

definition heartbeat_new :: "u64 \<Rightarrow> heartbeat" where
  "heartbeat_new now = \<lparr>hb_last_inbound_at_ms = now, hb_ping_outstanding = False\<rparr>"

definition on_inbound :: "u64 \<Rightarrow> heartbeat \<Rightarrow> heartbeat" where
  "on_inbound now hb = \<lparr>hb_last_inbound_at_ms = now, hb_ping_outstanding = False\<rparr>"

text \<open>The nonce is what the random source would give.\<close>

definition heartbeat_poll :: "u64 \<Rightarrow> u32 \<Rightarrow> heartbeat \<Rightarrow> poll_result \<times> heartbeat" where
  "heartbeat_poll now nonce hb =
     (let elapsed = sat_sub now (hb_last_inbound_at_ms hb) in
      if hb_ping_outstanding hb
      then (if HEARTBEAT_TIMEOUT_MS \<le> elapsed then HbTimeout else HbWait, hb)
      else if HEARTBEAT_IDLE_MS \<le> elapsed then (HbSendPing nonce, hb\<lparr>hb_ping_outstanding := True\<rparr>)
      else (HbWait, hb))"

definition heartbeat_sleep_ms :: "u64 \<Rightarrow> heartbeat \<Rightarrow> u64" where
  "heartbeat_sleep_ms now hb =
     (let elapsed = sat_sub now (hb_last_inbound_at_ms hb) in
      max (if hb_ping_outstanding hb then sat_sub HEARTBEAT_TIMEOUT_MS elapsed
           else sat_sub HEARTBEAT_IDLE_MS elapsed) 1)"

text \<open>
  A round of \<open>recv_with_heartbeat\<close>: the time it polls at, the nonce, whether a frame arrives
  before the sleep is over, and the time it arrives at. The result is \<open>None\<close> while the
  rounds given are not enough (the caller then dropped the future, or it still waits).
\<close>

record tick =
  tk_now :: u64
  tk_nonce :: u32
  tk_frame :: bool
  tk_then :: u64

fun recv_with_heartbeat ::
  "('h, 't) client_crates \<Rightarrow> tick list \<Rightarrow> 't client_channel \<times> heartbeat \<Rightarrow>
   (client_error, frame) result option \<times> 't client_channel \<times> heartbeat" where
  "recv_with_heartbeat kr [] s = (None, s)"
| "recv_with_heartbeat kr (t # ts) (ch, hb) =
     (case heartbeat_poll (tk_now t) (tk_nonce t) hb of
        (HbSendPing nonce, hb1) \<Rightarrow>
          (case send_encrypted kr (FPing nonce) ch of
             (Inl e, ch1) \<Rightarrow> (Some (Inl e), ch1, hb1)
           | (Inr _, ch1) \<Rightarrow> recv_with_heartbeat kr ts (ch1, hb1))
      | (HbTimeout, hb1) \<Rightarrow>
          (Some (Inl (ClientTransport ''heartbeat timeout'')), ch\<lparr>ec_transport := cp_close (ec_transport ch)\<rparr>, hb1)
      | (HbWait, hb1) \<Rightarrow>
          if tk_frame t
          then (case recv_encrypted kr ch of (r, ch1) \<Rightarrow> (Some r, ch1, on_inbound (tk_then t) hb1))
          else recv_with_heartbeat kr ts (ch, hb1))"

section \<open>A dead peer is noticed\<close>

text \<open>The clock does not go back, and a sleep takes as long as it should.\<close>

fun clock_kept :: "heartbeat \<Rightarrow> tick list \<Rightarrow> bool" where
  "clock_kept hb (t # t' # ts) \<longleftrightarrow>
     (case heartbeat_poll (tk_now t) (tk_nonce t) hb of
        (HbWait, hb') \<Rightarrow> unat (tk_now t) + unat (heartbeat_sleep_ms (tk_now t) hb) \<le> unat (tk_now t') \<and> clock_kept hb' (t' # ts)
      | (_, hb') \<Rightarrow> tk_now t \<le> tk_now t' \<and> clock_kept hb' (t' # ts))"
| "clock_kept hb _ \<longleftrightarrow> True"

lemma poll_outstanding:
  "hb_ping_outstanding hb \<Longrightarrow> heartbeat_poll now nonce hb =
     (if unat (hb_last_inbound_at_ms hb) + 30000 \<le> unat now then HbTimeout else HbWait, hb)"
  by (auto simp: heartbeat_poll_def Let_def HEARTBEAT_TIMEOUT_MS_def word_le_nat_alt unat_simps)

lemma poll_idle:
  "\<not> hb_ping_outstanding hb \<Longrightarrow> heartbeat_poll now nonce hb =
     (if unat (hb_last_inbound_at_ms hb) + 10000 \<le> unat now then (HbSendPing nonce, hb\<lparr>hb_ping_outstanding := True\<rparr>)
      else (HbWait, hb))"
  by (auto simp: heartbeat_poll_def Let_def HEARTBEAT_IDLE_MS_def word_le_nat_alt unat_simps)


lemma sleep_reaches:
  assumes "unat (hb_last_inbound_at_ms hb) \<le> unat now"
  shows "unat (hb_last_inbound_at_ms hb) + (if hb_ping_outstanding hb then 30000 else 10000) \<le> unat now + unat (heartbeat_sleep_ms now hb)"
  using assms by (simp add: heartbeat_sleep_ms_def Let_def unat_simps HEARTBEAT_TIMEOUT_MS_def HEARTBEAT_IDLE_MS_def max_def word_le_nat_alt)
    arith

lemma silent_ping:
  assumes out: "hb_ping_outstanding hb" and ck: "clock_kept hb (t1 # t2 # ts)" and f: "\<not> tk_frame t1"
    and l: "unat (hb_last_inbound_at_ms hb) \<le> unat (tk_now t1)"
  shows "\<exists>ch'. recv_with_heartbeat kr (t1 # t2 # ts) (ch, hb) = (Some (Inl (ClientTransport ''heartbeat timeout'')), ch', hb)"
proof (cases "unat (hb_last_inbound_at_ms hb) + 30000 \<le> unat (tk_now t1)")
  case True
  then show ?thesis by (simp add: poll_outstanding [OF out])
next
  case False
  then have "unat (tk_now t1) + unat (heartbeat_sleep_ms (tk_now t1) hb) \<le> unat (tk_now t2)"
    using ck by (simp add: poll_outstanding [OF out])
  then have "unat (hb_last_inbound_at_ms hb) + 30000 \<le> unat (tk_now t2)" using sleep_reaches [OF l] out by simp
  with False f show ?thesis by (simp add: poll_outstanding [OF out])
qed

lemma silent_idle:
  assumes idle: "\<not> hb_ping_outstanding hb" and due: "unat (hb_last_inbound_at_ms hb) + 10000 \<le> unat (tk_now t1)"
    and ck: "clock_kept hb (t1 # t2 # t3 # ts)" and f: "\<not> tk_frame t2"
  shows "\<exists>e ch' hb'. recv_with_heartbeat kr (t1 # t2 # t3 # ts) (ch, hb) = (Some (Inl e), ch', hb')"
proof -
  let ?hb = "hb\<lparr>hb_ping_outstanding := True\<rparr>"
  have p: "heartbeat_poll (tk_now t1) (tk_nonce t1) hb = (HbSendPing (tk_nonce t1), ?hb)"
    using due by (simp add: poll_idle [OF idle])
  then have ck1: "clock_kept ?hb (t2 # t3 # ts)" "tk_now t1 \<le> tk_now t2" using ck by simp_all
  obtain r ch1 where s: "send_encrypted kr (FPing (tk_nonce t1)) ch = (r, ch1)" by fastforce
  have "unat (hb_last_inbound_at_ms ?hb) \<le> unat (tk_now t2)" using due ck1(2) by (simp add: word_le_nat_alt)
  from silent_ping [OF _ ck1(1) f this, of kr ch1] p s show ?thesis by (cases r) auto
qed



end
