(* ===== verification/Client_Input.thy ===== *)
theory Client_Input
  imports Client_Types
begin

text \<open>
  How the client joins small inputs into bigger ones (\<open>try_merge_input_command\<close>,
  \<open>coalesce_pending_input_front\<close>, \<open>batch_input_command\<close> in
  \<open>crates/client/client-core/src/session.rs\<close>). What arrives during the batch window, and the
  clock, are an input.
\<close>

section \<open>Joining inputs\<close>

definition DEFAULT_INPUT_BATCH_WINDOW_MS :: u64 where "DEFAULT_INPUT_BATCH_WINDOW_MS = 8"
definition MAX_INPUT_BATCH_WINDOW_MS :: u64 where "MAX_INPUT_BATCH_WINDOW_MS = 50"

text \<open>The argument is the number in the environment variable, if it holds one.\<close>

definition input_batch_window_ms :: "u64 option \<Rightarrow> u64" where
  "input_batch_window_ms var =
     (case var of None \<Rightarrow> DEFAULT_INPUT_BATCH_WINDOW_MS | Some v \<Rightarrow> min v MAX_INPUT_BATCH_WINDOW_MS)"

fun try_merge_input_command :: "terminal_cmd \<Rightarrow> terminal_cmd \<Rightarrow> (terminal_cmd, terminal_cmd) result" where
  "try_merge_input_command (CmdInput i bs) (CmdInput j cs) =
     (if i = j then Inr (CmdInput i (bs @ cs)) else Inl (CmdInput j cs))"
| "try_merge_input_command _ cmd = Inl cmd"

fun coalesce_pending_input_front :: "terminal_cmd list \<Rightarrow> terminal_cmd list" where
  "coalesce_pending_input_front (front # cmd # rest) =
     (case try_merge_input_command front cmd of
        Inr merged \<Rightarrow> coalesce_pending_input_front (merged # rest)
      | Inl cmd' \<Rightarrow> front # cmd' # rest)"
| "coalesce_pending_input_front cmds = cmds"

datatype arrival = ArrivedCmd terminal_cmd | QueueClosed | WindowOver

text \<open>The time at which the loop looks at the clock, and what comes first after that.\<close>

record batch_tick =
  bt_now :: u64
  bt_arrival :: arrival

fun batch_loop :: "u64 \<Rightarrow> batch_tick list \<Rightarrow> terminal_cmd \<Rightarrow> terminal_cmd list \<Rightarrow> terminal_cmd \<times> terminal_cmd list" where
  "batch_loop deadline [] cmd deferred = (cmd, deferred)"
| "batch_loop deadline (t # ts) cmd deferred =
     (if sat_sub deadline (bt_now t) = 0 then (cmd, deferred)
      else (case bt_arrival t of
        ArrivedCmd c \<Rightarrow>
          (case try_merge_input_command cmd c of
             Inr merged \<Rightarrow> batch_loop deadline ts merged deferred
           | Inl c' \<Rightarrow> batch_loop deadline ts cmd (deferred @ [c']))
      | QueueClosed \<Rightarrow> (cmd, deferred)
      | WindowOver \<Rightarrow> (cmd, deferred)))"

definition batch_input_command ::
  "u64 \<Rightarrow> u64 \<Rightarrow> batch_tick list \<Rightarrow> terminal_cmd \<Rightarrow> terminal_cmd \<times> terminal_cmd list" where
  "batch_input_command window_ms now ticks first_cmd =
     (case first_cmd of
        CmdInput _ _ \<Rightarrow>
          if window_ms = 0 then (first_cmd, [])
          else batch_loop (sat_add now window_ms) ticks first_cmd []
      | _ \<Rightarrow> (first_cmd, []))"

section \<open>Nothing is lost\<close>

text \<open>The bytes for one terminal, the other commands, and the whole stream with its order.\<close>

definition input_of :: "terminal_id \<Rightarrow> terminal_cmd list \<Rightarrow> bytes" where
  "input_of i cmds = concat (map (\<lambda>c. case c of CmdInput j bs \<Rightarrow> if j = i then bs else [] | _ \<Rightarrow> []) cmds)"

definition is_input :: "terminal_cmd \<Rightarrow> bool" where
  "is_input c = (case c of CmdInput _ _ \<Rightarrow> True | _ \<Rightarrow> False)"

definition other_cmds :: "terminal_cmd list \<Rightarrow> terminal_cmd list" where
  "other_cmds cmds = filter (\<lambda>c. \<not> is_input c) cmds"

definition command_stream :: "terminal_cmd list \<Rightarrow> (terminal_cmd + terminal_id \<times> u8) list" where
  "command_stream cmds = concat (map (\<lambda>c. case c of CmdInput i bs \<Rightarrow> map (\<lambda>b. Inr (i, b)) bs | _ \<Rightarrow> [Inl c]) cmds)"

lemma cmd_append [simp]:
  "input_of i (xs @ ys) = input_of i xs @ input_of i ys"
  "other_cmds (xs @ ys) = other_cmds xs @ other_cmds ys"
  "command_stream (xs @ ys) = command_stream xs @ command_stream ys"
  by (simp_all add: input_of_def other_cmds_def command_stream_def)

lemma cmd_Nil [simp]: "input_of i [] = []" "other_cmds [] = []" "command_stream [] = []"
  by (simp_all add: input_of_def other_cmds_def command_stream_def)

lemma cmd_Cons:
  "input_of i (c # cs) = input_of i [c] @ input_of i cs"
  "other_cmds (c # cs) = other_cmds [c] @ other_cmds cs"
  "command_stream (c # cs) = command_stream [c] @ command_stream cs"
  by (simp_all add: input_of_def other_cmds_def command_stream_def)

lemma merge_ok:
  "try_merge_input_command a b = Inr c \<Longrightarrow> is_input a \<and> is_input c \<and> command_stream [c] = command_stream [a, b] \<and>
     input_of i [c] = input_of i [a, b] \<and> other_cmds [c] = other_cmds [a, b]"
  "try_merge_input_command a b = Inl c \<Longrightarrow> c = b"
  by (cases "(a, b)" rule: try_merge_input_command.cases;
      auto simp: command_stream_def input_of_def other_cmds_def is_input_def split: if_splits)+

lemma coalesce_stream: "command_stream (coalesce_pending_input_front cmds) = command_stream cmds"
proof (induction cmds rule: coalesce_pending_input_front.induct)
  case (1 front cmd rest)
  show ?case
  proof (cases "try_merge_input_command front cmd")
    case (Inl c)
    with merge_ok(2) [OF Inl] show ?thesis by simp
  next
    case (Inr merged)
    have "command_stream (merged # rest) = command_stream ([front, cmd] @ rest)"
      using merge_ok(1) [OF Inr] cmd_Cons(3) [of merged rest] by (simp only: cmd_append)
    with 1 [OF Inr] Inr show ?thesis by simp
  qed
qed simp_all

definition arrived :: "batch_tick list \<Rightarrow> terminal_cmd list" where
  "arrived ticks = concat (map (\<lambda>t. case bt_arrival t of ArrivedCmd c \<Rightarrow> [c] | _ \<Rightarrow> []) ticks)"

text \<open>The ticks that the loop consumes.\<close>

fun batch_taken :: "u64 \<Rightarrow> batch_tick list \<Rightarrow> batch_tick list" where
  "batch_taken deadline [] = []"
| "batch_taken deadline (t # ts) =
     (if sat_sub deadline (bt_now t) = 0 then []
      else (case bt_arrival t of ArrivedCmd c \<Rightarrow> t # batch_taken deadline ts | _ \<Rightarrow> []))"


lemma input_Cons_other: "i \<noteq> j \<Longrightarrow> input_of i (CmdInput j bs # cs) = input_of i cs"
  by (simp add: input_of_def)

lemma input_Cons_same: "input_of j (CmdInput j bs # cs) = bs @ input_of j cs"
  by (simp add: input_of_def)

lemma other_Cons_input: "other_cmds (CmdInput j bs # cs) = other_cmds cs"
  by (simp add: other_cmds_def is_input_def)

lemmas input_simps = input_Cons_other input_Cons_same other_Cons_input

lemma merge_into_input:
  "try_merge_input_command (CmdInput j bs) c =
     (case c of CmdInput i cs \<Rightarrow> if i = j then Inr (CmdInput j (bs @ cs)) else Inl c | _ \<Rightarrow> Inl c)"
  by (cases c) auto

lemma batch_loop_ok:
  "batch_loop deadline ticks (CmdInput j bs) deferred = (cmd', deferred') \<Longrightarrow> input_of j deferred = [] \<Longrightarrow>
     input_of i (cmd' # deferred') = input_of i (CmdInput j bs # deferred @ arrived (batch_taken deadline ticks)) \<and>
     other_cmds (cmd' # deferred') = other_cmds (deferred @ arrived (batch_taken deadline ticks))"
proof (induction ticks arbitrary: bs deferred)
  case Nil
  then show ?case by (auto simp: arrived_def input_simps)
next
  case (Cons t ts)
  show ?case
  proof (cases "sat_sub deadline (bt_now t) = 0 \<or> \<not> (\<exists>c. bt_arrival t = ArrivedCmd c)")
    case True
    with Cons.prems show ?thesis by (auto simp: arrived_def input_simps split: arrival.splits)
  next
    case False
    then obtain c where c: "bt_arrival t = ArrivedCmd c" "sat_sub deadline (bt_now t) \<noteq> 0" by blast
    have a: "arrived (batch_taken deadline (t # ts)) = c # arrived (batch_taken deadline ts)"
      using c by (simp add: arrived_def)
    show ?thesis
    proof (cases "\<exists>cs. c = CmdInput j cs")
      case True
      then obtain cs where cs: "c = CmdInput j cs" by blast
      with Cons.prems c have "batch_loop deadline ts (CmdInput j (bs @ cs)) deferred = (cmd', deferred')" by simp
      from Cons.IH [OF this Cons.prems(2)] Cons.prems(2) show ?thesis
        unfolding a cs by (cases "i = j") (simp_all add: input_simps)
    next
      case no: False
      then have m: "try_merge_input_command (CmdInput j bs) c = Inl c"
        by (auto simp: merge_into_input split: terminal_cmd.split)
      have "input_of j [c] = []" using no by (auto simp: input_of_def split: terminal_cmd.split)
      then have "input_of j (deferred @ [c]) = []" using Cons.prems(2) by simp
      moreover have "batch_loop deadline ts (CmdInput j bs) (deferred @ [c]) = (cmd', deferred')"
        using Cons.prems(1) c m by simp
      ultimately show ?thesis using Cons.IH [of bs "deferred @ [c]"] unfolding a by simp
    qed
  qed
qed

text \<open>
  C32. Joining inputs loses nothing and mixes nothing: after the batch window the client
  holds, for every terminal, exactly the bytes that were typed for it in their order, and
  the other commands in their order; joining what waits at the front of the queue keeps
  even the order between the inputs of different terminals and the other commands.
\<close>

theorem batching_keeps_input:
  assumes "batch_input_command window_ms now ticks first_cmd = (cmd, deferred)"
  shows "(\<exists>n. \<forall>i. input_of i (cmd # deferred) = input_of i (first_cmd # arrived (take n ticks)) \<and>
      other_cmds (cmd # deferred) = other_cmds (first_cmd # arrived (take n ticks))) \<and>
    command_stream (coalesce_pending_input_front (cmd # deferred @ later)) = command_stream (cmd # deferred @ later)"
proof -
  have taken: "\<exists>n. batch_taken d ts = take n ts" for d ts
  proof (induction ts)
    case (Cons t ts)
    then obtain n where n: "batch_taken d ts = take n ts" by blast
    show ?case
    proof (cases "sat_sub d (bt_now t) = 0 \<or> \<not> (\<exists>c. bt_arrival t = ArrivedCmd c)")
      case True
      then show ?thesis by (intro exI [of _ 0]) (auto split: arrival.split)
    next
      case False
      with n show ?thesis by (intro exI [of _ "Suc n"]) auto
    qed
  qed simp
  have "\<exists>n. \<forall>i. input_of i (cmd # deferred) = input_of i (first_cmd # arrived (take n ticks)) \<and>
      other_cmds (cmd # deferred) = other_cmds (first_cmd # arrived (take n ticks))"
  proof (cases "\<exists>j bs. first_cmd = CmdInput j bs \<and> window_ms \<noteq> 0")
    case True
    then obtain j bs where f: "first_cmd = CmdInput j bs" "window_ms \<noteq> 0" by blast
    then have "batch_loop (sat_add now window_ms) ticks (CmdInput j bs) [] = (cmd, deferred)"
      using assms by (simp add: batch_input_command_def)
    note b = batch_loop_ok [OF this cmd_Nil(1)]
    obtain n where "batch_taken (sat_add now window_ms) ticks = take n ticks" using taken by blast
    with b show ?thesis by (intro exI [of _ n]) (simp add: f input_simps)
  next
    case False
    then have "cmd = first_cmd \<and> deferred = []"
      using assms by (cases first_cmd) (auto simp: batch_input_command_def)
    then show ?thesis by (intro exI [of _ 0]) (simp add: arrived_def)
  qed
  with coalesce_stream show ?thesis by blast
qed

text \<open>The order between inputs and the other commands is not kept by the batch window.\<close>

lemma batching_reorders:
  "batch_input_command 8 0 [\<lparr>bt_now = 1, bt_arrival = ArrivedCmd (CmdResize i 80 24)\<rparr>,
      \<lparr>bt_now = 2, bt_arrival = ArrivedCmd (CmdInput i cs)\<rparr>] (CmdInput i bs) =
    (CmdInput i (bs @ cs), [CmdResize i 80 24])"
  by (simp add: batch_input_command_def sat_add_def sat_sub_def)

theorem batching_keeps_input_witness:
  "\<exists>cmd deferred n. batch_input_command 8 0 [\<lparr>bt_now = 1, bt_arrival = ArrivedCmd (CmdInput (TerminalId 2) [9])\<rparr>,
      \<lparr>bt_now = 2, bt_arrival = ArrivedCmd (CmdInput (TerminalId 1) [8])\<rparr>] (CmdInput (TerminalId 1) [7]) = (cmd, deferred) \<and>
    cmd = CmdInput (TerminalId 1) [7, 8] \<and>
    (\<forall>i. input_of i (cmd # deferred) = input_of i (CmdInput (TerminalId 1) [7] # arrived (take n
      [\<lparr>bt_now = 1, bt_arrival = ArrivedCmd (CmdInput (TerminalId 2) [9])\<rparr>,
       \<lparr>bt_now = 2, bt_arrival = ArrivedCmd (CmdInput (TerminalId 1) [8])\<rparr>])))"
proof -
  have b: "batch_input_command 8 0 [\<lparr>bt_now = 1, bt_arrival = ArrivedCmd (CmdInput (TerminalId 2) [9])\<rparr>,
      \<lparr>bt_now = 2, bt_arrival = ArrivedCmd (CmdInput (TerminalId 1) [8])\<rparr>] (CmdInput (TerminalId 1) [7]) =
      (CmdInput (TerminalId 1) [7, 8], [CmdInput (TerminalId 2) [9]])"
    by (simp add: batch_input_command_def sat_add_def sat_sub_def)
  from batching_keeps_input [OF b] b show ?thesis by blast
qed

end
