(* ===== verification/Client_Reconnect.thy ===== *)
theory Client_Reconnect
  imports Prelude "HOL-Library.Signed_Division"
begin

text \<open>
  \<open>crates/client/client-core/src/reconnect.rs\<close>: how long the client waits before it connects
  again. The products are computed at a width where they cannot overflow (\<open>u128\<close>, \<open>i128\<close>).
\<close>

definition next_delay :: "u64 \<Rightarrow> u64 \<Rightarrow> u32 \<Rightarrow> u64" where
  "next_delay cur_ms max_ms mul_x10 =
     (let scaled = unat cur_ms * unat mul_x10 div 10
      in max (min (sat_of_nat scaled) max_ms) 50)"

definition jitter :: "u64 \<Rightarrow> u8 \<Rightarrow> u64" where
  "jitter base_ms rng_byte =
     (let offset = int (unat rng_byte) - 128;
          delta = (int (unat base_ms) * offset) sdiv 512;
          jittered = int (unat base_ms) + delta
      in if jittered \<le> 0 then 1 else sat_of_nat (nat jittered))"

lemma next_delay_value:
  "unat (next_delay cur max_ms mul) = max (min (unat cur * unat mul div 10) (unat max_ms)) 50"
proof -
  have "unat max_ms < 2 ^ 64" using unat_lt_pow [of max_ms] by simp
  then show ?thesis by (simp add: next_delay_def Let_def unat_simps)
qed

lemma sdiv_bounds:
  fixes b k :: int
  assumes "0 \<le> b" and "- 128 \<le> k" and "k \<le> 127"
  shows "- (b div 4) \<le> (b * k) sdiv 512 \<and> (b * k) sdiv 512 \<le> b div 4"
proof (cases "0 \<le> k")
  case True
  have "b * k \<le> b * 128" using assms by (intro mult_left_mono) auto
  then have "(b * k) div 512 \<le> (b * 128) div 512" by (rule zdiv_mono1) simp
  moreover have "0 \<le> (b * k) div 512" "0 \<le> b div 4" using assms True by (simp_all add: pos_imp_zdiv_nonneg_iff)
  ultimately show ?thesis using True assms by (simp add: signed_divide_int_def sgn_if)
next
  case False
  have "b * (- k) \<le> b * 128" using assms False by (intro mult_left_mono) auto
  then have "(b * (- k)) div 512 \<le> (b * 128) div 512" by (rule zdiv_mono1) simp
  moreover have "0 \<le> (b * (- k)) div 512" using assms False by (simp add: pos_imp_zdiv_nonneg_iff mult_nonneg_nonpos)
  ultimately show ?thesis using False assms
    by (cases "b = 0") (simp_all add: signed_divide_int_def sgn_if abs_mult zero_less_mult_iff not_le mult_less_0_iff zero_le_mult_iff)
qed

lemma jitter_value:
  "unat base - unat base div 4 \<le> unat (jitter base byte) \<and> unat (jitter base byte) \<le> max (unat base + unat base div 4) 1 \<and>
   1 \<le> unat (jitter base byte)"
proof -
  let ?b = "int (unat base)" and ?k = "int (unat byte) - 128"
  have "int (unat byte) \<le> int 255" unfolding of_nat_le_iff using unat_lt_pow [of byte] by simp
  then have k: "- 128 \<le> ?k" "?k \<le> 127" by simp_all
  have b: "unat base < 2 ^ 64" using unat_lt_pow [of base] by simp
  have d: "- (?b div 4) \<le> (?b * ?k) sdiv 512" "(?b * ?k) sdiv 512 \<le> ?b div 4"
    using sdiv_bounds [of ?b ?k] k by auto
  show ?thesis
  proof (cases "?b + (?b * ?k) sdiv 512 \<le> 0")
    case True
    with d have "unat base = 0" by linarith
    with True show ?thesis by (simp add: jitter_def Let_def)
  next
    case False
    let ?j = "nat (?b + (?b * ?k) sdiv 512)"
    have j: "unat base - unat base div 4 \<le> ?j" "?j \<le> unat base + unat base div 4" "1 \<le> ?j"
      using d False by linarith+
    have "unat (jitter base byte) = min ?j (2 ^ 64 - 1)" using False by (simp add: jitter_def Let_def unat_simps)
    moreover have "unat base - unat base div 4 \<le> 2 ^ 64 - 1" using b by linarith
    ultimately show ?thesis using j by (simp add: min_le_iff_disj)
  qed
qed

text \<open>
  C31. The waits of the backoff are bounded: whatever the configuration, a delay is at least
  50 ms and at most the configured maximum (or 50 ms), and the jitter moves it by at most a
  quarter and never to zero; and with any factor above 1 the delays reach the maximum after
  finitely many attempts and stay there.
\<close>

theorem backoff_bounded:
  assumes "11 \<le> unat mul"
  shows "\<exists>k. \<forall>j. (let d = ((\<lambda>d. next_delay d max_ms mul) ^^ j) start; w = unat (jitter d byte) in
    (0 < j \<longrightarrow> 50 \<le> unat d \<and> unat d \<le> max (unat max_ms) 50) \<and>
    (k \<le> j \<longrightarrow> unat d = max (unat max_ms) 50) \<and>
    unat d - unat d div 4 \<le> w \<and> w \<le> max (unat d + unat d div 4) 1 \<and> 1 \<le> w)"
proof -
  let ?f = "\<lambda>d. next_delay d max_ms mul" and ?M = "max (unat max_ms) 50"
  let ?d = "\<lambda>j. (?f ^^ j) start"
  have lo: "min (50 + j) ?M \<le> unat (?d (Suc j)) \<and> unat (?d (Suc j)) \<le> ?M \<and> 50 \<le> unat (?d (Suc j))" for j
  proof (induction j)
    case 0
    show ?case by (simp add: next_delay_value)
  next
    case (Suc j)
    have "unat (?d (Suc j)) * 11 div 10 \<le> unat (?d (Suc j)) * unat mul div 10"
      using assms by (intro div_le_mono mult_le_mono2)
    moreover have "Suc (unat (?d (Suc j))) \<le> unat (?d (Suc j)) * 11 div 10" using Suc by linarith
    moreover have "unat (?d (Suc (Suc j))) = max (min (unat (?d (Suc j)) * unat mul div 10) (unat max_ms)) 50"
      by (simp add: next_delay_value)
    ultimately show ?case using Suc by (auto simp: min_def max_def split: if_splits)
  qed
  show ?thesis
  proof (intro exI allI)
    fix j
    have "0 < j \<longrightarrow> 50 \<le> unat (?d j) \<and> unat (?d j) \<le> ?M" using lo [of "j - 1"] by (cases j) auto
    moreover have "Suc ?M \<le> j \<longrightarrow> unat (?d j) = ?M"
    proof
      assume j: "Suc ?M \<le> j"
      then obtain i where i: "j = Suc i" "?M \<le> i" by (cases j) auto
      with lo [of i] show "unat (?d j) = ?M" by auto
    qed
    ultimately show "let d = ?d j; w = unat (jitter d byte) in (0 < j \<longrightarrow> 50 \<le> unat d \<and> unat d \<le> ?M) \<and>
        (Suc ?M \<le> j \<longrightarrow> unat d = ?M) \<and> unat d - unat d div 4 \<le> w \<and> w \<le> max (unat d + unat d div 4) 1 \<and> 1 \<le> w"
      using jitter_value [of "?d j" byte] by (simp add: Let_def)
  qed
qed

theorem backoff_bounded_witness:
  "\<exists>k. \<forall>j. (let d = ((\<lambda>d. next_delay d 5000 20) ^^ j) 0; w = unat (jitter d 255) in
    (0 < j \<longrightarrow> 50 \<le> unat d \<and> unat d \<le> max (unat (5000 :: u64)) 50) \<and> (k \<le> j \<longrightarrow> unat d = max (unat (5000 :: u64)) 50) \<and>
    unat d - unat d div 4 \<le> w \<and> w \<le> max (unat d + unat d div 4) 1 \<and> 1 \<le> w)"
  by (rule backoff_bounded) simp

end
