(* ===== verification/Client_Session.thy ===== *)
theory Client_Session
  imports Client_Runtime Client_Channel Client_Input Client_Reconnect
begin

text \<open>
  The client's session (\<open>crates/client/client-core/src/session.rs\<close>): the calls of its users,
  one connection (\<open>run_one_connection\<close>) and the loop that connects again
  (\<open>run_session_loop\<close>). What the clock, the random source, the queues and the network bring
  is an input of every iteration.
\<close>

section \<open>Calls\<close>

text \<open>
  A call queues a command with a fresh reply cell and waits for the cell: a queue whose
  other end is gone, and a cell that is dropped unanswered, both give \<open>ClientClosed\<close>.
\<close>

definition create_terminal where
  "create_terminal closed params r q = queue_cmd closed (CmdCreateTerminal params r) q"

definition open_terminal where
  "open_terminal closed terminal r q = queue_cmd closed (CmdOpenTerminal terminal r) q"

definition list_terminals where
  "list_terminals closed r q = queue_cmd closed (CmdListTerminals r) q"

definition read_history where
  "read_history closed terminal before max_bytes r q = queue_cmd closed (CmdReadHistory terminal before max_bytes r) q"

definition get_server_config where
  "get_server_config closed r q = queue_cmd closed (CmdGetServerConfig r) q"

definition set_server_config where
  "set_server_config closed config r q = queue_cmd closed (CmdSetServerConfig config r) q"

definition kill_terminal where
  "kill_terminal closed terminal r q = queue_cmd closed (CmdKillTerminal terminal r) q"

text \<open>Whether the session was asked to stop, and the queue.\<close>

definition session_shutdown :: "bool \<Rightarrow> session_command list \<Rightarrow> bool \<times> session_command list" where
  "session_shutdown closed q = (True, snd (queue_cmd closed CmdShutdown q))"

section \<open>One connection\<close>

record 't client_connection =
  cn_state :: client_state
  cn_channel :: "'t client_channel"
  cn_heartbeat :: heartbeat
  cn_pending_cmds :: "terminal_cmd list"
  cn_pending_session_cmds :: "session_command list"
  cn_events :: "client_event list"

text \<open>
  What wakes the loop when nothing is pending: a command (\<open>None\<close>: its queue is closed) or
  nothing but frames. The queues come before the transport.
\<close>

datatype wake =
    SessionWake "session_command option"
  | CommandWake "terminal_cmd option"
  | NoWake

record client_env =
  ce_now :: u64
  ce_nonce :: u32
  ce_ticks :: "tick list"
  ce_wake :: wake
  ce_window_ms :: u64
  ce_batch_now :: u64
  ce_batch_ticks :: "batch_tick list"

text \<open>
  How an iteration ends: the loop goes on, it still waits, it is left by \<open>break\<close> (what is
  pending is then failed), or the function returns (by \<open>return\<close> or \<open>?\<close>).
\<close>

datatype client_step =
    StepContinue
  | StepWaiting
  | StepBreak "(client_error, unit) result"
  | StepReturn "(client_error, unit) result"

datatype choice =
    ChoseAction action
  | ChoseWait
  | ChoseReturn "(client_error, unit) result"

definition set_client_state :: "client_state \<Rightarrow> 't client_connection \<Rightarrow> 't client_connection" where
  "set_client_state st cn = cn\<lparr>cn_state := st\<rparr>"

text \<open>The command at the front of a queue is framed; it stays there until it is sent.\<close>

definition frame_session_cmd ::
  "session_command \<Rightarrow> 't client_connection \<Rightarrow> (choice \<times> 't client_connection) option" where
  "frame_session_cmd cmd cn =
     (case frame_for_session_command cmd (cn_state cn) of
        None \<Rightarrow> None
      | Some (f, st) \<Rightarrow> Some (ChoseAction (ActSendPendingSessionCommand f), set_client_state st cn))"

definition frame_cmd :: "terminal_cmd \<Rightarrow> 't client_connection \<Rightarrow> choice \<times> 't client_connection" where
  "frame_cmd cmd cn =
     (case frame_for_command cmd (cn_state cn) of
        (None, st) \<Rightarrow> (ChoseAction ActDropPendingCommand, set_client_state st cn)
      | (Some f, st) \<Rightarrow> (ChoseAction (ActSendPendingCommand f), set_client_state st cn))"

definition wake_up :: "client_env \<Rightarrow> 't client_connection \<Rightarrow> (choice \<times> 't client_connection) option" where
  "wake_up env cn =
     (case ce_wake env of
        SessionWake None \<Rightarrow> Some (ChoseReturn (Inl ClientClosed), cn)
      | SessionWake (Some cmd) \<Rightarrow>
          if cmd = CmdShutdown then Some (ChoseReturn (Inr ()), cn)
          else map_option (\<lambda>(c, cn'). (c, cn'\<lparr>cn_pending_session_cmds := cn_pending_session_cmds cn' @ [cmd]\<rparr>))
                 (frame_session_cmd cmd cn)
      | CommandWake None \<Rightarrow> Some (ChoseReturn (Inl ClientClosed), cn)
      | CommandWake (Some first_cmd) \<Rightarrow>
          (case batch_input_command (ce_window_ms env) (ce_batch_now env) (ce_batch_ticks env) first_cmd of
             (cmd, deferred) \<Rightarrow>
               (case frame_cmd cmd cn of
                  (c, cn') \<Rightarrow> Some (c, cn'\<lparr>cn_pending_cmds := cn_pending_cmds cn' @ cmd # deferred\<rparr>)))
      | NoWake \<Rightarrow> Some (ChoseWait, cn))"

definition take_frame ::
  "(client_error, frame) result \<Rightarrow> 't client_connection \<Rightarrow> choice \<times> 't client_connection" where
  "take_frame r cn =
     (case r of
        Inl e \<Rightarrow> (ChoseReturn (Inl e), cn)
      | Inr f \<Rightarrow>
          (case handle_inbound_frame f (cn_state cn) of
             (Inl e, st) \<Rightarrow> (ChoseReturn (Inl e), set_client_state st cn)
           | (Inr a, st) \<Rightarrow> (ChoseAction a, set_client_state st cn)))"

definition next_action ::
  "('h, 't) client_crates \<Rightarrow> client_env \<Rightarrow> 't client_connection \<Rightarrow> (choice \<times> 't client_connection) option" where
  "next_action kr env cn =
     (case cn_pending_session_cmds cn of
        cmd # _ \<Rightarrow> frame_session_cmd cmd cn
      | [] \<Rightarrow>
          (case coalesce_pending_input_front (cn_pending_cmds cn) of
             cmd # cmds \<Rightarrow> Some (frame_cmd cmd (cn\<lparr>cn_pending_cmds := cmd # cmds\<rparr>))
           | [] \<Rightarrow>
               (case recv_with_heartbeat kr (ce_ticks env) (cn_channel cn, cn_heartbeat cn) of
                  (Some r, ch, hb) \<Rightarrow> Some (take_frame r (cn\<lparr>cn_channel := ch, cn_heartbeat := hb\<rparr>))
                | (None, ch, hb) \<Rightarrow> wake_up env (cn\<lparr>cn_channel := ch, cn_heartbeat := hb\<rparr>))))"

text \<open>\<open>send_encrypted(..).await?\<close>, and what follows when it succeeds.\<close>

definition send_then ::
  "('h, 't) client_crates \<Rightarrow> frame \<Rightarrow> ('t client_connection \<Rightarrow> 't client_connection) \<Rightarrow> 't client_connection \<Rightarrow>
   client_step \<times> 't client_connection" where
  "send_then kr f after cn =
     (case send_encrypted kr f (cn_channel cn) of
        (Inl e, ch) \<Rightarrow> (StepReturn (Inl e), cn\<lparr>cn_channel := ch\<rparr>)
      | (Inr _, ch) \<Rightarrow> (StepContinue, after (cn\<lparr>cn_channel := ch\<rparr>)))"

definition pop_cmd :: "'t client_connection \<Rightarrow> 't client_connection" where
  "pop_cmd cn = cn\<lparr>cn_pending_cmds := tl (cn_pending_cmds cn)\<rparr>"

definition pop_session_cmd :: "'t client_connection \<Rightarrow> 't client_connection" where
  "pop_session_cmd cn = cn\<lparr>cn_pending_session_cmds := tl (cn_pending_session_cmds cn)\<rparr>"

definition emit :: "client_event \<Rightarrow> 't client_connection \<Rightarrow> 't client_connection" where
  "emit ev cn = cn\<lparr>cn_events := cn_events cn @ [ev]\<rparr>"

definition perform_action ::
  "('h, 't) client_crates \<Rightarrow> action \<Rightarrow> 't client_connection \<Rightarrow> client_step \<times> 't client_connection" where
  "perform_action kr a cn =
     (case a of
        ActSend f \<Rightarrow> send_then kr f id cn
      | ActSendPendingCommand f \<Rightarrow> send_then kr f pop_cmd cn
      | ActDropPendingCommand \<Rightarrow> (StepContinue, pop_cmd cn)
      | ActSendPendingSessionCommand f \<Rightarrow> send_then kr f pop_session_cmd cn
      | ActEmit ev \<Rightarrow> (StepContinue, emit ev cn)
      | ActReturn r \<Rightarrow> (StepBreak r, cn)
      | ActNone \<Rightarrow> (StepContinue, cn))"

definition client_iteration ::
  "('h, 't) client_crates \<Rightarrow> client_env \<Rightarrow> 't client_connection \<Rightarrow> (client_step \<times> 't client_connection) option" where
  "client_iteration kr env cn =
     (case heartbeat_poll (ce_now env) (ce_nonce env) (cn_heartbeat cn) of
        (HbSendPing nonce, hb) \<Rightarrow> Some (send_then kr (FPing nonce) id (cn\<lparr>cn_heartbeat := hb\<rparr>))
      | (HbTimeout, hb) \<Rightarrow>
          Some (StepBreak (Inl (ClientTransport ''heartbeat timeout'')),
            cn\<lparr>cn_heartbeat := hb, cn_channel := (cn_channel cn)\<lparr>ec_transport := cp_close (ec_transport (cn_channel cn))\<rparr>\<rparr>)
      | (HbWait, hb) \<Rightarrow>
          (case next_action kr env (cn\<lparr>cn_heartbeat := hb\<rparr>) of
             None \<Rightarrow> None
           | Some (ChoseAction a, cn') \<Rightarrow> Some (perform_action kr a cn')
           | Some (ChoseWait, cn') \<Rightarrow> Some (StepWaiting, cn')
           | Some (ChoseReturn r, cn') \<Rightarrow> Some (StepReturn r, cn')))"

text \<open>The loop over given iterations: \<open>None\<close> as the result while it is still running.\<close>

fun client_loop ::
  "('h, 't) client_crates \<Rightarrow> client_env list \<Rightarrow> 't client_connection \<Rightarrow> (client_step \<times> 't client_connection) option" where
  "client_loop kr [] cn = Some (StepWaiting, cn)"
| "client_loop kr (env # envs) cn =
     (case client_iteration kr env cn of
        None \<Rightarrow> None
      | Some (StepContinue, cn') \<Rightarrow> client_loop kr envs cn'
      | Some (StepWaiting, cn') \<Rightarrow> client_loop kr envs cn'
      | Some (ended, cn') \<Rightarrow> Some (ended, cn'))"

text \<open>
  After the loop: \<open>break\<close> fails what is pending with the error. When the function returns the
  runtime is dropped, and with it its reply cells.
\<close>

definition command_reply :: "session_command \<Rightarrow> reply option" where
  "command_reply cmd =
     (case cmd of
        CmdCreateTerminal _ r \<Rightarrow> Some r
      | CmdOpenTerminal _ r \<Rightarrow> Some r
      | CmdListTerminals r \<Rightarrow> Some r
      | CmdReadHistory _ _ _ r \<Rightarrow> Some r
      | CmdGetServerConfig r \<Rightarrow> Some r
      | CmdSetServerConfig _ r \<Rightarrow> Some r
      | CmdKillTerminal _ r \<Rightarrow> Some r
      | CmdShutdown \<Rightarrow> None)"

definition drop_runtime :: "client_state \<Rightarrow> client_state" where
  "drop_runtime st = st\<lparr>cl_runtime := runtime_default\<rparr>"

text \<open>
  What the caller that waits for a cell gets: the answer in the log; nothing yet while a
  pending request or a queued command holds the cell; else the sender is gone.
\<close>

definition cell_held :: "reply \<Rightarrow> session_command list \<Rightarrow> runtime_state \<Rightarrow> bool" where
  "cell_held r cmds rn \<longleftrightarrow>
     Some r \<in> txn_reply ` set (hm_values (rn_pending_requests rn)) \<or> Some r \<in> command_reply ` set cmds"

definition cell_result :: "reply \<Rightarrow> session_command list \<Rightarrow> client_state \<Rightarrow> (client_error, reply_value) result option" where
  "cell_result r cmds st =
     (case map_of (cl_replies st) r of
        Some v \<Rightarrow> Some v
      | None \<Rightarrow> if cell_held r cmds (cl_runtime st) then None else Some (Inl ClientClosed))"

definition disconnect_error :: "(client_error, unit) result \<Rightarrow> client_error" where
  "disconnect_error r = (case r of Inl e \<Rightarrow> e | Inr _ \<Rightarrow> ClientClosed)"

fun finish_connection ::
  "client_step \<Rightarrow> 't client_connection \<Rightarrow> (client_error, unit) result option \<times> 't client_connection" where
  "finish_connection (StepBreak r) cn =
     (Some r, set_client_state (drop_runtime (fail_all_pending_requests (disconnect_error r) (cn_state cn))) cn)"
| "finish_connection (StepReturn r) cn = (Some r, set_client_state (drop_runtime (cn_state cn)) cn)"
| "finish_connection _ cn = (None, cn)"

section \<open>Connecting again\<close>

definition should_retry_after_disconnect :: "client_error \<Rightarrow> bool" where
  "should_retry_after_disconnect e \<longleftrightarrow> (case e of ClientRejected _ \<Rightarrow> False | ClientClosed \<Rightarrow> False | _ \<Rightarrow> True)"

text \<open>The state of \<open>run_session_loop\<close>; \<open>sl_slept\<close> records its waits.\<close>

record session_loop =
  sl_delay :: u64
  sl_ever_connected :: bool
  sl_terminal :: "terminal_handle option"
  sl_pending_cmds :: "terminal_cmd list"
  sl_pending_session_cmds :: "session_command list"
  sl_replies :: reply_log
  sl_events :: "client_event list"
  sl_slept :: "u64 list"

text \<open>
  What an attempt meets: whether the session was asked to stop, at each place where the loop
  looks; the transport, or \<open>None\<close> when connecting takes too long; whether the handshake
  takes too long; the time and the iterations after it; a random byte.
\<close>

record session_attempt =
  sa_stop_before :: bool
  sa_connect :: "(client_error, client_transport) result option"
  sa_stop_unconnected :: bool
  sa_setup_timeout :: bool
  sa_now :: u64
  sa_envs :: "client_env list"
  sa_stop_after :: bool
  sa_stop_sleep :: bool
  sa_byte :: u8

definition connect_transport_with_timeout ::
  "(client_error, client_transport) result option \<Rightarrow> (client_error, client_transport) result" where
  "connect_transport_with_timeout c = (case c of None \<Rightarrow> Inl (ConnectTimeout CONNECT_ATTEMPT_TIMEOUT_MS) | Some r \<Rightarrow> r)"

definition sleep_backoff :: "u64 \<Rightarrow> u64 \<Rightarrow> u32 \<Rightarrow> u8 \<Rightarrow> session_loop \<Rightarrow> session_loop" where
  "sleep_backoff start max_ms mul byte sl =
     sl\<lparr>sl_slept := sl_slept sl @ [jitter (sl_delay sl) byte], sl_delay := next_delay (sl_delay sl) max_ms mul\<rparr>"

definition loop_event :: "client_event \<Rightarrow> session_loop \<Rightarrow> session_loop" where
  "loop_event ev sl = sl\<lparr>sl_events := sl_events sl @ [ev]\<rparr>"

text \<open>
  \<open>run_one_connection\<close>: the outcome, whether it was connected, and the loop's state after it.
  The outer \<open>None\<close> is a panic, the inner one a connection that is still running.
\<close>

definition run_one_connection ::
  "('h, 't) client_crates \<Rightarrow> key_pair \<Rightarrow> session_config \<Rightarrow> session_attempt \<Rightarrow> client_transport \<Rightarrow> session_loop \<Rightarrow>
   ((client_error, unit) result option \<times> bool \<times> session_loop) option" where
  "run_one_connection kr identity cfg att t sl =
     (if sa_setup_timeout att then Some (Some (Inl (ConnectTimeout CONNECT_ATTEMPT_TIMEOUT_MS)), False, sl)
      else (case establish_session kr identity cfg t of
        (Inl e, _) \<Rightarrow> Some (Some (Inl e), False, sl)
      | (Inr (ch, sid, label), _) \<Rightarrow>
          (case client_loop kr (sa_envs att)
             \<lparr>cn_state = \<lparr>cl_runtime = runtime_default, cl_terminal = sl_terminal sl, cl_next_id = 1, cl_replies = sl_replies sl\<rparr>,
              cn_channel = ch, cn_heartbeat = heartbeat_new (sa_now att), cn_pending_cmds = sl_pending_cmds sl,
              cn_pending_session_cmds = sl_pending_session_cmds sl, cn_events = sl_events sl @ [EventConnected sid label]\<rparr> of
             None \<Rightarrow> None
           | Some (ended, cn) \<Rightarrow>
               (case finish_connection ended cn of
                  (r, cn') \<Rightarrow>
                    Some (r, True, sl\<lparr>sl_terminal := cl_terminal (cn_state cn'), sl_pending_cmds := cn_pending_cmds cn',
                      sl_pending_session_cmds := cn_pending_session_cmds cn', sl_replies := cl_replies (cn_state cn'),
                      sl_events := cn_events cn'\<rparr>)))))"

text \<open>
  The decision after a connection that has ended: the event to the user, and whether the
  loop connects again.
\<close>

definition after_connection ::
  "client_texts \<Rightarrow> bool \<Rightarrow> (client_error, unit) result \<Rightarrow> session_loop \<Rightarrow> bool \<times> session_loop" where
  "after_connection tx reached outcome sl =
     (case outcome of
        Inr _ \<Rightarrow>
          (let will_retry = reached \<or> sl_ever_connected sl in
           (will_retry, loop_event (EventDisconnected will_retry ''remote closed'') sl))
      | Inl e \<Rightarrow>
          (let will_retry = should_retry_after_disconnect e \<and> (reached \<or> sl_ever_connected sl) in
           (will_retry, loop_event (EventDisconnected will_retry (client_error_text tx e)) sl)))"

datatype attempt_end = Again | Ended | StillConnected

text \<open>One round of \<open>run_session_loop\<close>.\<close>

definition session_attempt ::
  "('h, 't) client_crates \<Rightarrow> key_pair \<Rightarrow> session_config \<Rightarrow> session_attempt \<Rightarrow> session_loop \<Rightarrow>
   (attempt_end \<times> session_loop) option" where
  "session_attempt kr identity cfg att sl =
     (case cg_backoff cfg of (start, max_ms, mul) \<Rightarrow>
      if sa_stop_before att then Some (Ended, sl)
      else (let sl1 = loop_event EventConnecting sl in
       case connect_transport_with_timeout (sa_connect att) of
         Inl e \<Rightarrow>
           if sa_stop_unconnected att then Some (Ended, sl1)
           else (let will_retry = sl_ever_connected sl1 \<and> should_retry_after_disconnect e;
                     sl2 = loop_event (EventDisconnected will_retry (client_error_text (kr_texts kr) e)) sl1
                 in if will_retry then Some (Again, sleep_backoff start max_ms mul (sa_byte att) sl2) else Some (Ended, sl2))
       | Inr t \<Rightarrow>
           (case run_one_connection kr identity cfg att t sl1 of
              None \<Rightarrow> None
            | Some (None, _, sl2) \<Rightarrow> Some (StillConnected, sl2)
            | Some (Some outcome, reached, sl2) \<Rightarrow>
                (let sl3 = sl2\<lparr>sl_terminal := None\<rparr> in
                 if sa_stop_after att then Some (Ended, sl3)
                 else (let sl4 = (if reached then sl3\<lparr>sl_ever_connected := True, sl_delay := start\<rparr> else sl3) in
                  case after_connection (kr_texts kr) reached outcome sl4 of
                    (False, sl5) \<Rightarrow> Some (Ended, sl5)
                  | (True, sl5) \<Rightarrow>
                      if sa_stop_sleep att then Some (Ended, sl5)
                      else Some (Again, sleep_backoff start max_ms mul (sa_byte att) sl5))))))"

fun run_session_loop ::
  "('h, 't) client_crates \<Rightarrow> key_pair \<Rightarrow> session_config \<Rightarrow> session_attempt list \<Rightarrow> session_loop \<Rightarrow>
   (attempt_end \<times> session_loop) option" where
  "run_session_loop kr identity cfg [] sl = Some (Again, sl)"
| "run_session_loop kr identity cfg (att # atts) sl =
     (case session_attempt kr identity cfg att sl of
        Some (Again, sl') \<Rightarrow> run_session_loop kr identity cfg atts sl'
      | r \<Rightarrow> r)"

definition session_start :: "session_config \<Rightarrow> session_loop" where
  "session_start cfg =
     \<lparr>sl_delay = fst (cg_backoff cfg), sl_ever_connected = False, sl_terminal = None, sl_pending_cmds = [],
      sl_pending_session_cmds = [], sl_replies = [], sl_events = [], sl_slept = []\<rparr>"

end
