(* ===== verification/Client_Server.thy ===== *)
theory Client_Server
  imports Client_Session Daemon_Requests
begin

text \<open>
  Client and daemon together: the daemon's answers are what the client waits for, and the
  live output of an open terminal arrives whole, unless the terminal writes while it is
  opened or another one is opened while it writes.
\<close>

section \<open>Answers\<close>

text \<open>The pending entry that stands for a request.\<close>

definition txn_for :: "request_body \<Rightarrow> request_txn \<Rightarrow> bool" where
  "txn_for body txn \<longleftrightarrow>
     (case body of
        ReqListTerminals \<Rightarrow> (\<exists>r. txn = TxnListTerminals r)
      | ReqCreateTerminal _ \<Rightarrow> (\<exists>r. txn = TxnCreateTerminal r)
      | ReqOpenTerminal i \<Rightarrow> (\<exists>r. txn = TxnOpenTerminal i r)
      | ReqReadHistory i _ _ \<Rightarrow> (\<exists>r. txn = TxnReadHistory i r)
      | ReqKillTerminal _ \<Rightarrow> (\<exists>r. txn = TxnKillTerminal r)
      | ReqGetServerConfig \<Rightarrow> (\<exists>r. txn = TxnGetConfig r)
      | ReqSetServerConfig _ \<Rightarrow> (\<exists>r. txn = TxnSetConfig r)
      | ReqSendInput _ _ \<Rightarrow> txn = TxnSendInputAck
      | ReqResizeTerminal _ _ _ \<Rightarrow> txn = TxnResizeAck)"

definition pending :: "client_state \<Rightarrow> u32 \<Rightarrow> request_txn option" where
  "pending st = hm_get (rn_pending_requests (cl_runtime st))"

lemma clear_active_pending [simp]: "pending (clear_active_terminal st) = pending st"
    "cl_next_id (clear_active_terminal st) = cl_next_id st" "cl_replies (clear_active_terminal st) = cl_replies st"
  by (simp_all add: pending_def clear_active_terminal_def clear_active_def)

lemma new_request_pending:
  "new_request txn body st = (f, st') \<Longrightarrow> f = request_frame_of (cl_next_id st) body \<and> pending st' = (pending st)(cl_next_id st \<mapsto> txn) \<and>
     cl_next_id st' = sat_add (cl_next_id st) 1 \<and> cl_replies st' = cl_replies st"
  by (auto simp: new_request_def Let_def pending_def record_txn_def hm_simps)

text \<open>The frame is a request that takes the next identifier and leaves its entry.\<close>

definition framed :: "client_state \<Rightarrow> frame \<Rightarrow> client_state \<Rightarrow> reply option \<Rightarrow> bool" where
  "framed st f st1 cell \<longleftrightarrow>
     (\<exists>body txn. f = request_frame_of (cl_next_id st) body \<and> txn_for body txn \<and>
        pending st1 = (pending st)(cl_next_id st \<mapsto> txn) \<and> txn_reply txn = cell) \<and>
     cl_next_id st1 = sat_add (cl_next_id st) 1 \<and> cl_replies st1 = cl_replies st"

lemma framed_new: "new_request txn body st = (f, st') \<Longrightarrow> txn_for body txn \<Longrightarrow> txn_reply txn = cell \<Longrightarrow> framed st f st' cell"
  using new_request_pending by (fastforce simp: framed_def)

lemma framed_clear: "framed st f st' cell \<Longrightarrow> framed st f (clear_active_terminal st') cell"
  by (simp add: framed_def)

lemma session_command_framed:
  "frame_for_session_command cmd st = Some (f, st1) \<Longrightarrow> framed st f st1 (command_reply cmd)"
  by (cases cmd)
    (auto simp: frame_for_session_command_def command_reply_def txn_for_def txn_reply_def split: prod.splits if_splits
      intro!: framed_clear elim!: framed_new)

lemma command_framed:
  "frame_for_command cmd st = (Some f, st1) \<Longrightarrow> framed st f st1 None"
  by (cases cmd)
    (auto simp: frame_for_command_def txn_for_def txn_reply_def split: option.splits prod.splits if_splits elim!: framed_new)

text \<open>The value that the cell of a request gets for a response.\<close>

definition answer_value :: "(response_error, response_body) result \<Rightarrow> (client_error, reply_value) result" where
  "answer_value res =
     (case res of
        Inl e \<Rightarrow> Inl (ClientProto (re_message e))
      | Inr b \<Rightarrow> Inr (case b of
            RspListTerminals infos \<Rightarrow> ReplyList infos
          | RspCreateTerminal info \<Rightarrow> ReplyCreated info
          | RspOpenTerminal ack \<Rightarrow> ReplyOpen (open_ack_of ack)
          | RspReadHistory p \<Rightarrow> ReplyHistory (history_of p)
          | RspGetServerConfig c \<Rightarrow> ReplyConfig c
          | RspSetServerConfig c \<Rightarrow> ReplyConfig c
          | _ \<Rightarrow> ReplyUnit))"

text \<open>What a response does to the pending entry and the reply cell.\<close>

definition settled ::
  "u32 \<Rightarrow> request_txn \<Rightarrow> (response_error, response_body) result \<Rightarrow> client_state \<Rightarrow> client_state \<Rightarrow> bool" where
  "settled i txn res st st' \<longleftrightarrow>
     pending st' = (pending st)(i := None) \<and> cl_next_id st' = cl_next_id st \<and>
     cl_replies st' = (case txn_reply txn of None \<Rightarrow> cl_replies st | Some r \<Rightarrow> send_reply r (answer_value res) (cl_replies st))"

lemma store_info_pending [simp]:
  "rn_pending_requests (store_info info rn) = rn_pending_requests rn"
  "rn_pending_requests (fold store_info infos rn) = rn_pending_requests rn"
  by (induction infos arbitrary: rn) (simp_all add: store_info_def)

lemma failed_settled:
  assumes "pending st i = Some txn"
  shows "\<exists>st'. fail_request i (ClientProto (re_message e)) st = (Inr (), st') \<and> settled i txn (Inl e) st st'"
  using assms
  by (auto simp: fail_request_def remove_txn_def pending_def settled_def set_runtime_def hm_simps fail_txn_def
      fail_shared_reply_def answer_value_def split: option.splits)

lemma open_settled:
  assumes "pending st i = Some (TxnOpenTerminal (ti_terminal (oa_info ack)) r)"
  shows "\<exists>st'. handle_open_response i ack st = (Inr ActNone, st') \<and>
    settled i (TxnOpenTerminal (ti_terminal (oa_info ack)) r) (Inr (RspOpenTerminal ack)) st st' \<and>
    cl_terminal st' = Some \<lparr>hd_info = oa_info ack, hd_stream = oa_stream_id ack, hd_last_seq = Some (oa_end_seq ack)\<rparr> \<and>
    rn_active (cl_runtime st') = Some \<lparr>at_terminal = ti_terminal (oa_info ack), at_stream = oa_stream_id ack,
      at_last_seq = Some (oa_end_seq ack)\<rparr> \<and>
    hm_get (rn_active_streams (cl_runtime st')) (oa_stream_id ack) =
      Some \<lparr>os_terminal_id = ti_terminal (oa_info ack), os_last_seq = oa_end_seq ack\<rparr>"
  using assms
  by (auto simp: handle_open_response_def pending_def complete_open_terminal_def remove_txn_def open_ack_of_def Let_def settled_def
      txn_reply_def reply_with_def set_runtime_def hm_simps set_active_def answer_value_def)

lemma response_settled:
  assumes p: "pending st i = Some txn" and t: "txn_for body txn" and r: "is_err res \<or> response_fits body (projr res)"
  shows "\<exists>a st'. handle_response_frame \<lparr>rs_id = RequestId i, rs_result = res\<rparr> st = (Inr a, st') \<and> settled i txn res st st'"
proof (cases res)
  case (Inl e)
  with failed_settled [OF p, of e] show ?thesis by (auto simp: handle_response_frame_def Let_def)
next
  case (Inr b)
  then have fits: "response_fits body b" using r by simp
  have p': "hm_get (rn_pending_requests (cl_runtime st)) i = Some txn" using p by (simp add: pending_def)
  note defs = handle_response_frame_def Let_def remove_txn_def settled_def txn_reply_def pending_def set_runtime_def
    reply_with_def hm_simps answer_value_def
  show ?thesis
  proof (cases b)
    case (RspOpenTerminal ack)
    then obtain r where "txn = TxnOpenTerminal (ti_terminal (oa_info ack)) r" using fits t by (auto simp: response_fits_def txn_for_def)
    with open_settled [of st i ack r] p Inr RspOpenTerminal show ?thesis by (auto simp: handle_response_frame_def Let_def)
  next
    case (RspKillTerminal)
    then obtain r where "txn = TxnKillTerminal r" using fits t by (auto simp: response_fits_def txn_for_def split: request_body.splits)
    then show ?thesis using p' Inr RspKillTerminal by (cases r) (auto simp: defs)
  qed (use fits t p' Inr in \<open>auto simp: response_fits_def txn_for_def defs remove_pending_create_def take_pending_ack_def
      split: request_body.splits\<close>)
qed

section \<open>A conversation\<close>

text \<open>
  The client and its connection's handler at the daemon. Requests wait for the handler in
  \<open>tk_requests\<close>; what the handler sent and the client did not yet take are the frames from
  \<open>tk_taken\<close> on. A call has a reply cell of its own (\<open>fresh_cell\<close>).
\<close>

record ('p, 't) talk =
  tk_client :: client_state
  tk_requests :: "request_frame list"
  tk_daemon :: "'p daemon"
  tk_connection :: "'t connection"
  tk_taken :: nat

definition tk_sent :: "('p, 't) talk \<Rightarrow> frame list" where
  "tk_sent s = ch_sent (cn_chan (tk_connection s))"

definition responses :: "frame list \<Rightarrow> response_frame list" where
  "responses fs = concat (map (\<lambda>f. case f of FResponse r \<Rightarrow> [r] | _ \<Rightarrow> []) fs)"

definition fresh_cell :: "reply option \<Rightarrow> client_state \<Rightarrow> bool" where
  "fresh_cell cell st \<longleftrightarrow> (\<forall>r. cell = Some r \<longrightarrow>
     r \<notin> set (map fst (cl_replies st)) \<and> (\<forall>i txn. pending st i = Some txn \<longrightarrow> txn_reply txn \<noteq> Some r))"

text \<open>
  In any order: a call or a command of the terminal becomes a request, as long as the
  identifiers suffice; the daemon answers the next request; anything else happens at the
  daemon, which may send other frames; the client handles the next frame.
\<close>

inductive talk_step :: "('h, 'u, 'p) crates \<Rightarrow> ('p, 'u) talk \<Rightarrow> ('p, 'u) talk \<Rightarrow> bool" for cr where
  talk_call: "frame_for_session_command cmd (tk_client s) = Some (FRequest rq, st) \<Longrightarrow>
    fresh_cell (command_reply cmd) (tk_client s) \<Longrightarrow> cl_next_id (tk_client s) \<noteq> - 1 \<Longrightarrow>
    talk_step cr s (s\<lparr>tk_client := st, tk_requests := tk_requests s @ [rq]\<rparr>)"
| talk_input: "frame_for_command cmd (tk_client s) = (Some (FRequest rq), st) \<Longrightarrow> cl_next_id (tk_client s) \<noteq> - 1 \<Longrightarrow>
    talk_step cr s (s\<lparr>tk_client := st, tk_requests := tk_requests s @ [rq]\<rparr>)"
| talk_serve: "tk_requests s = rq # rqs \<Longrightarrow>
    handle_request cr env rq (tk_daemon s, tk_connection s) = Some (Inr (), dm, cn) \<Longrightarrow>
    talk_step cr s (s\<lparr>tk_requests := rqs, tk_daemon := dm, tk_connection := cn\<rparr>)"
| talk_other: "ch_sent (cn_chan cn) = tk_sent s @ fs \<Longrightarrow> responses fs = [] \<Longrightarrow>
    talk_step cr s (s\<lparr>tk_daemon := dm, tk_connection := cn\<rparr>)"
| talk_receive: "tk_taken s < length (tk_sent s) \<Longrightarrow>
    handle_inbound_frame (tk_sent s ! tk_taken s) (tk_client s) = (Inr a, st) \<Longrightarrow>
    talk_step cr s (s\<lparr>tk_client := st, tk_taken := Suc (tk_taken s)\<rparr>)"

inductive talk_reach :: "('h, 'u, 'p) crates \<Rightarrow> ('p, 'u) talk \<Rightarrow> bool" for cr where
  talk_start: "rn_pending_requests (cl_runtime st) = [] \<Longrightarrow>
    talk_reach cr \<lparr>tk_client = st, tk_requests = [], tk_daemon = dm, tk_connection = cn, tk_taken = length (ch_sent (cn_chan cn))\<rparr>"
| talk_continue: "talk_reach cr s \<Longrightarrow> talk_step cr s s' \<Longrightarrow> talk_reach cr s'"

text \<open>The pending entries have used identifiers and unanswered cells of their own.\<close>

definition entries_ok :: "client_state \<Rightarrow> bool" where
  "entries_ok st \<longleftrightarrow>
     (\<forall>i txn. pending st i = Some txn \<longrightarrow> unat i < unat (cl_next_id st) \<and>
        (\<forall>r. txn_reply txn = Some r \<longrightarrow> r \<notin> set (map fst (cl_replies st)) \<and>
           (\<forall>j txn'. pending st j = Some txn' \<longrightarrow> txn_reply txn' = Some r \<longrightarrow> j = i)))"

text \<open>
  What waits for an answer or whose answer is under way: the entry is pending and fits,
  under an identifier of its own.
\<close>

definition open_ids :: "('p, 't) talk \<Rightarrow> u32 list" where
  "open_ids s = map (\<lambda>rsp. request_val (rs_id rsp)) (responses (drop (tk_taken s) (tk_sent s))) @
     map (\<lambda>rq. request_val (rq_id rq)) (tk_requests s)"

definition talk_inv :: "('p, 't) talk \<Rightarrow> bool" where
  "talk_inv s \<longleftrightarrow>
     tk_taken s \<le> length (tk_sent s) \<and> distinct (open_ids s) \<and> dom (pending (tk_client s)) = set (open_ids s) \<and>
     (\<forall>rq \<in> set (tk_requests s). \<exists>txn. pending (tk_client s) (request_val (rq_id rq)) = Some txn \<and> txn_for (rq_body rq) txn) \<and>
     (\<forall>rsp \<in> set (responses (drop (tk_taken s) (tk_sent s))). \<exists>txn body.
        pending (tk_client s) (request_val (rs_id rsp)) = Some txn \<and> txn_for body txn \<and>
        (is_err (rs_result rsp) \<or> response_fits body (projr (rs_result rsp)))) \<and>
     entries_ok (tk_client s)"

lemma responses_simps [simp]: "responses [] = []" "responses (fs @ gs) = responses fs @ responses gs"
    "responses (f # fs) = (case f of FResponse r \<Rightarrow> r # responses fs | _ \<Rightarrow> responses fs)"
  by (simp_all add: responses_def split: frame.split)

lemma open_id_pending:
  assumes "talk_inv s" and "i \<in> set (open_ids s)"
  shows "\<exists>txn. pending (tk_client s) i = Some txn"
  using assms unfolding talk_inv_def open_ids_def by auto

lemma talk_inv_framed:
  assumes inv: "talk_inv s" and f: "framed (tk_client s) (FRequest rq) st cell"
    and c: "fresh_cell cell (tk_client s)" and n: "cl_next_id (tk_client s) \<noteq> - 1"
  shows "talk_inv (s\<lparr>tk_client := st, tk_requests := tk_requests s @ [rq]\<rparr>)"
proof -
  let ?i = "cl_next_id (tk_client s)"
  obtain txn where t: "rq = \<lparr>rq_id = RequestId ?i, rq_body = rq_body rq\<rparr>" "txn_for (rq_body rq) txn"
      "pending st = (pending (tk_client s))(?i \<mapsto> txn)" "txn_reply txn = cell"
      "unat (cl_next_id st) = Suc (unat ?i)" "cl_replies st = cl_replies (tk_client s)"
    using f sat_next [OF n] by (auto simp: framed_def request_frame_of_def)
  have i: "request_val (rq_id rq) = ?i" by (subst t(1)) simp
  have below: "pending (tk_client s) j = Some txn' \<Longrightarrow> unat j < unat ?i" for j txn' using inv by (simp add: talk_inv_def entries_ok_def)
  then have fresh: "pending (tk_client s) ?i = None" by (cases "pending (tk_client s) ?i") auto
  then have "?i \<notin> set (open_ids s)" using open_id_pending [OF inv] by fastforce
  then have "distinct (open_ids (s\<lparr>tk_client := st, tk_requests := tk_requests s @ [rq]\<rparr>)) \<and>
      dom (pending st) = set (open_ids (s\<lparr>tk_client := st, tk_requests := tk_requests s @ [rq]\<rparr>))"
    using inv i t(3) by (auto simp: talk_inv_def open_ids_def tk_sent_def)
  moreover have "entries_ok st"
    using inv below c t(3-6) unfolding talk_inv_def entries_ok_def fresh_cell_def by (auto simp: less_Suc_eq)
  moreover have "\<forall>rq' \<in> set (tk_requests s). \<exists>txn. pending st (request_val (rq_id rq')) = Some txn \<and> txn_for (rq_body rq') txn"
    using inv fresh t(3) unfolding talk_inv_def by fastforce
  moreover have "\<forall>rsp \<in> set (responses (drop (tk_taken s) (tk_sent s))). \<exists>txn body.
        pending st (request_val (rs_id rsp)) = Some txn \<and> txn_for body txn \<and>
        (is_err (rs_result rsp) \<or> response_fits body (projr (rs_result rsp)))"
    using inv fresh t(3) unfolding talk_inv_def by fastforce
  ultimately show ?thesis using inv i t(2,3) by (simp add: talk_inv_def tk_sent_def)
qed

lemma quiet_frame:
  assumes "handle_inbound_frame f st = (Inr a, st')" and "responses [f] = []"
  shows "pending st' = pending st \<and> cl_replies st' = cl_replies st \<and> cl_next_id st' = cl_next_id st"
proof (cases f)
  case (FStreamData d)
  then show ?thesis using assms(1)
    by (auto simp: handle_inbound_frame_def handle_stream_data_frame_def Let_def set_runtime_def update_active_seq_def pending_def
        split: option.splits if_splits)
next
  case (FEvent ev)
  then show ?thesis using assms(1)
    by (auto simp: handle_inbound_frame_def handle_event_frame_def set_runtime_def store_info_def pending_def split: event_body.splits)
qed (use assms in \<open>auto simp: handle_inbound_frame_def\<close>)

text \<open>The next response is accepted: it settles the entry it belongs to.\<close>

lemma next_response:
  assumes inv: "talk_inv s" and n: "tk_taken s < length (tk_sent s)" and f: "tk_sent s ! tk_taken s = FResponse rsp"
  shows "\<exists>txn a st. pending (tk_client s) (request_val (rs_id rsp)) = Some txn \<and>
    handle_response_frame rsp (tk_client s) = (Inr a, st) \<and>
    settled (request_val (rs_id rsp)) txn (rs_result rsp) (tk_client s) st"
proof -
  have "rsp \<in> set (responses (drop (tk_taken s) (tk_sent s)))"
    using f Cons_nth_drop_Suc [OF n, symmetric] by simp
  then obtain txn body where t: "pending (tk_client s) (request_val (rs_id rsp)) = Some txn" "txn_for body txn"
      "is_err (rs_result rsp) \<or> response_fits body (projr (rs_result rsp))"
    using inv by (auto simp: talk_inv_def)
  have "rsp = \<lparr>rs_id = RequestId (request_val (rs_id rsp)), rs_result = rs_result rsp\<rparr>" by (cases rsp; cases "rs_id rsp") simp
  with response_settled [OF t] t(1) show ?thesis by metis
qed

lemma entries_settled:
  assumes "entries_ok st" and "pending st i = Some txn" and "settled i txn res st st'"
  shows "entries_ok st'"
  unfolding entries_ok_def
proof (intro allI impI conjI)
  fix j txn' r
  assume "pending st' j = Some txn'"
  then have j: "j \<noteq> i" "pending st j = Some txn'" using assms(3) by (auto simp: settled_def split: if_splits)
  then show "unat j < unat (cl_next_id st')" using assms(1,3) by (simp add: entries_ok_def settled_def)
  assume r: "txn_reply txn' = Some r"
  then have "r \<notin> set (map fst (cl_replies st))" "txn_reply txn \<noteq> Some r"
    using assms(1,2) j unfolding entries_ok_def by blast+
  then show "r \<notin> set (map fst (cl_replies st'))"
    using assms(3) by (auto simp: settled_def send_reply_def split: option.splits if_splits)
  fix k txn''
  assume "pending st' k = Some txn''" "txn_reply txn'' = Some r"
  then show "k = j" using assms(1,3) j(2) r by (auto simp: entries_ok_def settled_def split: if_splits)
qed

lemma talk_inv_quiet:
  assumes "talk_inv s" and "pending (tk_client s') = pending (tk_client s)" and "cl_replies (tk_client s') = cl_replies (tk_client s)"
    and "cl_next_id (tk_client s') = cl_next_id (tk_client s)" and "tk_taken s' \<le> length (tk_sent s')"
    and "responses (drop (tk_taken s') (tk_sent s')) = responses (drop (tk_taken s) (tk_sent s))" and "tk_requests s' = tk_requests s"
  shows "talk_inv s'"
  using assms unfolding talk_inv_def open_ids_def entries_ok_def by simp

lemma talk_inv_serve:
  assumes inv: "talk_inv s" and q: "tk_requests s = rq # rqs"
    and h: "handle_request cr env rq (tk_daemon s, tk_connection s) = Some (Inr (), dm, cn)"
  shows "talk_inv (s\<lparr>tk_requests := rqs, tk_daemon := dm, tk_connection := cn\<rparr>)"
proof -
  obtain res where r: "ch_sent (cn_chan cn) = tk_sent s @ [FResponse \<lparr>rs_id = rq_id rq, rs_result = res\<rparr>]"
      "is_err res \<or> response_fits (rq_body rq) (projr res)"
    using request_answered [OF h] by (auto simp: one_answer_def tk_sent_def)
  have "tk_taken s \<le> length (tk_sent s)" using inv by (simp add: talk_inv_def)
  then have d: "responses (drop (tk_taken s) (ch_sent (cn_chan cn))) =
      responses (drop (tk_taken s) (tk_sent s)) @ [\<lparr>rs_id = rq_id rq, rs_result = res\<rparr>]"
    by (simp add: r(1))
  obtain txn where t: "pending (tk_client s) (request_val (rq_id rq)) = Some txn" "txn_for (rq_body rq) txn"
    using inv q by (auto simp: talk_inv_def)
  have "open_ids (s\<lparr>tk_requests := rqs, tk_daemon := dm, tk_connection := cn\<rparr>) = open_ids s"
    using d q by (simp add: open_ids_def tk_sent_def)
  moreover have "\<exists>txn body. pending (tk_client s) (request_val (rq_id rq)) = Some txn \<and> txn_for body txn \<and>
      (is_err res \<or> response_fits body (projr res))"
    using t r(2) by blast
  ultimately show ?thesis using inv q d r(1) unfolding talk_inv_def by (simp add: tk_sent_def ball_Un)
qed

lemma talk_inv_settled:
  assumes inv: "talk_inv s" and n: "tk_taken s < length (tk_sent s)" and f: "tk_sent s ! tk_taken s = FResponse rsp"
    and p: "pending (tk_client s) (request_val (rs_id rsp)) = Some txn"
    and st: "settled (request_val (rs_id rsp)) txn (rs_result rsp) (tk_client s) st"
  shows "talk_inv (s\<lparr>tk_client := st, tk_taken := Suc (tk_taken s)\<rparr>)"
proof -
  let ?i = "request_val (rs_id rsp)" and ?s' = "s\<lparr>tk_client := st, tk_taken := Suc (tk_taken s)\<rparr>"
  have d: "responses (drop (tk_taken s) (tk_sent s)) = rsp # responses (drop (Suc (tk_taken s)) (tk_sent s))"
    using f Cons_nth_drop_Suc [OF n, symmetric] by simp
  then have ids: "open_ids s = ?i # open_ids ?s'" by (simp add: open_ids_def tk_sent_def)
  then have new: "?i \<notin> set (open_ids ?s')" "distinct (open_ids ?s')" using inv by (auto simp: talk_inv_def)
  then have other: "request_val (rq_id rq) \<noteq> ?i" if "rq \<in> set (tk_requests s)" for rq
    using that by (force simp: open_ids_def)
  have other': "request_val (rs_id r) \<noteq> ?i" if "r \<in> set (responses (drop (Suc (tk_taken s)) (tk_sent s)))" for r
    using that new(1) by (auto simp: open_ids_def tk_sent_def image_iff)
  have st': "pending st = (pending (tk_client s))(?i := None)" using st by (simp add: settled_def)
  have dom: "dom (pending st) = set (open_ids ?s')" using inv ids new st' by (auto simp: talk_inv_def)
  have "\<forall>rq \<in> set (tk_requests s). \<exists>txn. pending st (request_val (rq_id rq)) = Some txn \<and> txn_for (rq_body rq) txn"
    using inv other st' unfolding talk_inv_def by simp
  moreover have "\<forall>r \<in> set (responses (drop (Suc (tk_taken s)) (tk_sent s))). \<exists>txn body.
      pending st (request_val (rs_id r)) = Some txn \<and> txn_for body txn \<and> (is_err (rs_result r) \<or> response_fits body (projr (rs_result r)))"
    using inv other' st' d unfolding talk_inv_def by simp
  moreover have "entries_ok st" using entries_settled [OF _ p st] inv by (simp add: talk_inv_def)
  ultimately show ?thesis using inv n new(2) dom unfolding talk_inv_def by (simp add: tk_sent_def)
qed

lemma talk_inv_step:
  assumes "talk_step cr s s'" and inv: "talk_inv s"
  shows "talk_inv s'"
  using assms(1)
proof cases
  case (talk_call cmd rq st)
  with talk_inv_framed [OF inv session_command_framed] show ?thesis by blast
next
  case (talk_input cmd rq st)
  with talk_inv_framed [OF inv command_framed] show ?thesis by (simp add: fresh_cell_def)
next
  case (talk_serve rq rqs env dm cn)
  with talk_inv_serve [OF inv] show ?thesis by blast
next
  case (talk_other cn fs dm)
  then show ?thesis using inv by (intro talk_inv_quiet [OF inv]) (auto simp: tk_sent_def talk_inv_def)
next
  case (talk_receive a st)
  show ?thesis
  proof (cases "\<exists>rsp. tk_sent s ! tk_taken s = FResponse rsp")
    case True
    then obtain rsp where f: "tk_sent s ! tk_taken s = FResponse rsp" by blast
    from next_response [OF inv talk_receive(2) f] obtain txn a' st' where
      "pending (tk_client s) (request_val (rs_id rsp)) = Some txn" "handle_response_frame rsp (tk_client s) = (Inr a', st')"
      "settled (request_val (rs_id rsp)) txn (rs_result rsp) (tk_client s) st'" by blast
    with talk_inv_settled [OF inv talk_receive(2) f] talk_receive(1,3) f show ?thesis by (simp add: handle_inbound_frame_def)
  next
    case False
    then have "responses [tk_sent s ! tk_taken s] = []" by (auto split: frame.split)
    moreover from this have "responses (drop (tk_taken s) (tk_sent s)) = responses (drop (Suc (tk_taken s)) (tk_sent s))"
      using Cons_nth_drop_Suc [OF talk_receive(2), symmetric] responses_simps(2) [of "[tk_sent s ! tk_taken s]"] by simp
    ultimately show ?thesis using quiet_frame [OF talk_receive(3)] talk_receive(1,2)
      by (intro talk_inv_quiet [OF inv]) (simp_all add: tk_sent_def)
  qed
qed

lemma talk_reach_inv: "talk_reach cr s \<Longrightarrow> talk_inv s"
proof (induction rule: talk_reach.induct)
  case (talk_start st dm cn)
  then have "pending st = (\<lambda>_. None)" by (simp add: pending_def hm_get_def fun_eq_iff)
  then show ?case by (simp add: talk_inv_def entries_ok_def open_ids_def tk_sent_def)
next
  case (talk_continue s s')
  then show ?case using talk_inv_step by blast
qed

text \<open>
  C15. Calls and answers fit together: however the calls, the commands of the terminal, the
  daemon's answers and other frames interleave, and however many requests are under way,
  the client accepts every response. The response belongs to a pending request, whose cell
  gets exactly this answer and had none before, and no request is forgotten: it is pending
  as long as it waits at the daemon or its response is under way.
\<close>

theorem answers_accepted:
  assumes "talk_reach cr s" and "tk_taken s < length (tk_sent s)" and "tk_sent s ! tk_taken s = FResponse rsp"
  shows "\<exists>txn a st. pending (tk_client s) (request_val (rs_id rsp)) = Some txn \<and>
    handle_inbound_frame (tk_sent s ! tk_taken s) (tk_client s) = (Inr a, st) \<and>
    pending st = (pending (tk_client s))(request_val (rs_id rsp) := None) \<and>
    cl_replies st = cl_replies (tk_client s) @
      (case txn_reply txn of None \<Rightarrow> [] | Some r \<Rightarrow> [(r, answer_value (rs_result rsp))]) \<and>
    dom (pending (tk_client s)) = set (open_ids s)"
proof -
  note inv = talk_reach_inv [OF assms(1)]
  obtain txn a st where t: "pending (tk_client s) (request_val (rs_id rsp)) = Some txn"
      "handle_response_frame rsp (tk_client s) = (Inr a, st)"
      "settled (request_val (rs_id rsp)) txn (rs_result rsp) (tk_client s) st"
    using next_response [OF inv assms(2,3)] by blast
  moreover have "r \<notin> fst ` set (cl_replies (tk_client s))" if "txn_reply txn = Some r" for r
    using inv t(1) that by (auto simp: talk_inv_def entries_ok_def)
  ultimately show ?thesis using inv assms(3)
    by (auto simp: settled_def send_reply_def talk_inv_def handle_inbound_frame_def split: option.split)
qed

definition toy_client :: client_state where
  "toy_client = \<lparr>cl_runtime = runtime_default, cl_terminal = None, cl_next_id = 1, cl_replies = []\<rparr>"

theorem answers_accepted_witness:
  "\<exists>s a st. talk_reach toy_crates s \<and> handle_inbound_frame (tk_sent s ! tk_taken s) (tk_client s) = (Inr a, st) \<and>
     cl_replies st = [(5, Inr (ReplyList []))]"
proof -
  let ?rq = "\<lparr>rq_id = RequestId 1, rq_body = ReqListTerminals\<rparr>" and ?rsp = "\<lparr>rs_id = RequestId 1, rs_result = Inr (RspListTerminals [])\<rparr>"
  let ?s0 = "\<lparr>tk_client = toy_client, tk_requests = [], tk_daemon = toy_daemon, tk_connection = toy_connection, tk_taken = 0\<rparr>"
  obtain st where st: "frame_for_session_command (CmdListTerminals 5) toy_client = Some (FRequest ?rq, st)"
      "pending st 1 = Some (TxnListTerminals 5)" "cl_replies st = []"
    by (simp add: frame_for_session_command_def new_request_def request_frame_of_def toy_client_def pending_def record_txn_def hm_simps)
  let ?s1 = "?s0\<lparr>tk_client := st, tk_requests := [?rq]\<rparr>"
  have r0: "talk_reach toy_crates ?s0"
    using talk_start [of toy_client toy_crates toy_daemon toy_connection]
    by (simp add: toy_client_def runtime_default_def toy_connection_def)
  have none: "pending toy_client i = None" for i by (simp add: pending_def toy_client_def runtime_default_def hm_get_def)
  have fr: "fresh_cell (command_reply (CmdListTerminals 5)) (tk_client ?s0)"
    using none by (simp add: fresh_cell_def) (simp add: toy_client_def)
  have "talk_step toy_crates ?s0 ?s1"
    using talk_call [OF _ fr, of ?rq st toy_crates] st(1) by (simp add: toy_client_def)
  with r0 have r1: "talk_reach toy_crates ?s1" by (rule talk_continue)
  have "tp_answer (ch_transport (cn_chan toy_connection)) = (\<lambda>_. Inr ())" by (simp add: toy_connection_def)
  from toy_send [OF this] obtain cn where h: "handle_request toy_crates toy_env ?rq (toy_daemon, toy_connection) = Some (Inr (), toy_daemon, cn)"
      "ch_sent (cn_chan cn) = [FResponse ?rsp]"
    by (simp add: handle_request_def send_ok_response_def respond_def set_chan_def toy_daemon_def session_list_def
        session_manager_new_def toy_connection_def)
  let ?s2 = "?s1\<lparr>tk_requests := [], tk_daemon := toy_daemon, tk_connection := cn\<rparr>"
  have "talk_step toy_crates ?s1 ?s2" using talk_serve [of ?s1 ?rq "[]" toy_crates toy_env toy_daemon cn] h(1) by simp
  with r1 have r2: "talk_reach toy_crates ?s2" by (rule talk_continue)
  from answers_accepted [OF r2, of ?rsp] obtain txn a st' where
    "pending st 1 = Some txn" "handle_inbound_frame (tk_sent ?s2 ! tk_taken ?s2) (tk_client ?s2) = (Inr a, st')"
    "cl_replies st' = (case txn_reply txn of None \<Rightarrow> [] | Some r \<Rightarrow> [(r, answer_value (rs_result ?rsp))])"
    using h(2) st(3) by (auto simp: tk_sent_def)
  with r2 st(2) show ?thesis by (intro exI [of _ ?s2]) (simp add: txn_reply_def answer_value_def)
qed

end
