(* ===== verification/Client_Output.thy ===== *)
theory Client_Output
  imports Client_Server
begin

text \<open>
  The output that a client shows: when nothing is written while a terminal is opened, what
  the client shows is the terminal's output; when much is written meanwhile, and when
  another terminal is opened while output is under way, the client gives up the connection.
\<close>

section \<open>Taking frames\<close>

text \<open>The client shows terminal \<open>i\<close> on stream \<open>s\<close>, and has its output up to \<open>q\<close>.\<close>

definition showing :: "terminal_id \<Rightarrow> stream_id \<Rightarrow> stream_seq \<Rightarrow> client_state \<Rightarrow> bool" where
  "showing i s q st \<longleftrightarrow>
     hm_get (rn_active_streams (cl_runtime st)) s = Some \<lparr>os_terminal_id = i, os_last_seq = q\<rparr> \<and>
     active_stream (cl_runtime st) = Some s \<and> active_terminal_id (cl_runtime st) = Some i \<and>
     map_option handle_terminal_id (cl_terminal st) = Some i"

lemma open_shows:
  assumes "pending st rid = Some (TxnOpenTerminal (ti_terminal (oa_info ack)) r)"
  shows "\<exists>st'. handle_open_response rid ack st = (Inr ActNone, st') \<and>
    showing (ti_terminal (oa_info ack)) (oa_stream_id ack) (oa_end_seq ack) st'"
  using open_settled [OF assms] by (auto simp: showing_def active_stream_def active_terminal_id_def handle_terminal_id_def)

lemma showing_data:
  assumes "showing i s q st" and "sd_stream_id d = s" and "sd_offset d = None" and "q \<le> sd_seq d"
  shows "\<exists>st'. handle_stream_data_frame d st = (Inr (ActEmit (EventTerminalOutput i (sd_seq d) (sd_bytes d))), st') \<and>
    showing i s (sd_seq d) st'"
  using assms
  by (auto simp: showing_def handle_stream_data_frame_def Let_def set_runtime_def hm_simps active_stream_def
      active_terminal_id_def update_active_seq_def handle_terminal_id_def not_less [symmetric])

lemma showing_back:
  assumes "showing i s q st" and "sd_stream_id d = s" and "sd_offset d = None" and "sd_seq d < q"
  shows "handle_stream_data_frame d st = (Inl (ClientProto ''output sequence moved backwards''), st)"
  using assms by (auto simp: showing_def handle_stream_data_frame_def)

text \<open>Frames handled one after the other, up to the first error.\<close>

fun take_frames :: "frame list \<Rightarrow> client_state \<Rightarrow> (client_error, action list) result \<times> client_state" where
  "take_frames [] st = (Inr [], st)"
| "take_frames (f # fs) st =
     (case handle_inbound_frame f st of
        (Inl e, st1) \<Rightarrow> (Inl e, st1)
      | (Inr a, st1) \<Rightarrow> (case take_frames fs st1 of (Inl e, st2) \<Rightarrow> (Inl e, st2) | (Inr as, st2) \<Rightarrow> (Inr (a # as), st2)))"

text \<open>The bytes of a terminal that the events bring to the user.\<close>

definition shown :: "terminal_id \<Rightarrow> action list \<Rightarrow> bytes" where
  "shown i as = concat (map (\<lambda>a. case a of
     ActEmit (EventTerminalOutput j q bs) \<Rightarrow> if j = i then bs else [] | _ \<Rightarrow> []) as)"

text \<open>Frames that leave the open terminal alone.\<close>

definition plain_frame :: "frame \<Rightarrow> bool" where
  "plain_frame f \<longleftrightarrow> (case f of FStreamData _ \<Rightarrow> True | FEvent _ \<Rightarrow> True | FPing _ \<Rightarrow> True | FPong _ \<Rightarrow> True | _ \<Rightarrow> False)"

lemma showing_other:
  assumes "showing i s q st" and "plain_frame f" and "stream_frames [f] = []"
  shows "\<exists>a st'. handle_inbound_frame f st = (Inr a, st') \<and> shown i [a] = [] \<and> showing i s q st'"
  using assms
  by (cases f) (auto simp: plain_frame_def stream_frames_def handle_inbound_frame_def shown_def handle_event_frame_def
      showing_def set_runtime_def store_info_def active_stream_def active_terminal_id_def split: event_body.split)

lemma shown_Cons: "shown i (a # as) = shown i [a] @ shown i as"
  by (simp add: shown_def)

lemma frames_shown:
  assumes "showing i s q st" and "unat (seq_val q) \<le> n" and "list_all plain_frame fs"
    and "contiguous n (stream_frames fs)" and "\<forall>d \<in> set (stream_frames fs). sd_stream_id d = s \<and> sd_offset d = None"
  shows "\<exists>as st' q'. take_frames fs st = (Inr as, st') \<and> shown i as = data_bytes (stream_frames fs) \<and> showing i s q' st'"
  using assms
proof (induction fs arbitrary: st q n)
  case Nil
  then show ?case by (auto simp: shown_def stream_frames_def)
next
  case (Cons f fs)
  have split: "stream_frames (f # fs) = stream_frames [f] @ stream_frames fs" using stream_frames_append [of "[f]" fs] by simp
  show ?case
  proof (cases "\<exists>d. f = FStreamData d")
    case True
    then obtain d where d: "f = FStreamData d" by blast
    then have sf: "stream_frames [f] = [d]" by (simp add: stream_frames_def)
    have c: "unat (seq_val (sd_seq d)) = n + length (sd_bytes d)" "contiguous (n + length (sd_bytes d)) (stream_frames fs)"
      using Cons.prems(4) unfolding split sf by simp_all
    then have "q \<le> sd_seq d" using Cons.prems(2) by (simp add: less_eq_stream_seq_def word_le_nat_alt)
    with showing_data [OF Cons.prems(1), of d] Cons.prems(5) obtain st1 where st1:
      "handle_stream_data_frame d st = (Inr (ActEmit (EventTerminalOutput i (sd_seq d) (sd_bytes d))), st1)"
      "showing i s (sd_seq d) st1"
      unfolding split sf by auto
    from Cons.IH [OF st1(2) _ _ c(2)] Cons.prems(3,5) c(1) obtain as st' q' where
      "take_frames fs st1 = (Inr as, st')" "shown i as = data_bytes (stream_frames fs)" "showing i s q' st'"
      unfolding split by auto
    with st1(1) show ?thesis unfolding split sf by (auto simp: d handle_inbound_frame_def shown_Cons [of _ _ as] shown_def)
  next
    case False
    then have sf: "stream_frames [f] = []" by (auto simp: stream_frames_def split: frame.split)
    with showing_other [OF Cons.prems(1) _ this] Cons.prems(3) obtain a st1 where st1:
      "handle_inbound_frame f st = (Inr a, st1)" "shown i [a] = []" "showing i s q st1" by auto
    from Cons.IH [OF st1(3) Cons.prems(2)] Cons.prems(3-5) obtain as st' q' where
      "take_frames fs st1 = (Inr as, st')" "shown i as = data_bytes (stream_frames fs)" "showing i s q' st'"
      unfolding split sf by auto
    with st1 show ?thesis unfolding split sf by (auto simp: shown_Cons [of _ _ as])
  qed
qed

section \<open>From the terminal to the client's screen\<close>

lemma sent_on_plain:
  assumes "conn_reach cr (dm, cn)" and "d \<in> set (sent_on s (ch_sent (cn_chan cn)))"
  shows "sd_stream_id d = s \<and> sd_offset d = None"
  using conn_reach_inv [OF assms(1)] assms(2) by (auto simp: conn_inv_def sent_true_def sent_on_def frame_true_def Let_def)

text \<open>What the connection still has to bring on a stream: queued, in the forwarder, and not yet received.\<close>

definition still_to_come :: "'p daemon \<Rightarrow> 't connection \<Rightarrow> stream_id \<Rightarrow> attached_stream \<Rightarrow> bytes" where
  "still_to_come dm cn s a = data_bytes (queued_on s (sc_output (cn_streams cn)) @ map ob_frame (fw_frames (as_writer a))) @
     chunk_bytes (drop (fw_next (as_writer a)) (tr_chunks (terminal_at dm (as_terminal a))))"


section \<open>A terminal that prints while it is opened\<close>

lemma first_frame_early:
  assumes ok: "terminal_ok v t" and n: "Suc n < length (tr_chunks t)"
  shows "\<exists>out fs. live_output_frames tx s i (tr_chunks t ! n) = Inr (out # fs) \<and> sd_stream_id (ob_frame out) = s \<and>
    sd_offset (ob_frame out) = None \<and> unat (seq_val (sd_seq (ob_frame out))) < length (broadcast t)"
proof -
  have k: "n < length (tr_chunks t)" using n by simp
  let ?pre = "length (concat (map oc_bytes (take n (tr_chunks t))))"
  have num: "numbered 0 (tr_chunks t)" using ok by (simp add: terminal_ok_def)
  note q = numbered_seq [OF num k] numbered_seq [OF num n]
  obtain fs where fs: "live_output_frames tx s i (tr_chunks t ! n) = Inr fs"
      "data_bytes (map ob_frame fs) = oc_bytes (tr_chunks t ! n)" "contiguous ?pre (map ob_frame fs)"
      "\<forall>f \<in> set fs. sd_stream_id (ob_frame f) = s \<and> frame_true (broadcast t) (ob_frame f)"
    using live_output_frames_true [OF ok k, of tx s i] by blast
  obtain out rest where f: "fs = out # rest" using fs(2) q(1) by (cases fs) auto
  have "unat (seq_val (sd_seq (ob_frame out))) \<le> ?pre + length (oc_bytes (tr_chunks t ! n))"
    using fs(2,3) f by (simp flip: fs(2))
  also have "\<dots> < ?pre + length (oc_bytes (tr_chunks t ! n)) + length (oc_bytes (tr_chunks t ! Suc n))" using q(2) by simp
  also have "\<dots> \<le> length (broadcast t)"
    using broadcast_split [OF n] by (simp add: take_Suc_conv_app_nth [OF k])
  finally show ?thesis using fs f by (auto simp: frame_true_def Let_def)
qed

text \<open>
  A terminal that prints while it is opened breaks the client's connection: the daemon
  subscribes to the output before it takes the snapshot for its answer, so what is printed
  in between is in the answer and on the stream. When it is two chunks or more, the first
  frame of the stream ends before the answer does, and the client that has accepted the
  answer refuses the frame as a step backwards, which ends the connection.
\<close>

lemma busy_open_breaks_session:
  assumes "conn_reach cr (dm, cn)" and "attach i (dm_sessions dm) = Some h" and "terminal_room during (terminal_at dm h)"
    and "terminal_run (cr_vte cr) during (terminal_at dm h) = Some t"
    and "Suc (length (tr_chunks (terminal_at dm h))) < length (tr_chunks t)"
    and "length (tr_chunks t) - length (tr_chunks (terminal_at dm h)) \<le> SUBSCRIBER_CAP"
    and "handle_open_terminal_request cr during rid i (dm, cn) = Some (Inr (), dm', cn')"
  shows "\<exists>ack a out outs. is_ack (ch_sent (cn_chan cn')) ack \<and>
    hm_get (sc_map (forwarder_round (cr_texts cr) (sm_heap (dm_sessions dm')) (oa_stream_id ack) (cn_streams cn')))
      (oa_stream_id ack) = Some a \<and> fw_frames (as_writer a) = out # outs \<and>
    (\<forall>st r. pending st (request_val rid) = Some (TxnOpenTerminal i r) \<longrightarrow>
       (\<exists>st1. handle_open_response (request_val rid) ack st = (Inr ActNone, st1) \<and>
          handle_inbound_frame (FStreamData (ob_frame out)) st1 = (Inl (ClientProto ''output sequence moved backwards''), st1)))"
proof -
  let ?n = "length (tr_chunks (terminal_at dm h))" and ?s = "StreamId (sc_next_local_stream_id (cn_streams cn))"
  have ok: "sessions_ok (cr_vte cr) (dm_sessions dm)" using conn_reach_inv [OF assms(1)] by (simp add: conn_inv_def)
  have h: "h < length (sm_heap (dm_sessions dm))" "terminal_ok (cr_vte cr) (terminal_at dm h)"
    using sessions_ok_attach [OF ok assms(2)] by (simp_all add: terminal_at_def)
  have t: "terminal_ok (cr_vte cr) t" using terminal_ok_run [OF h(2) assms(3)] assms(4) by auto
  obtain ack where ack: "oa_stream_id ack = ?s" "unat (seq_val (oa_end_seq ack)) = length (broadcast t)" "ti_terminal (oa_info ack) = i"
      "handle_open_terminal_request cr during rid i (dm, cn) =
      (case send_ok_response cr rid (RspOpenTerminal ack) (cn_chan cn) of
         (Inl e, ch) \<Rightarrow> Some (Inl e, set_terminal h t dm, set_chan ch (set_streams (next_stream cn) cn))
       | (Inr _, ch) \<Rightarrow> Some (Inr (), set_terminal h t dm, set_chan ch (set_streams (opened_streams h i ?n cn) cn)))"
    using open_answer [OF ok refl assms(2,4) t refl] by blast
  then obtain ch where ch: "send_ok_response cr rid (RspOpenTerminal ack) (cn_chan cn) = (Inr (), ch)"
      "dm' = set_terminal h t dm" "cn' = set_chan ch (set_streams (opened_streams h i ?n cn) cn)"
    using assms(7) by (auto split: sum.splits prod.splits)
  have a1: "is_ack (ch_sent (cn_chan cn')) ack"
    using send_frame_sent [OF ch(1) [unfolded send_ok_response_def]] by (auto simp: ch(3) set_chan_def is_ack_def)
  obtain out fs where out: "live_output_frames (cr_texts cr) ?s i (tr_chunks t ! ?n) = Inr (out # fs)"
      "sd_stream_id (ob_frame out) = ?s" "sd_offset (ob_frame out) = None" "unat (seq_val (sd_seq (ob_frame out))) < length (broadcast t)"
    using first_frame_early [OF t assms(5)] by blast
  have a2: "hm_get (sc_map (forwarder_round (cr_texts cr) (sm_heap (dm_sessions dm')) ?s (cn_streams cn'))) ?s =
      Some \<lparr>as_terminal = h, as_terminal_id = i, as_writer = \<lparr>fw_next = Suc ?n, fw_frames = out # fs, fw_done = False,
        fw_start = ?n, fw_lagged = False\<rparr>\<rparr>"
    using h(1) assms(5,6) out(1)
    by (simp add: ch(2,3) set_chan_def set_streams_def opened_streams_def forwarder_round_def hm_simps set_terminal_def
        forwarder_recv_def subscription_recv_def)
  have "sd_seq (ob_frame out) < oa_end_seq ack" using out(4) ack(2) by (simp add: less_stream_seq_def word_less_nat_alt)
  then have a3: "\<exists>st1. handle_open_response (request_val rid) ack st = (Inr ActNone, st1) \<and>
      handle_inbound_frame (FStreamData (ob_frame out)) st1 = (Inl (ClientProto ''output sequence moved backwards''), st1)"
    if "pending st (request_val rid) = Some (TxnOpenTerminal i r)" for st r
    using open_shows [of st "request_val rid" ack r] showing_back that ack(1,3) out(2,3) by (fastforce simp: handle_inbound_frame_def)
  show ?thesis
    by (intro exI [of _ ack], unfold ack(1), intro exI conjI, rule a1, rule a2, simp, intro allI impI, erule a3)
qed

section \<open>Opening another terminal\<close>

lemma opening_forgets_stream:
  assumes "showing i s q st" and "frame_for_session_command (CmdOpenTerminal j r) st = Some (f, st1)"
    and "sd_stream_id d = s"
  shows "handle_inbound_frame (FStreamData d) st1 = (Inl (ClientProto ''stream data on unknown stream''), st1) \<and>
    cl_replies st1 = cl_replies st"
  using assms
  by (auto simp: showing_def frame_for_session_command_def new_request_def Let_def record_txn_def clear_active_terminal_def
      clear_active_def active_stream_def handle_inbound_frame_def handle_stream_data_frame_def hm_simps split: option.splits)

text \<open>An iteration that frames a call from the queue, and one that takes a frame.\<close>

lemma iteration_call:
  assumes "client_iteration kr env cn = Some (StepContinue, cn')" and "heartbeat_poll (ce_now env) (ce_nonce env) (cn_heartbeat cn) = (HbWait, hb)"
    and "cn_pending_session_cmds cn = []" and "cn_pending_cmds cn = []" and "ce_ticks env = []"
    and "ce_wake env = SessionWake (Some (CmdOpenTerminal j r))"
  shows "\<exists>f st. frame_for_session_command (CmdOpenTerminal j r) (cn_state cn) = Some (f, st) \<and> cn_state cn' = st \<and>
    cn_pending_session_cmds cn' = [] \<and> cn_pending_cmds cn' = []"
proof -
  obtain f st where f: "frame_for_session_command (CmdOpenTerminal j r) (cn_state cn) = Some (f, st)"
    by (cases "new_request (TxnOpenTerminal j r) (ReqOpenTerminal j) (cn_state cn)") (simp add: frame_for_session_command_def)
  then show ?thesis using assms
    by (auto simp: client_iteration_def next_action_def wake_up_def frame_session_cmd_def set_client_state_def
        perform_action_def send_then_def pop_session_cmd_def split: sum.splits prod.splits)
qed

lemma iteration_frame:
  assumes "heartbeat_poll (ce_now env) (ce_nonce env) (cn_heartbeat cn) = (HbWait, hb)"
    and "cn_pending_session_cmds cn = []" and "cn_pending_cmds cn = []"
    and "recv_with_heartbeat kr (ce_ticks env) (cn_channel cn, hb) = (Some (Inr f), ch, hb')"
    and "handle_inbound_frame f (cn_state cn) = (Inl e, st)"
  shows "client_iteration kr env cn =
    Some (StepReturn (Inl e), cn\<lparr>cn_channel := ch, cn_heartbeat := hb', cn_state := st\<rparr>)"
  using assms by (simp add: client_iteration_def next_action_def take_frame_def set_client_state_def)

text \<open>
  C16. Opening another terminal while output is under way breaks the client's connection: as
  soon as the request is framed the client forgets the stream of the open terminal, so a
  frame of it that the daemon sent before it saw the request is a protocol error. The
  loop returns with it, and the caller that waits for the new terminal is told that the
  session is closed.
\<close>

theorem switching_terminals_breaks_connection:
  assumes "showing i s q (cn_state cn)" and "cn_pending_session_cmds cn = []" and "cn_pending_cmds cn = []"
    and "heartbeat_poll (ce_now env) (ce_nonce env) (cn_heartbeat cn) = (HbWait, hb)" and "ce_ticks env = []"
    and "ce_wake env = SessionWake (Some (CmdOpenTerminal j r))" and "client_iteration kr env cn = Some (StepContinue, cn')"
    and "r \<notin> set (map fst (cl_replies (cn_state cn)))"
    and "heartbeat_poll (ce_now env') (ce_nonce env') (cn_heartbeat cn') = (HbWait, hb')"
    and "recv_with_heartbeat kr (ce_ticks env') (cn_channel cn', hb') = (Some (Inr (FStreamData d)), ch, hb'')"
    and "sd_stream_id d = s"
  shows "\<exists>cn1 cn2. client_loop kr [env, env'] cn = Some (StepReturn (Inl (ClientProto ''stream data on unknown stream'')), cn1) \<and>
    finish_connection (StepReturn (Inl (ClientProto ''stream data on unknown stream''))) cn1 =
      (Some (Inl (ClientProto ''stream data on unknown stream'')), cn2) \<and>
    cell_result r (cn_pending_session_cmds cn2) (cn_state cn2) = Some (Inl ClientClosed)"
proof -
  obtain f where f: "frame_for_session_command (CmdOpenTerminal j r) (cn_state cn) = Some (f, cn_state cn')"
      "cn_pending_session_cmds cn' = []" "cn_pending_cmds cn' = []"
    using iteration_call [OF assms(7,4,2,3,5,6)] by auto
  have none: "map_of (cl_replies (cn_state cn)) r = None" using assms(8) by (simp add: map_of_eq_None_iff)
  note g = opening_forgets_stream [OF assms(1) f(1) assms(11)]
  from iteration_frame [OF assms(9) f(2,3) assms(10) conjunct1 [OF g]] assms(7) none f(2) conjunct2 [OF g] show ?thesis
    by (simp add: set_client_state_def drop_runtime_def cell_result_def cell_held_def runtime_default_def hm_values_def)
qed

section \<open>Witnesses\<close>

definition toy_info :: terminal_info where
  "toy_info = \<lparr>ti_terminal = TerminalId 7, ti_cols = 80, ti_rows = 24, ti_created_at_unix_ms = 0, ti_label = None,
     ti_attached_clients = 1\<rparr>"

definition toy_data :: stream_data_frame where
  "toy_data = \<lparr>sd_stream_id = StreamId 1, sd_seq = StreamSeq 2, sd_offset = None, sd_bytes = [97, 98], sd_last = False\<rparr>"

definition toy_client_crates :: "(bytes, unit) client_crates" where
  "toy_client_crates = \<lparr>kr_snow = clear_snow, kr_codec = \<lparr>fc_ser = (\<lambda>_. Some []), fc_de = (\<lambda>_. Some (FStreamData toy_data))\<rparr>,
     kr_postcard = unary_postcard,
     kr_texts = \<lparr>ct_texts = \<lparr>tx_uuid = (\<lambda>_. []), tx_postcard = [], tx_hex = (\<lambda>_. [])\<rparr>, ct_frame = (\<lambda>_. []), ct_ctrl = (\<lambda>_. []),
       ct_close_reason = (\<lambda>_. []), ct_bye = (\<lambda>_. [])\<rparr>, kr_hex_decode = (\<lambda>_. Inl [])\<rparr>"

definition showing_client :: client_state where
  "showing_client = \<lparr>cl_runtime = \<lparr>rn_active = Some \<lparr>at_terminal = TerminalId 7, at_stream = StreamId 1, at_last_seq = None\<rparr>,
       rn_info_cache = [], rn_pending_requests = [],
       rn_active_streams = [(StreamId 1, \<lparr>os_terminal_id = TerminalId 7, os_last_seq = StreamSeq 0\<rparr>)]\<rparr>,
     cl_terminal = Some \<lparr>hd_info = toy_info, hd_stream = StreamId 1, hd_last_seq = None\<rparr>, cl_next_id = 2, cl_replies = []\<rparr>"

definition showing_connection :: "unit client_connection" where
  "showing_connection = \<lparr>cn_state = showing_client, cn_channel = \<lparr>ec_transport = \<lparr>cp_incoming = [Inr (Some [1])], cp_sent = [],
       cp_answer = (\<lambda>_. Inr ()), cp_closed = False\<rparr>, ec_session = (), ec_log = []\<rparr>,
     cn_heartbeat = heartbeat_new 0, cn_pending_cmds = [], cn_pending_session_cmds = [], cn_events = []\<rparr>"

definition toy_wake :: "tick list \<Rightarrow> wake \<Rightarrow> client_env" where
  "toy_wake ticks w = \<lparr>ce_now = 0, ce_nonce = 0, ce_ticks = ticks, ce_wake = w, ce_window_ms = 8, ce_batch_now = 0, ce_batch_ticks = []\<rparr>"

lemma toy_poll: "heartbeat_poll 0 n (heartbeat_new 0) = (HbWait, heartbeat_new 0)"
  by (simp add: heartbeat_poll_def heartbeat_new_def HEARTBEAT_IDLE_MS_def sat_sub_def)

lemma toy_inbound: "on_inbound 0 (heartbeat_new 0) = heartbeat_new 0"
  by (simp add: on_inbound_def heartbeat_new_def)

lemma toy_client_recv:
  "cp_incoming (ec_transport ch) = [Inr (Some [1])] \<Longrightarrow> \<exists>ch'. recv_encrypted toy_client_crates ch = (Inr (FStreamData toy_data), ch')"
  by (simp add: recv_encrypted_def recv_transport_def cp_recv_def decrypt_def toy_client_crates_def
      NOISE_MAX_MSG_LEN_def clear_snow_def decode_frame_def)

theorem switching_terminals_breaks_connection_witness:
  "\<exists>env env' cn1 cn2. client_loop toy_client_crates [env, env'] showing_connection =
      Some (StepReturn (Inl (ClientProto ''stream data on unknown stream'')), cn1) \<and>
    finish_connection (StepReturn (Inl (ClientProto ''stream data on unknown stream''))) cn1 =
      (Some (Inl (ClientProto ''stream data on unknown stream'')), cn2) \<and>
    cell_result 5 (cn_pending_session_cmds cn2) (cn_state cn2) = Some (Inl ClientClosed)"
proof -
  let ?env = "toy_wake [] (SessionWake (Some (CmdOpenTerminal (TerminalId 8) 5)))"
    and ?env' = "toy_wake [\<lparr>tk_now = 0, tk_nonce = 0, tk_frame = True, tk_then = 0\<rparr>] NoWake"
  have sh: "showing (TerminalId 7) (StreamId 1) (StreamSeq 0) (cn_state showing_connection)"
    by (simp add: showing_def showing_connection_def showing_client_def hm_get_def active_stream_def active_terminal_id_def
        handle_terminal_id_def toy_info_def)
  obtain cn' where it: "client_iteration toy_client_crates ?env showing_connection = Some (StepContinue, cn')"
      "cn_heartbeat cn' = heartbeat_new 0" "cp_incoming (ec_transport (cn_channel cn')) = [Inr (Some [1])]"
    by (simp add: client_iteration_def toy_wake_def showing_connection_def showing_client_def toy_poll next_action_def wake_up_def
        frame_session_cmd_def frame_for_session_command_def new_request_def Let_def perform_action_def send_then_def
        send_encrypted_def encode_frame_def toy_client_crates_def encrypt_def clear_snow_def NOISE_MAX_MSG_LEN_def
        NOISE_TAG_LEN_def cp_send_def set_client_state_def pop_session_cmd_def clear_active_terminal_def)
  obtain ch where rc: "recv_with_heartbeat toy_client_crates (ce_ticks ?env') (cn_channel cn', heartbeat_new 0) =
      (Some (Inr (FStreamData toy_data)), ch, heartbeat_new 0)"
    using toy_client_recv [OF it(3)] by (auto simp: toy_wake_def toy_poll toy_inbound)
  have "\<exists>cn1 cn2. client_loop toy_client_crates [?env, ?env'] showing_connection =
      Some (StepReturn (Inl (ClientProto ''stream data on unknown stream'')), cn1) \<and>
    finish_connection (StepReturn (Inl (ClientProto ''stream data on unknown stream''))) cn1 =
      (Some (Inl (ClientProto ''stream data on unknown stream'')), cn2) \<and>
    cell_result 5 (cn_pending_session_cmds cn2) (cn_state cn2) = Some (Inl ClientClosed)"
    by (rule switching_terminals_breaks_connection [OF sh _ _ _ _ _ it(1) _ _ rc, of "heartbeat_new 0" "TerminalId 8" 5])
      (simp_all add: it toy_poll toy_wake_def showing_connection_def showing_client_def toy_data_def)
  then show ?thesis by blast
qed

definition opening_client :: client_state where
  "opening_client = toy_client\<lparr>cl_runtime := runtime_default\<lparr>rn_pending_requests := [(1, TxnOpenTerminal (TerminalId 7) 5)]\<rparr>\<rparr>"

lemma opening_pending: "pending opening_client 1 = Some (TxnOpenTerminal (TerminalId 7) 5)"
  by (simp add: pending_def opening_client_def hm_get_def)

lemma data_frames: "stream_frames (map FStreamData ds) = ds \<and> list_all plain_frame (map FStreamData ds)"
  by (induction ds) (simp_all add: stream_frames_def plain_frame_def)


end
