(* ===== verification/Client_Retry.thy ===== *)
theory Client_Retry
  imports Client_Session
begin

text \<open>
  When the client connects again (\<open>run_session_loop\<close> of
  \<open>crates/client/client-core/src/session.rs\<close>): the decision after a connection, what the user is
  told about it and how long the client waits.
\<close>

lemma should_retry_iff:
  "should_retry_after_disconnect e \<longleftrightarrow> e \<noteq> ClientClosed \<and> (\<forall>r. e \<noteq> ClientRejected r)"
  by (cases e) (simp_all add: should_retry_after_disconnect_def)

lemma run_one_connection_keeps:
  "run_one_connection kr identity cfg att t sl = Some (r, reached, sl') \<Longrightarrow>
     sl_ever_connected sl' = sl_ever_connected sl \<and> sl_slept sl' = sl_slept sl \<and> sl_delay sl' = sl_delay sl"
  by (auto simp: run_one_connection_def split: if_splits sum.splits prod.splits option.splits)

lemma after_connection_result:
  assumes "after_connection tx reached outcome sl = (again, sl')"
  shows "\<exists>reason. sl' = loop_event (EventDisconnected again reason) sl \<and>
    (again \<longleftrightarrow> (reached \<or> sl_ever_connected sl) \<and> (\<forall>e. outcome = Inl e \<longrightarrow> e \<noteq> ClientClosed \<and> (\<forall>r. e \<noteq> ClientRejected r)))"
  using assms by (cases outcome) (auto simp: after_connection_def Let_def should_retry_iff)

text \<open>How an attempt ends: without a connection, or with the outcome of one.\<close>

definition attempt_outcome ::
  "('h, 't) client_crates \<Rightarrow> key_pair \<Rightarrow> session_config \<Rightarrow> session_attempt \<Rightarrow> session_loop \<Rightarrow>
   ((client_error, unit) result \<times> bool \<times> session_loop) option" where
  "attempt_outcome kr identity cfg att sl =
     (case connect_transport_with_timeout (sa_connect att) of
        Inl e \<Rightarrow> Some (Inl e, False, loop_event EventConnecting sl)
      | Inr t \<Rightarrow>
          (case run_one_connection kr identity cfg att t (loop_event EventConnecting sl) of
             Some (Some r, reached, sl') \<Rightarrow> Some (r, reached, sl')
           | _ \<Rightarrow> None))"

definition not_stopped :: "session_attempt \<Rightarrow> bool" where
  "not_stopped att \<longleftrightarrow> \<not> sa_stop_before att \<and> \<not> sa_stop_unconnected att \<and> \<not> sa_stop_after att \<and> \<not> sa_stop_sleep att"

text \<open>
  C17. The client's decision to connect again, after any attempt that was not stopped by the
  user: it does so exactly when some connection was established before or in this attempt
  and the error is neither a refusal by the server nor a closed session; the event that the
  user gets says truthfully which; and it waits once, for the jittered delay, which starts
  over after a connection and grows by the factor for the next attempt.
\<close>

theorem reconnects_iff:
  assumes "session_attempt kr identity cfg att sl = Some (res, sl')" and "not_stopped att"
    and "attempt_outcome kr identity cfg att sl = Some (outcome, reached, sl2)" and "cg_backoff cfg = (start, max_ms, mul)"
  shows "(res = Again \<longleftrightarrow> (reached \<or> sl_ever_connected sl) \<and> (\<forall>e. outcome = Inl e \<longrightarrow> e \<noteq> ClientClosed \<and> (\<forall>r. e \<noteq> ClientRejected r))) \<and>
    (res = Again \<or> res = Ended) \<and>
    (\<exists>reason. sl_events sl' = sl_events sl2 @ [EventDisconnected (res = Again) reason]) \<and>
    (let d = (if reached then start else sl_delay sl) in
     sl_slept sl' = sl_slept sl @ (if res = Again then [jitter d (sa_byte att)] else []) \<and>
     (res = Again \<longrightarrow> sl_delay sl' = next_delay d max_ms mul))"
proof (cases "connect_transport_with_timeout (sa_connect att)")
  case (Inl e)
  then have "outcome = Inl e" "\<not> reached" "sl2 = loop_event EventConnecting sl" using assms(3) by (simp_all add: attempt_outcome_def)
  with Inl assms(1,2,4) show ?thesis
    by (auto simp: session_attempt_def not_stopped_def Let_def loop_event_def sleep_backoff_def should_retry_iff split: if_splits)
next
  case (Inr t)
  then have r: "run_one_connection kr identity cfg att t (loop_event EventConnecting sl) = Some (Some outcome, reached, sl2)"
    using assms(3) by (auto simp: attempt_outcome_def split: option.splits)
  note k = run_one_connection_keeps [OF r]
  let ?d = "if reached then start else sl_delay sl" and ?sl3 = "sl2\<lparr>sl_terminal := None\<rparr>"
  let ?sl4 = "if reached then ?sl3\<lparr>sl_ever_connected := True, sl_delay := start\<rparr> else ?sl3"
  obtain again sl5 where a: "after_connection (kr_texts kr) reached outcome ?sl4 = (again, sl5)" by fastforce
  have res: "(res, sl') = (if again then (Again, sleep_backoff start max_ms mul (sa_byte att) sl5) else (Ended, sl5))"
    using assms(1,2,4) Inr r a unfolding session_attempt_def not_stopped_def Let_def
    by (cases again; simp)
  have s4: "sl_delay ?sl4 = ?d" "sl_slept ?sl4 = sl_slept sl" "sl_events ?sl4 = sl_events sl2"
      "(reached \<or> sl_ever_connected ?sl4) = (reached \<or> sl_ever_connected sl)"
    using k by (simp_all add: loop_event_def)
  obtain reason where f: "sl5 = loop_event (EventDisconnected again reason) ?sl4"
      "again \<longleftrightarrow> (reached \<or> sl_ever_connected ?sl4) \<and> (\<forall>e. outcome = Inl e \<longrightarrow> e \<noteq> ClientClosed \<and> (\<forall>r. e \<noteq> ClientRejected r))"
    using after_connection_result [OF a] by blast
  have s5: "sl_events sl5 = sl_events sl2 @ [EventDisconnected again reason]" "sl_delay sl5 = ?d" "sl_slept sl5 = sl_slept sl"
    unfolding f(1) loop_event_def using s4(1-3) by simp_all
  then have facts: "(res = Again) = again" "again \<or> res = Ended" "\<exists>reason. sl_events sl' = sl_events sl2 @ [EventDisconnected again reason]"
      "sl_slept sl' = sl_slept sl @ (if again then [jitter ?d (sa_byte att)] else [])" "again \<longrightarrow> sl_delay sl' = next_delay ?d max_ms mul"
    using res by (cases again; simp add: sleep_backoff_def)+
  show ?thesis unfolding Let_def facts(1) using f(2) [unfolded s4(4)] facts(2-5) by (intro conjI)
qed

text \<open>
  A server that shuts down, and one that cannot keep up, say good-bye in a way that
  \<open>is_recoverable_bye\<close> tells apart; and a peer can close its end. All of these become
  \<open>ClientClosed\<close>, after which the client does not connect again.
\<close>

lemma recoverable_bye_not_retried:
  assumes "is_recoverable_bye reason"
  shows "handle_inbound_frame (FBye reason) st = (Inr (ActReturn (Inl ClientClosed)), st) \<and>
    after_connection tx True (Inl ClientClosed) sl = (False, loop_event (EventDisconnected False ''backend closed'') sl)"
  using assms by (simp add: handle_inbound_frame_def after_connection_def should_retry_iff Let_def)

lemma closed_peer_not_retried:
  assumes "cp_incoming (ec_transport ch) = []"
  shows "fst (recv_encrypted kr ch) = Inl ClientClosed"
  using assms by (simp add: recv_encrypted_def recv_transport_def cp_recv_def)

text \<open>A frame that the cipher refuses ends the connection; the command stays in the queue.\<close>

lemma large_frame_ends_connection:
  assumes "fc_ser (kr_codec kr) f = Some b" and "65519 < length b"
  shows "send_then kr f after cn = (StepReturn (Inl (from_noise PayloadTooLarge)), cn)"
  using assms by (simp add: send_then_def send_encrypted_def encode_frame_def encrypt_def NOISE_MAX_MSG_LEN_def NOISE_TAG_LEN_def)

text \<open>A client that was connected and cannot connect again: it waits and tries once more.\<close>

definition retry_crates :: "(bytes, unit) client_crates" where
  "retry_crates = \<lparr>kr_snow = \<lparr>sw_parse_params = (\<lambda>_. Inr ()), sw_build_initiator = (\<lambda>b. Inr []), sw_build_responder = (\<lambda>b. Inr []),
       sw_write_message = (\<lambda>h p n. (Inr h, h)), sw_read_message = (\<lambda>h m n. (Inr [], m)), sw_remote_static = Some,
       sw_is_finished = (\<lambda>_. True), sw_into_transport = (\<lambda>_. Inr ()), sw_transport_write = (\<lambda>t m n. (Inr m, t)),
       sw_transport_read = (\<lambda>t c n. (Inr c, t))\<rparr>,
     kr_codec = \<lparr>fc_ser = (\<lambda>_. None), fc_de = (\<lambda>_. None)\<rparr>, kr_postcard = unary_postcard,
     kr_texts = \<lparr>ct_texts = \<lparr>tx_uuid = (\<lambda>_. []), tx_postcard = [], tx_hex = (\<lambda>_. [])\<rparr>, ct_frame = (\<lambda>_. []), ct_ctrl = (\<lambda>_. []),
       ct_close_reason = (\<lambda>_. []), ct_bye = (\<lambda>_. [])\<rparr>, kr_hex_decode = (\<lambda>_. Inl [])\<rparr>"

definition retry_config :: session_config where
  "retry_config = \<lparr>cg_endpoint = Direct [], cg_resume_token = None, cg_backoff = (250, 5000, 20)\<rparr>"

definition lost_attempt :: session_attempt where
  "lost_attempt = \<lparr>sa_stop_before = False, sa_connect = None, sa_stop_unconnected = False, sa_setup_timeout = False, sa_now = 0,
     sa_envs = [], sa_stop_after = False, sa_stop_sleep = False, sa_byte = 128\<rparr>"

theorem reconnects_iff_witness:
  "\<exists>sl'. session_attempt retry_crates \<lparr>kp_secret = [], kp_public = []\<rparr> retry_config lost_attempt
      ((session_start retry_config)\<lparr>sl_ever_connected := True\<rparr>) = Some (Again, sl') \<and>
    sl_slept sl' = [jitter 250 128] \<and> sl_delay sl' = next_delay 250 5000 20"
proof -
  let ?sl = "(session_start retry_config)\<lparr>sl_ever_connected := True\<rparr>"
  let ?kp = "\<lparr>kp_secret = [], kp_public = []\<rparr>"
  have o: "attempt_outcome retry_crates ?kp retry_config lost_attempt ?sl =
      Some (Inl (ConnectTimeout CONNECT_ATTEMPT_TIMEOUT_MS), False, loop_event EventConnecting ?sl)"
    by (simp add: attempt_outcome_def lost_attempt_def connect_transport_with_timeout_def)
  obtain res sl' where a: "session_attempt retry_crates ?kp retry_config lost_attempt ?sl = Some (res, sl')"
    by (simp add: session_attempt_def retry_config_def lost_attempt_def connect_transport_with_timeout_def Let_def
        loop_event_def session_start_def should_retry_iff)
  have n: "not_stopped lost_attempt" by (simp add: not_stopped_def lost_attempt_def)
  have b: "cg_backoff retry_config = (250, 5000, 20)" by (simp add: retry_config_def)
  from reconnects_iff [OF a n o b] a show ?thesis by (simp add: session_start_def b lost_attempt_def Let_def)
qed

end
