(* ===== verification/Daemon_Config.thy ===== *)
theory Daemon_Config
  imports Daemon_Types
begin

text \<open>
  \<open>crates/server/daemon-core/src/config.rs\<close> and \<open>service.rs\<close>: where the daemon keeps its
  files, how its configuration is loaded, saved and created with a fresh pre-shared key,
  and the addresses and pairing offers made from it. TOML, JSON, base64 and the QR code
  are third-party code, parameters; the environment variables and the answers of the
  operating system are the input \<open>config_env\<close> of an operation.
\<close>

section \<open>What the operating system gives\<close>

type_synonym config_files = "os_path \<Rightarrow> string option"

record config_env =
  ce_var :: "string \<Rightarrow> string option"
  ce_workspace_root :: os_path
  ce_stat_ok :: bool
  ce_read :: "(string, unit) result"
  ce_create_dir :: "(string, unit) result"
  ce_write :: "(string, unit) result"
  ce_partial :: string
  ce_random :: "(string, bytes) result"

definition home_dir :: "config_env \<Rightarrow> os_path option" where
  "home_dir env =
     (case ce_var env ''HOME'' of
        Some home \<Rightarrow> Some (path_of home)
      | None \<Rightarrow>
          (case ce_var env ''USERPROFILE'' of
             Some home \<Rightarrow> Some (path_of home)
           | None \<Rightarrow>
               (case (ce_var env ''HOMEDRIVE'', ce_var env ''HOMEPATH'') of
                  (Some drive, Some path) \<Rightarrow> Some (path_join (path_of drive) (path_of path))
                | _ \<Rightarrow> None)))"

definition default_state_dir :: "config_env \<Rightarrow> os_path" where
  "default_state_dir env =
     (case home_dir env of
        None \<Rightarrow> [Normal ''.cli-pocket'']
      | Some home \<Rightarrow> path_join home [Normal ''.cli-pocket''])"

definition default_config_path :: "config_env \<Rightarrow> os_path" where
  "default_config_path env = path_join (default_state_dir env) [Normal ''daemon.toml'']"

definition security_in :: "os_path \<Rightarrow> security_config" where
  "security_in base =
     \<lparr>sy_identity_path = path_join base [Normal ''identity.json''],
      sy_clients_path = path_join base [Normal ''clients.json''],
      sy_revoked_path = path_join base [Normal ''revoked.json'']\<rparr>"

definition security_default :: "config_env \<Rightarrow> security_config" where
  "security_default env = security_in (default_state_dir env)"

text \<open>\<open>path.parent().filter(...)\<close> of a non-empty parent.\<close>

definition real_parent :: "os_path \<Rightarrow> os_path option" where
  "real_parent path = (case path_parent path of None \<Rightarrow> None | Some p \<Rightarrow> if p = [] then None else Some p)"

definition for_config_path :: "config_env \<Rightarrow> os_path \<Rightarrow> security_config" where
  "for_config_path env config_path =
     (if path_ends_with config_path (path_of ''crates/server/daemon-bin/daemon.dev.toml'')
      then security_in (path_join (ce_workspace_root env) (path_of ''.cache/cli-pocket-daemon-dev''))
      else security_in (case real_parent config_path of None \<Rightarrow> default_state_dir env | Some p \<Rightarrow> p))"

section \<open>The file\<close>

text \<open>
  What is in a file; the sections and keys with a \<open>serde\<close> default are optional. TOML has
  integers below \<open>2 ^ 63\<close> only.
\<close>

record retry_file =
  rf_initial_ms :: "u64 option"
  rf_max_ms :: "u64 option"
  rf_mul_x10 :: "u32 option"

record relay_file =
  yf_base_url :: string
  yf_psk_hex :: string
  yf_server_auth_token :: "string option"
  yf_retry :: "retry_file option"

record config_file =
  cf_listen :: "listen_config option"
  cf_relay :: relay_file
  cf_app :: "app_config option"
  cf_limits :: "limits_config option"

record toml =
  tm_read :: "string \<Rightarrow> (string, config_file) result"
  tm_write :: "config_file \<Rightarrow> (string, string) result"

definition default_relay_retry_initial_ms :: u64 where "default_relay_retry_initial_ms = 500"
definition default_relay_retry_max_ms :: u64 where "default_relay_retry_max_ms = 30000"
definition default_relay_retry_mul_x10 :: u32 where "default_relay_retry_mul_x10 = 20"

definition relay_retry_default :: relay_retry_config where
  "relay_retry_default = \<lparr>rr_initial_ms = default_relay_retry_initial_ms, rr_max_ms = default_relay_retry_max_ms,
     rr_mul_x10 = default_relay_retry_mul_x10\<rparr>"

text \<open>The sections of the template \<open>daemon.build.toml\<close>, the defaults of a missing section.\<close>

definition listen_default :: listen_config where
  "listen_default = \<lparr>ln_addr = IpV4 0, ln_port = 7842\<rparr>"

definition app_default :: app_config where
  "app_default = \<lparr>ap_base_url = ''https://cli-pocket.32r4.asia''\<rparr>"

definition limits_default :: limits_config where
  "limits_default = \<lparr>lc_max_terminals = 64, lc_scrollback_bytes = 4194304, lc_scrollback_anchor_interval = 65536,
     lc_broadcast_capacity = 1024\<rparr>"

definition retry_from :: "retry_file option \<Rightarrow> relay_retry_config" where
  "retry_from f =
     (case f of
        None \<Rightarrow> relay_retry_default
      | Some r \<Rightarrow>
          \<lparr>rr_initial_ms = (case rf_initial_ms r of None \<Rightarrow> default_relay_retry_initial_ms | Some n \<Rightarrow> n),
           rr_max_ms = (case rf_max_ms r of None \<Rightarrow> default_relay_retry_max_ms | Some n \<Rightarrow> n),
           rr_mul_x10 = (case rf_mul_x10 r of None \<Rightarrow> default_relay_retry_mul_x10 | Some n \<Rightarrow> n)\<rparr>)"

definition config_from :: "config_env \<Rightarrow> config_file \<Rightarrow> daemon_config" where
  "config_from env f =
     \<lparr>dc_listen = (case cf_listen f of None \<Rightarrow> listen_default | Some l \<Rightarrow> l),
      dc_security = security_default env,
      dc_config_path = None,
      dc_relay = \<lparr>ry_base_url = yf_base_url (cf_relay f), ry_psk_hex = yf_psk_hex (cf_relay f),
                  ry_server_auth_token = yf_server_auth_token (cf_relay f), ry_retry = retry_from (yf_retry (cf_relay f))\<rparr>,
      dc_app = (case cf_app f of None \<Rightarrow> app_default | Some a \<Rightarrow> a),
      dc_limits = (case cf_limits f of None \<Rightarrow> limits_default | Some l \<Rightarrow> l)\<rparr>"

text \<open>What is written: every section, but neither the paths of the keys nor the path of the file.\<close>

definition config_to :: "daemon_config \<Rightarrow> config_file" where
  "config_to c =
     \<lparr>cf_listen = Some (dc_listen c),
      cf_relay = \<lparr>yf_base_url = ry_base_url (dc_relay c), yf_psk_hex = ry_psk_hex (dc_relay c),
                  yf_server_auth_token = ry_server_auth_token (dc_relay c),
                  yf_retry = Some \<lparr>rf_initial_ms = Some (rr_initial_ms (ry_retry (dc_relay c))),
                                   rf_max_ms = Some (rr_max_ms (ry_retry (dc_relay c))),
                                   rf_mul_x10 = Some (rr_mul_x10 (ry_retry (dc_relay c)))\<rparr>\<rparr>,
      cf_app = Some (dc_app c),
      cf_limits = Some (dc_limits c)\<rparr>"

section \<open>Loading and saving\<close>

definition read_to_string :: "config_env \<Rightarrow> os_path \<Rightarrow> config_files \<Rightarrow> (daemon_error, string) result" where
  "read_to_string env path fs =
     (case fs path of
        None \<Rightarrow> Inl (DaemonIo ''No such file or directory (os error 2)'')
      | Some t \<Rightarrow>
          (case ce_read env of
             Inl e \<Rightarrow> Inl (DaemonIo e)
           | Inr _ \<Rightarrow>
               if utf8_valid (map of_char t) then Inr t
               else Inl (DaemonIo ''stream did not contain valid UTF-8'')))"

definition load_from :: "config_env \<Rightarrow> toml \<Rightarrow> os_path \<Rightarrow> config_files \<Rightarrow> (daemon_error, daemon_config) result" where
  "load_from env tm path fs =
     and_then (read_to_string env path fs)
       (\<lambda>t. case tm_read tm t of
          Inl e \<Rightarrow> Inl (DaemonConfigError e)
        | Inr f \<Rightarrow> Inr ((config_from env f)\<lparr>dc_security := for_config_path env path, dc_config_path := Some path\<rparr>))"

definition save_to ::
  "config_env \<Rightarrow> toml \<Rightarrow> daemon_config \<Rightarrow> os_path \<Rightarrow> config_files \<Rightarrow> (daemon_error, unit) result \<times> config_files" where
  "save_to env tm c path fs =
     (case tm_write tm (config_to c) of
        Inl e \<Rightarrow> (Inl (DaemonConfigError e), fs)
      | Inr t \<Rightarrow>
          (case (if real_parent path = None then Inr () else ce_create_dir env) of
             Inl e \<Rightarrow> (Inl (DaemonIo e), fs)
           | Inr _ \<Rightarrow>
               (case ce_write env of
                  Inl e \<Rightarrow> (Inl (DaemonIo e), fs(path := Some (ce_partial env)))
                | Inr _ \<Rightarrow> (Inr (), fs(path := Some t)))))"

definition generate_relay_psk_hex :: "texts \<Rightarrow> config_env \<Rightarrow> (daemon_error, string) result" where
  "generate_relay_psk_hex tx env =
     (case ce_random env of
        Inl e \<Rightarrow> Inl (DaemonInternal (''read OS random bytes: '' @ e))
      | Inr bs \<Rightarrow> Inr (tx_hex tx bs))"

definition with_psk :: "string \<Rightarrow> daemon_config \<Rightarrow> daemon_config" where
  "with_psk psk c = c\<lparr>dc_relay := (dc_relay c)\<lparr>ry_psk_hex := psk\<rparr>\<rparr>"

definition load_or_create_config_with_template ::
  "texts \<Rightarrow> config_env \<Rightarrow> toml \<Rightarrow> string \<Rightarrow> os_path \<Rightarrow> config_files \<Rightarrow> (daemon_error, daemon_config) result \<times> config_files" where
  "load_or_create_config_with_template tx env tm template path fs =
     (if fs path \<noteq> None \<and> ce_stat_ok env then (load_from env tm path fs, fs)
      else (case tm_read tm template of
        Inl e \<Rightarrow> (Inl (DaemonConfigError e), fs)
      | Inr f \<Rightarrow>
          (let cfg = (config_from env f)\<lparr>dc_security := for_config_path env path\<rparr> in
           case (if ry_psk_hex (dc_relay cfg) = []
                 then and_then (generate_relay_psk_hex tx env) (\<lambda>psk. Inr (with_psk psk cfg)) else Inr cfg) of
             Inl e \<Rightarrow> (Inl e, fs)
           | Inr cfg \<Rightarrow>
               (case save_to env tm cfg path fs of
                  (Inl e, fs') \<Rightarrow> (Inl e, fs')
                | (Inr _, fs') \<Rightarrow> (Inr cfg, fs')))))"

definition BUILD_CONFIG_TEMPLATE :: string where
  "BUILD_CONFIG_TEMPLATE = concat (map (\<lambda>l. l @ [CHR 0x0A])
     [''[listen]'', ''addr = '' @ [CHR 0x22] @ ''0.0.0.0'' @ [CHR 0x22], ''port = 7842'', [],
      ''[relay]'', ''base_url = '' @ [CHR 0x22] @ ''wss://relay.cli-pocket.32r4.asia'' @ [CHR 0x22],
      ''psk_hex = '' @ [CHR 0x22, CHR 0x22], [],
      ''[app]'', ''base_url = '' @ [CHR 0x22] @ ''https://cli-pocket.32r4.asia'' @ [CHR 0x22], [],
      ''[limits]'', ''max_terminals = 64'', ''scrollback_bytes = 4194304'', ''scrollback_anchor_interval = 65536'',
      ''broadcast_capacity = 1024''])"

definition load_or_create_config ::
  "texts \<Rightarrow> config_env \<Rightarrow> toml \<Rightarrow> os_path option \<Rightarrow> config_files \<Rightarrow> (daemon_error, daemon_config) result \<times> config_files" where
  "load_or_create_config tx env tm config_path fs =
     load_or_create_config_with_template tx env tm BUILD_CONFIG_TEMPLATE
       (case config_path of None \<Rightarrow> default_config_path env | Some p \<Rightarrow> p) fs"

section \<open>Addresses and offers\<close>

definition relay_ws_url :: "string \<Rightarrow> string \<Rightarrow> (daemon_error, string) result" where
  "relay_ws_url base_url suffix =
     (let trimmed = trim base_url in
      if starts_with trimmed ''ws://'' \<or> starts_with trimmed ''wss://''
      then Inr (trim_end_matches (CHR ''/'') trimmed @ suffix)
      else Inl (DaemonConfigError ''relay.base_url must start with ws:// or wss://''))"

definition relay_server_ws_url :: "string \<Rightarrow> (daemon_error, string) result" where
  "relay_server_ws_url base_url = relay_ws_url base_url ''/ws/server''"

definition relay_client_ws_url :: "string \<Rightarrow> (daemon_error, string) result" where
  "relay_client_ws_url base_url = relay_ws_url base_url ''/ws/client''"

definition relay_server_ws_url_for_server :: "texts \<Rightarrow> string \<Rightarrow> server_id \<Rightarrow> (daemon_error, string) result" where
  "relay_server_ws_url_for_server tx base_url i =
     and_then (relay_server_ws_url base_url) (\<lambda>url. Inr (url @ ''?server='' @ tx_uuid tx (server_uuid i)))"

definition relay_client_ws_url_for_server :: "texts \<Rightarrow> string \<Rightarrow> server_id \<Rightarrow> (daemon_error, string) result" where
  "relay_client_ws_url_for_server tx base_url i =
     and_then (relay_client_ws_url base_url) (\<lambda>url. Inr (url @ ''?server='' @ tx_uuid tx (server_uuid i)))"

record pairing_offer =
  po_label :: "string option"
  po_server_id :: server_id
  po_server_public_hex :: string
  po_relay_url :: string
  po_relay_psk_hex :: string

text \<open>\<open>PairingOfferPayload\<close> with \<open>PairingRelayPayload\<close>: what becomes JSON.\<close>

record pairing_payload =
  pl_v :: u8
  pl_label :: "string option"
  pl_server_id :: string
  pl_server_public_hex :: string
  pl_relay_url :: string
  pl_relay_psk_hex :: string

record pairing_crates =
  pc_json :: "pairing_payload \<Rightarrow> (string, string) result"
  pc_base64 :: "string \<Rightarrow> string"
  pc_qr :: "string \<Rightarrow> (string, string \<times> string) result"

definition build_pairing_offer_url ::
  "texts \<Rightarrow> pairing_crates \<Rightarrow> string \<Rightarrow> pairing_offer \<Rightarrow> (daemon_error, string) result" where
  "build_pairing_offer_url tx pc app_base_url offer =
     (let base = trim app_base_url in
      if \<not> (starts_with base ''http://'' \<or> starts_with base ''https://'')
      then Inl (DaemonConfigError ''app.base_url must start with http:// or https://'')
      else (case pc_json pc
              \<lparr>pl_v = 1,
               pl_label = (case po_label offer of None \<Rightarrow> None | Some l \<Rightarrow> if trim l = [] then None else Some l),
               pl_server_id = tx_uuid tx (server_uuid (po_server_id offer)),
               pl_server_public_hex = po_server_public_hex offer,
               pl_relay_url = po_relay_url offer,
               pl_relay_psk_hex = po_relay_psk_hex offer\<rparr> of
            Inl e \<Rightarrow> Inl (DaemonConfigError e)
          | Inr json \<Rightarrow> Inr (trim_end_matches (CHR ''/'') base @ ''/#pair='' @ pc_base64 pc json)))"

record pairing_qr_code =
  qr_url :: string
  qr_svg :: string
  qr_terminal :: string

definition build_pairing_qr_code :: "pairing_crates \<Rightarrow> string \<Rightarrow> (daemon_error, pairing_qr_code) result" where
  "build_pairing_qr_code pc url =
     (case pc_qr pc url of
        Inl e \<Rightarrow> Inl (DaemonConfigError (''build pairing QR code: '' @ e))
      | Inr (svg, terminal) \<Rightarrow> Inr \<lparr>qr_url = url, qr_svg = svg, qr_terminal = terminal\<rparr>)"

section \<open>A configuration is created once\<close>

text \<open>The documented round trip of the \<open>toml\<close> crate; what it writes is UTF-8.\<close>

definition toml_ok :: "toml \<Rightarrow> bool" where
  "toml_ok tm \<longleftrightarrow> (\<forall>f t. tm_write tm f = Inr t \<longrightarrow> tm_read tm t = Inr f \<and> utf8_valid (map of_char t))"

definition same_place :: "config_env \<Rightarrow> config_env \<Rightarrow> bool" where
  "same_place a b \<longleftrightarrow> ce_var a = ce_var b \<and> ce_workspace_root a = ce_workspace_root b"

lemma for_config_path_same: "same_place a b \<Longrightarrow> for_config_path a p = for_config_path b p"
  by (simp add: same_place_def for_config_path_def default_state_dir_def home_dir_def cong: option.case_cong)

lemma config_from_to:
  "config_from env (config_to c) = c\<lparr>dc_security := security_default env, dc_config_path := None\<rparr>"
  by (simp add: config_from_def config_to_def retry_from_def)

lemma save_to_ok:
  "save_to env tm c path fs = (Inr (), fs') \<Longrightarrow> \<exists>t. tm_write tm (config_to c) = Inr t \<and> fs' = fs(path := Some t)"
  by (auto simp: save_to_def split: sum.splits)

lemma load_saved:
  assumes "toml_ok tm" and "save_to env tm c path fs = (Inr (), fs')" and "ce_read env' = Inr ()"
  shows "load_from env' tm path fs' = Inr (c\<lparr>dc_security := for_config_path env' path, dc_config_path := Some path\<rparr>)"
proof -
  obtain t where t: "tm_write tm (config_to c) = Inr t" "fs' = fs(path := Some t)" using save_to_ok [OF assms(2)] by blast
  with assms(1) have "tm_read tm t = Inr (config_to c)" "utf8_valid (map of_char t)" by (auto simp: toml_ok_def)
  with t assms(3) show ?thesis by (simp add: load_from_def read_to_string_def config_from_to)
qed

lemma created:
  assumes "load_or_create_config_with_template tx env tm template path fs = (Inr c, fs')" and "fs path = None"
  shows "save_to env tm c path fs = (Inr (), fs') \<and> dc_security c = for_config_path env path \<and> dc_config_path c = None"
  using assms
  by (auto simp: load_or_create_config_with_template_def with_psk_def config_from_def Let_def and_then_Inr
      split: sum.splits prod.splits if_splits)

text \<open>
  C11. The configuration is created once: when the first start has written a new
  configuration file, with the pre-shared key it made up, every later start whose files can
  be read gets the same configuration from it, the key included, and writes nothing. The
  only difference is that a configuration that was read knows the path of its file.
\<close>

theorem config_created_once:
  assumes "toml_ok tm" and "fs path = None"
    and "load_or_create_config_with_template tx env tm template path fs = (Inr c, fs')"
    and "same_place env env'" and "ce_stat_ok env'" and "ce_read env' = Inr ()"
  shows "load_or_create_config_with_template tx' env' tm template' path fs' =
    (Inr (c\<lparr>dc_config_path := Some path\<rparr>), fs') \<and> (\<forall>p. p \<noteq> path \<longrightarrow> fs' p = fs p)"
proof -
  have c: "save_to env tm c path fs = (Inr (), fs')" "dc_security c = for_config_path env path"
    using created [OF assms(3,2)] by simp_all
  obtain t where t: "fs' = fs(path := Some t)" using save_to_ok [OF c(1)] by blast
  have "c\<lparr>dc_security := for_config_path env' path, dc_config_path := Some path\<rparr> = c\<lparr>dc_config_path := Some path\<rparr>"
    using c(2) for_config_path_same [OF assms(4), of path] by simp
  with load_saved [OF assms(1) c(1) assms(6)] t assms(5) show ?thesis
    by (simp add: load_or_create_config_with_template_def)
qed

text \<open>A file format for the witnesses: the text names the configuration, one byte per key.\<close>

definition sample_file :: "string \<Rightarrow> config_file" where
  "sample_file psk = \<lparr>cf_listen = None,
     cf_relay = \<lparr>yf_base_url = ''wss://r'', yf_psk_hex = psk, yf_server_auth_token = None, yf_retry = None\<rparr>,
     cf_app = None, cf_limits = None\<rparr>"

definition sample_env :: config_env where
  "sample_env = \<lparr>ce_var = (\<lambda>_. None), ce_workspace_root = [], ce_stat_ok = True, ce_read = Inr (),
     ce_create_dir = Inr (), ce_write = Inr (), ce_partial = [], ce_random = Inr (replicate 32 7)\<rparr>"

definition sample_written :: config_file where
  "sample_written = config_to (with_psk ''07'' (config_from sample_env (sample_file [])))"

definition sample_toml :: toml where
  "sample_toml = \<lparr>tm_read = (\<lambda>t. if t = ''w'' then Inr sample_written else Inr (sample_file [])),
     tm_write = (\<lambda>f. if f = sample_written then Inr ''w'' else Inl ''unsupported'')\<rparr>"

lemma sample_toml_ok: "toml_ok sample_toml"
  by (auto simp: toml_ok_def sample_toml_def split: if_splits)

definition sample_config :: daemon_config where
  "sample_config = (with_psk ''07'' (config_from sample_env (sample_file [])))
     \<lparr>dc_security := for_config_path sample_env [Normal ''d.toml'']\<rparr>"

lemma sample_created:
  "load_or_create_config_with_template \<lparr>tx_uuid = (\<lambda>_. []), tx_postcard = [], tx_hex = (\<lambda>_. ''07'')\<rparr> sample_env sample_toml
     [] [Normal ''d.toml''] (\<lambda>_. None) = (Inr sample_config, (\<lambda>_. None)([Normal ''d.toml''] \<mapsto> ''w''))"
proof -
  let ?c = "(config_from sample_env (sample_file []))\<lparr>dc_security := for_config_path sample_env [Normal ''d.toml'']\<rparr>"
  have "with_psk ''07'' ?c = sample_config" by (simp add: sample_config_def with_psk_def)
  moreover have "config_to sample_config = sample_written"
    by (simp add: sample_config_def sample_written_def config_to_def)
  moreover have "ry_psk_hex (dc_relay ?c) = []" by (simp add: config_from_def sample_file_def)
  ultimately show ?thesis
    by (simp add: load_or_create_config_with_template_def sample_toml_def generate_relay_psk_hex_def save_to_def
        sample_env_def [THEN arg_cong [where f = ce_random]] sample_env_def [THEN arg_cong [where f = ce_write]]
        sample_env_def [THEN arg_cong [where f = ce_create_dir]])
qed

theorem config_created_once_witness:
  "\<exists>c fs. load_or_create_config_with_template \<lparr>tx_uuid = (\<lambda>_. []), tx_postcard = [], tx_hex = (\<lambda>_. ''07'')\<rparr>
       sample_env sample_toml [] [Normal ''d.toml''] (\<lambda>_. None) = (Inr c, fs) \<and>
     ry_psk_hex (dc_relay c) = ''07'' \<and>
     load_or_create_config_with_template \<lparr>tx_uuid = (\<lambda>_. []), tx_postcard = [], tx_hex = (\<lambda>_. ''ff'')\<rparr>
       sample_env sample_toml [] [Normal ''d.toml''] fs = (Inr (c\<lparr>dc_config_path := Some [Normal ''d.toml'']\<rparr>), fs)"
proof -
  have "same_place sample_env sample_env" "ce_stat_ok sample_env" "ce_read sample_env = Inr ()"
    by (simp_all add: same_place_def sample_env_def)
  from config_created_once [OF sample_toml_ok _ sample_created this] show ?thesis
    by (intro exI conjI) (rule sample_created, simp add: sample_config_def with_psk_def, simp)
qed

end
