(* ===== verification/Crypto_Identity.thy ===== *)
theory Crypto_Identity
  imports Crypto_Noise Shared_Strings
begin

text \<open>
  \<open>crates/shared/crypto/src/identity.rs\<close> and \<open>spake2.rs\<close>, and the daemon's
  \<open>identity_store.rs\<close>: the server's long-term key, the file it is kept in, and the secret
  of a pairing code. JSON, base64, key generation and SPAKE2 are third-party code,
  parameters. A file is its contents and its permission bits; the Unix build is modelled.
\<close>

section \<open>The calendar\<close>

definition is_leap :: "int \<Rightarrow> bool" where
  "is_leap y \<longleftrightarrow> y mod 4 = 0 \<and> y mod 100 \<noteq> 0 \<or> y mod 400 = 0"

definition year_length :: "int \<Rightarrow> nat" where
  "year_length y = (if is_leap y then 366 else 365)"

text \<open>The loop over the years; \<open>None\<close> when \<open>year += 1\<close> overflows an \<open>i32\<close>.\<close>

function year_loop :: "nat \<Rightarrow> int \<Rightarrow> (nat \<times> int) option" where
  "year_loop days year =
     (if days < year_length year then Some (days, year)
      else if year = 2 ^ 31 - 1 then None
      else year_loop (days - year_length year) (year + 1))"
  by pat_completeness auto
termination by (relation "measure fst") (auto simp: year_length_def)

declare year_loop.simps [simp del]

definition month_lengths :: "int \<Rightarrow> nat list" where
  "month_lengths year = [31, if is_leap year then 29 else 28, 31, 30, 31, 30, 31, 31, 30, 31, 30, 31]"

fun month_loop :: "nat \<Rightarrow> nat list \<Rightarrow> nat \<Rightarrow> nat \<times> nat" where
  "month_loop days [] month = (days, month)"
| "month_loop days (len # lens) month =
     (if days < len then (days, month) else month_loop (days - len) lens (month + 1))"

type_synonym date_time = "int \<times> nat \<times> nat \<times> nat \<times> nat \<times> nat"

definition epoch_to_ymd_hms :: "u64 \<Rightarrow> date_time option" where
  "epoch_to_ymd_hms secs =
     (let s = unat secs;
          second = s mod 60; s = s div 60;
          minute = s mod 60; s = s div 60;
          hour = s mod 24
      in case year_loop (s div 24) 1970 of
           None \<Rightarrow> None
         | Some (days, year) \<Rightarrow>
             (case month_loop days (month_lengths year) 1 of
                (days, month) \<Rightarrow> Some (year, month, days + 1, hour, minute, second)))"

definition pad_zeros :: "nat \<Rightarrow> string \<Rightarrow> string" where
  "pad_zeros width t = replicate (width - length t) (CHR ''0'') @ t"

text \<open>The years are positive here, so no sign is printed.\<close>

definition now_rfc3339 :: "u64 \<Rightarrow> string option" where
  "now_rfc3339 secs = map_option (\<lambda>(year, month, day, hour, minute, second).
     pad_zeros 4 (show_nat (nat year)) @ ''-'' @ pad_zeros 2 (show_nat month) @ ''-'' @ pad_zeros 2 (show_nat day) @ ''T'' @
     pad_zeros 2 (show_nat hour) @ '':'' @ pad_zeros 2 (show_nat minute) @ '':'' @ pad_zeros 2 (show_nat second) @ ''Z'')
     (epoch_to_ymd_hms secs)"

text \<open>
  The reference: the proleptic Gregorian calendar by counting. The days before a year have
  a closed form; the days before a month are the lengths of the earlier months.
\<close>

definition leaps_before :: "int \<Rightarrow> int" where
  "leaps_before y = (y - 1) div 4 - (y - 1) div 100 + (y - 1) div 400"

definition days_before_year :: "int \<Rightarrow> int" where
  "days_before_year y = 365 * (y - 1970) + (leaps_before y - leaps_before 1970)"

definition calendar_days :: "int \<Rightarrow> nat \<Rightarrow> nat \<Rightarrow> int" where
  "calendar_days year month day =
     days_before_year year + int (sum_list (take (month - 1) (month_lengths year))) + int day - 1"

definition valid_date :: "int \<Rightarrow> nat \<Rightarrow> nat \<Rightarrow> bool" where
  "valid_date year month day \<longleftrightarrow>
     1970 \<le> year \<and> 1 \<le> month \<and> month \<le> 12 \<and> 1 \<le> day \<and> day \<le> month_lengths year ! (month - 1)"

lemma div_step:
  fixes y k :: int
  assumes "0 < k"
  shows "(y - 1) div k + (if y mod k = 0 then 1 else 0) = y div k"
proof (cases "y mod k = 0")
  case True
  with mult_div_mod_eq [of k y] have "y - 1 = k * (y div k - 1) + (k - 1)" by (simp add: right_diff_distrib)
  then have "(y - 1) div k = y div k - 1" by (rule int_div_pos_eq) (use assms in simp_all)
  with True show ?thesis by simp
next
  case False
  have "0 \<le> y mod k" "y mod k < k" using assms by simp_all
  with False have r: "0 \<le> y mod k - 1" "y mod k - 1 < k" by linarith+
  from mult_div_mod_eq [of k y] have "y - 1 = k * (y div k) + (y mod k - 1)" by simp
  then have "(y - 1) div k = y div k" by (rule int_div_pos_eq [OF _ r])
  with False show ?thesis by simp
qed

lemma leap_count:
  fixes a b c :: int
  assumes "R \<longrightarrow> Q" and "Q \<longrightarrow> P"
    and "a + (if P then 1 else 0) = a'" and "b + (if Q then 1 else 0) = b'" and "c + (if R then 1 else 0) = c'"
  shows "a' - b' + c' = a - b + c + (if P \<and> \<not> Q \<or> R then 1 else 0)"
  using assms by auto

lemma leaps_before_next: "leaps_before (y + 1) = leaps_before y + (if is_leap y then 1 else 0)"
proof -
  have "(100 :: int) dvd 400" "(4 :: int) dvd 100" by simp_all
  then have "y mod 400 = 0 \<longrightarrow> y mod 100 = 0" "y mod 100 = 0 \<longrightarrow> y mod 4 = 0"
    unfolding mod_eq_0_iff_dvd by (blast intro: dvd_trans)+
  from leap_count [OF this div_step div_step div_step] show ?thesis
    unfolding leaps_before_def is_leap_def by (simp only: add_diff_cancel_right' zero_less_numeral)
qed

lemma days_before_next: "days_before_year (y + 1) = days_before_year y + int (year_length y)"
  by (simp add: days_before_year_def year_length_def leaps_before_next)

lemma year_loop_exact:
  "year_loop days year = Some (r, y) \<Longrightarrow>
   r < year_length y \<and> year \<le> y \<and> days_before_year year + int days = days_before_year y + int r"
proof (induction days year rule: year_loop.induct)
  case (1 days year)
  show ?case
  proof (cases "days < year_length year")
    case True
    with "1.prems" show ?thesis by (simp add: year_loop.simps [of days year])
  next
    case False
    with "1.prems" have n: "year \<noteq> 2 ^ 31 - 1" and
        y: "year_loop (days - year_length year) (year + 1) = Some (r, y)"
      by (auto simp: year_loop.simps [of days year] split: if_splits)
    from "1.IH" [OF False n y] False show ?thesis by (simp add: days_before_next)
  qed
qed

lemma year_loop_total:
  "int days < 365 * (2 ^ 31 - year) \<Longrightarrow> \<exists>r y. year_loop days year = Some (r, y)"
proof (induction days year rule: year_loop.induct)
  case (1 days year)
  have l: "365 \<le> year_length year" by (simp add: year_length_def)
  show ?case
  proof (cases "days < year_length year")
    case True
    then show ?thesis by (simp add: year_loop.simps [of days year])
  next
    case False
    then have n: "year \<noteq> 2 ^ 31 - 1" using "1.prems" l by auto
    have "int (days - year_length year) + 365 \<le> int days" using False l by simp
    with "1.prems" have "int (days - year_length year) < 365 * (2 ^ 31 - (year + 1))" by simp
    from "1.IH" [OF False n this] False n show ?thesis by (simp add: year_loop.simps [of days year])
  qed
qed

lemma month_loop_exact:
  assumes "days < sum_list lens" and "month_loop days lens m = (r, month)"
  shows "m \<le> month \<and> month - m < length lens \<and> r < lens ! (month - m) \<and>
    days = sum_list (take (month - m) lens) + r"
  using assms
proof (induction lens arbitrary: days m)
  case Nil
  then show ?case by simp
next
  case (Cons len lens)
  show ?case
  proof (cases "days < len")
    case True
    with Cons.prems show ?thesis by simp
  next
    case False
    with Cons.prems Cons.IH [of "days - len" "m + 1"]
    have "m + 1 \<le> month \<and> month - (m + 1) < length lens \<and> r < lens ! (month - (m + 1)) \<and>
        days - len = sum_list (take (month - (m + 1)) lens) + r" by simp
    moreover from this have "month - m = Suc (month - (m + 1))" by linarith
    moreover have "days = len + (days - len)" using False by simp
    ultimately show ?thesis by simp
  qed
qed

lemma sum_month_lengths: "sum_list (month_lengths year) = year_length year"
  by (simp add: month_lengths_def year_length_def)

text \<open>
  C12. The time stamp of an identity is right: for every number of seconds since 1970 below
  \<open>2 ^ 55\<close> (a thousand million years) the conversion returns a valid date of the Gregorian
  calendar and a valid time of day, and counting the days of the calendar up to that date
  gives back exactly the same number of seconds. Leap years come from the closed formula.
\<close>

theorem time_stamp_exact:
  assumes "unat secs < 2 ^ 55"
  shows "\<exists>year month day hour minute second. epoch_to_ymd_hms secs = Some (year, month, day, hour, minute, second) \<and>
    valid_date year month day \<and> hour < 24 \<and> minute < 60 \<and> second < 60 \<and>
    int (unat secs) = ((calendar_days year month day * 24 + int hour) * 60 + int minute) * 60 + int second"
proof -
  let ?s = "unat secs"
  let ?days = "?s div 60 div 60 div 24"
  have "int ?days < 365 * (2 ^ 31 - 1970)" using assms by simp
  then obtain r year where y: "year_loop ?days 1970 = Some (r, year)" using year_loop_total by blast
  from year_loop_exact [OF y] have r: "r < sum_list (month_lengths year)" "1970 \<le> year"
      "int ?days = days_before_year year + int r"
    by (simp_all add: sum_month_lengths) (simp add: days_before_year_def)
  obtain d month where m: "month_loop r (month_lengths year) 1 = (d, month)" by (cases "month_loop r (month_lengths year) 1")
  from month_loop_exact [OF r(1) m] have m': "1 \<le> month" "month - 1 < length (month_lengths year)"
      "d < month_lengths year ! (month - 1)" "r = sum_list (take (month - 1) (month_lengths year)) + d" by blast+
  have e: "epoch_to_ymd_hms secs = Some (year, month, d + 1, ?s div 60 div 60 mod 24, ?s div 60 mod 60, ?s mod 60)"
    using y m by (simp add: epoch_to_ymd_hms_def Let_def)
  have v: "valid_date year month (d + 1)"
    using r(2) m' by (simp add: valid_date_def) (simp add: month_lengths_def)
  have c: "calendar_days year month (d + 1) = int ?days" using r(3) m'(4) by (simp add: calendar_days_def)
  have "((?days * 24 + ?s div 60 div 60 mod 24) * 60 + ?s div 60 mod 60) * 60 + ?s mod 60 = ?s"
    by (simp only: div_mult_mod_eq)
  from arg_cong [OF this, of int] have t: "int ?s = ((int ?days * 24 + int (?s div 60 div 60 mod 24)) * 60 + int (?s div 60 mod 60)) * 60 + int (?s mod 60)"
    by (simp only: of_nat_add of_nat_mult of_nat_numeral)
  show ?thesis
    by (rule exI [of _ year], rule exI [of _ month], rule exI [of _ "d + 1"], (rule exI)+, intro conjI, rule e, rule v)
      (use c t in simp_all)
qed

theorem time_stamp_exact_witness:
  "\<exists>year month day hour minute second. epoch_to_ymd_hms 1779321600 = Some (year, month, day, hour, minute, second) \<and>
    valid_date year month day \<and> hour < 24 \<and> minute < 60 \<and> second < 60 \<and>
    int (unat (1779321600 :: u64)) = ((calendar_days year month day * 24 + int hour) * 60 + int minute) * 60 + int second"
  by (rule time_stamp_exact) simp

section \<open>The identity file\<close>

datatype identity_error =
    IdIo string
  | IdJson string
  | IdSnow string
  | IdNoiseParams string
  | BadPermissions string
  | Base64Error string
  | WrongKeyLength nat

fun identity_error_text :: "identity_error \<Rightarrow> string" where
  "identity_error_text (IdIo e) = ''io: '' @ e"
| "identity_error_text (IdJson e) = ''serde_json: '' @ e"
| "identity_error_text (IdSnow e) = ''snow: '' @ e"
| "identity_error_text (IdNoiseParams e) = ''noise params: '' @ e"
| "identity_error_text (BadPermissions e) = ''identity file has wrong permissions (expected mode 0600): '' @ e"
| "identity_error_text (Base64Error e) = ''base64: '' @ e"
| "identity_error_text (WrongKeyLength n) = ''invalid key length: expected 32 bytes, got '' @ show_nat n"

text \<open>\<open>Secret\<close> and \<open>KeyBytes32\<close> only change how a value is printed and written, so they are left out.\<close>

record identity =
  idn_version :: u32
  idn_server_id :: uuid
  idn_created_at :: string
  idn_static_public :: bytes
  idn_static_secret :: bytes

text \<open>What JSON holds: the keys as text.\<close>

record identity_text =
  idt_version :: u32
  idt_server_id :: uuid
  idt_created_at :: string
  idt_public :: string
  idt_secret :: string

record identity_crates =
  ic_keypair :: "(string, bytes \<times> bytes) result"
  ic_params :: "string \<Rightarrow> (string, unit) result"
  ic_encode :: "bytes \<Rightarrow> string"
  ic_decode :: "string \<Rightarrow> (string, bytes) result"
  ic_write :: "identity_text \<Rightarrow> (string, bytes) result"
  ic_read :: "bytes \<Rightarrow> (string, identity_text) result"
  ic_simple :: "uuid \<Rightarrow> string"

text \<open>\<open>copy_from_slice\<close> panics when the lengths differ: \<open>None\<close>.\<close>

definition copy32 :: "bytes \<Rightarrow> bytes option" where
  "copy32 bs = (if length bs = 32 then Some bs else None)"

definition generate :: "identity_crates \<Rightarrow> (identity_error, key_pair) result option" where
  "generate ic =
     (case ic_params ic NOISE_XK_PARAMS of
        Inl e \<Rightarrow> Some (Inl (IdNoiseParams e))
      | Inr _ \<Rightarrow>
          (case ic_keypair ic of
             Inl e \<Rightarrow> Some (Inl (IdSnow e))
           | Inr (pub, secret) \<Rightarrow>
               (case (copy32 pub, copy32 secret) of
                  (Some p, Some s) \<Rightarrow> Some (Inr \<lparr>kp_secret = s, kp_public = p\<rparr>)
                | _ \<Rightarrow> None)))"

definition from_keypair :: "uuid \<Rightarrow> string \<Rightarrow> key_pair \<Rightarrow> identity" where
  "from_keypair fresh now kp =
     \<lparr>idn_version = 1, idn_server_id = fresh, idn_created_at = now,
      idn_static_public = kp_public kp, idn_static_secret = kp_secret kp\<rparr>"

definition identity_keypair :: "identity \<Rightarrow> key_pair" where
  "identity_keypair i = \<lparr>kp_secret = idn_static_secret i, kp_public = idn_static_public i\<rparr>"

definition to_text :: "identity_crates \<Rightarrow> identity \<Rightarrow> identity_text" where
  "to_text ic i =
     \<lparr>idt_version = idn_version i, idt_server_id = idn_server_id i, idt_created_at = idn_created_at i,
      idt_public = ic_encode ic (idn_static_public i), idt_secret = ic_encode ic (idn_static_secret i)\<rparr>"

definition key_bytes_32 :: "identity_crates \<Rightarrow> string \<Rightarrow> (string, bytes) result" where
  "key_bytes_32 ic t =
     (case ic_decode ic t of
        Inl e \<Rightarrow> Inl e
      | Inr bs \<Rightarrow> if length bs \<noteq> 32 then Inl (''expected 32 bytes, got '' @ show_nat (length bs)) else Inr bs)"

definition of_text :: "identity_crates \<Rightarrow> identity_text \<Rightarrow> (string, identity) result" where
  "of_text ic t =
     and_then (key_bytes_32 ic (idt_public t)) (\<lambda>pub.
     and_then (key_bytes_32 ic (idt_secret t)) (\<lambda>secret.
       Inr \<lparr>idn_version = idt_version t, idn_server_id = idt_server_id t, idn_created_at = idt_created_at t,
            idn_static_public = pub, idn_static_secret = secret\<rparr>))"

record key_file =
  kf_mode :: nat
  kf_bytes :: bytes

type_synonym key_files = "os_path \<Rightarrow> key_file option"

record identity_env =
  ie_display :: "os_path \<Rightarrow> string"
  ie_stat :: "(string, unit) result"
  ie_read :: "(string, unit) result"
  ie_create_dir :: "(string, unit) result"
  ie_open :: "(string, unit) result"
  ie_created_mode :: nat
  ie_write :: "(string, unit) result"
  ie_partial :: bytes
  ie_sync :: "(string, unit) result"
  ie_rename :: "(string, unit) result"
  ie_chmod :: "(string, unit) result"

fun show_oct :: "nat \<Rightarrow> string" where
  "show_oct n = (if n < 8 then [char_of (48 + n)] else show_oct (n div 8) @ [char_of (48 + n mod 8)])"

declare show_oct.simps [simp del]

definition os_metadata :: "identity_env \<Rightarrow> os_path \<Rightarrow> key_files \<Rightarrow> (identity_error, nat) result" where
  "os_metadata env path fs =
     (case fs path of
        None \<Rightarrow> Inl (IdIo ''No such file or directory (os error 2)'')
      | Some f \<Rightarrow> (case ie_stat env of Inl e \<Rightarrow> Inl (IdIo e) | Inr _ \<Rightarrow> Inr (kf_mode f)))"

definition check_mode :: "identity_env \<Rightarrow> os_path \<Rightarrow> key_files \<Rightarrow> (identity_error, unit) result" where
  "check_mode env path fs =
     and_then (os_metadata env path fs)
       (\<lambda>bits. let mode = bits mod 512 in
          if mode \<noteq> 384
          then Inl (BadPermissions (ie_display env path @ '': got 0o'' @ show_oct mode @
                      '', expected 0o600. Fix with: chmod 600 '' @ ie_display env path))
          else Inr ())"

definition load_strict :: "identity_env \<Rightarrow> identity_crates \<Rightarrow> os_path \<Rightarrow> key_files \<Rightarrow> (identity_error, identity) result" where
  "load_strict env ic path fs =
     and_then (check_mode env path fs) (\<lambda>_.
       case fs path of
         None \<Rightarrow> Inl (IdIo ''No such file or directory (os error 2)'')
       | Some f \<Rightarrow>
           (case ie_read env of
              Inl e \<Rightarrow> Inl (IdIo e)
            | Inr _ \<Rightarrow>
                (case and_then (ic_read ic (kf_bytes f)) (of_text ic) of
                   Inl e \<Rightarrow> Inl (IdJson e)
                 | Inr i \<Rightarrow> Inr i)))"

definition set_mode_600 :: "identity_env \<Rightarrow> os_path \<Rightarrow> key_files \<Rightarrow> (identity_error, unit) result \<times> key_files" where
  "set_mode_600 env path fs =
     (case os_metadata env path fs of
        Inl e \<Rightarrow> (Inl e, fs)
      | Inr _ \<Rightarrow>
          (case ie_chmod env of
             Inl e \<Rightarrow> (Inl (IdIo e), fs)
           | Inr _ \<Rightarrow> (Inr (), fs(path := map_option (\<lambda>f. f\<lparr>kf_mode := 384\<rparr>) (fs path)))))"

text \<open>\<open>path.with_extension(e)\<close>: the last component without what follows its last dot, and \<open>.e\<close>.\<close>

definition file_stem :: "string \<Rightarrow> string" where
  "file_stem name =
     (let parts = split_on (CHR ''.'') name in
      if length parts = 1 \<or> length parts = 2 \<and> hd parts = [] then name
      else take (length name - length (last parts) - 1) name)"

definition with_extension :: "os_path \<Rightarrow> string \<Rightarrow> os_path" where
  "with_extension path extension =
     (case rev path of
        Normal name # up \<Rightarrow> rev (Normal (file_stem name @ ''.'' @ extension) # up)
      | _ \<Rightarrow> path)"

definition save_identity_json ::
  "identity_env \<Rightarrow> identity_crates \<Rightarrow> uuid \<Rightarrow> os_path \<Rightarrow> bytes \<Rightarrow> key_files \<Rightarrow> (identity_error, unit) result \<times> key_files" where
  "save_identity_json env ic fresh path json fs =
     (let tmp_path = with_extension path (ic_simple ic fresh @ ''.tmp'') in
      if fs tmp_path \<noteq> None then (Inl (IdIo ''File exists (os error 17)''), fs)
      else (case ie_open env of
        Inl e \<Rightarrow> (Inl (IdIo e), fs)
      | Inr _ \<Rightarrow>
          (case ie_write env of
             Inl e \<Rightarrow> (Inl (IdIo e), fs(tmp_path \<mapsto> \<lparr>kf_mode = ie_created_mode env, kf_bytes = ie_partial env\<rparr>))
           | Inr _ \<Rightarrow>
               (let file = \<lparr>kf_mode = ie_created_mode env, kf_bytes = json\<rparr>; fs1 = fs(tmp_path \<mapsto> file) in
                case ie_sync env of
                  Inl e \<Rightarrow> (Inl (IdIo e), fs1)
                | Inr _ \<Rightarrow>
                    (case ie_rename env of
                       Inl e \<Rightarrow> (Inl (IdIo e), fs1)
                     | Inr _ \<Rightarrow> set_mode_600 env path (fs1(tmp_path := None, path \<mapsto> file)))))))"

definition identity_save ::
  "identity_env \<Rightarrow> identity_crates \<Rightarrow> uuid \<Rightarrow> identity \<Rightarrow> os_path \<Rightarrow> key_files \<Rightarrow> (identity_error, unit) result \<times> key_files" where
  "identity_save env ic fresh i path fs =
     (case (if path_parent path = None then Inr () else ie_create_dir env) of
        Inl e \<Rightarrow> (Inl (IdIo e), fs)
      | Inr _ \<Rightarrow>
          (case ic_write ic (to_text ic i) of
             Inl e \<Rightarrow> (Inl (IdJson e), fs)
           | Inr json \<Rightarrow> save_identity_json env ic fresh path json fs))"

section \<open>Pairing codes\<close>

datatype spake2_error = Spake2 | SharedSecretTooShort nat

record spake2_outcome =
  sp_shared :: bytes
  sp_psk :: bytes

definition spake2_outcome_new :: "bytes \<Rightarrow> (spake2_error, spake2_outcome) result" where
  "spake2_outcome_new shared =
     (if length shared < 32 then Inl (SharedSecretTooShort (length shared))
      else Inr \<lparr>sp_shared = shared, sp_psk = take 32 shared\<rparr>)"

text \<open>The crate \<open>spake2\<close>: password, the two identities, randomness; then the peer's message.\<close>

record 's spake2 =
  sk_start_a :: "bytes \<Rightarrow> bytes \<Rightarrow> bytes \<Rightarrow> bytes \<Rightarrow> 's \<times> bytes"
  sk_start_b :: "bytes \<Rightarrow> bytes \<Rightarrow> bytes \<Rightarrow> bytes \<Rightarrow> 's \<times> bytes"
  sk_finish :: "'s \<Rightarrow> bytes \<Rightarrow> bytes option"

record 's spake2_side =
  ss_inner :: 's
  ss_outbound :: bytes

definition start_server :: "'s spake2 \<Rightarrow> bytes \<Rightarrow> bytes \<Rightarrow> bytes \<Rightarrow> bytes \<Rightarrow> 's spake2_side" where
  "start_server sk rng code server_id_bytes client_hint =
     (case sk_start_a sk rng code server_id_bytes client_hint of
        (inner, outbound) \<Rightarrow> \<lparr>ss_inner = inner, ss_outbound = outbound\<rparr>)"

definition start_client :: "'s spake2 \<Rightarrow> bytes \<Rightarrow> bytes \<Rightarrow> bytes \<Rightarrow> bytes \<Rightarrow> 's spake2_side" where
  "start_client sk rng code server_id_bytes client_hint =
     (case sk_start_b sk rng code server_id_bytes client_hint of
        (inner, outbound) \<Rightarrow> \<lparr>ss_inner = inner, ss_outbound = outbound\<rparr>)"

definition spake2_finish :: "'s spake2 \<Rightarrow> bytes \<Rightarrow> 's spake2_side \<Rightarrow> (spake2_error, spake2_outcome) result" where
  "spake2_finish sk peer_msg side =
     (case sk_finish sk (ss_inner side) peer_msg of
        None \<Rightarrow> Inl Spake2
      | Some shared \<Rightarrow> spake2_outcome_new shared)"

end
