(* ===== verification/Daemon_Server.thy ===== *)
theory Daemon_Server
  imports Daemon_Config Daemon_Requests Crypto_Identity
begin

text \<open>
  How the daemon is put together: \<open>crates/server/daemon-core/src/server.rs\<close> (starting it and
  making pairing offers), \<open>identity_store.rs\<close>, \<open>accept.rs\<close> (which handshake a transport
  gets) and \<open>listener.rs\<close> (direct connections). Hexadecimal is third-party code: encoding is
  part of \<open>texts\<close>, decoding the parameter \<open>unhex\<close>.
\<close>

section \<open>The server's identity\<close>

record daemon_identity =
  di_server_id :: server_id
  di_keypair :: key_pair

definition load_or_create_identity ::
  "identity_env \<Rightarrow> identity_crates \<Rightarrow> uuid \<Rightarrow> uuid \<Rightarrow> string \<Rightarrow> os_path \<Rightarrow> key_files \<Rightarrow>
   ((daemon_error, daemon_identity) result \<times> key_files) option" where
  "load_or_create_identity env ic fresh tmp now path fs =
     map_option (\<lambda>(r, fs'). case r of
          Inl e \<Rightarrow> (Inl (DaemonIdentity (identity_error_text e)), fs')
        | Inr i \<Rightarrow> (Inr \<lparr>di_server_id = ServerId (idn_server_id i), di_keypair = identity_keypair i\<rparr>, fs'))
       (if fs path \<noteq> None \<and> ie_stat env = Inr () then Some (load_strict env ic path fs, fs)
        else (case generate ic of
          None \<Rightarrow> None
        | Some (Inl e) \<Rightarrow> Some (Inl e, fs)
        | Some (Inr kp) \<Rightarrow>
            (let i = from_keypair fresh now kp in
             case identity_save env ic tmp i path fs of
               (Inl e, fs') \<Rightarrow> Some (Inl e, fs')
             | (Inr _, fs') \<Rightarrow> Some (Inr i, fs'))))"

section \<open>Starting\<close>

text \<open>Environment variables and what the program \<open>hostname\<close> printed, if it succeeded.\<close>

record label_env =
  le_var :: "string \<Rightarrow> string option"
  le_hostname :: "string option"

fun first_label :: "label_env \<Rightarrow> string list \<Rightarrow> string option" where
  "first_label env [] = None"
| "first_label env (key # keys) =
     (case le_var env key of
        None \<Rightarrow> first_label env keys
      | Some v \<Rightarrow> if trim v \<noteq> [] then Some (trim v) else first_label env keys)"

definition detect_server_label :: "label_env \<Rightarrow> string option" where
  "detect_server_label env =
     (case first_label env [''COMPUTERNAME'', ''HOSTNAME''] of
        Some l \<Rightarrow> Some l
      | None \<Rightarrow>
          (case le_hostname env of
             None \<Rightarrow> None
           | Some out \<Rightarrow> if \<not> utf8_valid (map of_char out) then None else if trim out \<noteq> [] then Some (trim out) else None))"

record 'p server =
  sv_identity :: daemon_identity
  sv_config :: daemon_config
  sv_daemon :: "'p daemon"

definition boot ::
  "string \<Rightarrow> label_env \<Rightarrow> (daemon_error, daemon_identity) result \<Rightarrow> (daemon_error, client_db) result \<Rightarrow> daemon_config \<Rightarrow>
   (daemon_error, 'p server) result" where
  "boot version env identity opened config =
     and_then identity (\<lambda>i. and_then opened (\<lambda>db.
       Inr \<lparr>sv_identity = i, sv_config = config,
            sv_daemon = \<lparr>dm_sessions = session_manager_new (lc_max_terminals (dc_limits config)), dm_db = db,
                         dm_config = config,
                         dm_server_info = \<lparr>si_server_version = version, si_server_label = detect_server_label env\<rparr>\<rparr>\<rparr>))"

text \<open>The pre-shared key as \<open>start\<close> reads it: every failure is ignored.\<close>

definition start_relay_psk :: "(string \<Rightarrow> (string, bytes) result) \<Rightarrow> daemon_config \<Rightarrow> bytes option" where
  "start_relay_psk unhex config =
     (case unhex (ry_psk_hex (dc_relay config)) of
        Inl _ \<Rightarrow> None
      | Inr bs \<Rightarrow> if length bs = 32 then Some bs else None)"

definition public_key_hex :: "texts \<Rightarrow> 'p server \<Rightarrow> string" where
  "public_key_hex tx sv = tx_hex tx (kp_public (di_keypair (sv_identity sv)))"

definition pair_url ::
  "texts \<Rightarrow> pairing_crates \<Rightarrow> (string \<Rightarrow> (string, bytes) result) \<Rightarrow> 'p server \<Rightarrow> (daemon_error, string) result" where
  "pair_url tx pc unhex sv =
     and_then (relay_client_ws_url_for_server tx (ry_base_url (dc_relay (sv_config sv))) (di_server_id (sv_identity sv)))
       (\<lambda>relay_url.
          let relay_psk_hex = trim (ry_psk_hex (dc_relay (sv_config sv))) in
          if relay_psk_hex = [] then Inl (DaemonConfigError ''pair-url requires relay.psk_hex'')
          else (case unhex relay_psk_hex of
            Inl e \<Rightarrow> Inl (DaemonConfigError (''relay.psk_hex: '' @ e))
          | Inr relay_psk \<Rightarrow>
              if length relay_psk \<noteq> 32
              then Inl (DaemonConfigError ''pair-url requires relay.psk_hex to decode to 32 bytes'')
              else build_pairing_offer_url tx pc (ap_base_url (dc_app (sv_config sv)))
                \<lparr>po_label = si_server_label (dm_server_info (sv_daemon sv)),
                 po_server_id = di_server_id (sv_identity sv),
                 po_server_public_hex = public_key_hex tx sv,
                 po_relay_url = relay_url,
                 po_relay_psk_hex = relay_psk_hex\<rparr>))"

definition pair_qr_code ::
  "texts \<Rightarrow> pairing_crates \<Rightarrow> (string \<Rightarrow> (string, bytes) result) \<Rightarrow> 'p server \<Rightarrow> (daemon_error, pairing_qr_code) result" where
  "pair_qr_code tx pc unhex sv = and_then (pair_url tx pc unhex sv) (build_pairing_qr_code pc)"

section \<open>Accepted transports\<close>

datatype accepted_kind = AcceptedDirect bool | AcceptedRelay bool

datatype handshake_kind = HandshakeDirect bool | HandshakeRelay "bytes option" bool

fun handshake_of :: "bytes option \<Rightarrow> accepted_kind \<Rightarrow> handshake_kind" where
  "handshake_of relay_psk (AcceptedDirect auto_pair) = HandshakeDirect auto_pair"
| "handshake_of relay_psk (AcceptedRelay auto_pair) = HandshakeRelay relay_psk auto_pair"

text \<open>The start of \<open>run_connection_with_handshake\<close>.\<close>

fun connection_handshake ::
  "('h, 't) snow \<Rightarrow> texts \<Rightarrow> json \<Rightarrow> pair_env \<Rightarrow> key_pair \<Rightarrow> handshake_kind \<Rightarrow> transport \<Rightarrow> client_db \<times> file_system \<Rightarrow>
   (daemon_error, 't accepted_handshake) result \<times> transport \<times> client_db \<times> file_system" where
  "connection_handshake sw tx js env identity (HandshakeDirect auto_pair) t s =
     anonymous_responder_handshake sw tx js env identity auto_pair t s"
| "connection_handshake sw tx js env identity (HandshakeRelay psk auto_pair) t s =
     responder_handshake sw tx js env identity psk auto_pair t s"

definition accept_transport ::
  "('h, 't) snow \<Rightarrow> texts \<Rightarrow> json \<Rightarrow> pair_env \<Rightarrow> (string \<Rightarrow> (string, bytes) result) \<Rightarrow> 'p server \<Rightarrow> accepted_kind \<Rightarrow>
   transport \<Rightarrow> client_db \<times> file_system \<Rightarrow>
   (daemon_error, 't accepted_handshake) result \<times> transport \<times> client_db \<times> file_system" where
  "accept_transport sw tx js env unhex sv kind t s =
     connection_handshake sw tx js env (di_keypair (sv_identity sv))
       (handshake_of (start_relay_psk unhex (sv_config sv)) kind) t s"

text \<open>Which errors of a connection are logged as an ordinary end.\<close>

fun is_expected_end :: "daemon_error \<Rightarrow> bool" where
  "is_expected_end (DaemonTransport e) = is_expected_disconnect e"
| "is_expected_end (DaemonInternal msg) = text_contains msg ''transport closed during frame recv''"
| "is_expected_end _ = False"

section \<open>The listener\<close>

definition DIRECT_SESSION_SUBPROTOCOL :: string where
  "DIRECT_SESSION_SUBPROTOCOL = ''cli-pocket-server/v1''"

record ws_request =
  wr_path :: string
  wr_protocol :: "string option"

definition requested_subprotocol_supported :: "string \<Rightarrow> bool" where
  "requested_subprotocol_supported value \<longleftrightarrow>
     DIRECT_SESSION_SUBPROTOCOL \<in> set (map trim (split_on (CHR '','') value))"

text \<open>The sub-protocol that the answer to an upgrade request names.\<close>

definition on_request :: "ws_request \<Rightarrow> string option" where
  "on_request r =
     (case wr_protocol r of
        None \<Rightarrow> None
      | Some v \<Rightarrow> if requested_subprotocol_supported v then Some DIRECT_SESSION_SUBPROTOCOL else None)"

text \<open>What a peer's request becomes: nothing if the upgrade fails or the path is another one.\<close>

definition listener_accept :: "ip_addr \<Rightarrow> (string, ws_request) result \<Rightarrow> accepted_kind option" where
  "listener_accept peer upgraded =
     (case upgraded of
        Inl _ \<Rightarrow> None
      | Inr r \<Rightarrow> if wr_path r \<noteq> ''/session'' then None else Some (AcceptedDirect (is_loopback peer)))"

section \<open>Who gets in\<close>

text \<open>With automatic pairing nobody is refused for being unknown.\<close>

lemma auto_pair_never_refuses:
  "authorize tx js env True key (db, fs) = (Inl e, db', fs') \<Longrightarrow> lookup_by_public key db = None \<Longrightarrow>
   \<exists>d. add_client tx js (pe_write env) \<lparr>cr_client_id = ClientId (pe_fresh env), cr_public_key = key,
     cr_paired_at = pe_now_secs env\<rparr> (db, fs) = (Inl d, db', fs') \<or> is_revoked (ClientId (pe_fresh env)) db'"
  by (auto simp: authorize_def add_or_lookup_by_public_def Let_def split: sum.splits prod.splits if_splits)

text \<open>
  Whom the listener lets in: a peer from another machine that gets through the handshake
  is a client that was paired before and is not revoked, and neither the database nor its
  files have changed; only a peer on the loopback interface can be paired by connecting, and
  nothing but the path \<open>/session\<close> is served.
\<close>

lemma listener_pairs_only_loopback:
  assumes "db_inv tx js cp rp (db, rt, fs)" and "json_ok js" and "plain_path cp" and "plain_path rp" and "cp \<noteq> rp"
    and "listener_accept peer upgraded = Some kind"
    and "accept_transport sw tx js env unhex sv kind t (db, fs) = (Inr a, t', db', fs')"
  shows "(\<exists>r. upgraded = Inr r \<and> wr_path r = ''/session'') \<and> \<not> is_revoked (cr_client_id (ah_client a)) db' \<and>
    (\<not> is_loopback peer \<longrightarrow> db' = db \<and> fs' = fs \<and> lookup_by_id (cr_client_id (ah_client a)) db = Some (ah_client a))"
proof -
  from assms(6) obtain r where r: "upgraded = Inr r" "wr_path r = ''/session''" "kind = AcceptedDirect (is_loopback peer)"
    by (auto simp: listener_accept_def split: sum.splits if_splits)
  from assms(7) r(3) obtain p key where au: "authorize tx js env (is_loopback peer) key (db, fs) = (Inr (ah_client a), db', fs')"
    unfolding accept_transport_def by (auto simp: anonymous_responder_handshake_def dest!: run_handshake_ok)
  from authorize_result [OF au] have l: "lookup_by_public key db' = Some (ah_client a)" "\<not> is_revoked (cr_client_id (ah_client a)) db'"
      "\<not> is_loopback peer \<longrightarrow> db' = db \<and> fs' = fs" by blast+
  have "db_wf (db_state db')" using authorize_inv [OF assms(1-5) au] by (simp add: db_inv_def)
  from lookup_consistent [OF this, of key] l(1) have "lookup_by_id (cr_client_id (ah_client a)) db' = Some (ah_client a)" by auto
  with r l show ?thesis by auto
qed

text \<open>
  C10. A pre-shared key with white space around it turns the relay's protection off without a
  word: the pairing offers are made, and hold the key without the white space, but the
  daemon runs every connection from the relay with no pre-shared key at all, in the Noise
  pattern \<open>XK\<close> instead of \<open>XKpsk2\<close>. So a client that uses the offer cannot connect, while
  anybody who knows the server's public key, which the relay is told, completes the
  handshake, and a key that was never seen is paired, not refused.
\<close>

theorem padded_psk_opens_relay:
  assumes "ry_psk_hex (dc_relay (sv_config sv)) = psk" and "unhex psk = Inl bad"
    and "trim psk \<noteq> []" and "unhex (trim psk) = Inr k" and "length k = 32"
  shows "pair_url tx pc unhex sv =
      and_then (relay_client_ws_url_for_server tx (ry_base_url (dc_relay (sv_config sv))) (di_server_id (sv_identity sv)))
        (\<lambda>url. build_pairing_offer_url tx pc (ap_base_url (dc_app (sv_config sv)))
          \<lparr>po_label = si_server_label (dm_server_info (sv_daemon sv)), po_server_id = di_server_id (sv_identity sv),
           po_server_public_hex = public_key_hex tx sv, po_relay_url = url, po_relay_psk_hex = trim psk\<rparr>) \<and>
    accept_transport sw tx js env unhex sv (AcceptedRelay True) t (db, fs) =
      run_handshake sw tx js env True ''XK handshake finished without remote static key''
        (and_then (parse_params sw NOISE_XK_PARAMS)
          (\<lambda>params. party (sw_build_responder sw
             \<lparr>nb_params = params, nb_local_private = kp_secret (di_keypair (sv_identity sv)), nb_remote_public = None,
              nb_psk = None\<rparr>))) t (db, fs) \<and>
    (lookup_by_public key db = None \<longrightarrow> \<not> is_revoked (ClientId (pe_fresh env)) db' \<longrightarrow>
      add_client tx js (pe_write env) \<lparr>cr_client_id = ClientId (pe_fresh env), cr_public_key = key,
        cr_paired_at = pe_now_secs env\<rparr> (db, fs) = (Inr (), db', fs') \<longrightarrow>
      (\<exists>r. authorize tx js env True key (db, fs) = (Inr r, db', fs')))"
proof (intro conjI)
  show "pair_url tx pc unhex sv =
      and_then (relay_client_ws_url_for_server tx (ry_base_url (dc_relay (sv_config sv))) (di_server_id (sv_identity sv)))
        (\<lambda>url. build_pairing_offer_url tx pc (ap_base_url (dc_app (sv_config sv)))
          \<lparr>po_label = si_server_label (dm_server_info (sv_daemon sv)), po_server_id = di_server_id (sv_identity sv),
           po_server_public_hex = public_key_hex tx sv, po_relay_url = url, po_relay_psk_hex = trim psk\<rparr>)"
    using assms by (simp add: pair_url_def)
qed (use assms in \<open>auto simp: accept_transport_def start_relay_psk_def responder_handshake_def responder_new_def
      xk_noise_params_def authorize_def add_or_lookup_by_public_def Let_def\<close>)

definition sample_unhex :: "string \<Rightarrow> (string, bytes) result" where
  "sample_unhex t = (if t = ''00'' then Inr (replicate 32 7) else Inl ''Odd number of digits'')"

definition sample_server :: "string \<Rightarrow> unit server" where
  "sample_server psk = \<lparr>sv_identity = \<lparr>di_server_id = ServerId 1, di_keypair = \<lparr>kp_secret = [1], kp_public = [2]\<rparr>\<rparr>,
     sv_config = with_psk psk toy_config, sv_daemon = toy_daemon\<rparr>"

lemma trim_zeros: "trim ''00 '' = ''00''"
  by (simp add: trim_def trim_end_def trim_start_def strip_leading.simps white_space_def starts_with_def)

theorem padded_psk_opens_relay_witness:
  "\<exists>k. \<forall>t db fs. accept_transport plain_snow \<lparr>tx_uuid = (\<lambda>_. []), tx_postcard = [], tx_hex = (\<lambda>_. [])\<rparr> toy_json
      \<lparr>pe_write = quiet_env, pe_fresh = 1, pe_now_secs = 0\<rparr> sample_unhex
      (sample_server ''00 '') (AcceptedRelay True) t (db, fs) =
    run_handshake plain_snow \<lparr>tx_uuid = (\<lambda>_. []), tx_postcard = [], tx_hex = (\<lambda>_. [])\<rparr> toy_json
      \<lparr>pe_write = quiet_env, pe_fresh = 1, pe_now_secs = 0\<rparr> True
      ''XK handshake finished without remote static key'' (Inr \<lparr>np_state = Some k\<rparr>) t (db, fs)"
proof -
  let ?psk = "''00 ''"
  have a: "ry_psk_hex (dc_relay (sv_config (sample_server ?psk))) = ?psk" by (simp add: sample_server_def with_psk_def)
  have b: "sample_unhex ?psk = Inl ''Odd number of digits''" by (simp add: sample_unhex_def)
  have c: "trim ?psk \<noteq> []" unfolding trim_zeros by simp
  have d: "sample_unhex (trim ?psk) = Inr (replicate 32 7)" unfolding trim_zeros by (simp add: sample_unhex_def)
  have e: "length (replicate 32 (7 :: u8)) = 32" by simp
  note l = padded_psk_opens_relay [OF a b c d e, THEN conjunct2, THEN conjunct1]
  show ?thesis by (rule exI [of _ "[1]"], intro allI) (simp add: l, simp add: parse_params_def party_def plain_snow_def sample_server_def)
qed

section \<open>Settings that are changed over a connection\<close>

definition with_scrollback :: "server_config \<Rightarrow> daemon_config \<Rightarrow> daemon_config" where
  "with_scrollback config c = c\<lparr>dc_limits := (dc_limits c)\<lparr>lc_scrollback_bytes := ucast (sc_scrollback_bytes config)\<rparr>\<rparr>"

text \<open>\<open>apply_server_config_update\<close> with the file that it saves.\<close>

definition update_settings ::
  "config_env \<Rightarrow> toml \<Rightarrow> server_config \<Rightarrow> 'p daemon \<times> config_files \<Rightarrow>
   (daemon_error, server_config) result \<times> 'p daemon \<times> config_files" where
  "update_settings env tm config = (\<lambda>(dm, fs).
     let (saved, fs') = (case dc_config_path (dm_config dm) of
                           None \<Rightarrow> (Inr (), fs)
                         | Some p \<Rightarrow> save_to env tm (with_scrollback config (dm_config dm)) p fs);
         (r, dm') = apply_server_config_update saved config dm
     in (r, dm', fs'))"

text \<open>
  A change of the settings survives a restart exactly when the daemon has read its
  configuration from the file: then, if the change is answered with success, the file holds
  it and the next start reads it. But the daemon that has just created its configuration
  does not know the path of the file: it takes the change over and answers with success, the
  file stays as it was, and the next start comes up with the old settings.
\<close>

lemma first_run_settings_lost:
  fixes dm :: "'p daemon"
  assumes "toml_ok tm" and "fs path = None"
    and "load_or_create_config_with_template tx env tm template path fs = (Inr c, fs1)"
    and "same_place env env'" and "ce_stat_ok env'" and "ce_read env' = Inr ()"
    and "dm_config dm = c"
  shows "update_settings save_env tm config (dm, fs1) = (Inr config, dm\<lparr>dm_config := with_scrollback config c\<rparr>, fs1) \<and>
    load_or_create_config_with_template tx' env' tm template' path fs1 = (Inr (c\<lparr>dc_config_path := Some path\<rparr>), fs1) \<and>
    (\<forall>(dm2 :: 'p daemon) dm3 fs2. dm_config dm2 = c\<lparr>dc_config_path := Some path\<rparr> \<longrightarrow>
       update_settings save_env tm config (dm2, fs1) = (Inr config, dm3, fs2) \<longrightarrow>
       load_or_create_config_with_template tx' env' tm template' path fs2 = (Inr (dm_config dm3), fs2) \<and>
       dm_config dm3 = with_scrollback config (c\<lparr>dc_config_path := Some path\<rparr>))"
proof (intro conjI allI impI)
  have c: "save_to env tm c path fs = (Inr (), fs1)" "dc_security c = for_config_path env path" "dc_config_path c = None"
    using created [OF assms(3,2)] by simp_all
  have s: "dc_security c = for_config_path env' path" using c(2) for_config_path_same [OF assms(4), of path] by simp
  obtain t where t: "fs1 = fs(path := Some t)" using save_to_ok [OF c(1)] by blast
  show "update_settings save_env tm config (dm, fs1) = (Inr config, dm\<lparr>dm_config := with_scrollback config c\<rparr>, fs1)"
    using c(3) assms(7) by (simp add: update_settings_def apply_server_config_update_def with_scrollback_def Let_def)
  have "c\<lparr>dc_security := for_config_path env' path, dc_config_path := Some path\<rparr> = c\<lparr>dc_config_path := Some path\<rparr>"
    using s by simp
  with load_saved [OF assms(1) c(1) assms(6)] t assms(5)
  show "load_or_create_config_with_template tx' env' tm template' path fs1 = (Inr (c\<lparr>dc_config_path := Some path\<rparr>), fs1)"
    by (simp add: load_or_create_config_with_template_def)
  fix dm2 dm3 :: "'p daemon" and fs2
  assume d: "dm_config dm2 = c\<lparr>dc_config_path := Some path\<rparr>"
    "update_settings save_env tm config (dm2, fs1) = (Inr config, dm3, fs2)"
  let ?u = "with_scrollback config (c\<lparr>dc_config_path := Some path\<rparr>)"
  from d have u: "save_to save_env tm ?u path fs1 = (Inr (), fs2)" "dm_config dm3 = ?u"
    by (auto simp: update_settings_def apply_server_config_update_def with_scrollback_def Let_def split: prod.splits sum.splits)
  then show "dm_config dm3 = ?u" by simp
  obtain t' where t': "fs2 = fs1(path := Some t')" using save_to_ok [OF u(1)] by blast
  have "?u\<lparr>dc_security := for_config_path env' path, dc_config_path := Some path\<rparr> = ?u"
    using s by (simp add: with_scrollback_def)
  with load_saved [OF assms(1) u(1) assms(6)] u(2) t' assms(5)
  show "load_or_create_config_with_template tx' env' tm template' path fs2 = (Inr (dm_config dm3), fs2)"
    by (simp add: load_or_create_config_with_template_def)
qed

end
