(* ===== verification/Daemon_Dialer.thy ===== *)
theory Daemon_Dialer
  imports Daemon_Server Client_Reconnect "HOL-Library.Sublist"
begin

text \<open>
  \<open>crates/server/daemon-core/src/relay_dialer.rs\<close>: the daemon's one websocket to the relay.
  A reader task takes apart what arrives and hands every pair's bytes to the connection of
  that pair over a queue of 32 messages (a \<open>bridge\<close>); a writer task per pair wraps what the
  connection sends. The tasks interleave: \<open>dial_exec\<close> is one step of one of them, and a
  theorem holds for every list of steps. \<open>dl_seen\<close>, \<open>br_got\<close> and \<open>br_put\<close> are histories that
  no code reads; an entry of \<open>dl_sink\<close> names the bridge whose writer sent it.
\<close>

section \<open>State\<close>

definition PAIR_QUEUE_CAPACITY :: nat where "PAIR_QUEUE_CAPACITY = 32"

datatype dial_message =
    DmBinary bytes | DmText | DmPing bytes | DmPong bytes | DmClose | DmFrame

record bridge =
  br_pair :: pair_id
  br_queue :: "bytes list"
  br_open :: bool
  br_out :: "bytes list"
  br_sender :: bool
  br_hand :: "bytes option"
  br_writer :: bool
  br_got :: "bytes list"
  br_put :: "bytes list"

datatype dial_reader = Reading | Sending nat bytes | Ended "(daemon_error, unit) result"

record dialer =
  dl_pairs :: "(pair_id, nat) hash_map"
  dl_bridges :: "bridge list"
  dl_accepting :: bool
  dl_accepted :: "(accepted_kind \<times> nat) list"
  dl_sink :: "(nat option \<times> bytes) list"
  dl_beating :: bool
  dl_reader :: dial_reader
  dl_seen :: "relay_wire list"

definition new_bridge :: "pair_id \<Rightarrow> bridge" where
  "new_bridge p = \<lparr>br_pair = p, br_queue = [], br_open = True, br_out = [], br_sender = True, br_hand = None, br_writer = True,
     br_got = [], br_put = []\<rparr>"

definition update_bridge :: "nat \<Rightarrow> (bridge \<Rightarrow> bridge) \<Rightarrow> dialer \<Rightarrow> dialer" where
  "update_bridge k f d = d\<lparr>dl_bridges := (dl_bridges d)[k := f (dl_bridges d ! k)]\<rparr>"

section \<open>The reader\<close>

text \<open>The formatted detail of a codec error is left out of the model.\<close>

definition dial_codec_err :: "codec_error \<Rightarrow> daemon_error" where
  "dial_codec_err e = DaemonInternal ''relay codec error''"

definition dial_ws_err :: "string \<Rightarrow> daemon_error" where
  "dial_ws_err e = DaemonInternal (''relay websocket error: '' @ e)"

text \<open>When the loop ends the map is dropped, and with it the senders to the connections.\<close>

definition end_reader :: "(daemon_error, unit) result \<Rightarrow> dialer \<Rightarrow> dialer" where
  "end_reader r d = d\<lparr>dl_reader := Ended r, dl_pairs := []\<rparr>"

text \<open>\<open>tx.send(bytes).await\<close>: it waits while the queue is full.\<close>

definition send_to_bridge :: "nat \<Rightarrow> bytes \<Rightarrow> dialer \<Rightarrow> dialer" where
  "send_to_bridge k b d =
     (let br = dl_bridges d ! k in
      if \<not> br_open br then d\<lparr>dl_pairs := hm_remove (br_pair br) (dl_pairs d), dl_reader := Reading\<rparr>
      else if length (br_queue br) < PAIR_QUEUE_CAPACITY
      then (update_bridge k (\<lambda>br. br\<lparr>br_queue := br_queue br @ [b]\<rparr>) d)\<lparr>dl_reader := Reading\<rparr>
      else d\<lparr>dl_reader := Sending k b\<rparr>)"

fun on_relay_wire :: "relay_wire \<Rightarrow> dialer \<Rightarrow> dialer" where
  "on_relay_wire (WireCtrl (PairInbound p)) d =
     (let k = length (dl_bridges d);
          d1 = d\<lparr>dl_bridges := dl_bridges d @ [new_bridge p], dl_pairs := hm_insert p k (dl_pairs d)\<rparr>
      in if dl_accepting d then d1\<lparr>dl_accepted := dl_accepted d @ [(AcceptedRelay True, k)]\<rparr>
         else end_reader (Inl (DaemonInternal ''relay inbound consumer dropped'')) d1)"
| "on_relay_wire (WireData (Forward p b)) d =
     (case hm_get (dl_pairs d) p of None \<Rightarrow> d | Some k \<Rightarrow> send_to_bridge k b d)"
| "on_relay_wire (WireCtrl (PairClose p reason)) d = d\<lparr>dl_pairs := hm_remove p (dl_pairs d)\<rparr>"
| "on_relay_wire (WireCtrl _) d = d"

text \<open>One turn of \<open>read_loop\<close>; \<open>None\<close> is the end of the stream.\<close>

definition reader_turn :: "postcard \<Rightarrow> (string, dial_message) result option \<Rightarrow> dialer \<Rightarrow> dialer" where
  "reader_turn pc item d =
     (case item of
        None \<Rightarrow> end_reader (Inr ()) d
      | Some (Inl e) \<Rightarrow> end_reader (Inl (dial_ws_err e)) d
      | Some (Inr (DmBinary b)) \<Rightarrow>
          (case decode_relay pc b of
             Inl e \<Rightarrow> end_reader (Inl (dial_codec_err e)) d
           | Inr w \<Rightarrow> on_relay_wire w (d\<lparr>dl_seen := dl_seen d @ [w]\<rparr>))
      | Some (Inr DmClose) \<Rightarrow> end_reader (Inr ()) d
      | Some (Inr (DmPing _)) \<Rightarrow> d
      | Some (Inr (DmPong _)) \<Rightarrow> d
      | Some (Inr _) \<Rightarrow> end_reader (Inl (DaemonInternal ''unexpected non-binary frame on relay dialer'')) d)"

section \<open>The connections and the writers\<close>

text \<open>\<open>recv\<close>: the next message; \<open>None\<close> when the queue is empty and its sender is gone.\<close>

definition sender_to_bridge_alive :: "nat \<Rightarrow> dialer \<Rightarrow> bool" where
  "sender_to_bridge_alive k d \<longleftrightarrow>
     hm_get (dl_pairs d) (br_pair (dl_bridges d ! k)) = Some k \<or> (\<exists>b. dl_reader d = Sending k b)"

definition pair_recv :: "nat \<Rightarrow> dialer \<Rightarrow> (bytes option \<times> dialer) option" where
  "pair_recv k d =
     (case br_queue (dl_bridges d ! k) of
        x # q \<Rightarrow> Some (Some x, update_bridge k (\<lambda>br. br\<lparr>br_queue := q, br_got := br_got br @ [x]\<rparr>) d)
      | [] \<Rightarrow> if sender_to_bridge_alive k d \<and> br_open (dl_bridges d ! k) then None else Some (None, d))"

text \<open>\<open>send\<close>: it waits while the queue is full and fails when the writer is gone.\<close>

definition pair_send :: "nat \<Rightarrow> bytes \<Rightarrow> dialer \<Rightarrow> ((transport_error, unit) result \<times> dialer) option" where
  "pair_send k b d =
     (if \<not> br_writer (dl_bridges d ! k) then Some (Inl TransportClosed, d)
      else if length (br_out (dl_bridges d ! k)) < PAIR_QUEUE_CAPACITY
      then Some (Inr (), update_bridge k (\<lambda>br. br\<lparr>br_out := br_out br @ [b], br_put := br_put br @ [b]\<rparr>) d)
      else None)"

definition pair_close :: "nat \<Rightarrow> dialer \<Rightarrow> dialer" where
  "pair_close k = update_bridge k (\<lambda>br. br\<lparr>br_open := False\<rparr>)"

text \<open>The end of a connection drops both halves.\<close>

definition pair_drop :: "nat \<Rightarrow> dialer \<Rightarrow> dialer" where
  "pair_drop k = update_bridge k (\<lambda>br. br\<lparr>br_open := False, br_queue := [], br_sender := False\<rparr>)"

text \<open>A writer takes a message off its queue, then wraps and sends it.\<close>

definition writer_take :: "nat \<Rightarrow> dialer \<Rightarrow> dialer option" where
  "writer_take k d =
     (let br = dl_bridges d ! k in
      if \<not> br_writer br \<or> br_hand br \<noteq> None then None
      else (case br_out br of
        [] \<Rightarrow> if br_sender br then None else Some (update_bridge k (\<lambda>br. br\<lparr>br_writer := False\<rparr>) d)
      | b # q \<Rightarrow> Some (update_bridge k (\<lambda>br. br\<lparr>br_out := q, br_hand := Some b\<rparr>) d)))"

definition writer_put :: "postcard \<Rightarrow> bool \<Rightarrow> nat \<Rightarrow> dialer \<Rightarrow> dialer option" where
  "writer_put pc sink_ok k d =
     (let br = dl_bridges d ! k in
      case br_hand br of
        None \<Rightarrow> None
      | Some b \<Rightarrow>
          (case encode_relay_data pc (Forward (br_pair br) b) of
             Inl _ \<Rightarrow> Some (update_bridge k (\<lambda>br. br\<lparr>br_hand := None, br_writer := False\<rparr>) d)
           | Inr frame \<Rightarrow>
               if sink_ok
               then Some ((update_bridge k (\<lambda>br. br\<lparr>br_hand := None\<rparr>) d)\<lparr>dl_sink := dl_sink d @ [(Some k, frame)]\<rparr>)
               else Some (update_bridge k (\<lambda>br. br\<lparr>br_hand := None, br_writer := False\<rparr>) d)))"

definition heartbeat_turn :: "postcard \<Rightarrow> bool \<Rightarrow> dialer \<Rightarrow> dialer option" where
  "heartbeat_turn pc sink_ok d =
     (if \<not> dl_beating d then None
      else (case encode_relay_ctrl pc ServerHeartbeat of
        Inl _ \<Rightarrow> Some (d\<lparr>dl_beating := False\<rparr>)
      | Inr frame \<Rightarrow>
          Some (if sink_ok then d\<lparr>dl_sink := dl_sink d @ [(None, frame)]\<rparr> else d\<lparr>dl_beating := False\<rparr>)))"

section \<open>The tasks together\<close>

datatype dial_label =
    LRead "(string, dial_message) result option" | LRetry | LRecv nat | LClose nat | LDrop nat
  | LSend nat bytes | LTake nat | LWrite nat bool | LHeartbeat bool

text \<open>A connection uses its half of a bridge only while it has it; \<open>None\<close>: the task cannot move.\<close>

definition has_half :: "nat \<Rightarrow> dialer \<Rightarrow> bool" where
  "has_half k d \<longleftrightarrow> k < length (dl_bridges d) \<and> br_sender (dl_bridges d ! k)"

fun dial_exec :: "postcard \<Rightarrow> dial_label \<Rightarrow> dialer \<Rightarrow> dialer option" where
  "dial_exec pc (LRead item) d = (if dl_reader d = Reading then Some (reader_turn pc item d) else None)"
| "dial_exec pc LRetry d = (case dl_reader d of Sending k b \<Rightarrow> Some (send_to_bridge k b d) | _ \<Rightarrow> None)"
| "dial_exec pc (LRecv k) d = (if has_half k d then map_option snd (pair_recv k d) else None)"
| "dial_exec pc (LClose k) d = (if has_half k d then Some (pair_close k d) else None)"
| "dial_exec pc (LDrop k) d = (if has_half k d then Some (pair_drop k d) else None)"
| "dial_exec pc (LSend k b) d = (if has_half k d then map_option snd (pair_send k b d) else None)"
| "dial_exec pc (LTake k) d = (if k < length (dl_bridges d) then writer_take k d else None)"
| "dial_exec pc (LWrite k ok) d = (if k < length (dl_bridges d) then writer_put pc ok k d else None)"
| "dial_exec pc (LHeartbeat ok) d = (case dl_reader d of Ended _ \<Rightarrow> None | _ \<Rightarrow> heartbeat_turn pc ok d)"

fun dial_run :: "postcard \<Rightarrow> dial_label list \<Rightarrow> dialer \<Rightarrow> dialer option" where
  "dial_run pc [] d = Some d"
| "dial_run pc (l # ls) d = (case dial_exec pc l d of None \<Rightarrow> None | Some d' \<Rightarrow> dial_run pc ls d')"

definition dialer_start :: "bool \<Rightarrow> dialer" where
  "dialer_start accepting = \<lparr>dl_pairs = [], dl_bridges = [], dl_accepting = accepting, dl_accepted = [], dl_sink = [],
     dl_beating = True, dl_reader = Reading, dl_seen = []\<rparr>"

section \<open>Registration\<close>

text \<open>What the library and the network answer while the dialer connects.\<close>

datatype connect_answer = ConnectTimedOut | ConnectFailed string | Connected

record dial_env =
  dv_request :: "string \<Rightarrow> (string, unit) result"
  dv_header :: "string \<Rightarrow> (string, unit) result"
  dv_connect :: connect_answer
  dv_send :: "(string, unit) result"
  dv_register_timely :: bool

fun next_binary :: "(string, dial_message) result list \<Rightarrow>
    (daemon_error, bytes) result \<times> (string, dial_message) result list" where
  "next_binary [] = (Inl (DaemonInternal ''relay websocket closed''), [])"
| "next_binary (Inl e # items) = (Inl (dial_ws_err e), items)"
| "next_binary (Inr (DmBinary b) # items) = (Inr b, items)"
| "next_binary (Inr (DmPing _) # items) = next_binary items"
| "next_binary (Inr (DmPong _) # items) = next_binary items"
| "next_binary (Inr DmClose # items) = (Inl (DaemonInternal ''relay websocket closed''), items)"
| "next_binary (Inr _ # items) = (Inl (DaemonInternal ''unexpected non-binary frame on relay dialer''), items)"

text \<open>
  \<open>run_once\<close> up to the read loop: the registration frame that was sent, if any, and either
  an error or what is left to read. \<open>first\<close> are the messages that arrive.
\<close>

definition register_dialer ::
  "postcard \<Rightarrow> texts \<Rightarrow> dial_env \<Rightarrow> daemon_relay_config \<Rightarrow> server_id \<Rightarrow> key_pair \<Rightarrow> (string, dial_message) result list \<Rightarrow>
   (daemon_error, (string, dial_message) result list) result \<times> bytes list" where
  "register_dialer pc tx env config sid identity arriving =
     (case relay_server_ws_url_for_server tx (ry_base_url config) sid of
        Inl e \<Rightarrow> (Inl e, [])
      | Inr url \<Rightarrow>
     (case dv_request env url of
        Inl e \<Rightarrow> (Inl (DaemonInternal (''relay request build failed: '' @ e)), [])
      | Inr _ \<Rightarrow>
     (case (case ry_server_auth_token config of None \<Rightarrow> Inr () | Some token \<Rightarrow> dv_header env (''Bearer '' @ token)) of
        Inl e \<Rightarrow> (Inl (DaemonInternal (''relay server_auth_token header invalid: '' @ e)), [])
      | Inr _ \<Rightarrow>
     (case dv_connect env of
        ConnectTimedOut \<Rightarrow> (Inl (DaemonInternal ''relay connect timed out''), [])
      | ConnectFailed e \<Rightarrow> (Inl (DaemonInternal (''relay connect failed: '' @ e)), [])
      | Connected \<Rightarrow>
     (case encode_relay_ctrl pc (ServerRegister sid (kp_public identity) []) of
        Inl e \<Rightarrow> (Inl (DaemonInternal (''encode register failed: '' @ codec_error_text tx e)), [])
      | Inr frame \<Rightarrow>
     (case dv_send env of
        Inl e \<Rightarrow> (Inl (DaemonInternal (''send register failed: '' @ e)), [])
      | Inr _ \<Rightarrow>
     (if \<not> dv_register_timely env then (Inl (DaemonInternal ''relay register timed out''), [frame])
      else (case next_binary arriving of
        (Inl e, rest) \<Rightarrow> (Inl e, [frame])
      | (Inr first, rest) \<Rightarrow>
          (case decode_relay pc first of
             Inl e \<Rightarrow> (Inl (dial_codec_err e), [frame])
           | Inr (WireCtrl ServerRegisterOk) \<Rightarrow> (Inr rest, [frame])
           | Inr (WireCtrl (ServerRegisterErr reason)) \<Rightarrow>
               (Inl (DaemonInternal (''relay rejected server registration: '' @ reason)), [frame])
           | Inr _ \<Rightarrow> (Inl (DaemonInternal ''unexpected relay registration response''), [frame]))))))))))"

section \<open>Connecting again\<close>

text \<open>The dialer has its own copies of the client's delay functions.\<close>

definition dial_next_delay :: "u64 \<Rightarrow> u64 \<Rightarrow> u32 \<Rightarrow> u64" where
  "dial_next_delay cur_ms max_ms mul_x10 =
     (let scaled = unat cur_ms * unat mul_x10 div 10
      in max (min (sat_of_nat scaled) max_ms) 50)"

definition dial_jitter :: "u64 \<Rightarrow> u8 \<Rightarrow> u64" where
  "dial_jitter base_ms rng_byte =
     (let offset = int (unat rng_byte) - 128;
          delta = (int (unat base_ms) * offset) sdiv 512;
          jittered = int (unat base_ms) + delta
      in if jittered \<le> 0 then 1 else sat_of_nat (nat jittered))"

record dial_backoff =
  db_delay_ms :: u64
  db_attempts :: u64

definition backoff_start :: "relay_retry_config \<Rightarrow> dial_backoff" where
  "backoff_start retry = \<lparr>db_delay_ms = max (rr_initial_ms retry) 50, db_attempts = 0\<rparr>"

text \<open>One round of \<open>run_forever\<close>, given how \<open>run_once\<close> ended: how long it sleeps, if it does.\<close>

definition after_attempt ::
  "relay_retry_config \<Rightarrow> u8 \<Rightarrow> (daemon_error, unit) result \<Rightarrow> dial_backoff \<Rightarrow> u64 option \<times> dial_backoff" where
  "after_attempt retry seed ended b =
     (let attempts = sat_add (db_attempts b) 1 in
      case ended of
        Inr _ \<Rightarrow> (None, \<lparr>db_delay_ms = max (rr_initial_ms retry) 50, db_attempts = attempts\<rparr>)
      | Inl _ \<Rightarrow>
          (Some (dial_jitter (db_delay_ms b) seed),
           \<lparr>db_delay_ms = dial_next_delay (db_delay_ms b) (rr_max_ms retry) (rr_mul_x10 retry), db_attempts = attempts\<rparr>))"

fun run_forever :: "relay_retry_config \<Rightarrow> (u8 \<times> (daemon_error, unit) result) list \<Rightarrow> dial_backoff \<Rightarrow>
    u64 option list \<times> dial_backoff" where
  "run_forever retry [] b = ([], b)"
| "run_forever retry ((seed, ended) # rest) b =
     (case after_attempt retry seed ended b of
        (wait, b1) \<Rightarrow> (case run_forever retry rest b1 of (waits, b2) \<Rightarrow> (wait # waits, b2)))"

section \<open>What a connection must receive\<close>

text \<open>
  The specification, on the messages of the relay alone: a connection opened by an inbound
  message gets the payloads forwarded for its pair until the pair is closed or opened anew.
\<close>

fun ends_pair :: "pair_id \<Rightarrow> relay_wire \<Rightarrow> bool" where
  "ends_pair p (WireCtrl (PairInbound q)) = (q = p)"
| "ends_pair p (WireCtrl (PairClose q reason)) = (q = p)"
| "ends_pair p _ = False"

fun payload_of :: "pair_id \<Rightarrow> relay_wire \<Rightarrow> bytes list" where
  "payload_of p (WireData (Forward q b)) = (if q = p then [b] else [])"
| "payload_of p _ = []"

fun payloads :: "pair_id \<Rightarrow> relay_wire list \<Rightarrow> bytes list" where
  "payloads p [] = []"
| "payloads p (w # ws) = (if ends_pair p w then [] else payload_of p w @ payloads p ws)"

fun inbounds :: "relay_wire list \<Rightarrow> (pair_id \<times> relay_wire list) list" where
  "inbounds [] = []"
| "inbounds (w # ws) = (case w of WireCtrl (PairInbound p) \<Rightarrow> (p, ws) # inbounds ws | _ \<Rightarrow> inbounds ws)"

definition live :: "pair_id \<Rightarrow> relay_wire list \<Rightarrow> bool" where
  "live p ws \<longleftrightarrow> list_all (\<lambda>w. \<not> ends_pair p w) ws"

lemma live_snoc: "live p (ws @ [w]) \<longleftrightarrow> live p ws \<and> \<not> ends_pair p w"
  by (auto simp: live_def)

lemma payloads_snoc: "payloads p (ws @ [w]) = payloads p ws @ (if live p ws \<and> \<not> ends_pair p w then payload_of p w else [])"
  by (induction ws) (auto simp: live_def)

definition new_inbound :: "relay_wire \<Rightarrow> (pair_id \<times> relay_wire list) list" where
  "new_inbound w = (case w of WireCtrl (PairInbound p) \<Rightarrow> [(p, [])] | _ \<Rightarrow> [])"

lemma inbounds_snoc: "inbounds (ws @ [w]) = map (\<lambda>(p, r). (p, r @ [w])) (inbounds ws) @ new_inbound w"
  by (induction ws) (auto simp: new_inbound_def split: relay_wire.splits relay_ctrl.splits)

section \<open>The bridges implement it\<close>

definition in_flight :: "dialer \<Rightarrow> nat \<Rightarrow> bytes list" where
  "in_flight d k = (case dl_reader d of Sending j b \<Rightarrow> if j = k then [b] else [] | _ \<Rightarrow> [])"

definition bridge_ok :: "pair_id \<times> relay_wire list \<Rightarrow> bytes list \<Rightarrow> bridge \<Rightarrow> bool" where
  "bridge_ok pr flight br \<longleftrightarrow>
     br_pair br = fst pr \<and> length (br_queue br) \<le> PAIR_QUEUE_CAPACITY \<and>
     prefix (br_got br @ br_queue br) (payloads (fst pr) (snd pr)) \<and>
     (br_open br \<longrightarrow> br_got br @ br_queue br @ flight = payloads (fst pr) (snd pr))"

definition ended :: "dialer \<Rightarrow> bool" where
  "ended d \<longleftrightarrow> (\<exists>r. dl_reader d = Ended r)"

definition dial_inv :: "dialer \<Rightarrow> bool" where
  "dial_inv d \<longleftrightarrow>
     length (inbounds (dl_seen d)) = length (dl_bridges d) \<and>
     (\<forall>k < length (dl_bridges d). bridge_ok (inbounds (dl_seen d) ! k) (in_flight d k) (dl_bridges d ! k)) \<and>
     (\<forall>p k. hm_get (dl_pairs d) p = Some k \<longrightarrow>
        k < length (dl_bridges d) \<and> br_pair (dl_bridges d ! k) = p \<and> live p (snd (inbounds (dl_seen d) ! k))) \<and>
     (\<forall>k < length (dl_bridges d). live (br_pair (dl_bridges d ! k)) (snd (inbounds (dl_seen d) ! k)) \<longrightarrow>
        br_open (dl_bridges d ! k) \<longrightarrow> \<not> ended d \<longrightarrow> hm_get (dl_pairs d) (br_pair (dl_bridges d ! k)) = Some k) \<and>
     (\<forall>k b. dl_reader d = Sending k b \<longrightarrow>
        k < length (dl_bridges d) \<and> hm_get (dl_pairs d) (br_pair (dl_bridges d ! k)) = Some k)"

lemma dial_invI:
  assumes "length (inbounds (dl_seen d)) = length (dl_bridges d)"
    and "\<And>k. k < length (dl_bridges d) \<Longrightarrow> bridge_ok (inbounds (dl_seen d) ! k) (in_flight d k) (dl_bridges d ! k)"
    and "\<And>p k. hm_get (dl_pairs d) p = Some k \<Longrightarrow>
        k < length (dl_bridges d) \<and> br_pair (dl_bridges d ! k) = p \<and> live p (snd (inbounds (dl_seen d) ! k))"
    and "\<And>k. k < length (dl_bridges d) \<Longrightarrow> live (br_pair (dl_bridges d ! k)) (snd (inbounds (dl_seen d) ! k)) \<Longrightarrow>
        br_open (dl_bridges d ! k) \<Longrightarrow> \<not> ended d \<Longrightarrow> hm_get (dl_pairs d) (br_pair (dl_bridges d ! k)) = Some k"
    and "\<And>k b. dl_reader d = Sending k b \<Longrightarrow>
        k < length (dl_bridges d) \<and> hm_get (dl_pairs d) (br_pair (dl_bridges d ! k)) = Some k"
  shows "dial_inv d"
  using assms unfolding dial_inv_def by blast

lemma dial_invD:
  assumes "dial_inv d"
  shows "length (inbounds (dl_seen d)) = length (dl_bridges d)"
    and "k < length (dl_bridges d) \<Longrightarrow> bridge_ok (inbounds (dl_seen d) ! k) (in_flight d k) (dl_bridges d ! k)"
    and "hm_get (dl_pairs d) p = Some k \<Longrightarrow>
        k < length (dl_bridges d) \<and> br_pair (dl_bridges d ! k) = p \<and> live p (snd (inbounds (dl_seen d) ! k))"
    and "k < length (dl_bridges d) \<Longrightarrow> live (br_pair (dl_bridges d ! k)) (snd (inbounds (dl_seen d) ! k)) \<Longrightarrow>
        br_open (dl_bridges d ! k) \<Longrightarrow> \<not> ended d \<Longrightarrow> hm_get (dl_pairs d) (br_pair (dl_bridges d ! k)) = Some k"
    and "dl_reader d = Sending k b \<Longrightarrow>
        k < length (dl_bridges d) \<and> hm_get (dl_pairs d) (br_pair (dl_bridges d ! k)) = Some k"
  using assms unfolding dial_inv_def by blast+

lemma dial_inv_start: "dial_inv (dialer_start accepting)"
  by (simp add: dial_inv_def dialer_start_def)

lemma update_bridge_simps [simp]:
  "dl_pairs (update_bridge k f d) = dl_pairs d" "dl_seen (update_bridge k f d) = dl_seen d"
  "dl_reader (update_bridge k f d) = dl_reader d" "dl_sink (update_bridge k f d) = dl_sink d"
  "dl_accepting (update_bridge k f d) = dl_accepting d"
  "length (dl_bridges (update_bridge k f d)) = length (dl_bridges d)"
  "in_flight (update_bridge k f d) = in_flight d" "ended (update_bridge k f d) = ended d"
  by (simp_all add: update_bridge_def in_flight_def ended_def fun_eq_iff)

lemma update_bridge_nth:
  "j < length (dl_bridges d) \<Longrightarrow> dl_bridges (update_bridge k f d) ! j = (if j = k then f (dl_bridges d ! k) else dl_bridges d ! j)"
  by (simp add: update_bridge_def nth_list_update)

text \<open>A change of one bridge that keeps its part of the invariant and does not open it.\<close>

lemma inv_update_bridge:
  assumes "dial_inv d" and "k < length (dl_bridges d)"
    and "\<And>pr. bridge_ok pr (in_flight d k) (dl_bridges d ! k) \<Longrightarrow> bridge_ok pr (in_flight d k) (f (dl_bridges d ! k))"
    and "br_open (f (dl_bridges d ! k)) \<Longrightarrow> br_open (dl_bridges d ! k)"
  shows "dial_inv (update_bridge k f d)"
proof -
  note ok = dial_invD(2) [OF assms(1,2)]
  have p: "br_pair (f (dl_bridges d ! k)) = br_pair (dl_bridges d ! k)"
    using ok assms(3) [OF ok] by (simp add: bridge_ok_def)
  show ?thesis
  proof (rule dial_invI)
    fix j
    assume j: "j < length (dl_bridges (update_bridge k f d))"
    then show "bridge_ok (inbounds (dl_seen (update_bridge k f d)) ! j) (in_flight (update_bridge k f d) j)
        (dl_bridges (update_bridge k f d) ! j)"
      using dial_invD(2) [OF assms(1), of j] assms(3) [OF ok] by (cases "j = k") (simp_all add: update_bridge_nth)
  next
    fix j
    assume j: "j < length (dl_bridges (update_bridge k f d))"
      "live (br_pair (dl_bridges (update_bridge k f d) ! j)) (snd (inbounds (dl_seen (update_bridge k f d)) ! j))"
      "br_open (dl_bridges (update_bridge k f d) ! j)" "\<not> ended (update_bridge k f d)"
    then show "hm_get (dl_pairs (update_bridge k f d)) (br_pair (dl_bridges (update_bridge k f d) ! j)) = Some j"
      using dial_invD(4) [OF assms(1), of j] assms(4) p by (simp add: update_bridge_nth split: if_splits)
  next
    fix q j
    assume "hm_get (dl_pairs (update_bridge k f d)) q = Some j"
    then show "j < length (dl_bridges (update_bridge k f d)) \<and> br_pair (dl_bridges (update_bridge k f d) ! j) = q \<and>
        live q (snd (inbounds (dl_seen (update_bridge k f d)) ! j))"
      using dial_invD(3) [OF assms(1), of q j] p by (cases "j = k") (simp_all add: update_bridge_nth)
  next
    fix j b
    assume "dl_reader (update_bridge k f d) = Sending j b"
    then show "j < length (dl_bridges (update_bridge k f d)) \<and>
        hm_get (dl_pairs (update_bridge k f d)) (br_pair (dl_bridges (update_bridge k f d) ! j)) = Some j"
      using dial_invD(5) [OF assms(1), of j b] p by (cases "j = k") (simp_all add: update_bridge_nth)
  qed (simp add: dial_invD(1) [OF assms(1)])
qed

lemma dial_inv_sink [simp]: "dial_inv (d\<lparr>dl_sink := s\<rparr>) = dial_inv d" "dial_inv (d\<lparr>dl_beating := b\<rparr>) = dial_inv d"
  by (simp_all add: dial_inv_def in_flight_def ended_def)

text \<open>The connections and the writers keep the invariant.\<close>

lemma pair_recv_inv:
  assumes "dial_inv d" and "k < length (dl_bridges d)" and "pair_recv k d = Some (r, d')"
  shows "dial_inv d'"
proof (cases "br_queue (dl_bridges d ! k)")
  case Nil
  with assms show ?thesis by (auto simp: pair_recv_def split: if_splits)
next
  case (Cons x q)
  with assms(3) have d': "d' = update_bridge k (\<lambda>br. br\<lparr>br_queue := q, br_got := br_got br @ [x]\<rparr>) d"
    by (simp add: pair_recv_def)
  show ?thesis unfolding d' by (rule inv_update_bridge [OF assms(1,2)]) (use Cons in \<open>auto simp: bridge_ok_def\<close>)
qed

lemma other_bridge_inv:
  assumes "dial_inv d" and "k < length (dl_bridges d)"
  shows "pair_send k b d = Some (r, d') \<Longrightarrow> dial_inv d'"
    and "dial_inv (pair_close k d)" and "dial_inv (pair_drop k d)"
    and "writer_take k d = Some d' \<Longrightarrow> dial_inv d'" and "writer_put pc ok k d = Some d' \<Longrightarrow> dial_inv d'"
  using assms
  by (auto simp: pair_send_def pair_close_def pair_drop_def writer_take_def writer_put_def Let_def bridge_ok_def
      prefix_def intro!: inv_update_bridge split: if_splits list.splits option.splits sum.splits)

text \<open>The reader hands over a message of a live pair.\<close>

definition owes :: "dialer \<Rightarrow> nat \<Rightarrow> bytes \<Rightarrow> bool" where
  "owes d k b \<longleftrightarrow> dial_inv (d\<lparr>dl_reader := Sending k b\<rparr>)"

lemma owesD:
  assumes "owes d k b"
  shows "k < length (dl_bridges d)" and "hm_get (dl_pairs d) (br_pair (dl_bridges d ! k)) = Some k"
    and "length (inbounds (dl_seen d)) = length (dl_bridges d)"
    and "j < length (dl_bridges d) \<Longrightarrow> bridge_ok (inbounds (dl_seen d) ! j) (if j = k then [b] else []) (dl_bridges d ! j)"
    and "hm_get (dl_pairs d) p = Some j \<Longrightarrow>
        j < length (dl_bridges d) \<and> br_pair (dl_bridges d ! j) = p \<and> live p (snd (inbounds (dl_seen d) ! j))"
    and "j < length (dl_bridges d) \<Longrightarrow> live (br_pair (dl_bridges d ! j)) (snd (inbounds (dl_seen d) ! j)) \<Longrightarrow>
        br_open (dl_bridges d ! j) \<Longrightarrow> hm_get (dl_pairs d) (br_pair (dl_bridges d ! j)) = Some j"
proof -
  note i = assms [unfolded owes_def]
  show "k < length (dl_bridges d)" "hm_get (dl_pairs d) (br_pair (dl_bridges d ! k)) = Some k"
    using dial_invD(5) [OF i, of k b] by simp_all
  show "length (inbounds (dl_seen d)) = length (dl_bridges d)" using dial_invD(1) [OF i] by simp
  show "bridge_ok (inbounds (dl_seen d) ! j) (if j = k then [b] else []) (dl_bridges d ! j)"
    if "j < length (dl_bridges d)"
    using dial_invD(2) [OF i, of j] that by (cases "j = k") (simp_all add: in_flight_def)
  show "j < length (dl_bridges d) \<and> br_pair (dl_bridges d ! j) = p \<and> live p (snd (inbounds (dl_seen d) ! j))"
    if "hm_get (dl_pairs d) p = Some j"
    using dial_invD(3) [OF i, of p j] that by simp
  show "hm_get (dl_pairs d) (br_pair (dl_bridges d ! j)) = Some j"
    if "j < length (dl_bridges d)" "live (br_pair (dl_bridges d ! j)) (snd (inbounds (dl_seen d) ! j))"
      "br_open (dl_bridges d ! j)"
    using dial_invD(4) [OF i, of j] that by (simp add: ended_def)
qed

lemma send_to_bridge_inv:
  assumes "owes d k b"
  shows "dial_inv (send_to_bridge k b d)"
proof -
  let ?br = "dl_bridges d ! k"
  note o = owesD [OF assms]
  consider (gone) "\<not> br_open ?br" | (room) "br_open ?br" "length (br_queue ?br) < PAIR_QUEUE_CAPACITY"
    | (full) "br_open ?br" "\<not> length (br_queue ?br) < PAIR_QUEUE_CAPACITY" by blast
  then show ?thesis
  proof cases
    case gone
    let ?d = "d\<lparr>dl_pairs := hm_remove (br_pair ?br) (dl_pairs d), dl_reader := Reading\<rparr>"
    have "dial_inv ?d"
    proof (rule dial_invI)
      fix j
      assume j: "j < length (dl_bridges ?d)"
      with o(4) [of j] gone show "bridge_ok (inbounds (dl_seen ?d) ! j) (in_flight ?d j) (dl_bridges ?d ! j)"
        by (auto simp: in_flight_def bridge_ok_def split: if_splits)
    next
      fix j
      assume j: "j < length (dl_bridges ?d)" "live (br_pair (dl_bridges ?d ! j)) (snd (inbounds (dl_seen ?d) ! j))"
        "br_open (dl_bridges ?d ! j)"
      with o(6) [of j] have h: "hm_get (dl_pairs d) (br_pair (dl_bridges d ! j)) = Some j" by simp
      with o(2) gone j(3) have "br_pair (dl_bridges d ! j) \<noteq> br_pair ?br" by auto
      with h show "hm_get (dl_pairs ?d) (br_pair (dl_bridges ?d ! j)) = Some j" by (simp add: hm_simps)
    qed (use o(3,5) in \<open>auto simp: hm_simps split: if_splits\<close>)
    with gone show ?thesis by (simp add: send_to_bridge_def)
  next
    case room
    let ?d = "(update_bridge k (\<lambda>br. br\<lparr>br_queue := br_queue br @ [b]\<rparr>) d)\<lparr>dl_reader := Reading\<rparr>"
    have "dial_inv ?d"
    proof (rule dial_invI)
      fix j
      assume j: "j < length (dl_bridges ?d)"
      with o(4) [of j] room show "bridge_ok (inbounds (dl_seen ?d) ! j) (in_flight ?d j) (dl_bridges ?d ! j)"
        by (auto simp: in_flight_def bridge_ok_def update_bridge_nth split: if_splits)
    next
      fix j
      assume j: "j < length (dl_bridges ?d)" "live (br_pair (dl_bridges ?d ! j)) (snd (inbounds (dl_seen ?d) ! j))"
        "br_open (dl_bridges ?d ! j)"
      with o(6) [of j] show "hm_get (dl_pairs ?d) (br_pair (dl_bridges ?d ! j)) = Some j"
        by (simp add: update_bridge_nth split: if_splits)
    next
      fix q j
      assume "hm_get (dl_pairs ?d) q = Some j"
      with o(5) [of q j] show "j < length (dl_bridges ?d) \<and> br_pair (dl_bridges ?d ! j) = q \<and>
          live q (snd (inbounds (dl_seen ?d) ! j))"
        by (auto simp: update_bridge_nth)
    qed (use o(3) in auto)
    with room show ?thesis by (simp add: send_to_bridge_def Let_def)
  next
    case full
    with assms show ?thesis by (simp add: send_to_bridge_def owes_def)
  qed
qed

text \<open>A message that was read is accounted for, and the bridge it belongs to is owed its payload.\<close>

lemma see_keeps:
  assumes "dial_inv d" and "dl_reader d = Reading" and "k < length (dl_bridges d)"
  defines "p \<equiv> br_pair (dl_bridges d ! k)"
  shows "inbounds (dl_seen d @ [w]) ! k = (fst (inbounds (dl_seen d) ! k), snd (inbounds (dl_seen d) ! k) @ [w])"
    and "payload_of p w = [] \<or> ends_pair p w \<or> \<not> live p (snd (inbounds (dl_seen d) ! k)) \<Longrightarrow>
      bridge_ok (inbounds (dl_seen d @ [w]) ! k) [] (dl_bridges d ! k)"
    and "payload_of p w = [b] \<Longrightarrow> \<not> ends_pair p w \<Longrightarrow> live p (snd (inbounds (dl_seen d) ! k)) \<Longrightarrow>
      bridge_ok (inbounds (dl_seen d @ [w]) ! k) [b] (dl_bridges d ! k)"
proof -
  note l = dial_invD(1) [OF assms(1)] and ok = dial_invD(2) [OF assms(1,3)]
  have f: "in_flight d k = []" using assms(2) by (simp add: in_flight_def)
  have k: "k < length (inbounds (dl_seen d))" using l assms(3) by simp
  show n: "inbounds (dl_seen d @ [w]) ! k = (fst (inbounds (dl_seen d) ! k), snd (inbounds (dl_seen d) ! k) @ [w])"
    using k by (cases "inbounds (dl_seen d) ! k") (simp add: inbounds_snoc nth_append)
  have p: "fst (inbounds (dl_seen d) ! k) = p" using ok by (simp add: bridge_ok_def p_def)
  show "payload_of p w = [] \<or> ends_pair p w \<or> \<not> live p (snd (inbounds (dl_seen d) ! k)) \<Longrightarrow>
      bridge_ok (inbounds (dl_seen d @ [w]) ! k) [] (dl_bridges d ! k)"
    using ok f p unfolding n by (auto simp: bridge_ok_def payloads_snoc)
  show "payload_of p w = [b] \<Longrightarrow> \<not> ends_pair p w \<Longrightarrow> live p (snd (inbounds (dl_seen d) ! k)) \<Longrightarrow>
      bridge_ok (inbounds (dl_seen d @ [w]) ! k) [b] (dl_bridges d ! k)"
    using ok f p unfolding n by (auto simp: bridge_ok_def payloads_snoc)
qed

lemma reading_not_ended [simp]: "dl_reader d = Reading \<Longrightarrow> \<not> ended d"
  by (simp add: ended_def)

lemma see_forward_inv:
  assumes "dial_inv d" and "dl_reader d = Reading"
  shows "dial_inv (on_relay_wire (WireData (Forward p b)) (d\<lparr>dl_seen := dl_seen d @ [WireData (Forward p b)]\<rparr>))"
proof -
  let ?w = "WireData (Forward p b)" and ?d = "d\<lparr>dl_seen := dl_seen d @ [WireData (Forward p b)]\<rparr>"
  have live: "live (br_pair (dl_bridges d ! j)) (snd (inbounds (dl_seen d @ [?w]) ! j)) \<longleftrightarrow>
      live (br_pair (dl_bridges d ! j)) (snd (inbounds (dl_seen d) ! j))" if "j < length (dl_bridges d)" for j
    using see_keeps(1) [OF assms that, of ?w] by (simp add: live_snoc)
  have len: "length (inbounds (dl_seen d @ [?w])) = length (dl_bridges d)"
    using dial_invD(1) [OF assms(1)] by (simp add: inbounds_snoc new_inbound_def)
  have other: "hm_get (dl_pairs d) (br_pair (dl_bridges d ! j)) = Some j"
    if "j < length (dl_bridges d)" "live (br_pair (dl_bridges d ! j)) (snd (inbounds (dl_seen d @ [?w]) ! j))"
      "br_open (dl_bridges d ! j)" for j
    using dial_invD(4) [OF assms(1), of j] that live assms(2) by simp
  have pairs: "j < length (dl_bridges d) \<and> br_pair (dl_bridges d ! j) = q \<and> live q (snd (inbounds (dl_seen d @ [?w]) ! j))"
    if "hm_get (dl_pairs d) q = Some j" for q j
    using dial_invD(3) [OF assms(1) that] live [of j] by auto
  have rest: "bridge_ok (inbounds (dl_seen d @ [?w]) ! j) [] (dl_bridges d ! j)"
    if j: "j < length (dl_bridges d)" and n: "hm_get (dl_pairs d) p \<noteq> Some j" for j
  proof (cases "br_pair (dl_bridges d ! j) = p \<and> live p (snd (inbounds (dl_seen d) ! j))")
    case True
    with dial_invD(4) [OF assms(1) j] n assms(2) have closed: "\<not> br_open (dl_bridges d ! j)" by auto
    show ?thesis
      using dial_invD(2) [OF assms(1) j] see_keeps(1) [OF assms j, of ?w] closed True
      by (auto simp: bridge_ok_def payloads_snoc live_snoc)
  next
    case False
    with see_keeps(2) [OF assms j, of ?w] show ?thesis by (cases "br_pair (dl_bridges d ! j) = p") auto
  qed
  show ?thesis
  proof (cases "hm_get (dl_pairs d) p")
    case None
    have "dial_inv ?d"
    proof (rule dial_invI)
      show "bridge_ok (inbounds (dl_seen ?d) ! j) (in_flight ?d j) (dl_bridges ?d ! j)" if "j < length (dl_bridges ?d)" for j
        using rest [of j] that None assms(2) by (simp add: in_flight_def)
      show "j < length (dl_bridges ?d) \<and> br_pair (dl_bridges ?d ! j) = q \<and> live q (snd (inbounds (dl_seen ?d) ! j))"
        if "hm_get (dl_pairs ?d) q = Some j" for q j
        using pairs [of q j] that by simp
      show "hm_get (dl_pairs ?d) (br_pair (dl_bridges ?d ! j)) = Some j"
        if "j < length (dl_bridges ?d)" "live (br_pair (dl_bridges ?d ! j)) (snd (inbounds (dl_seen ?d) ! j))"
          "br_open (dl_bridges ?d ! j)" for j
        using other [of j] that by simp
    qed (use len assms(2) in simp_all)
    with None show ?thesis by simp
  next
    case (Some k)
    have k: "k < length (dl_bridges d)" "br_pair (dl_bridges d ! k) = p" "live p (snd (inbounds (dl_seen d) ! k))"
      using dial_invD(3) [OF assms(1) Some] by simp_all
    have "dial_inv (?d\<lparr>dl_reader := Sending k b\<rparr>)"
    proof (rule dial_invI)
      fix j
      assume j: "j < length (dl_bridges (?d\<lparr>dl_reader := Sending k b\<rparr>))"
      have "bridge_ok (inbounds (dl_seen d @ [?w]) ! j) (if j = k then [b] else []) (dl_bridges d ! j)"
        using see_keeps(3) [OF assms, of k ?w b] k rest [of j] j Some by (cases "j = k") auto
      then show "bridge_ok (inbounds (dl_seen (?d\<lparr>dl_reader := Sending k b\<rparr>)) ! j)
          (in_flight (?d\<lparr>dl_reader := Sending k b\<rparr>) j) (dl_bridges (?d\<lparr>dl_reader := Sending k b\<rparr>) ! j)"
        by (cases "j = k") (simp_all add: in_flight_def)
    next
      fix q j
      assume "hm_get (dl_pairs (?d\<lparr>dl_reader := Sending k b\<rparr>)) q = Some j"
      with pairs [of q j] show "j < length (dl_bridges (?d\<lparr>dl_reader := Sending k b\<rparr>)) \<and>
          br_pair (dl_bridges (?d\<lparr>dl_reader := Sending k b\<rparr>) ! j) = q \<and>
          live q (snd (inbounds (dl_seen (?d\<lparr>dl_reader := Sending k b\<rparr>)) ! j))" by simp
    next
      fix j
      assume "j < length (dl_bridges (?d\<lparr>dl_reader := Sending k b\<rparr>))"
        "live (br_pair (dl_bridges (?d\<lparr>dl_reader := Sending k b\<rparr>) ! j)) (snd (inbounds (dl_seen (?d\<lparr>dl_reader := Sending k b\<rparr>)) ! j))"
        "br_open (dl_bridges (?d\<lparr>dl_reader := Sending k b\<rparr>) ! j)"
      with other [of j] show "hm_get (dl_pairs (?d\<lparr>dl_reader := Sending k b\<rparr>))
          (br_pair (dl_bridges (?d\<lparr>dl_reader := Sending k b\<rparr>) ! j)) = Some j" by simp
    qed (use len k(1,2) Some in simp_all)
    then have "owes ?d k b" by (simp add: owes_def)
    from send_to_bridge_inv [OF this] Some show ?thesis by simp
  qed
qed

lemma see_close_inv:
  assumes "dial_inv d" and "dl_reader d = Reading"
  shows "dial_inv (on_relay_wire (WireCtrl (PairClose p r)) (d\<lparr>dl_seen := dl_seen d @ [WireCtrl (PairClose p r)]\<rparr>))"
proof -
  let ?w = "WireCtrl (PairClose p r)"
  let ?d = "d\<lparr>dl_seen := dl_seen d @ [?w], dl_pairs := hm_remove p (dl_pairs d)\<rparr>"
  have n: "snd (inbounds (dl_seen d @ [?w]) ! j) = snd (inbounds (dl_seen d) ! j) @ [?w]" if "j < length (dl_bridges d)" for j
    using see_keeps(1) [OF assms that, of ?w] by simp
  have "dial_inv ?d"
  proof (rule dial_invI)
    show "length (inbounds (dl_seen ?d)) = length (dl_bridges ?d)"
      using dial_invD(1) [OF assms(1)] by (simp add: inbounds_snoc new_inbound_def)
    show "bridge_ok (inbounds (dl_seen ?d) ! j) (in_flight ?d j) (dl_bridges ?d ! j)" if "j < length (dl_bridges ?d)" for j
      using see_keeps(2) [OF assms, of j ?w] that assms(2) by (simp add: in_flight_def)
    show "j < length (dl_bridges ?d) \<and> br_pair (dl_bridges ?d ! j) = q \<and> live q (snd (inbounds (dl_seen ?d) ! j))"
      if "hm_get (dl_pairs ?d) q = Some j" for q j
      using that dial_invD(3) [OF assms(1), of q j] n [of j] by (auto simp: hm_simps live_snoc split: if_splits)
    show "hm_get (dl_pairs ?d) (br_pair (dl_bridges ?d ! j)) = Some j"
      if "j < length (dl_bridges ?d)" "live (br_pair (dl_bridges ?d ! j)) (snd (inbounds (dl_seen ?d) ! j))"
        "br_open (dl_bridges ?d ! j)" for j
      using that dial_invD(4) [OF assms(1), of j] n [of j] assms(2) by (auto simp: hm_simps live_snoc)
  qed (use assms(2) in simp)
  then show ?thesis by simp
qed

lemma see_other_inv:
  assumes "dial_inv d" and "dl_reader d = Reading"
    and w: "\<And>p. \<not> ends_pair p w" "\<And>p. payload_of p w = []" "new_inbound w = []"
  shows "dial_inv (d\<lparr>dl_seen := dl_seen d @ [w]\<rparr>)"
proof -
  let ?d = "d\<lparr>dl_seen := dl_seen d @ [w]\<rparr>"
  have n: "live q (snd (inbounds (dl_seen d @ [w]) ! j)) \<longleftrightarrow> live q (snd (inbounds (dl_seen d) ! j))"
    if "j < length (dl_bridges d)" for j q
    using see_keeps(1) [OF assms(1,2) that, of w] w(1) by (simp add: live_snoc)
  show ?thesis
  proof (rule dial_invI)
    show "length (inbounds (dl_seen ?d)) = length (dl_bridges ?d)"
      using dial_invD(1) [OF assms(1)] w(3) by (simp add: inbounds_snoc)
    show "bridge_ok (inbounds (dl_seen ?d) ! j) (in_flight ?d j) (dl_bridges ?d ! j)" if "j < length (dl_bridges ?d)" for j
      using see_keeps(2) [OF assms(1,2), of j w] that assms(2) w(2) by (simp add: in_flight_def)
    show "j < length (dl_bridges ?d) \<and> br_pair (dl_bridges ?d ! j) = q \<and> live q (snd (inbounds (dl_seen ?d) ! j))"
      if "hm_get (dl_pairs ?d) q = Some j" for q j
      using that dial_invD(3) [OF assms(1), of q j] n [of j] by auto
    show "hm_get (dl_pairs ?d) (br_pair (dl_bridges ?d ! j)) = Some j"
      if "j < length (dl_bridges ?d)" "live (br_pair (dl_bridges ?d ! j)) (snd (inbounds (dl_seen ?d) ! j))"
        "br_open (dl_bridges ?d ! j)" for j
      using that dial_invD(4) [OF assms(1), of j] n [of j] assms(2) by auto
  qed (use assms(2) in simp)
qed

lemma end_reader_inv: "dial_inv d \<Longrightarrow> dl_reader d = Reading \<Longrightarrow> dial_inv (end_reader r d)"
  by (rule dial_invI) (auto simp: end_reader_def in_flight_def ended_def dest: dial_invD(1) dial_invD(2))

lemma see_inbound_inv:
  assumes "dial_inv d" and "dl_reader d = Reading"
  shows "dial_inv (on_relay_wire (WireCtrl (PairInbound p)) (d\<lparr>dl_seen := dl_seen d @ [WireCtrl (PairInbound p)]\<rparr>))"
proof -
  let ?w = "WireCtrl (PairInbound p)" and ?n = "length (dl_bridges d)"
  let ?d = "d\<lparr>dl_seen := dl_seen d @ [?w], dl_bridges := dl_bridges d @ [new_bridge p], dl_pairs := hm_insert p ?n (dl_pairs d)\<rparr>"
  have n: "snd (inbounds (dl_seen d @ [?w]) ! j) = snd (inbounds (dl_seen d) ! j) @ [?w]" if "j < ?n" for j
    using see_keeps(1) [OF assms that, of ?w] by simp
  have l: "length (inbounds (dl_seen d)) = ?n" using dial_invD(1) [OF assms(1)] .
  have new: "inbounds (dl_seen d @ [?w]) ! ?n = (p, [])"
    using l by (simp add: inbounds_snoc new_inbound_def nth_append)
  have inv: "dial_inv ?d"
  proof (rule dial_invI)
    show "length (inbounds (dl_seen ?d)) = length (dl_bridges ?d)" using l by (simp add: inbounds_snoc new_inbound_def)
    show "bridge_ok (inbounds (dl_seen ?d) ! j) (in_flight ?d j) (dl_bridges ?d ! j)" if "j < length (dl_bridges ?d)" for j
    proof (cases "j = ?n")
      case True
      then show ?thesis using new assms(2) by (simp add: bridge_ok_def new_bridge_def in_flight_def nth_append)
    next
      case False
      with that have j: "j < ?n" by simp
      with see_keeps(2) [OF assms j, of ?w] assms(2) show ?thesis by (simp add: in_flight_def nth_append)
    qed
    show "j < length (dl_bridges ?d) \<and> br_pair (dl_bridges ?d ! j) = q \<and> live q (snd (inbounds (dl_seen ?d) ! j))"
      if "hm_get (dl_pairs ?d) q = Some j" for q j
      using that dial_invD(3) [OF assms(1), of q j] n [of j] new
      by (auto simp: hm_simps live_snoc nth_append new_bridge_def live_def split: if_splits)
    show "hm_get (dl_pairs ?d) (br_pair (dl_bridges ?d ! j)) = Some j"
      if "j < length (dl_bridges ?d)" "live (br_pair (dl_bridges ?d ! j)) (snd (inbounds (dl_seen ?d) ! j))"
        "br_open (dl_bridges ?d ! j)" for j
    proof (cases "j = ?n")
      case True
      then show ?thesis by (simp add: hm_simps nth_append new_bridge_def)
    next
      case False
      with that have j: "j < ?n" by simp
      with that(2,3) n [OF j] dial_invD(4) [OF assms(1) j] assms(2) show ?thesis
        by (auto simp: hm_simps live_snoc nth_append)
    qed
  qed (use assms(2) in simp)
  have acc: "dial_inv (?d\<lparr>dl_accepted := a\<rparr>)" for a
    using inv by (simp add: dial_inv_def in_flight_def ended_def)
  from end_reader_inv [OF inv] acc assms(2) show ?thesis by (simp add: Let_def)
qed

lemma reader_turn_inv:
  assumes "dial_inv d" and "dl_reader d = Reading"
  shows "dial_inv (reader_turn pc item d)"
proof -
  have w: "dial_inv (on_relay_wire w (d\<lparr>dl_seen := dl_seen d @ [w]\<rparr>))" for w
  proof (cases w)
    case (WireCtrl c)
    show ?thesis
    proof (cases c)
      case (PairInbound p)
      with WireCtrl see_inbound_inv [OF assms] show ?thesis by simp
    next
      case (PairClose p r)
      with WireCtrl see_close_inv [OF assms] show ?thesis by simp
    qed (use WireCtrl in \<open>simp_all add: see_other_inv [OF assms] new_inbound_def\<close>)
  next
    case (WireData x)
    then show ?thesis using see_forward_inv [OF assms] by (cases x) simp
  qed
  show ?thesis
    unfolding reader_turn_def
    using w end_reader_inv [OF assms] assms(1) by (auto split: option.splits sum.splits dial_message.splits)
qed

lemma heartbeat_turn_inv: "dial_inv d \<Longrightarrow> heartbeat_turn pc ok d = Some d' \<Longrightarrow> dial_inv d'"
  by (auto simp: heartbeat_turn_def split: if_splits sum.splits)

lemma dial_exec_inv:
  assumes "dial_inv d" and "dial_exec pc l d = Some d'"
  shows "dial_inv d'"
proof (cases l)
  case (LRead item)
  with assms reader_turn_inv [of d pc item] show ?thesis by (auto split: if_splits)
next
  case LRetry
  with assms obtain k b where r: "dl_reader d = Sending k b" "d' = send_to_bridge k b d"
    by (auto split: dial_reader.splits)
  have "d\<lparr>dl_reader := Sending k b\<rparr> = d" using r(1) by (cases d) simp
  with assms(1) have "owes d k b" by (simp add: owes_def)
  with r(2) show ?thesis by (simp add: send_to_bridge_inv)
next
  case (LRecv k)
  with assms pair_recv_inv show ?thesis by (auto simp: has_half_def split: if_splits)
next
  case (LSend k b)
  with assms other_bridge_inv(1) show ?thesis by (auto simp: has_half_def split: if_splits)
next
  case (LHeartbeat ok)
  with assms heartbeat_turn_inv show ?thesis by (auto split: dial_reader.splits)
next
  case (LClose k)
  with assms other_bridge_inv(2) [of d k] show ?thesis by (simp add: has_half_def split: if_splits)
next
  case (LDrop k)
  with assms other_bridge_inv(3) [of d k] show ?thesis by (simp add: has_half_def split: if_splits)
next
  case (LTake k)
  with assms other_bridge_inv(4) [of d k d'] show ?thesis by (simp split: if_splits)
next
  case (LWrite k ok)
  with assms other_bridge_inv(5) [of d k pc ok d'] show ?thesis by (simp split: if_splits)
qed

lemma dial_run_inv: "dial_inv d \<Longrightarrow> dial_run pc ls d = Some d' \<Longrightarrow> dial_inv d'"
  by (induction ls arbitrary: d) (auto split: option.splits dest: dial_exec_inv)

section \<open>What the relay gets\<close>

text \<open>What a writer has sent for its bridge, as the relay decodes it.\<close>

definition entries :: "nat \<Rightarrow> (nat option \<times> bytes) list \<Rightarrow> bytes list" where
  "entries k sink = map snd (filter (\<lambda>x. fst x = Some k) sink)"

fun held :: "bytes option \<Rightarrow> bytes list" where
  "held None = []"
| "held (Some b) = [b]"

definition sent_ok :: "postcard \<Rightarrow> bytes list \<Rightarrow> bridge \<Rightarrow> bool" where
  "sent_ok pc es br \<longleftrightarrow>
     (\<exists>ws. map (decode_relay pc) es = map (\<lambda>b. Inr (WireData (Forward (br_pair br) b))) ws \<and> prefix ws (br_put br) \<and>
        (br_writer br \<longrightarrow> br_put br = ws @ held (br_hand br) @ br_out br) \<and> (br_hand br \<noteq> None \<longrightarrow> br_writer br))"

fun tag_ok :: "postcard \<Rightarrow> nat \<Rightarrow> nat option \<times> bytes \<Rightarrow> bool" where
  "tag_ok pc n (None, frame) = (decode_relay pc frame = Inr (WireCtrl ServerHeartbeat))"
| "tag_ok pc n (Some k, frame) = (k < n)"

lemma tag_ok_mono: "tag_ok pc n x \<Longrightarrow> n \<le> m \<Longrightarrow> tag_ok pc m x"
  by (cases "(pc, n, x)" rule: tag_ok.cases) auto

definition out_inv :: "postcard \<Rightarrow> dialer \<Rightarrow> bool" where
  "out_inv pc d \<longleftrightarrow>
     (\<forall>x \<in> set (dl_sink d). tag_ok pc (length (dl_bridges d)) x) \<and>
     (\<forall>k < length (dl_bridges d). sent_ok pc (entries k (dl_sink d)) (dl_bridges d ! k))"

definition out_view :: "bridge \<Rightarrow> pair_id \<times> bytes list \<times> bytes option \<times> bytes list \<times> bool" where
  "out_view br = (br_pair br, br_put br, br_hand br, br_out br, br_writer br)"

lemma sent_ok_view: "out_view a = out_view b \<Longrightarrow> sent_ok pc es a = sent_ok pc es b"
  by (simp add: sent_ok_def out_view_def)

lemma entries_fresh: "\<forall>x \<in> set sink. fst x \<noteq> Some k \<Longrightarrow> entries k sink = []"
  by (simp add: entries_def filter_empty_conv)

lemma entries_member: "(Some k, frame) \<in> set sink \<Longrightarrow> frame \<in> set (entries k sink)"
  by (force simp: entries_def)

text \<open>What leaves the outgoing side of every bridge alone, apart from opening new ones.\<close>

definition same_out :: "dialer \<Rightarrow> dialer \<Rightarrow> bool" where
  "same_out d d' \<longleftrightarrow> dl_sink d' = dl_sink d \<and>
     (\<exists>ps. map out_view (dl_bridges d') = map out_view (dl_bridges d @ map new_bridge ps))"

lemma same_out_refl: "dl_sink d' = dl_sink d \<Longrightarrow> map out_view (dl_bridges d') = map out_view (dl_bridges d) \<Longrightarrow> same_out d d'"
  by (auto simp: same_out_def intro: exI [of _ "[]"])

lemma out_inv_same:
  assumes "out_inv pc d" and "same_out d d'"
  shows "out_inv pc d'"
proof -
  from assms(2) obtain ps where s: "dl_sink d' = dl_sink d"
      "map out_view (dl_bridges d') = map out_view (dl_bridges d @ map new_bridge ps)" by (auto simp: same_out_def)
  have l: "length (dl_bridges d') = length (dl_bridges d) + length ps" using arg_cong [OF s(2), of length] by simp
  have v: "out_view (dl_bridges d' ! k) = out_view ((dl_bridges d @ map new_bridge ps) ! k)" if "k < length (dl_bridges d')" for k
    using arg_cong [OF s(2), of "\<lambda>xs. xs ! k"] that l
    by (simp only: nth_map length_append length_map)
  have sent: "sent_ok pc (entries k (dl_sink d)) (dl_bridges d' ! k)" if k: "k < length (dl_bridges d')" for k
  proof (cases "k < length (dl_bridges d)")
    case True
    with assms(1) sent_ok_view [OF v [OF k], of pc "entries k (dl_sink d)"] show ?thesis
      by (simp add: out_inv_def nth_append)
  next
    case False
    have "fst x \<noteq> Some k" if "tag_ok pc (length (dl_bridges d)) x" for x
      using that False by (cases x) auto
    with assms(1) have "entries k (dl_sink d) = []" by (intro entries_fresh) (auto simp: out_inv_def)
    moreover have "\<exists>p. (dl_bridges d @ map new_bridge ps) ! k = new_bridge p" using False k l by (auto simp: nth_append)
    moreover have "sent_ok pc [] (new_bridge p)" for p by (simp add: sent_ok_def new_bridge_def)
    ultimately show ?thesis using sent_ok_view [OF v [OF k], of pc "[]"] by auto
  qed
  show ?thesis
    unfolding out_inv_def s(1)
  proof
    show "\<forall>x \<in> set (dl_sink d). tag_ok pc (length (dl_bridges d')) x"
      using assms(1) l by (auto simp: out_inv_def intro: tag_ok_mono)
  qed (use sent in blast)
qed

lemma same_out_update: "(\<And>br. out_view (f br) = out_view br) \<Longrightarrow> same_out d (update_bridge k f d)"
  by (rule same_out_refl) (simp_all add: update_bridge_def map_update list_update_id [symmetric] del: list_update_id,
      metis list_update_beyond list_update_id map_update nth_map linorder_not_less)

lemma same_out_send: "same_out d (send_to_bridge k b d)"
proof -
  let ?d = "update_bridge k (\<lambda>br. br\<lparr>br_queue := br_queue br @ [b]\<rparr>) d"
  have "same_out d ?d" by (rule same_out_update) (simp add: out_view_def)
  then have "same_out d (?d\<lparr>dl_reader := Reading\<rparr>)" by (simp add: same_out_def)
  then show ?thesis by (auto simp: send_to_bridge_def Let_def intro: same_out_refl)
qed

lemma same_out_wire: "same_out d (on_relay_wire w (d\<lparr>dl_seen := s\<rparr>))"
proof -
  let ?d = "d\<lparr>dl_seen := s\<rparr>"
  have id: "same_out d d'" if "dl_sink d' = dl_sink d" "dl_bridges d' = dl_bridges d" for d'
    using that by (intro same_out_refl) simp_all
  have new: "same_out d d'" if "dl_sink d' = dl_sink d" "dl_bridges d' = dl_bridges d @ [new_bridge p]" for d' p
    using that by (auto simp: same_out_def intro: exI [of _ "[p]"])
  have send: "same_out d (send_to_bridge k b ?d)" for k b using same_out_send [of ?d k b] by (simp add: same_out_def)
  show ?thesis
  proof (cases w)
    case (WireCtrl c)
    show ?thesis
    proof (cases c)
      case (PairInbound p)
      with WireCtrl show ?thesis by (auto simp: Let_def end_reader_def intro!: new)
    qed (use WireCtrl in \<open>simp_all add: id\<close>)
  next
    case (WireData x)
    then show ?thesis using send by (cases x) (simp add: id split: option.splits)
  qed
qed

lemma same_out_reader: "same_out d (reader_turn pc item d)"
  by (auto simp: reader_turn_def end_reader_def same_out_wire split: option.splits sum.splits dial_message.splits
      intro!: same_out_refl)

text \<open>One bridge changes its outgoing side.\<close>

lemma out_inv_update:
  assumes "out_inv pc d" and "k < length (dl_bridges d)"
    and "\<And>es. sent_ok pc es (dl_bridges d ! k) \<Longrightarrow> sent_ok pc es (f (dl_bridges d ! k))"
  shows "out_inv pc (update_bridge k f d)"
proof -
  let ?d = "update_bridge k f d"
  have "sent_ok pc (entries j (dl_sink d)) (dl_bridges ?d ! j)" if "j < length (dl_bridges d)" for j
    using assms that by (cases "j = k") (simp_all add: out_inv_def update_bridge_nth)
  with assms(1) show ?thesis by (simp add: out_inv_def)
qed

lemma pair_send_out:
  assumes "out_inv pc d" and "k < length (dl_bridges d)" and "pair_send k b d = Some (r, d')"
  shows "out_inv pc d'"
proof (cases "d' = d")
  case False
  with assms(3) have d': "br_writer (dl_bridges d ! k)"
      "d' = update_bridge k (\<lambda>br. br\<lparr>br_out := br_out br @ [b], br_put := br_put br @ [b]\<rparr>) d"
    by (auto simp: pair_send_def split: if_splits)
  show ?thesis unfolding d'(2)
    by (rule out_inv_update [OF assms(1,2)]) (use d'(1) in \<open>auto simp: sent_ok_def prefix_def\<close>)
qed (use assms(1) in simp)

lemma writer_take_out:
  assumes "out_inv pc d" and "k < length (dl_bridges d)" and "writer_take k d = Some d'"
  shows "out_inv pc d'"
proof (cases "br_out (dl_bridges d ! k)")
  case Nil
  with assms(3) have d': "br_hand (dl_bridges d ! k) = None" "d' = update_bridge k (\<lambda>br. br\<lparr>br_writer := False\<rparr>) d"
    by (auto simp: writer_take_def Let_def split: if_splits)
  show ?thesis unfolding d'(2) by (rule out_inv_update [OF assms(1,2)]) (use d'(1) in \<open>auto simp: sent_ok_def\<close>)
next
  case (Cons b q)
  with assms(3) have d': "br_writer (dl_bridges d ! k)" "br_hand (dl_bridges d ! k) = None"
      "d' = update_bridge k (\<lambda>br. br\<lparr>br_out := q, br_hand := Some b\<rparr>) d"
    by (auto simp: writer_take_def Let_def split: if_splits)
  show ?thesis unfolding d'(3) by (rule out_inv_update [OF assms(1,2)]) (use d'(1,2) Cons in \<open>auto simp: sent_ok_def\<close>)
qed

lemma writer_put_out:
  assumes pc: "codec_ok pc" and "out_inv pc d" and k: "k < length (dl_bridges d)" and "writer_put pc ok k d = Some d'"
  shows "out_inv pc d'"
proof -
  let ?br = "dl_bridges d ! k"
  from assms(4) obtain b where b: "br_hand ?br = Some b" by (cases "br_hand ?br") (auto simp: writer_put_def)
  have ok': "sent_ok pc (entries k (dl_sink d)) ?br" using assms(2) k by (simp add: out_inv_def)
  obtain frame where f: "encode_relay_data pc (Forward (br_pair ?br) b) = Inr frame"
      "decode_relay pc frame = Inr (WireData (Forward (br_pair ?br) b))"
    using relay_link.data_back [OF relay_link_of_codec [OF pc]] by blast
  show ?thesis
  proof (cases ok)
    case False
    with assms(4) b f have d': "d' = update_bridge k (\<lambda>br. br\<lparr>br_hand := None, br_writer := False\<rparr>) d"
      by (simp add: writer_put_def Let_def)
    show ?thesis unfolding d' by (rule out_inv_update [OF assms(2) k]) (auto simp: sent_ok_def)
  next
    case True
    let ?sink = "dl_sink d @ [(Some k, frame)]" and ?g = "\<lambda>br. br\<lparr>br_hand := None\<rparr>"
    from True assms(4) b f have d': "d' = (update_bridge k ?g d)\<lparr>dl_sink := ?sink\<rparr>"
      by (simp add: writer_put_def Let_def)
    have e: "entries j ?sink = entries j (dl_sink d) @ (if j = k then [frame] else [])" for j by (simp add: entries_def)
    from ok' b obtain ws where ws: "map (decode_relay pc) (entries k (dl_sink d)) = map (\<lambda>b. Inr (WireData (Forward (br_pair ?br) b))) ws"
        "br_put ?br = ws @ b # br_out ?br" "br_writer ?br" by (auto simp: sent_ok_def)
    have "sent_ok pc (entries k ?sink) (?g ?br)"
      unfolding sent_ok_def by (rule exI [of _ "ws @ [b]"]) (use ws f(2) in \<open>simp add: e\<close>)
    then have "sent_ok pc (entries j ?sink) (dl_bridges d' ! j)" if "j < length (dl_bridges d)" for j
      using assms(2) that k unfolding d' out_inv_def by (cases "j = k") (simp_all add: update_bridge_nth e)
    moreover have "tag_ok pc (length (dl_bridges d)) x" if "x \<in> set ?sink" for x
      using that assms(2) k by (auto simp: out_inv_def)
    ultimately show ?thesis unfolding out_inv_def by (simp add: d')
  qed
qed

lemma heartbeat_turn_out:
  assumes "codec_ok pc" and "out_inv pc d" and "heartbeat_turn pc ok d = Some d'"
  shows "out_inv pc d'"
proof -
  obtain frame where f: "encode_relay_ctrl pc ServerHeartbeat = Inr frame"
      "decode_relay pc frame = Inr (WireCtrl ServerHeartbeat)"
    using relay_link.ctrl_back [OF relay_link_of_codec [OF assms(1)]] by blast
  have "entries j (dl_sink d @ [(None, frame)]) = entries j (dl_sink d)" for j by (simp add: entries_def)
  with f assms(2,3) show ?thesis by (auto simp: heartbeat_turn_def out_inv_def split: if_splits)
qed

lemma dial_exec_out:
  assumes "codec_ok pc" and "out_inv pc d" and "dial_exec pc l d = Some d'"
  shows "out_inv pc d'"
proof (cases l)
  case (LRead item)
  with assms(3) have "d' = reader_turn pc item d" by (simp split: if_splits)
  with out_inv_same [OF assms(2) same_out_reader] show ?thesis by simp
next
  case LRetry
  with assms(3) obtain k b where "d' = send_to_bridge k b d" by (auto split: dial_reader.splits)
  with out_inv_same [OF assms(2) same_out_send] show ?thesis by simp
next
  case (LRecv k)
  with assms(3) consider "d' = d" | x q where "d' = update_bridge k (\<lambda>br. br\<lparr>br_queue := q, br_got := br_got br @ [x]\<rparr>) d"
    by (auto simp: pair_recv_def split: if_splits list.splits)
  then show ?thesis
  proof cases
    case (2 x q)
    show ?thesis unfolding 2 by (rule out_inv_same [OF assms(2) same_out_update]) (simp add: out_view_def)
  qed (use assms(2) in simp)
next
  case (LClose k)
  with assms(3) have "d' = pair_close k d" by (simp split: if_splits)
  moreover have "same_out d (pair_close k d)" unfolding pair_close_def by (rule same_out_update) (simp add: out_view_def)
  ultimately show ?thesis using out_inv_same [OF assms(2)] by simp
next
  case (LDrop k)
  with assms(3) have "d' = pair_drop k d" by (simp split: if_splits)
  moreover have "same_out d (pair_drop k d)" unfolding pair_drop_def by (rule same_out_update) (simp add: out_view_def)
  ultimately show ?thesis using out_inv_same [OF assms(2)] by simp
next
  case (LSend k b)
  with assms pair_send_out show ?thesis by (auto simp: has_half_def split: if_splits)
next
  case (LTake k)
  with assms writer_take_out show ?thesis by (auto split: if_splits)
next
  case (LWrite k ok)
  with assms writer_put_out show ?thesis by (auto split: if_splits)
next
  case (LHeartbeat ok)
  with assms heartbeat_turn_out show ?thesis by (auto split: dial_reader.splits)
qed

lemma dial_run_out: "codec_ok pc \<Longrightarrow> out_inv pc d \<Longrightarrow> dial_run pc ls d = Some d' \<Longrightarrow> out_inv pc d'"
  by (induction ls arbitrary: d) (auto split: option.splits dest: dial_exec_out)

section \<open>Properties\<close>

text \<open>
  C9. The dialer keeps the pairs apart and in order: however its tasks, the connections and
  the relay interleave, the connection opened by the \<open>k\<close>-th inbound message has received, in
  order, exactly a prefix of the payloads forwarded for its pair since then, nothing of any
  other pair; while it is open and the reader is not waiting, what it received and what is
  queued for it (at most 32 messages) is all of them. And what the writer of its pair has
  sent to the relay decodes to its own messages, for its own pair, in the order it sent them.
\<close>

theorem dialer_streams:
  assumes "codec_ok pc" and "dial_run pc ls (dialer_start accepting) = Some d" and "k < length (dl_bridges d)"
  shows "\<exists>p rest ws. inbounds (dl_seen d) ! k = (p, rest) \<and> br_pair (dl_bridges d ! k) = p \<and>
    prefix (br_got (dl_bridges d ! k) @ br_queue (dl_bridges d ! k)) (payloads p rest) \<and>
    (br_open (dl_bridges d ! k) \<longrightarrow> dl_reader d = Reading \<longrightarrow>
       br_got (dl_bridges d ! k) @ br_queue (dl_bridges d ! k) = payloads p rest) \<and>
    length (br_queue (dl_bridges d ! k)) \<le> 32 \<and>
    map (decode_relay pc) (entries k (dl_sink d)) = map (\<lambda>b. Inr (WireData (Forward p b))) ws \<and>
    prefix ws (br_put (dl_bridges d ! k))"
proof -
  have i: "dial_inv d" by (rule dial_run_inv [OF dial_inv_start assms(2)])
  have o: "out_inv pc d"
    by (rule dial_run_out [OF assms(1) _ assms(2)]) (simp add: out_inv_def dialer_start_def)
  from dial_invD(2) [OF i assms(3)] have b: "bridge_ok (inbounds (dl_seen d) ! k) (in_flight d k) (dl_bridges d ! k)" .
  from o assms(3) have "sent_ok pc (entries k (dl_sink d)) (dl_bridges d ! k)" by (simp add: out_inv_def)
  then obtain ws where ws: "prefix ws (br_put (dl_bridges d ! k))"
      "map (decode_relay pc) (entries k (dl_sink d)) = map (\<lambda>b. Inr (WireData (Forward (br_pair (dl_bridges d ! k)) b))) ws"
    by (auto simp: sent_ok_def)
  show ?thesis
    using b ws by (intro exI [of _ "fst (inbounds (dl_seen d) ! k)"] exI [of _ "snd (inbounds (dl_seen d) ! k)"] exI [of _ ws])
      (auto simp: bridge_ok_def PAIR_QUEUE_CAPACITY_def in_flight_def)
qed

text \<open>The reader stands at a full queue.\<close>

definition stuck_at :: "nat \<Rightarrow> bytes \<Rightarrow> dialer \<Rightarrow> bool" where
  "stuck_at k b d \<longleftrightarrow> dl_reader d = Sending k b \<and> k < length (dl_bridges d) \<and> br_open (dl_bridges d ! k) \<and>
     PAIR_QUEUE_CAPACITY \<le> length (br_queue (dl_bridges d ! k))"

definition got_so_far :: "dialer \<Rightarrow> bytes list list" where
  "got_so_far d = map (\<lambda>br. br_got br @ br_queue br) (dl_bridges d)"

definition serves :: "nat \<Rightarrow> dial_label \<Rightarrow> bool" where
  "serves k l \<longleftrightarrow> l = LRecv k \<or> l = LClose k \<or> l = LDrop k"

definition drops :: "dial_label \<Rightarrow> bool" where
  "drops l \<longleftrightarrow> (\<exists>j. l = LDrop j)"

lemma stuck_update:
  assumes "stuck_at k b d" and "j = k \<Longrightarrow> br_open (f (dl_bridges d ! k)) = br_open (dl_bridges d ! k) \<and> br_queue (f (dl_bridges d ! k)) = br_queue (dl_bridges d ! k)"
  shows "stuck_at k b (update_bridge j f d)"
  using assms by (cases "j = k") (simp_all add: stuck_at_def update_bridge_nth)

lemma got_update:
  "(\<And>br. br = dl_bridges d ! j \<Longrightarrow> br_got (f br) @ br_queue (f br) = br_got br @ br_queue br) \<Longrightarrow>
   got_so_far (update_bridge j f d) = got_so_far d"
  by (rule nth_equalityI) (simp_all add: got_so_far_def update_bridge_nth)

lemma stuck_step:
  assumes st: "stuck_at k b d" and "dial_exec pc l d = Some d'" and "\<not> serves k l"
  shows "stuck_at k b d' \<and> dl_seen d' = dl_seen d \<and> (\<not> drops l \<longrightarrow> got_so_far d' = got_so_far d)"
proof (cases l)
  case (LRead item)
  with assms show ?thesis by (simp add: stuck_at_def)
next
  case LRetry
  with assms(1,2) have "d' = d\<lparr>dl_reader := Sending k b\<rparr>" by (simp add: stuck_at_def send_to_bridge_def)
  with st show ?thesis by (simp add: stuck_at_def got_so_far_def)
next
  case (LRecv j)
  with assms(3) have j: "j \<noteq> k" by (auto simp: serves_def)
  from LRecv assms(2) consider "d' = d" | x q where "br_queue (dl_bridges d ! j) = x # q"
      "d' = update_bridge j (\<lambda>br. br\<lparr>br_queue := q, br_got := br_got br @ [x]\<rparr>) d"
    by (auto simp: pair_recv_def split: if_splits list.splits)
  then show ?thesis
  proof cases
    case (2 x q)
    have "got_so_far d' = got_so_far d" unfolding 2(2) by (rule got_update) (simp add: 2(1))
    with st j show ?thesis unfolding 2(2) by (simp add: stuck_update)
  qed (use st in simp)
next
  case (LClose j)
  with assms have "j \<noteq> k" "d' = update_bridge j (\<lambda>br. br\<lparr>br_open := False\<rparr>) d"
    by (auto simp: serves_def pair_close_def split: if_splits)
  with st show ?thesis by (simp add: stuck_update got_update)
next
  case (LDrop j)
  with assms have "j \<noteq> k" "d' = pair_drop j d" by (auto simp: serves_def split: if_splits)
  with st LDrop show ?thesis by (simp add: pair_drop_def stuck_update drops_def)
next
  case (LSend j x)
  with assms(2) consider "d' = d" | "d' = update_bridge j (\<lambda>br. br\<lparr>br_out := br_out br @ [x], br_put := br_put br @ [x]\<rparr>) d"
    by (auto simp: pair_send_def split: if_splits)
  then show ?thesis by cases (use st in \<open>simp_all add: stuck_update got_update\<close>)
next
  case (LTake j)
  with assms(2) consider "d' = update_bridge j (\<lambda>br. br\<lparr>br_writer := False\<rparr>) d"
    | x q where "d' = update_bridge j (\<lambda>br. br\<lparr>br_out := q, br_hand := Some x\<rparr>) d"
    by (auto simp: writer_take_def Let_def split: if_splits list.splits)
  then show ?thesis by cases (use st in \<open>simp_all add: stuck_update got_update\<close>)
next
  case (LWrite j ok)
  have s: "stuck_at k b (e\<lparr>dl_sink := sk\<rparr>) = stuck_at k b e" "got_so_far (e\<lparr>dl_sink := sk\<rparr>) = got_so_far e" for e sk
    by (simp_all add: stuck_at_def got_so_far_def)
  from LWrite assms(2) consider "d' = update_bridge j (\<lambda>br. br\<lparr>br_hand := None, br_writer := False\<rparr>) d"
    | sk where "d' = (update_bridge j (\<lambda>br. br\<lparr>br_hand := None\<rparr>) d)\<lparr>dl_sink := sk\<rparr>"
    by (auto simp: writer_put_def Let_def split: if_splits option.splits sum.splits)
  then show ?thesis by cases (use st in \<open>simp_all add: s stuck_update got_update\<close>)
next
  case (LHeartbeat ok)
  with assms(2) st show ?thesis
    by (auto simp: heartbeat_turn_def stuck_at_def got_so_far_def split: if_splits sum.splits dial_reader.splits)
qed

text \<open>
  One pair stops all of them: once the reader has to wait at the full queue of a pair
  whose connection is still there but does not receive, nothing the other connections, the
  writers and the relay do lets it go on. It reads nothing more, no other connection gets
  another message, no new client is accepted; only the heartbeats go on, so that the relay
  keeps sending clients to this daemon. It lasts until that one connection receives or ends.
\<close>

lemma slow_pair_blocks_relay:
  assumes "stuck_at k b d" and "dial_run pc ls d = Some d'"
    and "list_all (\<lambda>l. \<not> serves k l \<and> \<not> drops l) ls"
  shows "stuck_at k b d' \<and> dl_seen d' = dl_seen d \<and> got_so_far d' = got_so_far d"
  using assms
proof (induction ls arbitrary: d)
  case (Cons l ls)
  then obtain e where e: "dial_exec pc l d = Some e" "dial_run pc ls e = Some d'" by (auto split: option.splits)
  from stuck_step [OF Cons.prems(1) e(1)] Cons.prems(3) Cons.IH [OF _ e(2)] show ?case by auto
qed simp

text \<open>
  The relay is never told that a connection of the daemon has ended: whatever happens,
  everything the dialer sends after its registration is a heartbeat or a payload. So a
  client whose connection the daemon has dropped (it was revoked, or refused during the
  handshake) keeps its pair until the relay's idle sweep or its own heartbeat ends it.
\<close>

lemma dialer_never_closes_pairs:
  assumes "codec_ok pc" and "dial_run pc ls (dialer_start accepting) = Some d" and "(tag, frame) \<in> set (dl_sink d)"
  shows "decode_relay pc frame = Inr (WireCtrl ServerHeartbeat) \<or>
    (\<exists>k b. tag = Some k \<and> k < length (dl_bridges d) \<and>
       decode_relay pc frame = Inr (WireData (Forward (br_pair (dl_bridges d ! k)) b)))"
proof (cases tag)
  case None
  have "out_inv pc d" by (rule dial_run_out [OF assms(1) _ assms(2)]) (simp add: out_inv_def dialer_start_def)
  with assms(3) None show ?thesis by (auto simp: out_inv_def)
next
  case (Some k)
  have o: "out_inv pc d" by (rule dial_run_out [OF assms(1) _ assms(2)]) (simp add: out_inv_def dialer_start_def)
  with assms(3) Some have k: "k < length (dl_bridges d)" by (auto simp: out_inv_def)
  with o obtain ws where "map (decode_relay pc) (entries k (dl_sink d)) =
      map (\<lambda>b. Inr (WireData (Forward (br_pair (dl_bridges d ! k)) b))) ws"
    unfolding out_inv_def sent_ok_def by blast
  then have "decode_relay pc frame \<in> set (map (\<lambda>b. Inr (WireData (Forward (br_pair (dl_bridges d ! k)) b))) ws)"
    using entries_member [of k frame "dl_sink d"] assms(3) Some by (metis image_eqI list.set_map)
  with Some k show ?thesis by auto
qed

section \<open>Waits\<close>

lemma dial_delays_same: "dial_next_delay = next_delay" "dial_jitter = jitter"
  by (simp_all add: fun_eq_iff dial_next_delay_def next_delay_def dial_jitter_def jitter_def)

text \<open>
  How the dialer waits before it connects again: after an error it sleeps for the
  current delay, moved by at most a quarter and never to zero, and the next delay stays
  between 50 ms and the configured maximum; but after a session that ended in order it does
  not sleep at all, however often that happens: a relay that accepts the registration and
  then closes the socket is asked again without a pause.
\<close>

lemma orderly_end_no_wait:
  "after_attempt retry seed (Inr ()) b = (None, \<lparr>db_delay_ms = max (rr_initial_ms retry) 50, db_attempts = sat_add (db_attempts b) 1\<rparr>)
    \<and> fst (run_forever retry (replicate n (seed, Inr ())) b) = replicate n None
    \<and> (\<exists>wait next. after_attempt retry seed (Inl e) b = (Some wait, next) \<and>
         unat (db_delay_ms b) - unat (db_delay_ms b) div 4 \<le> unat wait \<and> 1 \<le> unat wait \<and>
         unat wait \<le> max (unat (db_delay_ms b) + unat (db_delay_ms b) div 4) 1 \<and>
         50 \<le> unat (db_delay_ms next) \<and> unat (db_delay_ms next) \<le> max (unat (rr_max_ms retry)) 50)"
proof (intro conjI)
  show "fst (run_forever retry (replicate n (seed, Inr ())) b) = replicate n None"
    by (induction n arbitrary: b) (simp_all add: after_attempt_def case_prod_beta)
  show "\<exists>wait next. after_attempt retry seed (Inl e) b = (Some wait, next) \<and>
         unat (db_delay_ms b) - unat (db_delay_ms b) div 4 \<le> unat wait \<and> 1 \<le> unat wait \<and>
         unat wait \<le> max (unat (db_delay_ms b) + unat (db_delay_ms b) div 4) 1 \<and>
         50 \<le> unat (db_delay_ms next) \<and> unat (db_delay_ms next) \<le> max (unat (rr_max_ms retry)) 50"
    using jitter_value [of "db_delay_ms b" seed]
    by (simp add: after_attempt_def dial_delays_same next_delay_value Let_def)
qed (simp add: after_attempt_def)

section \<open>Witnesses\<close>

text \<open>The step that reads a message of the relay.\<close>

fun encode_wire :: "postcard \<Rightarrow> relay_wire \<Rightarrow> (codec_error, bytes) result" where
  "encode_wire pc (WireCtrl c) = encode_relay_ctrl pc c"
| "encode_wire pc (WireData x) = encode_relay_data pc x"

definition read_wire :: "postcard \<Rightarrow> relay_wire \<Rightarrow> dial_label" where
  "read_wire pc w = LRead (Some (Inr (DmBinary (case encode_wire pc w of Inl _ \<Rightarrow> [] | Inr b \<Rightarrow> b))))"

lemma read_wire_exec:
  assumes "codec_ok pc" and "dl_reader d = Reading"
  shows "dial_exec pc (read_wire pc w) d = Some (on_relay_wire w (d\<lparr>dl_seen := dl_seen d @ [w]\<rparr>))"
proof -
  have "\<exists>b. encode_wire pc w = Inr b \<and> decode_relay pc b = Inr w"
    using relay_link.ctrl_back [OF relay_link_of_codec [OF assms(1)]] relay_link.data_back [OF relay_link_of_codec [OF assms(1)]]
    by (cases w) simp_all
  with assms(2) show ?thesis by (auto simp: read_wire_def reader_turn_def)
qed

text \<open>One client connects and sends 33 messages, of which its connection receives none.\<close>

definition filling :: "nat \<Rightarrow> dialer" where
  "filling n = (dialer_start True)\<lparr>dl_bridges := [(new_bridge (PairId 1))\<lparr>br_queue := replicate n [7]\<rparr>],
     dl_pairs := hm_insert (PairId 1) 0 [], dl_accepted := [(AcceptedRelay True, 0)],
     dl_seen := WireCtrl (PairInbound (PairId 1)) # replicate n (WireData (Forward (PairId 1) [7]))\<rparr>"

lemma filling_step:
  assumes "codec_ok pc" and "n < 32"
  shows "dial_exec pc (read_wire pc (WireData (Forward (PairId 1) [7]))) (filling n) = Some (filling (Suc n))"
proof -
  have "dl_reader (filling n) = Reading" by (simp add: filling_def dialer_start_def)
  from read_wire_exec [OF assms(1) this] assms(2) show ?thesis
    by (simp add: filling_def hm_simps send_to_bridge_def update_bridge_def new_bridge_def dialer_start_def
        PAIR_QUEUE_CAPACITY_def replicate_append_same)
qed

lemma filled:
  assumes "codec_ok pc"
  shows "dial_exec pc (read_wire pc (WireCtrl (PairInbound (PairId 1)))) (dialer_start True) = Some (filling 0)"
    and "\<exists>d. dial_exec pc (read_wire pc (WireData (Forward (PairId 1) [7]))) (filling 32) = Some d \<and> stuck_at 0 [7] d"
proof -
  show "dial_exec pc (read_wire pc (WireCtrl (PairInbound (PairId 1)))) (dialer_start True) = Some (filling 0)"
    using read_wire_exec [OF assms, of "dialer_start True"]
    by (simp add: filling_def dialer_start_def Let_def new_bridge_def)
  have "dl_reader (filling 32) = Reading" by (simp add: filling_def dialer_start_def)
  from read_wire_exec [OF assms this]
  show "\<exists>d. dial_exec pc (read_wire pc (WireData (Forward (PairId 1) [7]))) (filling 32) = Some d \<and> stuck_at 0 [7] d"
    by (simp add: filling_def hm_simps send_to_bridge_def new_bridge_def dialer_start_def PAIR_QUEUE_CAPACITY_def stuck_at_def)
qed

text \<open>One client connects; a message goes to its connection and one comes back.\<close>

lemma dialogue:
  assumes "codec_ok pc"
  shows "\<exists>d f. dial_run pc [read_wire pc (WireCtrl (PairInbound (PairId 1))), read_wire pc (WireData (Forward (PairId 1) [7])),
      LRecv 0, LSend 0 [9], LTake 0, LWrite 0 True] (dialer_start True) = Some d \<and> length (dl_bridges d) = 1 \<and>
    br_got (dl_bridges d ! 0) = [[7]] \<and> br_put (dl_bridges d ! 0) = [[9]] \<and> dl_sink d = [(Some 0, f)]"
proof -
  obtain f where f: "encode_relay_data pc (Forward (PairId 1) [9]) = Inr f"
    using relay_link.data_back [OF relay_link_of_codec [OF assms]] by blast
  have "dial_exec pc (read_wire pc (WireData (Forward (PairId 1) [7]))) (filling 0) = Some (filling 1)"
    using filling_step [OF assms, of 0] by simp
  with filled(1) [OF assms] f show ?thesis
    by (simp add: filling_def has_half_def pair_recv_def pair_send_def writer_take_def writer_put_def update_bridge_def
        new_bridge_def dialer_start_def PAIR_QUEUE_CAPACITY_def Let_def)
qed

theorem dialer_streams_witness:
  "\<exists>ls d p rest. dial_run unary_postcard ls (dialer_start True) = Some d \<and> inbounds (dl_seen d) ! 0 = (p, rest) \<and>
     br_got (dl_bridges d ! 0) = [[7]] \<and> prefix [[7]] (payloads p rest) \<and>
     map (decode_relay unary_postcard) (entries 0 (dl_sink d)) = [Inr (WireData (Forward p [9]))]"
proof -
  obtain ls d f where d: "dial_run unary_postcard ls (dialer_start True) = Some d" "length (dl_bridges d) = 1"
      "br_got (dl_bridges d ! 0) = [[7]]" "br_put (dl_bridges d ! 0) = [[9]]" "dl_sink d = [(Some 0, f)]"
    using dialogue [OF unary_postcard_ok] by blast
  from dialer_streams [OF unary_postcard_ok d(1), of 0] d(2) obtain p rest ws where
    i: "inbounds (dl_seen d) ! 0 = (p, rest)" "prefix (br_got (dl_bridges d ! 0) @ br_queue (dl_bridges d ! 0)) (payloads p rest)"
      "map (decode_relay unary_postcard) (entries 0 (dl_sink d)) = map (\<lambda>b. Inr (WireData (Forward p b))) ws"
      "prefix ws (br_put (dl_bridges d ! 0))" by auto
  have "length ws = 1" using arg_cong [OF i(3), of length] d(5) by (simp add: entries_def)
  with i(4) d(4) have "ws = [[9]]" by (cases ws) (auto simp: prefix_def)
  moreover have "prefix [[7]] (payloads p rest)" using i(2) d(3) by (auto simp: prefix_def)
  moreover have "map (decode_relay unary_postcard) (entries 0 (dl_sink d)) = [Inr (WireData (Forward p [9]))]"
    using i(3) \<open>ws = [[9]]\<close> by simp
  ultimately show ?thesis
    using d(1,3) i(1) by (intro exI [of _ ls] exI [of _ d] exI [of _ p] exI [of _ rest] conjI)
qed

end
