(* ===== verification/Daemon_Tasks.thy ===== *)
theory Daemon_Tasks
  imports Daemon_Server "HOL-Library.Sublist"
begin

text \<open>
  The tasks of a running daemon: what \<open>Daemon::start\<close> and \<open>Daemon::shutdown\<close>
  (\<open>crates/server/daemon-core/src/server.rs\<close>) start and stop, and \<open>serve\<close> of \<open>listener.rs\<close>. The
  listener makes a task per socket, which upgrades it and queues it; a loop for the listener
  and one for the relay dialer take transports from their queues and make a task per
  connection. \<open>task_exec\<close> is one step of one of them, and a theorem holds for every list of
  steps. Transports are numbers, those of the relay as the dialer hands them over.
\<close>

section \<open>State\<close>

datatype accept_side = DirectSide | RelaySide

record accepted_transport =
  at_label :: nat
  at_kind :: accepted_kind

definition ACCEPT_CAPACITY :: nat where "ACCEPT_CAPACITY = 32"

text \<open>
  \<open>dt_upgrades\<close> are the sockets that are being upgraded, with their peers. \<open>dt_running\<close> says
  which connections run; \<open>dt_queued\<close> and \<open>dt_started\<close> are histories: what was ever put into a
  queue, and the connections that were made of it.
\<close>

record daemon_tasks =
  dt_listener :: bool
  dt_relay :: bool
  dt_accept :: "accept_side \<Rightarrow> bool"
  dt_queue :: "accept_side \<Rightarrow> accepted_transport list"
  dt_upgrades :: "(nat \<times> ip_addr) list"
  dt_running :: "nat list"
  dt_queued :: "accept_side \<Rightarrow> accepted_transport list"
  dt_started :: "accept_side \<Rightarrow> accepted_transport list"

definition tasks_booted :: daemon_tasks where
  "tasks_booted = \<lparr>dt_listener = False, dt_relay = False, dt_accept = (\<lambda>_. False), dt_queue = (\<lambda>_. []), dt_upgrades = [],
     dt_running = [], dt_queued = (\<lambda>_. []), dt_started = (\<lambda>_. [])\<rparr>"

section \<open>Steps\<close>

text \<open>\<open>start\<close> makes no task unless the address could be bound.\<close>

definition daemon_start :: "(string, unit) result \<Rightarrow> daemon_tasks \<Rightarrow> (daemon_error, unit) result \<times> daemon_tasks" where
  "daemon_start bound d =
     (case bound of
        Inl e \<Rightarrow> (Inl (DaemonIo e), d)
      | Inr _ \<Rightarrow> (Inr (), d\<lparr>dt_accept := (\<lambda>_. True), dt_listener := True, dt_relay := True\<rparr>))"

text \<open>Aborting the two loops drops their queues.\<close>

definition daemon_shutdown :: "daemon_tasks \<Rightarrow> daemon_tasks" where
  "daemon_shutdown d = d\<lparr>dt_listener := False, dt_relay := False, dt_accept := (\<lambda>_. False), dt_queue := (\<lambda>_. [])\<rparr>"

text \<open>One turn of \<open>serve\<close>: an error of \<open>accept\<close> ends it.\<close>

definition serve_turn :: "(string, nat \<times> ip_addr) result \<Rightarrow> daemon_tasks \<Rightarrow> daemon_tasks option" where
  "serve_turn accepted d =
     (if \<not> dt_listener d then None
      else (case accepted of
        Inl e \<Rightarrow> Some (d\<lparr>dt_listener := False\<rparr>)
      | Inr socket \<Rightarrow> Some (d\<lparr>dt_upgrades := dt_upgrades d @ [socket]\<rparr>)))"

text \<open>\<open>send\<close> waits for room; without a receiver the transport is dropped.\<close>

definition queue_transport :: "accept_side \<Rightarrow> accepted_transport \<Rightarrow> daemon_tasks \<Rightarrow> daemon_tasks option" where
  "queue_transport side a d =
     (if \<not> dt_accept d side then Some d
      else if ACCEPT_CAPACITY \<le> length (dt_queue d side) then None
      else Some (d\<lparr>dt_queue := (dt_queue d)(side := dt_queue d side @ [a]),
                   dt_queued := (dt_queued d)(side := dt_queued d side @ [a])\<rparr>))"

definition drop_upgrade :: "nat \<Rightarrow> daemon_tasks \<Rightarrow> daemon_tasks" where
  "drop_upgrade j d = d\<lparr>dt_upgrades := take j (dt_upgrades d) @ drop (Suc j) (dt_upgrades d)\<rparr>"

definition upgrade_done :: "nat \<Rightarrow> (string, ws_request) result \<Rightarrow> daemon_tasks \<Rightarrow> daemon_tasks option" where
  "upgrade_done j upgraded d =
     (if length (dt_upgrades d) \<le> j then None
      else (let (label, peer) = dt_upgrades d ! j in
        case listener_accept peer upgraded of
          None \<Rightarrow> Some (drop_upgrade j d)
        | Some kind \<Rightarrow> map_option (drop_upgrade j) (queue_transport DirectSide \<lparr>at_label = label, at_kind = kind\<rparr> d)))"

text \<open>The dialer hands over a pair (\<open>Daemon_Dialer\<close> has the rest of it).\<close>

definition relay_pair :: "nat \<Rightarrow> daemon_tasks \<Rightarrow> daemon_tasks option" where
  "relay_pair label d =
     (if \<not> dt_relay d then None else queue_transport RelaySide \<lparr>at_label = label, at_kind = AcceptedRelay True\<rparr> d)"

definition accept_turn :: "accept_side \<Rightarrow> daemon_tasks \<Rightarrow> daemon_tasks option" where
  "accept_turn side d =
     (if \<not> dt_accept d side then None
      else (case dt_queue d side of
        [] \<Rightarrow> None
      | a # as \<Rightarrow> Some (d\<lparr>dt_queue := (dt_queue d)(side := as), dt_running := dt_running d @ [at_label a],
                            dt_started := (dt_started d)(side := dt_started d side @ [a])\<rparr>)))"

definition connection_done :: "nat \<Rightarrow> daemon_tasks \<Rightarrow> daemon_tasks option" where
  "connection_done j d =
     (if length (dt_running d) \<le> j then None
      else Some (d\<lparr>dt_running := take j (dt_running d) @ drop (Suc j) (dt_running d)\<rparr>))"

datatype task_label =
    TServe "(string, nat \<times> ip_addr) result"
  | TUpgraded nat "(string, ws_request) result"
  | TPair nat
  | TAccept accept_side
  | TDone nat
  | TShutdown

fun task_exec :: "task_label \<Rightarrow> daemon_tasks \<Rightarrow> daemon_tasks option" where
  "task_exec (TServe accepted) d = serve_turn accepted d"
| "task_exec (TUpgraded j upgraded) d = upgrade_done j upgraded d"
| "task_exec (TPair label) d = relay_pair label d"
| "task_exec (TAccept side) d = accept_turn side d"
| "task_exec (TDone j) d = connection_done j d"
| "task_exec TShutdown d = Some (daemon_shutdown d)"

fun task_run :: "task_label list \<Rightarrow> daemon_tasks \<Rightarrow> daemon_tasks option" where
  "task_run [] d = Some d"
| "task_run (l # ls) d = (case task_exec l d of None \<Rightarrow> None | Some d' \<Rightarrow> task_run ls d')"

section \<open>Every transport becomes one connection\<close>

definition tasks_inv :: "daemon_tasks \<Rightarrow> bool" where
  "tasks_inv d \<longleftrightarrow>
     (\<forall>side. prefix (dt_started d side @ dt_queue d side) (dt_queued d side) \<and> length (dt_queue d side) \<le> ACCEPT_CAPACITY \<and>
        (dt_accept d side \<longrightarrow> dt_started d side @ dt_queue d side = dt_queued d side)) \<and>
     (\<forall>a \<in> set (dt_queued d RelaySide). at_kind a = AcceptedRelay True) \<and>
     (\<forall>a \<in> set (dt_queued d DirectSide). \<exists>auto_pair. at_kind a = AcceptedDirect auto_pair)"

lemma tasks_inv_booted: "tasks_inv tasks_booted"
  by (simp add: tasks_inv_def tasks_booted_def)

lemma queue_inv:
  assumes "tasks_inv d" "queue_transport side a d = Some d'"
    "case side of DirectSide \<Rightarrow> \<exists>auto_pair. at_kind a = AcceptedDirect auto_pair | RelaySide \<Rightarrow> at_kind a = AcceptedRelay True"
  shows "tasks_inv d'"
  using assms by (cases side) (auto simp: tasks_inv_def queue_transport_def split: if_split_asm)

lemma drop_upgrade_inv [simp]: "tasks_inv (drop_upgrade j d) = tasks_inv d"
  by (simp add: tasks_inv_def drop_upgrade_def)

lemma listener_kind: "listener_accept peer upgraded = Some kind \<Longrightarrow> \<exists>auto_pair. kind = AcceptedDirect auto_pair"
  by (auto simp: listener_accept_def split: sum.split_asm if_split_asm)

lemma upgrade_inv:
  assumes "tasks_inv d" "upgrade_done j upgraded d = Some d'"
  shows "tasks_inv d'"
proof -
  obtain label peer where p: "dt_upgrades d ! j = (label, peer)" by fastforce
  show ?thesis
  proof (cases "listener_accept peer upgraded")
    case None
    with assms p show ?thesis by (auto simp: upgrade_done_def split: if_split_asm)
  next
    case (Some kind)
    with assms(2) p obtain d1 where d1: "queue_transport DirectSide \<lparr>at_label = label, at_kind = kind\<rparr> d = Some d1" "d' = drop_upgrade j d1"
      by (auto simp: upgrade_done_def split: if_split_asm)
    with queue_inv [OF assms(1) d1(1)] listener_kind [OF Some] show ?thesis by simp
  qed
qed

lemma accept_inv:
  assumes inv: "tasks_inv d" and step: "accept_turn side d = Some d'"
  shows "tasks_inv d'"
proof -
  from step obtain a as where q: "dt_queue d side = a # as" "dt_accept d side" and
    d': "d' = d\<lparr>dt_queue := (dt_queue d)(side := as), dt_running := dt_running d @ [at_label a],
      dt_started := (dt_started d)(side := dt_started d side @ [a])\<rparr>"
    by (auto simp: accept_turn_def split: if_split_asm list.split_asm)
  have "dt_started d' s @ dt_queue d' s = dt_started d s @ dt_queue d s" "length (dt_queue d' s) \<le> length (dt_queue d s)" for s
    using q by (simp_all add: d')
  moreover have "dt_queued d' = dt_queued d" "dt_accept d' = dt_accept d" by (simp_all add: d')
  ultimately show ?thesis using inv unfolding tasks_inv_def by (metis order_trans)
qed

lemma task_exec_inv:
  assumes inv: "tasks_inv d" and step: "task_exec l d = Some d'"
  shows "tasks_inv d'"
proof (cases l)
  case (TServe accepted)
  with step have "dt_accept d' = dt_accept d" "dt_queue d' = dt_queue d" "dt_queued d' = dt_queued d" "dt_started d' = dt_started d"
    by (auto simp: serve_turn_def split: if_split_asm sum.split_asm)
  with inv show ?thesis by (simp add: tasks_inv_def)
next
  case (TUpgraded j upgraded)
  with step upgrade_inv [OF inv] show ?thesis by simp
next
  case (TPair label)
  with step queue_inv [OF inv] show ?thesis by (auto simp: relay_pair_def split: if_split_asm)
next
  case (TAccept side)
  with step accept_inv [OF inv] show ?thesis by simp
next
  case (TDone j)
  with step inv show ?thesis by (auto simp: tasks_inv_def connection_done_def split: if_split_asm)
next
  case TShutdown
  have "prefix (dt_started d side) (dt_queued d side)" for side
    using inv append_prefixD unfolding tasks_inv_def by blast
  with TShutdown step inv show ?thesis by (auto simp: tasks_inv_def daemon_shutdown_def)
qed

lemma task_run_inv: "tasks_inv d \<Longrightarrow> task_run ls d = Some d' \<Longrightarrow> tasks_inv d'"
  by (induction ls arbitrary: d) (auto split: option.split_asm dest: task_exec_inv)

lemma exec_accept:
  "task_exec l d = Some d' \<Longrightarrow> l \<noteq> TShutdown \<Longrightarrow> dt_accept d' = dt_accept d"
  by (cases l)
     (auto simp: serve_turn_def upgrade_done_def relay_pair_def queue_transport_def drop_upgrade_def accept_turn_def connection_done_def
        Let_def split: if_split_asm sum.split_asm option.split_asm list.split_asm prod.split_asm)

lemma run_accept:
  "task_run ls d = Some d' \<Longrightarrow> TShutdown \<notin> set ls \<Longrightarrow> dt_accept d' = dt_accept d"
  by (induction ls arbitrary: d) (auto split: option.split_asm dest: exec_accept)



section \<open>Ends\<close>

text \<open>
  A shutdown ends no connection: it stops the listener, the dialer and the accept loops, so
  no connection is made any more, but those that run go on until they end by themselves.
\<close>

lemma stopped_exec:
  assumes "task_exec l d = Some d'" "\<forall>side. \<not> dt_accept d side \<and> dt_queue d side = []"
  shows "(\<forall>side. \<not> dt_accept d' side \<and> dt_queue d' side = []) \<and> dt_started d' = dt_started d \<and>
    ((\<forall>j. l \<noteq> TDone j) \<longrightarrow> dt_running d' = dt_running d)"
  using assms
  by (cases l)
     (auto simp: serve_turn_def upgrade_done_def relay_pair_def queue_transport_def drop_upgrade_def accept_turn_def connection_done_def
        daemon_shutdown_def Let_def split: if_split_asm sum.split_asm option.split_asm list.split_asm prod.split_asm)

lemma shutdown_keeps_connections:
  assumes "task_run ls (daemon_shutdown d) = Some d'"
  shows "dt_started d' = dt_started d \<and> ((\<forall>j. TDone j \<notin> set ls) \<longrightarrow> dt_running d' = dt_running d)"
proof -
  have "dt_started d' = dt_started x \<and> ((\<forall>j. TDone j \<notin> set ls) \<longrightarrow> dt_running d' = dt_running x)"
    if "task_run ls x = Some d'" "\<forall>side. \<not> dt_accept x side \<and> dt_queue x side = []" for x
    using that
  proof (induction ls arbitrary: x)
    case (Cons l ls)
    then obtain y where y: "task_exec l x = Some y" "task_run ls y = Some d'" by (auto split: option.split_asm)
    from stopped_exec [OF y(1) Cons.prems(2)] Cons.IH [OF y(2)] show ?case by auto
  qed simp
  from this [OF assms] show ?thesis by (simp add: daemon_shutdown_def)
qed

text \<open>
  One error of \<open>accept\<close> ends the listener for good: the daemon goes on without it, whatever
  happens, and takes no direct connection again.
\<close>

lemma no_listener_exec:
  "task_exec l d = Some d' \<Longrightarrow> \<not> dt_listener d \<Longrightarrow> \<not> dt_listener d' \<and> set (dt_upgrades d') \<subseteq> set (dt_upgrades d)"
  by (cases l)
     (auto simp: serve_turn_def upgrade_done_def relay_pair_def queue_transport_def drop_upgrade_def accept_turn_def connection_done_def
        daemon_shutdown_def Let_def dest: in_set_takeD in_set_dropD
        split: if_split_asm sum.split_asm option.split_asm list.split_asm prod.split_asm)

lemma accept_error_ends_listener:
  assumes "serve_turn (Inl e) d = Some d1" "task_run ls d1 = Some d'"
  shows "\<not> dt_listener d' \<and> set (dt_upgrades d') \<subseteq> set (dt_upgrades d)"
proof -
  have "\<not> dt_listener d' \<and> set (dt_upgrades d') \<subseteq> set (dt_upgrades x)" if "task_run ls x = Some d'" "\<not> dt_listener x" for x
    using that
  proof (induction ls arbitrary: x)
    case (Cons l ls)
    then obtain y where y: "task_exec l x = Some y" "task_run ls y = Some d'" by (auto split: option.split_asm)
    from no_listener_exec [OF y(1) Cons.prems(2)] Cons.IH [OF y(2)] show ?case by blast
  qed simp
  from this [OF assms(2)] assms(1) show ?thesis by (auto simp: serve_turn_def split: if_split_asm)
qed

end
