(* ===== verification/Daemon_Cli.thy ===== *)
theory Daemon_Cli
  imports Daemon_Server
begin

text \<open>
  The daemon's command line (\<open>crates/server/daemon-bin/src/main.rs\<close>): every command reads or
  creates the configuration and then works on the files of the daemon, which may be running.
  What \<open>start\<close> does with the booted daemon is in \<open>Daemon_Server\<close>. The arguments are taken as parsed by \<open>clap\<close>. An error of \<open>anyhow\<close> is the list of its texts,
  the outermost context first; \<open>None\<close> is a panic (a generated key of the wrong length).
\<close>

section \<open>Commands\<close>

datatype cli_cmd =
    CliStart
  | CliPairKey
  | CliPairUrl
  | CliPairQr
  | CliListClients
  | CliRevoke string
  | CliRegenerateIdentity bool
  | CliPrintSampleConfig

datatype printed = ToStdout string | ToStderr string

definition println :: "string \<Rightarrow> printed" where "println s = ToStdout (s @ [CHR 0x0A])"
definition eprintln :: "string \<Rightarrow> printed" where "eprintln s = ToStderr (s @ [CHR 0x0A])"

text \<open>What a command ends with: its output, or the booted daemon that \<open>start\<close> then runs.\<close>

datatype 'p cli_outcome = Printed "printed list" | Booted "'p server"

record cli_files =
  cl_config :: config_files
  cl_keys :: key_files
  cl_db :: file_system

record cli_crates =
  cl_texts :: texts
  cl_toml :: toml
  cl_json :: json
  cl_identity :: identity_crates
  cl_pairing :: pairing_crates
  cl_unhex :: "string \<Rightarrow> (string, bytes) result"
  cl_uuid_parse :: "string \<Rightarrow> (string, uuid) result"
  cl_debug :: "string \<Rightarrow> string"
  cl_version :: string

text \<open>The answers of the operating system, and the fresh values a command may need.\<close>

record cli_env =
  cv_config :: config_env
  cv_keys :: identity_env
  cv_labels :: label_env
  cv_db :: write_env
  cv_rename :: "(string, unit) result"
  cv_fresh :: uuid
  cv_temporary :: uuid
  cv_now :: string

definition with_context :: "texts \<Rightarrow> string \<Rightarrow> (daemon_error, 'a) result \<Rightarrow> (string list, 'a) result" where
  "with_context tx context r = (case r of Inl e \<Rightarrow> Inl [context, daemon_error_text tx e] | Inr a \<Rightarrow> Inr a)"

text \<open>A path as the client database sees it: its parent and its file name.\<close>

definition db_path :: "(os_path \<Rightarrow> string) \<Rightarrow> os_path \<Rightarrow> path" where
  "db_path display p =
     \<lparr>pa_parent = (case path_parent p of None \<Rightarrow> [] | Some q \<Rightarrow> display q),
      pa_file_name = (case rev p of Normal name # _ \<Rightarrow> Some name | _ \<Rightarrow> None)\<rparr>"

definition cli_identity ::
  "cli_crates \<Rightarrow> cli_env \<Rightarrow> daemon_config \<Rightarrow> cli_files \<Rightarrow> ((daemon_error, daemon_identity) result \<times> cli_files) option" where
  "cli_identity cc env cfg fs =
     map_option (\<lambda>(r, keys). (r, fs\<lparr>cl_keys := keys\<rparr>))
       (load_or_create_identity (cv_keys env) (cl_identity cc) (cv_fresh env) (cv_temporary env) (cv_now env)
         (sy_identity_path (dc_security cfg)) (cl_keys fs))"

definition cli_open :: "cli_crates \<Rightarrow> cli_env \<Rightarrow> daemon_config \<Rightarrow> cli_files \<Rightarrow> (daemon_error, client_db) result \<times> cli_files" where
  "cli_open cc env cfg fs =
     (let display = ie_display (cv_keys env);
          (r, db_files) = open_db (cl_texts cc) (cl_json cc) (cv_db env) (db_path display (sy_clients_path (dc_security cfg)))
             (db_path display (sy_revoked_path (dc_security cfg))) (cl_db fs)
      in (r, fs\<lparr>cl_db := db_files\<rparr>))"

text \<open>\<open>Daemon::boot\<close>: the identity first; the database is not opened when that fails.\<close>

definition cli_boot :: "cli_crates \<Rightarrow> cli_env \<Rightarrow> daemon_config \<Rightarrow> cli_files \<Rightarrow> ((string list, 'p server) result \<times> cli_files) option" where
  "cli_boot cc env cfg fs =
     map_option (\<lambda>(identity, fs1).
       let (opened, fs2) = (case identity of Inl e \<Rightarrow> (Inl e, fs1) | Inr _ \<Rightarrow> cli_open cc env cfg fs1)
       in (with_context (cl_texts cc) ''boot daemon'' (boot (cl_version cc) (cv_labels env) identity opened cfg), fs2))
       (cli_identity cc env cfg fs)"

definition cli_line :: "cli_crates \<Rightarrow> client_record \<Rightarrow> printed" where
  "cli_line cc c =
     println (tx_uuid (cl_texts cc) (client_uuid (cr_client_id c)) @ ''  '' @ tx_hex (cl_texts cc) (take 6 (cr_public_key c)))"

definition cli_revoke :: "cli_crates \<Rightarrow> cli_env \<Rightarrow> string \<Rightarrow> daemon_config \<Rightarrow> cli_files \<Rightarrow> (string list, printed list) result \<times> cli_files" where
  "cli_revoke cc env client_id cfg fs =
     (case cl_uuid_parse cc client_id of
        Inl e \<Rightarrow> (Inl [''parse client_id '' @ cl_debug cc client_id, e], fs)
      | Inr uuid \<Rightarrow>
          (case cli_open cc env cfg fs of
             (Inl e, fs1) \<Rightarrow> (with_context (cl_texts cc) ''open client db'' (Inl e), fs1)
           | (Inr db, fs1) \<Rightarrow>
               (case revoke (cl_json cc) (cv_db env) (ClientId uuid) (db, cl_db fs1) of
                  (r, _, db_files) \<Rightarrow>
                    (and_then (with_context (cl_texts cc) ''revoke client'' r)
                       (\<lambda>_. Inr [println (''revoked '' @ tx_uuid (cl_texts cc) uuid)]), fs1\<lparr>cl_db := db_files\<rparr>))))"

definition cli_list_clients :: "cli_crates \<Rightarrow> cli_env \<Rightarrow> daemon_config \<Rightarrow> cli_files \<Rightarrow> (string list, printed list) result \<times> cli_files" where
  "cli_list_clients cc env cfg fs =
     (case cli_open cc env cfg fs of
        (r, fs1) \<Rightarrow>
          (and_then (with_context (cl_texts cc) ''open client db'' r) (\<lambda>db. Inr (map (cli_line cc) (list_clients db))), fs1))"

text \<open>\<open>p.exists()\<close> and \<open>std::fs::rename\<close>: the file with its mode moves, over an older one.\<close>

definition back_up_identity :: "cli_env \<Rightarrow> os_path \<Rightarrow> key_files \<Rightarrow> (string list, printed list) result \<times> key_files" where
  "back_up_identity env p keys =
     (if keys p \<noteq> None \<and> ie_stat (cv_keys env) = Inr ()
      then (let bak = with_extension p ''json.bak'' in
        case cv_rename env of
          Inl e \<Rightarrow> (Inl [''back up identity to '' @ ie_display (cv_keys env) bak, e], keys)
        | Inr _ \<Rightarrow> (Inr [eprintln (''old identity moved to '' @ ie_display (cv_keys env) bak)], keys(p := None, bak := keys p)))
      else (Inr [], keys))"

definition cli_regenerate ::
  "cli_crates \<Rightarrow> cli_env \<Rightarrow> bool \<Rightarrow> daemon_config \<Rightarrow> cli_files \<Rightarrow> ((string list, printed list) result \<times> cli_files) option" where
  "cli_regenerate cc env understood cfg fs =
     (if \<not> understood then Some (Inl [''refusing to regenerate without --yes-i-understand-this-breaks-all-clients''], fs)
      else (case back_up_identity env (sy_identity_path (dc_security cfg)) (cl_keys fs) of
        (Inl e, keys) \<Rightarrow> Some (Inl e, fs\<lparr>cl_keys := keys\<rparr>)
      | (Inr lines, keys) \<Rightarrow>
          map_option (\<lambda>(r, fs'). (and_then (with_context (cl_texts cc) ''generate new identity'' r)
              (\<lambda>new. Inr (lines @ [println (''new server_id = '' @ tx_uuid (cl_texts cc) (server_uuid (di_server_id new)))])), fs'))
            (cli_identity cc env cfg (fs\<lparr>cl_keys := keys\<rparr>))))"

definition printing :: "(string list, printed list) result \<times> cli_files \<Rightarrow> (string list, 'p cli_outcome) result \<times> cli_files" where
  "printing = (\<lambda>(r, fs). (and_then r (\<lambda>lines. Inr (Printed lines)), fs))"

text \<open>The arms of \<open>main\<close> once the configuration is loaded.\<close>

fun cli_run :: "cli_crates \<Rightarrow> cli_env \<Rightarrow> daemon_config \<Rightarrow> cli_cmd \<Rightarrow> cli_files \<Rightarrow> ((string list, 'p cli_outcome) result \<times> cli_files) option" where
  "cli_run cc env cfg CliStart fs = map_option (\<lambda>(r, fs'). (and_then r (\<lambda>d. Inr (Booted d)), fs')) (cli_boot cc env cfg fs)"
| "cli_run cc env cfg CliPairKey fs =
     map_option (\<lambda>(r, fs'). (and_then (with_context (cl_texts cc) ''load or create daemon identity'' r)
       (\<lambda>i. Inr (Printed [println (''server_id = '' @ tx_uuid (cl_texts cc) (server_uuid (di_server_id i))),
         println (''public_pk = '' @ tx_hex (cl_texts cc) (kp_public (di_keypair i)))])), fs')) (cli_identity cc env cfg fs)"
| "cli_run cc env cfg CliPairUrl fs =
     map_option (\<lambda>(r, fs'). (and_then r (\<lambda>d :: unit server.
       and_then (with_context (cl_texts cc) ''build pair url'' (pair_url (cl_texts cc) (cl_pairing cc) (cl_unhex cc) d))
         (\<lambda>url. Inr (Printed [println url]))), fs')) (cli_boot cc env cfg fs)"
| "cli_run cc env cfg CliPairQr fs =
     map_option (\<lambda>(r, fs'). (and_then r (\<lambda>d :: unit server.
       and_then (with_context (cl_texts cc) ''build pair QR code'' (pair_qr_code (cl_texts cc) (cl_pairing cc) (cl_unhex cc) d))
         (\<lambda>qr. Inr (Printed [println (qr_terminal qr), println (qr_url qr)]))), fs')) (cli_boot cc env cfg fs)"
| "cli_run cc env cfg CliListClients fs = Some (printing (cli_list_clients cc env cfg fs))"
| "cli_run cc env cfg (CliRevoke client_id) fs = Some (printing (cli_revoke cc env client_id cfg fs))"
| "cli_run cc env cfg (CliRegenerateIdentity understood) fs = map_option printing (cli_regenerate cc env understood cfg fs)"
| "cli_run cc env cfg CliPrintSampleConfig fs = None"

definition cli_main ::
  "cli_crates \<Rightarrow> cli_env \<Rightarrow> os_path option \<Rightarrow> cli_cmd \<Rightarrow> cli_files \<Rightarrow> ((string list, 'p cli_outcome) result \<times> cli_files) option" where
  "cli_main cc env config cmd fs =
     (if cmd = CliPrintSampleConfig then Some (Inr (Printed [ToStdout BUILD_CONFIG_TEMPLATE]), fs)
      else (case load_or_create_config (cl_texts cc) (cv_config env) (cl_toml cc) config (cl_config fs) of
        (Inl e, configs) \<Rightarrow> Some (Inl [daemon_error_text (cl_texts cc) e], fs\<lparr>cl_config := configs\<rparr>)
      | (Inr cfg, configs) \<Rightarrow> cli_run cc env cfg cmd (fs\<lparr>cl_config := configs\<rparr>)))"

section \<open>What the reload task takes over\<close>

text \<open>The text of revocations that the task saw last holds no revocation that the daemon does not know.\<close>

definition texts_known :: "json \<Rightarrow> client_db \<times> reload_task \<times> file_system \<Rightarrow> bool" where
  "texts_known js = (\<lambda>(db, rt, fs).
     \<forall>b rs. snd (rt_last rt) = Some b \<longrightarrow> js_read_revoked js b = Inr rs \<longrightarrow> set rs \<subseteq> set (st_revoked (db_state db)))"

lemma read_revoked_text:
  "read_text rp fs = Some b \<Longrightarrow> js_read_revoked js b = Inr rs \<Longrightarrow> read_revoked_file js rp fs = Inr rs"
  by (simp add: read_revoked_file_def read_json_def)

lemma reload_last:
  assumes "rt_phase rt = Sleeping" and "reload_round tx js fs (db, rt) = (db', rt')"
  shows "rt_last rt' = rt_last rt \<or> snd (rt_last rt') = read_text (db_revoked_path db) fs"
  using assms
  by (cases "load_state tx js (db_clients_path db) (db_revoked_path db) fs")
     (auto simp: reload_round_def reload_step_def numeral_eq_Suc Let_def set_state_def split: if_splits)

lemma texts_known_step:
  assumes inv: "db_inv tx js cp rp s" and ok: "json_ok js" "plain_path cp" "plain_path rp" "cp \<noteq> rp" and k: "texts_known js s"
  shows "texts_known js (db_op_step tx js op s)"
proof -
  obtain db rt fs where s: "s = (db, rt, fs)" by (cases s)
  obtain db' rt' fs' where s': "db_op_step tx js op s = (db', rt', fs')" by (metis prod_cases3)
  from db_op_inv [OF inv ok, of op] s s' have inv': "db_inv tx js cp rp (db', rt', fs')"
    and mono: "set (st_revoked (db_state db)) \<subseteq> set (st_revoked (db_state db'))" by (auto simp: is_revoked_def)
  have "rt_last rt' = rt_last rt \<or> snd (rt_last rt') = read_text rp fs' "
    using s s' inv reload_last [of rt tx js fs db] by (cases op) (auto simp: db_inv_def split: prod.splits)
  then show ?thesis
  proof
    assume "rt_last rt' = rt_last rt"
    with k [unfolded s] mono show ?thesis unfolding s' texts_known_def by auto
  next
    assume last: "snd (rt_last rt') = read_text rp fs'"
    have d: "on_disk tx js cp rp fs' (db_state db')" using inv' by (simp add: db_inv_def)
    have "set rs \<subseteq> set (st_revoked (db_state db'))" if "snd (rt_last rt') = Some b" "js_read_revoked js b = Inr rs" for b rs
      using on_disk_revocations [OF d read_revoked_text [of rp fs' b]] that last by simp
    then show ?thesis unfolding s' texts_known_def by simp
  qed
qed

lemma texts_known_run:
  assumes ok: "json_ok js" "plain_path cp" "plain_path rp" "cp \<noteq> rp"
  shows "db_inv tx js cp rp s \<Longrightarrow> texts_known js s \<Longrightarrow> texts_known js (db_run tx js ops s)"
proof (induction ops arbitrary: s)
  case (Cons op ops)
  from db_op_inv [OF Cons.prems(1) ok, of op] have "db_inv tx js cp rp (db_op_step tx js op s)" by blast
  from Cons.IH [OF this texts_known_step [OF Cons.prems(1) ok Cons.prems(2)]] show ?case by (simp add: db_run_def)
qed (simp add: db_run_def)

text \<open>The task of a daemon that has just opened its database.\<close>

definition reload_task_start :: "client_db \<Rightarrow> file_system \<Rightarrow> reload_task" where
  "reload_task_start db fs =
     \<lparr>rt_last = (read_text (db_clients_path db) fs, read_text (db_revoked_path db) fs), rt_phase = Sleeping\<rparr>"

lemma texts_known_start:
  assumes "db_inv tx js cp rp (db, reload_task_start db fs, fs)"
  shows "texts_known js (db, reload_task_start db fs, fs)"
  using assms on_disk_revocations read_revoked_text
  by (fastforce simp: db_inv_def texts_known_def reload_task_start_def)

text \<open>A round that finds a revocation the daemon does not know takes the files over and tells the watchers.\<close>

lemma reload_takes:
  assumes p: "db_clients_path db = cp" "db_revoked_path db = rp" "rt_phase rt = Sleeping"
    and load: "load_state tx js cp rp fs = Inr st"
    and new: "i \<in> set (st_revoked st)" "\<not> is_revoked i db" and k: "texts_known js (db, rt, fs0)"
  shows "\<exists>rt'. reload_round tx js fs (db, rt) = (notify_revocations (set_state st db), rt')"
proof -
  obtain rs where rs: "read_revoked_file js rp fs = Inr rs" "set (st_revoked st) = set rs"
    using load from_files_wf by (fastforce simp: load_state_def and_then_Inr)
  then obtain b where b: "read_text rp fs = Some b" "js_read_revoked js b = Inr rs"
    by (auto simp: read_revoked_file_def read_json_def split: option.splits sum.splits)
  have "snd (rt_last rt) \<noteq> Some b" using k b(2) rs(2) new by (auto simp: texts_known_def is_revoked_def)
  with b(1) have "(read_text cp fs, read_text rp fs) \<noteq> rt_last rt" by (metis snd_conv)
  moreover have "set (st_revoked (db_state db)) \<noteq> set (st_revoked st)" using new by (auto simp: is_revoked_def)
  ultimately show ?thesis
    using p load by (simp add: reload_round_def reload_step_def numeral_eq_Suc Let_def set_state_def)
qed

section \<open>Revoking a client of a running daemon\<close>

lemma revoked_iteration_stops:
  assumes "is_revoked (cn_client cn) (dm_db dm)" and "cn_seen cn \<noteq> db_notified (dm_db dm)"
  shows "\<exists>cn'. connection_iteration cr env frame_ready (dm, cn) = Some (Stop (Inr ()), dm, cn')"
  using assms by (simp add: connection_iteration_def on_revocation_change_def Let_def)

text \<open>Where the client database of a configuration file is kept.\<close>

definition security_of :: "cli_env \<Rightarrow> os_path option \<Rightarrow> security_config" where
  "security_of env config =
     for_config_path (cv_config env) (case config of None \<Rightarrow> default_config_path (cv_config env) | Some p \<Rightarrow> p)"

definition clients_place :: "cli_env \<Rightarrow> os_path option \<Rightarrow> path" where
  "clients_place env config = db_path (ie_display (cv_keys env)) (sy_clients_path (security_of env config))"

definition revocations_place :: "cli_env \<Rightarrow> os_path option \<Rightarrow> path" where
  "revocations_place env config = db_path (ie_display (cv_keys env)) (sy_revoked_path (security_of env config))"

lemma places: "plain_path (clients_place env config)" "plain_path (revocations_place env config)"
    "clients_place env config \<noteq> revocations_place env config"
  by (auto simp: clients_place_def revocations_place_def security_of_def for_config_path_def security_in_def db_path_def
      path_join_def plain_path_def)

lemma load_from_place:
  assumes "load_from env tm p fs = Inr cfg"
  shows "dc_security cfg = for_config_path env p"
proof -
  obtain t where "(case tm_read tm t of Inl e \<Rightarrow> Inl (DaemonConfigError e)
      | Inr f \<Rightarrow> Inr ((config_from env f)\<lparr>dc_security := for_config_path env p, dc_config_path := Some p\<rparr>)) = Inr cfg"
    using assms by (auto simp: load_from_def and_then_Inr)
  then show ?thesis by (cases "tm_read tm t") auto
qed

lemma config_place:
  assumes "load_or_create_config tx (cv_config env) tm config fs = (Inr cfg, fs')"
  shows "dc_security cfg = security_of env config"
proof -
  let ?p = "case config of None \<Rightarrow> default_config_path (cv_config env) | Some p \<Rightarrow> p"
  have "load_or_create_config_with_template tx (cv_config env) tm BUILD_CONFIG_TEMPLATE ?p fs = (Inr cfg, fs')"
    using assms by (simp add: load_or_create_config_def)
  then show ?thesis
    unfolding security_of_def
    by (cases "fs ?p \<noteq> None \<and> ce_stat_ok (cv_config env)")
       (auto simp: load_or_create_config_with_template_def with_psk_def Let_def and_then_Inr dest: load_from_place
        split: sum.splits prod.splits if_splits)
qed

lemma revoke_keeps_clients:
  "revoke js env i (db, fs) = (r, db', fs') \<Longrightarrow>
   lookup_by_id j db' = lookup_by_id j db \<and> lookup_by_public k db' = lookup_by_public k db"
  by (auto simp: revoke_def with_revoked_def notify_revocations_def set_state_def lookup_by_id_def lookup_by_public_def
      split: sum.splits prod.splits if_splits)

lemma cli_open_db:
  "dc_security cfg = security_of env config \<Longrightarrow> cli_open cc env cfg fs = (r, fs') \<Longrightarrow>
   open_db (cl_texts cc) (cl_json cc) (cv_db env) (clients_place env config) (revocations_place env config) (cl_db fs) = (r, cl_db fs')"
  by (auto simp: cli_open_def clients_place_def revocations_place_def Let_def split: prod.splits)

lemma cli_revoke_done:
  assumes "cli_main cc env config (CliRevoke text) fs = Some (Inr out, fs')" and "cl_uuid_parse cc text = Inr u"
  shows "\<exists>db fs1 db'. open_db (cl_texts cc) (cl_json cc) (cv_db env) (clients_place env config) (revocations_place env config)
      (cl_db fs) = (Inr db, fs1) \<and> revoke (cl_json cc) (cv_db env) (ClientId u) (db, fs1) = (Inr (), db', cl_db fs')"
proof -
  obtain r configs where l: "load_or_create_config (cl_texts cc) (cv_config env) (cl_toml cc) config (cl_config fs) = (r, configs)"
    by fastforce
  with assms(1) obtain cfg where cfg: "r = Inr cfg" by (cases r) (auto simp: cli_main_def)
  let ?fs = "fs\<lparr>cl_config := configs\<rparr>"
  obtain o1 fs2 where op: "cli_open cc env cfg ?fs = (o1, fs2)" by fastforce
  from assms l cfg op obtain db where o1: "o1 = Inr db"
    by (cases o1) (auto simp: cli_main_def printing_def cli_revoke_def with_context_def and_then_Inr)
  obtain x db' files where rv: "revoke (cl_json cc) (cv_db env) (ClientId u) (db, cl_db fs2) = (x, db', files)" by (metis prod_cases3)
  have "x = Inr () \<and> files = cl_db fs'"
    using assms l cfg op o1 rv
    by (cases x) (auto simp: cli_main_def printing_def cli_revoke_def with_context_def and_then_Inr)
  moreover have "dc_security cfg = security_of env config" by (rule config_place) (use l cfg in simp)
  ultimately show ?thesis using cli_open_db [of cfg env config cc ?fs o1 fs2] op o1 rv by auto
qed


section \<open>Witness\<close>

definition cli_sample_texts :: texts where
  "cli_sample_texts = \<lparr>tx_uuid = (\<lambda>_. []), tx_postcard = [], tx_hex = (\<lambda>_. [])\<rparr>"

definition cli_sample :: cli_crates where
  "cli_sample = \<lparr>cl_texts = cli_sample_texts, cl_toml = sample_toml, cl_json = toy_json,
     cl_identity = \<lparr>ic_keypair = Inl ''none'', ic_params = (\<lambda>_. Inl ''none''), ic_encode = (\<lambda>_. []), ic_decode = (\<lambda>_. Inl ''none''),
       ic_write = (\<lambda>_. Inl ''none''), ic_read = (\<lambda>_. Inl ''none''), ic_simple = (\<lambda>_. [])\<rparr>,
     cl_pairing = \<lparr>pc_json = (\<lambda>_. Inl ''none''), pc_base64 = (\<lambda>s. s), pc_qr = (\<lambda>_. Inl ''none'')\<rparr>,
     cl_unhex = (\<lambda>_. Inl ''none''), cl_uuid_parse = (\<lambda>s. Inr (of_nat (length s))), cl_debug = (\<lambda>s. s), cl_version = []\<rparr>"

definition cli_sample_env :: cli_env where
  "cli_sample_env = \<lparr>cv_config = sample_env,
     cv_keys = \<lparr>ie_display = (\<lambda>_. ''d''), ie_stat = Inr (), ie_read = Inr (), ie_create_dir = Inr (), ie_open = Inr (),
       ie_created_mode = 384, ie_write = Inr (), ie_partial = [], ie_sync = Inr (), ie_rename = Inr (), ie_chmod = Inr ()\<rparr>,
     cv_labels = \<lparr>le_var = (\<lambda>_. None), le_hostname = None\<rparr>, cv_db = quiet_env, cv_rename = Inr (), cv_fresh = 1,
     cv_temporary = 2, cv_now = []\<rparr>"

definition cli_sample_config :: "os_path" where
  "cli_sample_config = [Normal ''d'', Normal ''d.toml'']"

lemma cli_sample_places:
  "clients_place cli_sample_env (Some cli_sample_config) = clients_path"
  "revocations_place cli_sample_env (Some cli_sample_config) = revoked_path"
  by (simp_all add: clients_place_def revocations_place_def security_of_def cli_sample_env_def cli_sample_config_def
      for_config_path_def path_ends_with_def path_of_def starts_with_def security_in_def real_parent_def path_parent_def
      path_join_def db_path_def clients_path_def revoked_path_def)

lemma sample_load: "\<exists>cfg. load_from sample_env sample_toml p (fs(p \<mapsto> ''w'')) = Inr cfg"
proof -
  have "utf8_valid (map of_char ''w'')" by (simp add: of_char_def)
  then show ?thesis by (simp add: load_from_def read_to_string_def sample_toml_def sample_env_def [THEN arg_cong [where f = ce_read]])
qed

lemma cli_sample_revoke:
  assumes open_again: "open_db cli_sample_texts toy_json quiet_env clients_path revoked_path db_files = (Inr db, db_files)"
    and rv: "revoke toy_json quiet_env (ClientId (of_nat (length text))) (db, db_files) = (Inr (), db', db_files')"
  shows "\<exists>fs fs' out. cl_db fs = db_files \<and>
    cli_main cli_sample cli_sample_env (Some cli_sample_config) (CliRevoke text) fs = Some (Inr (Printed out), fs')"
proof -
  let ?fs = "\<lparr>cl_config = Map.empty(cli_sample_config \<mapsto> ''w''), cl_keys = Map.empty, cl_db = db_files\<rparr>"
  obtain cfg where cfg: "load_from sample_env sample_toml cli_sample_config (Map.empty(cli_sample_config \<mapsto> ''w'')) = Inr cfg"
    using sample_load by blast
  then have l: "load_or_create_config cli_sample_texts sample_env sample_toml (Some cli_sample_config) (cl_config ?fs) = (Inr cfg, cl_config ?fs)"
    by (simp add: load_or_create_config_def load_or_create_config_with_template_def sample_env_def [THEN arg_cong [where f = ce_stat_ok]])
  have place: "dc_security cfg = security_of cli_sample_env (Some cli_sample_config)"
    by (rule config_place) (use l in \<open>simp add: cli_sample_env_def\<close>)
  obtain r fs1 where op: "cli_open cli_sample cli_sample_env cfg ?fs = (r, fs1)" by fastforce
  from cli_open_db [OF place op] open_again have "r = Inr db \<and> cl_db fs1 = db_files"
    unfolding cli_sample_places by (simp add: cli_sample_def cli_sample_env_def)
  with op l rv have "cli_main cli_sample cli_sample_env (Some cli_sample_config) (CliRevoke text) ?fs =
      Some (Inr (Printed [println (''revoked '' @ tx_uuid cli_sample_texts (of_nat (length text)))]), fs1\<lparr>cl_db := db_files'\<rparr>)"
    by (simp add: cli_main_def cli_revoke_def printing_def with_context_def cli_sample_env_def [THEN arg_cong [where f = cv_config]]
        cli_sample_env_def [THEN arg_cong [where f = cv_db]] cli_sample_def [THEN arg_cong [where f = cl_texts]]
        cli_sample_def [THEN arg_cong [where f = cl_toml]] cli_sample_def [THEN arg_cong [where f = cl_json]]
        cli_sample_def [THEN arg_cong [where f = cl_uuid_parse]])
  then show ?thesis by (intro exI conjI) simp_all
qed


end
