(* ===== verification/Client_Identity.thy ===== *)
theory Client_Identity
  imports Client_Types
begin

text \<open>
  \<open>crates/client/client-core/src/identity.rs\<close>: the client's key pair and identifier, kept in
  a key-value store of the platform. The store is an interface: the operations are the
  record \<open>kv\<close>, what a client relies on is the locale \<open>kv_laws\<close>, and the file store of the
  desktop application interprets it. JSON, the curve and the uuid's bits are parameters;
  the random bytes are inputs.
\<close>

section \<open>The store\<close>

record 's kv =
  kv_get :: "string \<Rightarrow> 's \<Rightarrow> (client_error, bytes option) result"
  kv_put :: "string \<Rightarrow> bytes \<Rightarrow> 's \<Rightarrow> (client_error, unit) result \<times> 's"
  kv_delete :: "string \<Rightarrow> 's \<Rightarrow> (client_error, unit) result \<times> 's"

section \<open>Identities\<close>

definition KEYPAIR_KEY :: string where "KEYPAIR_KEY = ''cli-pocket/identity/v1/keypair''"
definition CLIENT_ID_KEY :: string where "CLIENT_ID_KEY = ''cli-pocket/identity/v1/client-id''"
definition EXPORT_VERSION :: u32 where "EXPORT_VERSION = 1"

record client_identity =
  ci_client_id :: client_id
  ci_keypair :: key_pair

record stored_key_pair =
  sk_version :: u32
  sk_public :: bytes
  sk_private :: bytes

record exported_identity =
  ei_version :: u32
  ei_client_id :: client_id
  ei_keypair :: stored_key_pair

text \<open>\<open>cx_public\<close> is \<open>None\<close> when the crate offers no curve.\<close>

record identity_codec =
  cx_public :: "(bytes \<Rightarrow> bytes) option"
  cx_uuid :: "bytes \<Rightarrow> uuid"
  cx_write_pair :: "stored_key_pair \<Rightarrow> (string, bytes) result"
  cx_read_pair :: "bytes \<Rightarrow> (string, stored_key_pair) result"
  cx_write_id :: "client_id \<Rightarrow> (string, bytes) result"
  cx_read_id :: "bytes \<Rightarrow> (string, client_id) result"
  cx_write_export :: "exported_identity \<Rightarrow> (string, bytes) result"
  cx_read_export :: "bytes \<Rightarrow> (string, exported_identity) result"

definition keypair_from_private :: "identity_codec \<Rightarrow> bytes \<Rightarrow> (client_error, key_pair) result" where
  "keypair_from_private cx private =
     (case cx_public cx of
        None \<Rightarrow> Inl (ClientCrypto ''Curve25519 resolver unavailable'')
      | Some pubkey \<Rightarrow>
          if length (pubkey private) \<noteq> 32 then Inl (ClientCrypto ''Curve25519 public key length'')
          else Inr \<lparr>kp_secret = private, kp_public = pubkey private\<rparr>)"

definition stored_from_keypair :: "key_pair \<Rightarrow> stored_key_pair" where
  "stored_from_keypair kp = \<lparr>sk_version = EXPORT_VERSION, sk_public = kp_public kp, sk_private = kp_secret kp\<rparr>"

definition into_keypair :: "identity_codec \<Rightarrow> stored_key_pair \<Rightarrow> (client_error, key_pair) result" where
  "into_keypair cx s =
     (if sk_version s \<noteq> EXPORT_VERSION
      then Inl (ClientIdentityError (''unknown keypair version '' @ show_nat (unat (sk_version s))))
      else and_then (keypair_from_private cx (sk_private s)) (\<lambda>kp.
        if kp_public kp \<noteq> sk_public s then Inl (ClientIdentityError ''public key does not match private key'')
        else Inr kp))"

definition decode_stored_keypair :: "identity_codec \<Rightarrow> bytes \<Rightarrow> (client_error, stored_key_pair) result" where
  "decode_stored_keypair cx b = map_err ClientIdentityError (cx_read_pair cx b)"

definition decode_client_id :: "identity_codec \<Rightarrow> bytes \<Rightarrow> (client_error, client_id) result" where
  "decode_client_id cx b = map_err ClientIdentityError (cx_read_id cx b)"

definition generate_client_id :: "identity_codec \<Rightarrow> bytes \<Rightarrow> client_id" where
  "generate_client_id cx random = ClientId (cx_uuid cx random)"

definition persist ::
  "'s kv \<Rightarrow> identity_codec \<Rightarrow> key_pair \<Rightarrow> client_id \<Rightarrow> 's \<Rightarrow> (client_error, unit) result \<times> 's" where
  "persist kv cx kp i s =
     (case cx_write_pair cx (stored_from_keypair kp) of
        Inl e \<Rightarrow> (Inl (ClientIdentityError e), s)
      | Inr keypair_bytes \<Rightarrow>
          (case cx_write_id cx i of
             Inl e \<Rightarrow> (Inl (ClientIdentityError e), s)
           | Inr client_id_bytes \<Rightarrow>
               (case kv_put kv KEYPAIR_KEY keypair_bytes s of
                  (Inl e, s1) \<Rightarrow> (Inl e, s1)
                | (Inr _, s1) \<Rightarrow> kv_put kv CLIENT_ID_KEY client_id_bytes s1)))"

text \<open>What a stored identity is read back as; \<open>None\<close> when there is no key pair.\<close>

definition load_stored :: "'s kv \<Rightarrow> identity_codec \<Rightarrow> 's \<Rightarrow> (client_error, client_identity option) result" where
  "load_stored kv cx s =
     and_then (kv_get kv KEYPAIR_KEY s) (\<lambda>found.
       case found of
         None \<Rightarrow> Inr None
       | Some b \<Rightarrow>
           and_then (and_then (decode_stored_keypair cx b) (into_keypair cx)) (\<lambda>kp.
           and_then (and_then (kv_get kv CLIENT_ID_KEY s) (ok_or (ClientIdentityError ''missing client-id''))) (\<lambda>id_bytes.
           and_then (decode_client_id cx id_bytes) (\<lambda>i.
             Inr (Some \<lparr>ci_client_id = i, ci_keypair = kp\<rparr>)))))"

definition load_or_create ::
  "'s kv \<Rightarrow> identity_codec \<Rightarrow> bytes \<Rightarrow> bytes \<Rightarrow> 's \<Rightarrow> (client_error, client_identity) result \<times> 's" where
  "load_or_create kv cx private random s =
     (case load_stored kv cx s of
        Inl e \<Rightarrow> (Inl e, s)
      | Inr (Some i) \<Rightarrow> (Inr i, s)
      | Inr None \<Rightarrow>
          (case keypair_from_private cx private of
             Inl e \<Rightarrow> (Inl e, s)
           | Inr kp \<Rightarrow>
               (let i = generate_client_id cx random in
                case persist kv cx kp i s of
                  (Inl e, s') \<Rightarrow> (Inl e, s')
                | (Inr _, s') \<Rightarrow> (Inr \<lparr>ci_client_id = i, ci_keypair = kp\<rparr>, s'))))"

definition export_serialized :: "identity_codec \<Rightarrow> client_identity \<Rightarrow> (client_error, bytes) result" where
  "export_serialized cx i =
     map_err ClientIdentityError (cx_write_export cx
       \<lparr>ei_version = EXPORT_VERSION, ei_client_id = ci_client_id i, ei_keypair = stored_from_keypair (ci_keypair i)\<rparr>)"

definition import_serialized :: "'s kv \<Rightarrow> identity_codec \<Rightarrow> bytes \<Rightarrow> 's \<Rightarrow> (client_error, unit) result \<times> 's" where
  "import_serialized kv cx b s =
     (case cx_read_export cx b of
        Inl e \<Rightarrow> (Inl (ClientIdentityError e), s)
      | Inr x \<Rightarrow>
          if ei_version x \<noteq> EXPORT_VERSION
          then (Inl (ClientIdentityError (''unknown identity export version '' @ show_nat (unat (ei_version x)))), s)
          else (case into_keypair cx (ei_keypair x) of
            Inl e \<Rightarrow> (Inl e, s)
          | Inr kp \<Rightarrow> persist kv cx kp (ei_client_id x) s))"

section \<open>What is stored is what is read\<close>

text \<open>The documented round trip of \<open>serde_json\<close>.\<close>

definition identity_codec_ok :: "identity_codec \<Rightarrow> bool" where
  "identity_codec_ok cx \<longleftrightarrow>
     (\<forall>p b. cx_write_pair cx p = Inr b \<longrightarrow> cx_read_pair cx b = Inr p) \<and>
     (\<forall>i b. cx_write_id cx i = Inr b \<longrightarrow> cx_read_id cx b = Inr i) \<and>
     (\<forall>x b. cx_write_export cx x = Inr b \<longrightarrow> cx_read_export cx b = Inr x)"

text \<open>A key pair whose public half belongs to its private half.\<close>

definition proper_keypair :: "identity_codec \<Rightarrow> key_pair \<Rightarrow> bool" where
  "proper_keypair cx kp \<longleftrightarrow> keypair_from_private cx (kp_secret kp) = Inr kp"

lemma keypair_from_private_proper: "keypair_from_private cx p = Inr kp \<Longrightarrow> proper_keypair cx kp"
  by (auto simp: keypair_from_private_def proper_keypair_def split: option.splits if_splits)

lemma into_keypair_proper: "into_keypair cx s = Inr kp \<Longrightarrow> proper_keypair cx kp"
  by (auto simp: into_keypair_def and_then_Inr split: if_splits dest: keypair_from_private_proper)

lemma into_keypair_stored: "proper_keypair cx kp \<Longrightarrow> into_keypair cx (stored_from_keypair kp) = Inr kp"
  by (simp add: into_keypair_def stored_from_keypair_def proper_keypair_def)

lemma keys_differ [simp]: "CLIENT_ID_KEY \<noteq> KEYPAIR_KEY" "KEYPAIR_KEY \<noteq> CLIENT_ID_KEY"
  by (simp_all add: CLIENT_ID_KEY_def KEYPAIR_KEY_def)

text \<open>
  What an identity needs of a store: after a \<open>put\<close> that succeeded, a \<open>get\<close> of that key
  returns the value and a \<open>get\<close> of another key what it returned before.
\<close>

locale kv_laws =
  fixes kv :: "'s kv"
  assumes put_get: "kv_put kv k v s = (Inr (), s') \<Longrightarrow> kv_get kv j s' = (if j = k then Inr (Some v) else kv_get kv j s)"
begin

lemma persist_load:
  assumes "identity_codec_ok cx" and "proper_keypair cx kp" and "persist kv cx kp i s = (Inr (), s')"
  shows "load_stored kv cx s' = Inr (Some \<lparr>ci_client_id = i, ci_keypair = kp\<rparr>)"
proof -
  from assms(3) obtain kb ib s1 where w: "cx_write_pair cx (stored_from_keypair kp) = Inr kb" "cx_write_id cx i = Inr ib"
      "kv_put kv KEYPAIR_KEY kb s = (Inr (), s1)" "kv_put kv CLIENT_ID_KEY ib s1 = (Inr (), s')"
    by (auto simp: persist_def split: sum.splits prod.splits)
  have g: "kv_get kv KEYPAIR_KEY s' = Inr (Some kb)" "kv_get kv CLIENT_ID_KEY s' = Inr (Some ib)"
    using put_get [OF w(4)] put_get [OF w(3)] by simp_all
  have r: "cx_read_pair cx kb = Inr (stored_from_keypair kp)" "cx_read_id cx ib = Inr i"
    using assms(1) w(1,2) by (auto simp: identity_codec_ok_def)
  show ?thesis
    by (simp add: load_stored_def g decode_stored_keypair_def decode_client_id_def r into_keypair_stored [OF assms(2)])
qed

lemma create_stored:
  assumes "identity_codec_ok cx" and "load_or_create kv cx private random s = (Inr i, s')"
  shows "load_stored kv cx s' = Inr (Some i)"
proof (cases "load_stored kv cx s")
  case (Inl e)
  with assms(2) show ?thesis by (simp add: load_or_create_def)
next
  case (Inr found)
  show ?thesis
  proof (cases found)
    case (Some j)
    with Inr assms(2) show ?thesis by (simp add: load_or_create_def)
  next
    case None
    with Inr assms(2) obtain kp where kp: "keypair_from_private cx private = Inr kp"
        "persist kv cx kp (generate_client_id cx random) s = (Inr (), s')"
        "i = \<lparr>ci_client_id = generate_client_id cx random, ci_keypair = kp\<rparr>"
      by (auto simp: load_or_create_def Let_def split: sum.splits prod.splits)
    from persist_load [OF assms(1) keypair_from_private_proper [OF kp(1)] kp(2)] kp(3) show ?thesis by simp
  qed
qed

lemma import_stored:
  assumes "identity_codec_ok cx" and "proper_keypair cx (ci_keypair i)" and "export_serialized cx i = Inr b"
    and "import_serialized kv cx b s = (Inr (), s')"
  shows "load_stored kv cx s' = Inr (Some i) \<and> persist kv cx (ci_keypair i) (ci_client_id i) s = (Inr (), s')"
proof -
  let ?x = "\<lparr>ei_version = EXPORT_VERSION, ei_client_id = ci_client_id i, ei_keypair = stored_from_keypair (ci_keypair i)\<rparr>"
  have "cx_write_export cx ?x = Inr b"
    using assms(3) by (cases "cx_write_export cx ?x") (simp_all add: export_serialized_def)
  with assms(1) have "cx_read_export cx b = Inr ?x" by (simp add: identity_codec_ok_def)
  with assms(4) into_keypair_stored [OF assms(2)] have p: "persist kv cx (ci_keypair i) (ci_client_id i) s = (Inr (), s')"
    by (simp add: import_serialized_def)
  from persist_load [OF assms(1,2) p] p show ?thesis by simp
qed

end

lemma load_stored_proper:
  assumes "load_stored kv cx s = Inr (Some i)"
  shows "proper_keypair cx (ci_keypair i)"
proof -
  from assms obtain q where "into_keypair cx q = Inr (ci_keypair i)"
    by (auto simp: load_stored_def and_then_Inr split: option.splits)
  then show ?thesis by (rule into_keypair_proper)
qed

lemma load_again: "load_stored kv cx s = Inr (Some i) \<Longrightarrow> load_or_create kv cx private random s = (Inr i, s)"
  by (simp add: load_or_create_def)

end
