(* ===== verification/Client_Store.thy ===== *)
theory Client_Store
  imports Client_Identity
begin

text \<open>
  \<open>crates/client/tauri-bindings/src/kv_store.rs\<close>: the key-value store of the desktop
  application, a map in memory that is written to one JSON file after every change. JSON and
  base64 are parameters. The answers of the file system to the coming flushes are part of
  the state; when they run out, every flush succeeds.
\<close>

section \<open>State\<close>

record store_codec =
  so_encode :: "bytes \<Rightarrow> string"
  so_decode :: "string \<Rightarrow> bytes option"
  so_write :: "(string, string) hash_map \<Rightarrow> (string, bytes) result"
  so_read :: "bytes \<Rightarrow> (string, (string, string) hash_map) result"

record flush_answer =
  fa_write :: "(string, unit) result"
  fa_partial :: bytes
  fa_rename :: "(string, unit) result"

record store_disk =
  sd_json :: "bytes option"
  sd_tmp :: "bytes option"

record file_store =
  fk_mem :: "(string, bytes) hash_map"
  fk_disk :: store_disk
  fk_answers :: "flush_answer list"

definition next_answer :: "file_store \<Rightarrow> flush_answer" where
  "next_answer s = (case fk_answers s of [] \<Rightarrow> \<lparr>fa_write = Inr (), fa_partial = [], fa_rename = Inr ()\<rparr> | a # _ \<Rightarrow> a)"

section \<open>Operations\<close>

text \<open>\<open>created\<close> and \<open>readable\<close>: the answers to creating the directory and to reading the file.\<close>

definition open_at ::
  "store_codec \<Rightarrow> (string, unit) result \<Rightarrow> (string, unit) result \<Rightarrow> store_disk \<Rightarrow> flush_answer list \<Rightarrow>
   (client_error, file_store) result" where
  "open_at so created readable disk answers =
     (case created of
        Inl e \<Rightarrow> Inl (ClientIdentityError (''create_dir_all: '' @ e))
      | Inr _ \<Rightarrow>
          (case sd_json disk of
             None \<Rightarrow> Inr \<lparr>fk_mem = [], fk_disk = disk, fk_answers = answers\<rparr>
           | Some b \<Rightarrow>
               (case readable of
                  Inl e \<Rightarrow> Inl (ClientIdentityError (''read store.json: '' @ e))
                | Inr _ \<Rightarrow>
                    (case so_read so b of
                       Inl e \<Rightarrow> Inl (ClientIdentityError (''parse store.json: '' @ e))
                     | Inr entries \<Rightarrow>
                         Inr \<lparr>fk_mem = map (\<lambda>(k, v). (k, case so_decode so v of None \<Rightarrow> [] | Some raw \<Rightarrow> raw)) entries,
                              fk_disk = disk, fk_answers = answers\<rparr>))))"

definition flush :: "store_codec \<Rightarrow> file_store \<Rightarrow> (client_error, unit) result \<times> file_store" where
  "flush so s =
     (let a = next_answer s; s0 = s\<lparr>fk_answers := drop 1 (fk_answers s)\<rparr> in
      case so_write so (map (\<lambda>(k, v). (k, so_encode so v)) (fk_mem s)) of
        Inl e \<Rightarrow> (Inl (ClientIdentityError (''serialize store: '' @ e)), s0)
      | Inr b \<Rightarrow>
          (case fa_write a of
             Inl e \<Rightarrow> (Inl (ClientIdentityError (''write store.tmp: '' @ e)),
                       s0\<lparr>fk_disk := (fk_disk s)\<lparr>sd_tmp := Some (fa_partial a)\<rparr>\<rparr>)
           | Inr _ \<Rightarrow>
               (case fa_rename a of
                  Inl e \<Rightarrow> (Inl (ClientIdentityError (''rename store.tmp: '' @ e)),
                            s0\<lparr>fk_disk := (fk_disk s)\<lparr>sd_tmp := Some b\<rparr>\<rparr>)
                | Inr _ \<Rightarrow> (Inr (), s0\<lparr>fk_disk := \<lparr>sd_json = Some b, sd_tmp = None\<rparr>\<rparr>))))"

definition store_get :: "string \<Rightarrow> file_store \<Rightarrow> (client_error, bytes option) result" where
  "store_get key s = Inr (hm_get (fk_mem s) key)"

definition store_put :: "store_codec \<Rightarrow> string \<Rightarrow> bytes \<Rightarrow> file_store \<Rightarrow> (client_error, unit) result \<times> file_store" where
  "store_put so key value s = flush so (s\<lparr>fk_mem := hm_insert key value (fk_mem s)\<rparr>)"

definition store_delete :: "store_codec \<Rightarrow> string \<Rightarrow> file_store \<Rightarrow> (client_error, unit) result \<times> file_store" where
  "store_delete so key s = flush so (s\<lparr>fk_mem := hm_remove key (fk_mem s)\<rparr>)"

definition file_kv :: "store_codec \<Rightarrow> file_store kv" where
  "file_kv so = \<lparr>kv_get = store_get, kv_put = store_put so, kv_delete = store_delete so\<rparr>"

section \<open>The laws\<close>

lemma flush_mem: "fk_mem (snd (flush so s)) = fk_mem s"
  by (simp add: flush_def Let_def split: sum.splits)

interpretation file_store: kv_laws "file_kv so" for so
proof
  fix k v s s' j
  assume p: "kv_put (file_kv so) k v s = (Inr (), s')"
  have "fk_mem s' = hm_insert k v (fk_mem s)"
    using flush_mem [of so "s\<lparr>fk_mem := hm_insert k v (fk_mem s)\<rparr>"] p by (simp add: file_kv_def store_put_def)
  then show "kv_get (file_kv so) j s' = (if j = k then Inr (Some v) else kv_get (file_kv so) j s)"
    by (simp add: file_kv_def store_get_def hm_simps)
qed

text \<open>The documented round trips of JSON and base64.\<close>

definition store_codec_ok :: "store_codec \<Rightarrow> bool" where
  "store_codec_ok so \<longleftrightarrow> (\<forall>b. so_decode so (so_encode so b) = Some b) \<and> (\<forall>m b. so_write so m = Inr b \<longrightarrow> so_read so b = Inr m)"

lemma flush_opens:
  assumes "store_codec_ok so" and "flush so s = (Inr (), s')"
  shows "open_at so (Inr ()) (Inr ()) (fk_disk s') answers = Inr (s'\<lparr>fk_answers := answers\<rparr>) \<and> fk_mem s' = fk_mem s"
proof -
  from assms(2) obtain b where b: "so_write so (map (\<lambda>(k, v). (k, so_encode so v)) (fk_mem s)) = Inr b"
      "fk_disk s' = \<lparr>sd_json = Some b, sd_tmp = None\<rparr>" "fk_mem s' = fk_mem s"
    by (auto simp: flush_def Let_def split: sum.splits)
  have "so_read so b = Inr (map (\<lambda>(k, v). (k, so_encode so v)) (fk_mem s))"
    using assms(1) b(1) by (simp add: store_codec_ok_def)
  moreover have "map ((\<lambda>(k, v). (k, case so_decode so v of None \<Rightarrow> [] | Some raw \<Rightarrow> raw)) \<circ> (\<lambda>(k, v). (k, so_encode so v)))
      (fk_mem s) = fk_mem s"
    using assms(1) by (simp add: store_codec_ok_def case_prod_beta comp_def)
  ultimately show ?thesis using b by (simp add: open_at_def)
qed

lemma put_opens:
  "store_codec_ok so \<Longrightarrow> store_put so k v s = (Inr (), s') \<Longrightarrow>
   open_at so (Inr ()) (Inr ()) (fk_disk s') answers = Inr (s'\<lparr>fk_answers := answers\<rparr>)"
  using flush_opens unfolding store_put_def by blast

text \<open>The store holds on disk what it holds in memory.\<close>

definition synced :: "store_codec \<Rightarrow> file_store \<Rightarrow> bool" where
  "synced so s \<longleftrightarrow> open_at so (Inr ()) (Inr ()) (fk_disk s) (fk_answers s) = Inr s"

lemma open_synced: "open_at so c r disk answers = Inr s \<Longrightarrow> synced so s"
  by (auto simp: synced_def open_at_def split: sum.splits option.splits)

lemma get_answers: "kv_get (file_kv so) k (s\<lparr>fk_answers := a\<rparr>) = kv_get (file_kv so) k s"
  by (simp add: file_kv_def store_get_def)

lemma load_answers: "load_stored (file_kv so) cx (s\<lparr>fk_answers := a\<rparr>) = load_stored (file_kv so) cx s"
  by (simp add: load_stored_def get_answers cong: option.case_cong)

lemma persist_opens:
  assumes "store_codec_ok so" and "persist (file_kv so) cx kp i s = (Inr (), s')"
  shows "open_at so (Inr ()) (Inr ()) (fk_disk s') answers = Inr (s'\<lparr>fk_answers := answers\<rparr>)"
  using assms(2) put_opens [OF assms(1)]
  by (auto simp: persist_def file_kv_def split: sum.splits prod.splits)

lemma synced_answers: "synced so s \<Longrightarrow> open_at so (Inr ()) (Inr ()) (fk_disk s) answers = Inr (s\<lparr>fk_answers := answers\<rparr>)"
  by (cases s) (auto simp: synced_def open_at_def split: option.splits sum.splits)

lemma create_opens:
  assumes "store_codec_ok so" and "synced so s" and "load_or_create (file_kv so) cx private random s = (Inr i, s')"
  shows "open_at so (Inr ()) (Inr ()) (fk_disk s') answers = Inr (s'\<lparr>fk_answers := answers\<rparr>)"
  using assms(3) synced_answers [OF assms(2)] persist_opens [OF assms(1)]
  by (auto simp: load_or_create_def Let_def split: sum.splits prod.splits option.splits)

text \<open>
  C8. The client's identity is created once: if making or loading it in an opened store
  succeeds, then every later run of the program that opens the same file loads exactly the
  same identifier and key pair, whatever random bytes it would have used, and writes
  nothing. And an identity that was exported and is imported into any other store is the
  one that is loaded from there on.
\<close>

theorem identity_persists:
  assumes "identity_codec_ok cx" and "store_codec_ok so" and "open_at so c r disk answers = Inr s"
    and "load_or_create (file_kv so) cx private random s = (Inr i, s')"
  shows "(\<exists>s2. open_at so (Inr ()) (Inr ()) (fk_disk s') answers2 = Inr s2 \<and>
      load_or_create (file_kv so) cx private2 random2 s2 = (Inr i, s2)) \<and>
    (\<forall>b t t'. export_serialized cx i = Inr b \<longrightarrow> import_serialized (file_kv so) cx b t = (Inr (), t') \<longrightarrow>
      (\<exists>t2. open_at so (Inr ()) (Inr ()) (fk_disk t') answers2 = Inr t2 \<and>
        load_or_create (file_kv so) cx private2 random2 t2 = (Inr i, t2)))"
proof -
  have stored: "load_stored (file_kv so) cx s' = Inr (Some i)" by (rule file_store.create_stored [OF assms(1,4)])
  have later: "load_or_create (file_kv so) cx private2 random2 (q\<lparr>fk_answers := answers2\<rparr>) = (Inr i, q\<lparr>fk_answers := answers2\<rparr>)"
    if "load_stored (file_kv so) cx q = Inr (Some i)" for q
    using that by (intro load_again) (simp add: load_answers)
  have imported: "\<exists>t2. open_at so (Inr ()) (Inr ()) (fk_disk t') answers2 = Inr t2 \<and>
      load_or_create (file_kv so) cx private2 random2 t2 = (Inr i, t2)"
    if "export_serialized cx i = Inr b" "import_serialized (file_kv so) cx b t = (Inr (), t')" for b t t'
    using file_store.import_stored [OF assms(1) load_stored_proper [OF stored] that] persist_opens [OF assms(2)] later
    by blast
  with create_opens [OF assms(2) open_synced [OF assms(3)] assms(4)] later [OF stored] show ?thesis by blast
qed

text \<open>
  An identity that was only half written can never be repaired by the program: when the
  flush for the key pair succeeds and the one for the identifier fails, every later run that
  opens the file fails with \<open>missing client-id\<close>, and so do all its attempts, because the key
  pair is found and nothing creates an identifier for it. The same holds for a key pair
  whose text is not base64: it is read as the empty value, not as a missing one, as the
  comment in the code says, and no new identity is made.
\<close>

lemma half_identity_is_final:
  assumes "identity_codec_ok cx" and "store_codec_ok so" and "cx_read_pair cx [] = Inl parse"
    and "open_at so c r \<lparr>sd_json = None, sd_tmp = tmp\<rparr> (good # bad # answers) = Inr s"
    and "fa_write good = Inr ()" and "fa_rename good = Inr ()" and "fa_write bad = Inl why"
    and "keypair_from_private cx private = Inr kp"
    and "cx_write_pair cx (stored_from_keypair kp) = Inr kb" and "cx_write_id cx (generate_client_id cx random) = Inr ib"
    and "\<forall>m. \<exists>b. so_write so m = Inr b"
  shows "\<exists>e s'. load_or_create (file_kv so) cx private random s = (Inl e, s') \<and>
    (\<exists>s2. open_at so (Inr ()) (Inr ()) (fk_disk s') [] = Inr s2 \<and>
      load_or_create (file_kv so) cx private2 random2 s2 = (Inl (ClientIdentityError ''missing client-id''), s2)) \<and>
    (\<forall>b3 v entries s3. so_read so b3 = Inr entries \<longrightarrow> map_of entries KEYPAIR_KEY = Some v \<longrightarrow> so_decode so v = None \<longrightarrow>
      open_at so (Inr ()) (Inr ()) \<lparr>sd_json = Some b3, sd_tmp = None\<rparr> [] = Inr s3 \<longrightarrow>
      load_or_create (file_kv so) cx private2 random2 s3 = (Inl (ClientIdentityError parse), s3))"
proof -
  let ?i = "generate_client_id cx random"
  have s: "s = \<lparr>fk_mem = [], fk_disk = \<lparr>sd_json = None, sd_tmp = tmp\<rparr>, fk_answers = good # bad # answers\<rparr>"
    using assms(4) by (auto simp: open_at_def split: sum.splits)
  let ?s1 = "\<lparr>fk_mem = hm_insert KEYPAIR_KEY kb [], fk_disk = fk_disk s, fk_answers = good # bad # answers\<rparr>"
  obtain t where t: "so_write so (map (\<lambda>(k, v). (k, so_encode so v)) (hm_insert KEYPAIR_KEY kb [])) = Inr t" using assms(11) by blast
  obtain t2 where t2: "so_write so (map (\<lambda>(k, v). (k, so_encode so v))
      (hm_insert CLIENT_ID_KEY ib (hm_insert KEYPAIR_KEY kb []))) = Inr t2" using assms(11) by blast
  let ?d = "\<lparr>sd_json = Some t, sd_tmp = None\<rparr>"
  have p1: "store_put so KEYPAIR_KEY kb s =
      (Inr (), \<lparr>fk_mem = hm_insert KEYPAIR_KEY kb [], fk_disk = ?d, fk_answers = bad # answers\<rparr>)"
    using t assms(5,6) by (simp add: s store_put_def flush_def next_answer_def)
  let ?s2 = "\<lparr>fk_mem = hm_insert CLIENT_ID_KEY ib (hm_insert KEYPAIR_KEY kb []),
      fk_disk = \<lparr>sd_json = Some t, sd_tmp = Some (fa_partial bad)\<rparr>, fk_answers = answers\<rparr>"
  have p2: "store_put so CLIENT_ID_KEY ib \<lparr>fk_mem = hm_insert KEYPAIR_KEY kb [], fk_disk = ?d, fk_answers = bad # answers\<rparr> =
      (Inl (ClientIdentityError (''write store.tmp: '' @ why)), ?s2)"
    using t2 assms(7) by (simp add: store_put_def flush_def next_answer_def)
  have none: "load_stored (file_kv so) cx s = Inr None" by (simp add: s load_stored_def file_kv_def store_get_def)
  have l: "load_or_create (file_kv so) cx private random s = (Inl (ClientIdentityError (''write store.tmp: '' @ why)), ?s2)"
    using none assms(8-10) p1 p2 by (simp add: load_or_create_def persist_def file_kv_def)
  let ?s3 = "\<lparr>fk_mem = hm_insert KEYPAIR_KEY kb [], fk_disk = fk_disk ?s2, fk_answers = []\<rparr>"
  have o: "open_at so (Inr ()) (Inr ()) (fk_disk ?s2) [] = Inr ?s3"
    using put_opens [OF assms(2) p1, of "[]"] by (auto simp: open_at_def split: sum.splits)
  have "cx_read_pair cx kb = Inr (stored_from_keypair kp)" using assms(1,9) by (simp add: identity_codec_ok_def)
  then have "load_stored (file_kv so) cx ?s3 = Inl (ClientIdentityError ''missing client-id'')"
    using into_keypair_stored [OF keypair_from_private_proper [OF assms(8)]]
    by (simp add: load_stored_def file_kv_def store_get_def hm_simps decode_stored_keypair_def)
  then have m: "load_or_create (file_kv so) cx private2 random2 ?s3 = (Inl (ClientIdentityError ''missing client-id''), ?s3)"
    by (simp add: load_or_create_def)
  have bad: "load_or_create (file_kv so) cx private2 random2 s3 = (Inl (ClientIdentityError parse), s3)"
    if "so_read so b3 = Inr entries" "map_of entries KEYPAIR_KEY = Some v" "so_decode so v = None"
      "open_at so (Inr ()) (Inr ()) \<lparr>sd_json = Some b3, sd_tmp = None\<rparr> [] = Inr s3" for b3 v entries s3
  proof -
    have "fk_mem s3 = map (\<lambda>(k, v). (k, case so_decode so v of None \<Rightarrow> [] | Some raw \<Rightarrow> raw)) entries"
      using that(1,4) by (auto simp: open_at_def)
    then have "hm_get (fk_mem s3) KEYPAIR_KEY = Some []" using that(2,3) by (simp add: hm_get_def map_of_map)
    then show ?thesis
      using assms(3) by (simp add: load_or_create_def load_stored_def file_kv_def store_get_def decode_stored_keypair_def)
  qed
  from l o m bad show ?thesis by blast
qed

section \<open>Witnesses\<close>

text \<open>A store format that writes a map as the bytes of a number, and an identity that is all zeros.\<close>

definition sample_store :: store_codec where
  "sample_store = \<lparr>so_encode = map (\<lambda>b. char_of (unat b)), so_decode = (\<lambda>t. Some (map (\<lambda>c. of_nat (of_char c)) t)),
     so_write = (\<lambda>m. Inr (replicate (to_nat m) 1)), so_read = (\<lambda>b. Inr (from_nat (length b)))\<rparr>"

lemma sample_store_ok: "store_codec_ok sample_store"
proof -
  have "of_nat (of_char (char_of (unat b))) = b" for b :: u8
    using unat_lt_pow [of b] by simp
  then show ?thesis by (simp add: store_codec_ok_def sample_store_def comp_def)
qed

definition sample_pair :: key_pair where
  "sample_pair = \<lparr>kp_secret = [5], kp_public = replicate 32 0\<rparr>"

definition sample_identities :: identity_codec where
  "sample_identities = \<lparr>cx_public = Some (\<lambda>_. replicate 32 0), cx_uuid = (\<lambda>_. 9),
     cx_write_pair = (\<lambda>p. if p = stored_from_keypair sample_pair then Inr [1] else Inl ''unsupported''),
     cx_read_pair = (\<lambda>b. if b = [1] then Inr (stored_from_keypair sample_pair) else Inl ''EOF''),
     cx_write_id = (\<lambda>i. if i = ClientId 9 then Inr [2] else Inl ''unsupported''), cx_read_id = (\<lambda>_. Inr (ClientId 9)),
     cx_write_export = (\<lambda>_. Inl ''unsupported''), cx_read_export = (\<lambda>_. Inl ''unsupported'')\<rparr>"

lemma sample_identities_ok:
  "identity_codec_ok sample_identities" "keypair_from_private sample_identities [5] = Inr sample_pair"
  "cx_write_pair sample_identities (stored_from_keypair sample_pair) = Inr [1]"
  "cx_write_id sample_identities (generate_client_id sample_identities []) = Inr [2]"
  "cx_read_pair sample_identities [] = Inl ''EOF''"
  by (auto simp: identity_codec_ok_def sample_identities_def keypair_from_private_def sample_pair_def generate_client_id_def
      split: if_splits)

definition no_disk :: store_disk where "no_disk = \<lparr>sd_json = None, sd_tmp = None\<rparr>"

lemma sample_open:
  "open_at sample_store (Inr ()) (Inr ()) no_disk answers = Inr \<lparr>fk_mem = [], fk_disk = no_disk, fk_answers = answers\<rparr>"
  by (simp add: open_at_def no_disk_def)

lemma sample_create:
  "\<exists>s. load_or_create (file_kv sample_store) sample_identities [5] [] \<lparr>fk_mem = [], fk_disk = no_disk, fk_answers = []\<rparr> =
     (Inr \<lparr>ci_client_id = ClientId 9, ci_keypair = sample_pair\<rparr>, s)"
  by (simp add: load_or_create_def load_stored_def file_kv_def store_get_def sample_identities_ok persist_def store_put_def
      flush_def next_answer_def sample_store_def) (simp add: generate_client_id_def sample_identities_def)

theorem identity_persists_witness:
  "\<exists>s s2. load_or_create (file_kv sample_store) sample_identities [5] [] \<lparr>fk_mem = [], fk_disk = no_disk, fk_answers = []\<rparr> =
      (Inr \<lparr>ci_client_id = ClientId 9, ci_keypair = sample_pair\<rparr>, s) \<and>
    open_at sample_store (Inr ()) (Inr ()) (fk_disk s) [] = Inr s2 \<and>
    load_or_create (file_kv sample_store) sample_identities [6] [7] s2 =
      (Inr \<lparr>ci_client_id = ClientId 9, ci_keypair = sample_pair\<rparr>, s2)"
proof -
  obtain s where s: "load_or_create (file_kv sample_store) sample_identities [5] [] \<lparr>fk_mem = [], fk_disk = no_disk, fk_answers = []\<rparr> =
      (Inr \<lparr>ci_client_id = ClientId 9, ci_keypair = sample_pair\<rparr>, s)" using sample_create by blast
  from identity_persists [OF sample_identities_ok(1) sample_store_ok sample_open s] s show ?thesis by blast
qed

end
