(* ===== verification/Client_Actor.thy ===== *)
theory Client_Actor
  imports Client_Types "HOL-Library.Sublist"
begin

text \<open>
  \<open>crates/client/tauri-bindings/src/session_handle.rs\<close>: the thread of the desktop
  application that owns the session. One task (\<open>actor_loop\<close>) takes commands from the
  application and events from the session, commands first; the session's own task takes
  terminal commands and emits events. \<open>act_exec\<close> is one step of one of them, and a theorem
  holds for every list of steps. A sender of a \<open>futures\<close> channel pushes its message and then
  waits until the receiver has taken one if more than the capacity of 64 are queued; the
  queue to the application's event pump holds 64 and a sender waits for room.
  \<open>ac_replies\<close>, \<open>ac_forwarded\<close>, \<open>se_channel\<close> and \<open>se_emitted\<close> are histories.
\<close>

section \<open>Commands\<close>

text \<open>The commands that are passed to the session in a task of their own.\<close>

datatype session_ask =
    AskCreate terminal_create_params
  | AskOpen terminal_id
  | AskList
  | AskHistory terminal_id "stream_seq option" u32
  | AskGetConfig
  | AskSetConfig server_config
  | AskKill terminal_id

datatype actor_cmd =
    ActIsConnected
  | ActConnect string
  | ActAsk session_ask
  | ActInput terminal_id bytes
  | ActResize terminal_id u16 u16
  | ActShutdown

datatype actor_reply = ReplyBool bool | ReplyUnit "(string, unit) result"

section \<open>State\<close>

definition EVENTS_CAPACITY :: nat where "EVENTS_CAPACITY = 64"
definition CMDS_CAPACITY :: nat where "CMDS_CAPACITY = 64"
definition INBOX_CAPACITY :: nat where "INBOX_CAPACITY = 32"
definition PUMP_CAPACITY :: nat where "PUMP_CAPACITY = 64"

record client_task =
  se_channel :: string
  se_active :: "terminal_id option"
  se_events :: "client_event list"
  se_emitting :: bool
  se_over :: bool
  se_cmds :: "terminal_cmd list"
  se_asks :: "session_ask list"
  se_emitted :: "client_event list"

datatype actor_task = Ready | Writing nat | Forwarding nat string client_event

record actor =
  ac_channel :: "string option"
  ac_session :: "nat option"
  ac_rx :: "nat option"
  ac_task :: actor_task
  ac_inbox :: "actor_cmd list"
  ac_pump :: "(string \<times> client_event) list"
  ac_sessions :: "client_task list"
  ac_replies :: "actor_reply list"
  ac_forwarded :: "(nat \<times> string \<times> client_event) list"

definition new_task :: "string \<Rightarrow> client_task" where
  "new_task channel = \<lparr>se_channel = channel, se_active = None, se_events = [], se_emitting = False, se_over = False,
     se_cmds = [], se_asks = [], se_emitted = []\<rparr>"

definition on_task :: "nat \<Rightarrow> (client_task \<Rightarrow> client_task) \<Rightarrow> actor \<Rightarrow> actor" where
  "on_task k f st = st\<lparr>ac_sessions := (ac_sessions st)[k := f (ac_sessions st ! k)]\<rparr>"

definition reply :: "actor_reply \<Rightarrow> actor \<Rightarrow> actor" where
  "reply r st = st\<lparr>ac_replies := ac_replies st @ [r]\<rparr>"

text \<open>Dropping the receiver lets a session go on that waits for room.\<close>

definition drop_session :: "actor \<Rightarrow> actor" where
  "drop_session st =
     (case ac_rx st of None \<Rightarrow> st | Some k \<Rightarrow> on_task k (\<lambda>se. se\<lparr>se_emitting := False\<rparr>) st)
       \<lparr>ac_channel := None, ac_session := None, ac_rx := None\<rparr>"

section \<open>The actor\<close>

text \<open>\<open>write_input\<close> and \<open>resize\<close> of the handle: the reply is sent when the send has finished.\<close>

definition write_cmd :: "nat \<Rightarrow> terminal_cmd \<Rightarrow> actor \<Rightarrow> actor" where
  "write_cmd k c st =
     (if se_over (ac_sessions st ! k) then reply (ReplyUnit (Inl ''backend closed'')) st
      else (let st1 = on_task k (\<lambda>se. se\<lparr>se_cmds := se_cmds se @ [c]\<rparr>) st in
        if CMDS_CAPACITY < length (se_cmds (ac_sessions st ! k)) + 1 then st1\<lparr>ac_task := Writing k\<rparr>
        else reply (ReplyUnit (Inr ())) st1))"

definition with_active_terminal :: "texts \<Rightarrow> terminal_id \<Rightarrow> terminal_cmd \<Rightarrow> actor \<Rightarrow> actor" where
  "with_active_terminal tx requested c st =
     (case ac_session st of
        None \<Rightarrow> reply (ReplyUnit (Inl ''not connected'')) st
      | Some k \<Rightarrow>
          (case se_active (ac_sessions st ! k) of
             None \<Rightarrow> reply (ReplyUnit (Inl ''no active terminal'')) st
           | Some i \<Rightarrow>
               if i \<noteq> requested
               then reply (ReplyUnit (Inl (''terminal TerminalId('' @ tx_uuid tx (terminal_uuid requested) @
                              '') is not the active terminal''))) st
               else write_cmd k c st))"

fun handle_command :: "texts \<Rightarrow> actor_cmd \<Rightarrow> actor \<Rightarrow> actor" where
  "handle_command tx ActIsConnected st = reply (ReplyBool (ac_session st \<noteq> None)) st"
| "handle_command tx (ActConnect channel) st =
     (let st1 = drop_session st; k = length (ac_sessions st1) in
      reply (ReplyUnit (Inr ()))
        (st1\<lparr>ac_channel := Some channel, ac_sessions := ac_sessions st1 @ [new_task channel],
           ac_session := Some k, ac_rx := Some k\<rparr>))"
| "handle_command tx (ActAsk ask) st =
     (case ac_session st of
        None \<Rightarrow> reply (ReplyUnit (Inl ''not connected'')) st
      | Some k \<Rightarrow> on_task k (\<lambda>se. se\<lparr>se_asks := se_asks se @ [ask]\<rparr>) st)"
| "handle_command tx (ActInput i bs) st = with_active_terminal tx i (CmdInput i bs) st"
| "handle_command tx (ActResize i cols rows) st = with_active_terminal tx i (CmdResize i cols rows) st"
| "handle_command tx ActShutdown st = reply (ReplyUnit (Inr ())) (drop_session st)"

text \<open>An event that was taken: it waits for room in the pump, or goes nowhere without a channel.\<close>

definition forward_event :: "nat \<Rightarrow> client_event \<Rightarrow> actor \<Rightarrow> actor" where
  "forward_event k e st =
     (case ac_channel st of
        None \<Rightarrow> st
      | Some ch \<Rightarrow>
          if length (ac_pump st) < PUMP_CAPACITY
          then st\<lparr>ac_pump := ac_pump st @ [(ch, e)], ac_forwarded := ac_forwarded st @ [(k, ch, e)]\<rparr>
          else st\<lparr>ac_task := Forwarding k ch e\<rparr>)"

text \<open>One turn of the select: a command if there is one, otherwise an event of the session.\<close>

definition actor_turn :: "texts \<Rightarrow> actor \<Rightarrow> actor option" where
  "actor_turn tx st =
     (if ac_task st \<noteq> Ready then None
      else (case ac_inbox st of
        c # cs \<Rightarrow> Some (handle_command tx c (st\<lparr>ac_inbox := cs\<rparr>))
      | [] \<Rightarrow>
          (case ac_rx st of
             None \<Rightarrow> None
           | Some k \<Rightarrow>
               (case se_events (ac_sessions st ! k) of
                  e # es \<Rightarrow> Some (forward_event k e (on_task k (\<lambda>se. se\<lparr>se_events := es, se_emitting := False\<rparr>) st))
                | [] \<Rightarrow> if se_over (ac_sessions st ! k) then Some (drop_session st) else None))))"

section \<open>The other tasks\<close>

text \<open>The pump takes an event; an actor that waits for room goes on.\<close>

definition pump_turn :: "actor \<Rightarrow> actor option" where
  "pump_turn st =
     (case ac_pump st of
        [] \<Rightarrow> None
      | _ # ps \<Rightarrow>
          (case ac_task st of
             Forwarding k ch e \<Rightarrow>
               Some (st\<lparr>ac_pump := ps @ [(ch, e)], ac_task := Ready, ac_forwarded := ac_forwarded st @ [(k, ch, e)]\<rparr>)
           | _ \<Rightarrow> Some (st\<lparr>ac_pump := ps\<rparr>)))"

text \<open>The session takes a terminal command; an actor that waits for the queue goes on and replies.\<close>

definition session_take :: "nat \<Rightarrow> actor \<Rightarrow> actor option" where
  "session_take k st =
     (let se = ac_sessions st ! k in
      if se_over se \<or> se_emitting se then None
      else (case se_cmds se of
        [] \<Rightarrow> None
      | _ # cs \<Rightarrow>
          (let st1 = on_task k (\<lambda>se. se\<lparr>se_cmds := cs\<rparr>) st in
           Some (if ac_task st = Writing k then reply (ReplyUnit (Inr ())) (st1\<lparr>ac_task := Ready\<rparr>) else st1))))"

text \<open>The session emits an event; it takes commands first, and an event nobody waits for is lost.\<close>

definition session_emit :: "nat \<Rightarrow> client_event \<Rightarrow> actor \<Rightarrow> actor option" where
  "session_emit k e st =
     (let se = ac_sessions st ! k in
      if se_over se \<or> se_emitting se \<or> se_cmds se \<noteq> [] then None
      else if ac_rx st \<noteq> Some k then Some st
      else Some (on_task k (\<lambda>se. se\<lparr>se_events := se_events se @ [e], se_emitted := se_emitted se @ [e],
                      se_emitting := EVENTS_CAPACITY < length (se_events se) + 1\<rparr>) st))"

text \<open>An answer of the server makes a terminal the active one, or the session ends.\<close>

definition session_activate :: "nat \<Rightarrow> terminal_id option \<Rightarrow> actor \<Rightarrow> actor option" where
  "session_activate k i st =
     (let se = ac_sessions st ! k in
      if se_over se \<or> se_emitting se then None else Some (on_task k (\<lambda>se. se\<lparr>se_active := i\<rparr>) st))"

definition session_end :: "nat \<Rightarrow> actor \<Rightarrow> actor option" where
  "session_end k st =
     (if se_over (ac_sessions st ! k) \<or> se_emitting (ac_sessions st ! k) then None
      else (let st1 = on_task k (\<lambda>se. se\<lparr>se_over := True, se_cmds := []\<rparr>) st in
        Some (if ac_task st = Writing k then reply (ReplyUnit (Inr ())) (st1\<lparr>ac_task := Ready\<rparr>) else st1)))"

datatype act_label =
    LArrive actor_cmd | LActor | LPump | LTake nat | LEmit nat client_event | LActivate nat "terminal_id option" | LEnd nat

fun act_exec :: "texts \<Rightarrow> act_label \<Rightarrow> actor \<Rightarrow> actor option" where
  "act_exec tx (LArrive c) st =
     (if length (ac_inbox st) < INBOX_CAPACITY then Some (st\<lparr>ac_inbox := ac_inbox st @ [c]\<rparr>) else None)"
| "act_exec tx LActor st = actor_turn tx st"
| "act_exec tx LPump st = pump_turn st"
| "act_exec tx (LTake k) st = (if k < length (ac_sessions st) then session_take k st else None)"
| "act_exec tx (LEmit k e) st = (if k < length (ac_sessions st) then session_emit k e st else None)"
| "act_exec tx (LActivate k i) st = (if k < length (ac_sessions st) then session_activate k i st else None)"
| "act_exec tx (LEnd k) st = (if k < length (ac_sessions st) then session_end k st else None)"

fun act_run :: "texts \<Rightarrow> act_label list \<Rightarrow> actor \<Rightarrow> actor option" where
  "act_run tx [] st = Some st"
| "act_run tx (l # ls) st = (case act_exec tx l st of None \<Rightarrow> None | Some st' \<Rightarrow> act_run tx ls st')"

definition actor_start :: actor where
  "actor_start = \<lparr>ac_channel = None, ac_session = None, ac_rx = None, ac_task = Ready, ac_inbox = [], ac_pump = [],
     ac_sessions = [], ac_replies = [], ac_forwarded = []\<rparr>"

section \<open>Events stay with their session\<close>

definition forwarded_of :: "nat \<Rightarrow> actor \<Rightarrow> (string \<times> client_event) list" where
  "forwarded_of k st = map snd (filter (\<lambda>x. fst x = k) (ac_forwarded st))"

definition pending_of :: "nat \<Rightarrow> actor \<Rightarrow> (string \<times> client_event) list" where
  "pending_of k st = (case ac_task st of Forwarding j ch e \<Rightarrow> if j = k then [(ch, e)] else [] | _ \<Rightarrow> [])"

definition labelled :: "client_task \<Rightarrow> client_event list \<Rightarrow> (string \<times> client_event) list" where
  "labelled se es = map (Pair (se_channel se)) es"

text \<open>What was forwarded for a session, then what the actor holds, then what is queued, is what
  the session emitted while its receiver was kept; after that it is a prefix.\<close>

definition events_inv :: "actor \<Rightarrow> bool" where
  "events_inv st \<longleftrightarrow>
     (\<forall>k < length (ac_sessions st).
        prefix (forwarded_of k st @ pending_of k st) (labelled (ac_sessions st ! k) (se_emitted (ac_sessions st ! k)))) \<and>
     (\<forall>k. ac_rx st = Some k \<longrightarrow> k < length (ac_sessions st) \<and> ac_channel st = Some (se_channel (ac_sessions st ! k)) \<and>
        forwarded_of k st @ pending_of k st @ labelled (ac_sessions st ! k) (se_events (ac_sessions st ! k)) =
        labelled (ac_sessions st ! k) (se_emitted (ac_sessions st ! k))) \<and>
     (\<forall>k. forwarded_of k st @ pending_of k st \<noteq> [] \<longrightarrow> k < length (ac_sessions st))"

lemmas actor_defs = on_task_def reply_def drop_session_def new_task_def

lemma on_task_simps [simp]:
  "ac_channel (on_task k f st) = ac_channel st" "ac_session (on_task k f st) = ac_session st"
  "ac_rx (on_task k f st) = ac_rx st" "ac_task (on_task k f st) = ac_task st"
  "ac_inbox (on_task k f st) = ac_inbox st" "ac_pump (on_task k f st) = ac_pump st"
  "ac_replies (on_task k f st) = ac_replies st" "ac_forwarded (on_task k f st) = ac_forwarded st"
  "length (ac_sessions (on_task k f st)) = length (ac_sessions st)"
  "j < length (ac_sessions st) \<Longrightarrow>
     ac_sessions (on_task k f st) ! j = (if j = k then f (ac_sessions st ! j) else ac_sessions st ! j)"
  by (simp_all add: on_task_def nth_list_update)

lemma reply_simps [simp]:
  "ac_channel (reply r st) = ac_channel st" "ac_session (reply r st) = ac_session st"
  "ac_rx (reply r st) = ac_rx st" "ac_task (reply r st) = ac_task st"
  "ac_inbox (reply r st) = ac_inbox st" "ac_pump (reply r st) = ac_pump st"
  "ac_sessions (reply r st) = ac_sessions st" "ac_forwarded (reply r st) = ac_forwarded st"
  by (simp_all add: reply_def)

lemma events_inv_intro:
  assumes "\<And>k. k < length (ac_sessions st) \<Longrightarrow>
      prefix (forwarded_of k st @ pending_of k st) (labelled (ac_sessions st ! k) (se_emitted (ac_sessions st ! k)))"
    "\<And>k. ac_rx st = Some k \<Longrightarrow> k < length (ac_sessions st) \<and> ac_channel st = Some (se_channel (ac_sessions st ! k)) \<and>
        forwarded_of k st @ pending_of k st @ labelled (ac_sessions st ! k) (se_events (ac_sessions st ! k)) =
        labelled (ac_sessions st ! k) (se_emitted (ac_sessions st ! k))"
    "\<And>k. forwarded_of k st @ pending_of k st \<noteq> [] \<Longrightarrow> k < length (ac_sessions st)"
  shows "events_inv st"
  unfolding events_inv_def using assms by blast

lemma events_inv_dest:
  assumes "events_inv st"
  shows "k < length (ac_sessions st) \<Longrightarrow>
      prefix (forwarded_of k st @ pending_of k st) (labelled (ac_sessions st ! k) (se_emitted (ac_sessions st ! k)))"
    "ac_rx st = Some k \<Longrightarrow> k < length (ac_sessions st)"
    "ac_rx st = Some k \<Longrightarrow> ac_channel st = Some (se_channel (ac_sessions st ! k))"
    "ac_rx st = Some k \<Longrightarrow>
        forwarded_of k st @ pending_of k st @ labelled (ac_sessions st ! k) (se_events (ac_sessions st ! k)) =
        labelled (ac_sessions st ! k) (se_emitted (ac_sessions st ! k))"
    "forwarded_of k st @ pending_of k st \<noteq> [] \<Longrightarrow> k < length (ac_sessions st)"
  using assms unfolding events_inv_def by blast+

text \<open>Steps that touch neither events nor the receiver, except to drop it.\<close>

definition same_events :: "actor \<Rightarrow> actor \<Rightarrow> bool" where
  "same_events st st' \<longleftrightarrow>
     (\<forall>k. forwarded_of k st' @ pending_of k st' = forwarded_of k st @ pending_of k st) \<and>
     length (ac_sessions st') = length (ac_sessions st) \<and>
     (\<forall>k < length (ac_sessions st). se_channel (ac_sessions st' ! k) = se_channel (ac_sessions st ! k) \<and>
        se_events (ac_sessions st' ! k) = se_events (ac_sessions st ! k) \<and>
        se_emitted (ac_sessions st' ! k) = se_emitted (ac_sessions st ! k)) \<and>
     (ac_rx st' = None \<or> ac_rx st' = ac_rx st \<and> ac_channel st' = ac_channel st)"

lemma events_inv_same:
  assumes inv: "events_inv st" and same: "same_events st st'"
  shows "events_inv st'"
proof (rule events_inv_intro)
  fix k
  note s = same [unfolded same_events_def]
  show "prefix (forwarded_of k st' @ pending_of k st') (labelled (ac_sessions st' ! k) (se_emitted (ac_sessions st' ! k)))"
    if "k < length (ac_sessions st')"
    using s that events_inv_dest(1) [OF inv, of k] by (simp add: labelled_def)
  show "k < length (ac_sessions st')" if "forwarded_of k st' @ pending_of k st' \<noteq> []"
    using s that events_inv_dest(5) [OF inv, of k] by simp
  assume "ac_rx st' = Some k"
  with s have rx: "ac_rx st = Some k" "ac_channel st' = ac_channel st" by auto
  have fp: "forwarded_of k st' @ pending_of k st' @ xs = forwarded_of k st @ pending_of k st @ xs" for xs
    using s by (metis append.assoc)
  show "k < length (ac_sessions st') \<and> ac_channel st' = Some (se_channel (ac_sessions st' ! k)) \<and>
     forwarded_of k st' @ pending_of k st' @ labelled (ac_sessions st' ! k) (se_events (ac_sessions st' ! k)) =
     labelled (ac_sessions st' ! k) (se_emitted (ac_sessions st' ! k))"
    using s rx events_inv_dest(2-4) [OF inv rx(1)] by (simp add: fp labelled_def)
qed

definition deadlocked :: "nat \<Rightarrow> actor \<Rightarrow> bool" where
  "deadlocked k st \<longleftrightarrow> k < length (ac_sessions st) \<and> ac_task st = Writing k \<and> ac_rx st = Some k \<and>
     se_emitting (ac_sessions st ! k)"

lemma deadlocked_exec:
  assumes "act_exec tx l st = Some st'" "deadlocked k st"
  shows "deadlocked k st' \<and> ac_replies st' = ac_replies st \<and> ac_forwarded st' = ac_forwarded st \<and>
         se_emitted (ac_sessions st' ! k) = se_emitted (ac_sessions st ! k) \<and>
         se_cmds (ac_sessions st' ! k) = se_cmds (ac_sessions st ! k)"
  using assms
  by (cases l)
     (auto simp: deadlocked_def actor_turn_def pump_turn_def session_take_def session_emit_def session_activate_def
                 session_end_def Let_def
           split: if_splits list.splits actor_task.splits)

lemma deadlocked_run:
  assumes "act_run tx ls st = Some st'" "deadlocked k st"
  shows "deadlocked k st' \<and> ac_replies st' = ac_replies st \<and> ac_forwarded st' = ac_forwarded st \<and>
         se_emitted (ac_sessions st' ! k) = se_emitted (ac_sessions st ! k) \<and>
         se_cmds (ac_sessions st' ! k) = se_cmds (ac_sessions st ! k)"
  using assms
proof (induction ls arbitrary: st)
  case (Cons l ls)
  then obtain st1 where "act_exec tx l st = Some st1" "act_run tx ls st1 = Some st'"
    by (auto split: option.splits)
  with Cons.IH [of st1] deadlocked_exec [of tx l st st1 k] Cons.prems(2) show ?case by auto
qed simp


section \<open>The burst that blocks both\<close>

lemma act_run_append: "act_run tx (xs @ ys) st = (case act_run tx xs st of None \<Rightarrow> None | Some st' \<Rightarrow> act_run tx ys st')"
  by (induction xs arbitrary: st) (auto split: option.splits)

definition burst_state :: "client_event \<Rightarrow> terminal_id \<Rightarrow> bytes \<Rightarrow> nat \<Rightarrow> nat \<Rightarrow> actor" where
  "burst_state ev i bs events cmds =
     \<lparr>ac_channel = Some ''events'', ac_session = Some 0, ac_rx = Some 0,
        ac_task = (if cmds \<le> CMDS_CAPACITY then Ready else Writing 0), ac_inbox = [], ac_pump = [],
        ac_sessions = [\<lparr>se_channel = ''events'', se_active = Some i, se_events = replicate events ev,
           se_emitting = (EVENTS_CAPACITY < events), se_over = False,
           se_cmds = replicate cmds (CmdInput i bs), se_asks = [], se_emitted = replicate events ev\<rparr>],
        ac_replies = replicate (1 + min cmds CMDS_CAPACITY) (ReplyUnit (Inr ())), ac_forwarded = []\<rparr>"

lemma replicate_snoc: "replicate n x @ [x] = replicate (Suc n) x" "replicate n x @ x # ys = x # replicate n x @ ys"
  by (induction n) auto

lemma burst_emit:
  assumes "n \<le> EVENTS_CAPACITY"
  shows "act_exec tx (LEmit 0 ev) (burst_state ev i bs n 0) = Some (burst_state ev i bs (Suc n) 0)"
  using assms
  by (simp add: burst_state_def session_emit_def on_task_def Let_def replicate_snoc)

lemma burst_command:
  assumes "n \<le> CMDS_CAPACITY"
  shows "act_run tx [LArrive (ActInput i bs), LActor] (burst_state ev i bs e n) = Some (burst_state ev i bs e (Suc n))"
  using assms
  by (auto simp: burst_state_def actor_turn_def with_active_terminal_def write_cmd_def on_task_def reply_def Let_def
                 replicate_snoc INBOX_CAPACITY_def min_def)

lemma act_run_repeat:
  assumes "\<And>m. m < n \<Longrightarrow> act_run tx b (f m) = Some (f (Suc m))"
  shows "act_run tx (concat (replicate n b)) (f 0) = Some (f n)"
  using assms
proof (induction n arbitrary: f)
  case (Suc n)
  have "act_run tx (concat (replicate n b)) ((f o Suc) 0) = Some ((f o Suc) n)"
    by (rule Suc.IH) (use Suc.prems in simp)
  with Suc.prems [of 0] show ?case by (simp add: act_run_append)
qed simp

lemma burst_emits:
  assumes "n \<le> Suc EVENTS_CAPACITY"
  shows "act_run tx (concat (replicate n [LEmit 0 ev])) (burst_state ev i bs 0 0) = Some (burst_state ev i bs n 0)"
  by (rule act_run_repeat [where f = "\<lambda>n. burst_state ev i bs n 0"])
     (use assms burst_emit in \<open>simp del: act_exec.simps\<close>)

lemma burst_commands:
  assumes "n \<le> Suc CMDS_CAPACITY"
  shows "act_run tx (concat (replicate n [LArrive (ActInput i bs), LActor])) (burst_state ev i bs e 0) =
     Some (burst_state ev i bs e n)"
  by (rule act_run_repeat, rule burst_command) (use assms in simp)

definition burst_steps :: "client_event \<Rightarrow> terminal_id \<Rightarrow> bytes \<Rightarrow> act_label list" where
  "burst_steps ev i bs =
     [LArrive (ActConnect ''events''), LActor, LActivate 0 (Some i)] @
     concat (replicate (EVENTS_CAPACITY + 1) [LEmit 0 ev]) @
     concat (replicate (CMDS_CAPACITY + 1) [LArrive (ActInput i bs), LActor])"

lemma burst_run: "act_run tx (burst_steps ev i bs) actor_start = Some (burst_state ev i bs 65 65)"
proof -
  have "act_run tx [LArrive (ActConnect ''events''), LActor, LActivate 0 (Some i)] actor_start =
        Some (burst_state ev i bs 0 0)"
    by (simp add: actor_start_def actor_turn_def burst_state_def session_activate_def on_task_def reply_def
                  drop_session_def new_task_def INBOX_CAPACITY_def Let_def CMDS_CAPACITY_def EVENTS_CAPACITY_def)
  with burst_emits [of "Suc EVENTS_CAPACITY" tx ev i bs] burst_commands [of "Suc CMDS_CAPACITY" tx i bs ev 65] show ?thesis
    by (simp only: burst_steps_def act_run_append) (simp add: EVENTS_CAPACITY_def CMDS_CAPACITY_def)
qed

text \<open>
  C6. A deadlock of the actor and the session. When the session waits for the actor to take
  an event while the actor waits for the session to take a command, neither ever goes on:
  whatever steps follow, no command is answered (not even \<open>shutdown\<close>), no event is forwarded,
  and the session, whose heartbeat runs in the same loop, emits nothing and takes no command.
\<close>
theorem actor_session_deadlock:
  assumes "act_run tx ls st = Some st'" "deadlocked k st"
  shows "deadlocked k st' \<and> ac_replies st' = ac_replies st \<and> ac_forwarded st' = ac_forwarded st \<and>
         se_emitted (ac_sessions st' ! k) = se_emitted (ac_sessions st ! k) \<and>
         se_cmds (ac_sessions st' ! k) = se_cmds (ac_sessions st ! k)"
  by (rule deadlocked_run [OF assms])

text \<open>65 events in one burst and then 65 keystrokes lead there from the start.\<close>

theorem actor_session_deadlock_witness:
  "\<forall>tx ev i bs. \<exists>st st'. act_run tx (burst_steps ev i bs) actor_start = Some st \<and>
     act_run tx [LArrive ActShutdown, LArrive ActIsConnected] st = Some st' \<and>
     deadlocked 0 st \<and> deadlocked 0 st' \<and> length (ac_inbox st') = 2 \<and> ac_replies st' = ac_replies st"
proof (intro allI)
  fix tx ev i bs
  have run: "act_run tx (burst_steps ev i bs) actor_start = Some (burst_state ev i bs 65 65)" by (rule burst_run)
  obtain st' where st': "act_run tx [LArrive ActShutdown, LArrive ActIsConnected] (burst_state ev i bs 65 65) = Some st'"
      "length (ac_inbox st') = 2"
    by (simp add: INBOX_CAPACITY_def burst_state_def)
  have "deadlocked 0 (burst_state ev i bs 65 65)"
    by (simp add: deadlocked_def burst_state_def CMDS_CAPACITY_def EVENTS_CAPACITY_def)
  with run st' actor_session_deadlock [OF st'(1)] show
    "\<exists>st st'. act_run tx (burst_steps ev i bs) actor_start = Some st \<and>
       act_run tx [LArrive ActShutdown, LArrive ActIsConnected] st = Some st' \<and>
       deadlocked 0 st \<and> deadlocked 0 st' \<and> length (ac_inbox st') = 2 \<and> ac_replies st' = ac_replies st"
    by blast
qed

section \<open>Order of the events\<close>

lemma same_events_task:
  assumes "\<And>se. se_channel (f se) = se_channel se" "\<And>se. se_events (f se) = se_events se"
    "\<And>se. se_emitted (f se) = se_emitted se"
  shows "same_events st (on_task k f st)"
  using assms by (simp add: same_events_def forwarded_of_def pending_of_def)

lemma same_events_trans: "same_events a b \<Longrightarrow> same_events b c \<Longrightarrow> same_events a c"
  by (auto simp: same_events_def)

lemma same_events_frame:
  assumes "ac_forwarded st' = ac_forwarded st" "ac_sessions st' = ac_sessions st" "\<And>k. pending_of k st' = pending_of k st"
    "ac_rx st' = None \<or> ac_rx st' = ac_rx st \<and> ac_channel st' = ac_channel st"
  shows "same_events st st'"
  using assms by (auto simp: same_events_def forwarded_of_def)

lemma same_events_reply [simp]: "same_events st (reply r st)"
  by (rule same_events_frame) (auto simp: pending_of_def)

lemma same_events_refl [simp]: "same_events st st"
  by (rule same_events_frame) auto

lemma same_events_drop: "same_events st (drop_session st)"
proof -
  let ?st1 = "case ac_rx st of None \<Rightarrow> st | Some k \<Rightarrow> on_task k (\<lambda>se. se\<lparr>se_emitting := False\<rparr>) st"
  have "same_events st ?st1" by (cases "ac_rx st") (simp_all add: same_events_task)
  moreover have "same_events ?st1 (drop_session st)"
    by (rule same_events_frame) (auto simp: drop_session_def pending_of_def)
  ultimately show ?thesis by (rule same_events_trans)
qed

lemma same_events_write:
  assumes "ac_task st = Ready"
  shows "same_events st (write_cmd k c st)"
proof -
  let ?st1 = "on_task k (\<lambda>se. se\<lparr>se_cmds := se_cmds se @ [c]\<rparr>) st"
  have one: "same_events st ?st1" by (rule same_events_task) simp_all
  have "same_events ?st1 (?st1\<lparr>ac_task := Writing k\<rparr>)"
    by (rule same_events_frame) (simp_all add: pending_of_def assms)
  from same_events_trans [OF one this] same_events_trans [OF one same_events_reply] show ?thesis
    by (simp add: write_cmd_def Let_def)
qed

lemma same_events_command:
  assumes "ac_task st = Ready" "\<And>channel. c \<noteq> ActConnect channel"
  shows "same_events st (handle_command tx c st)"
  using assms same_events_write [of st] same_events_trans [OF same_events_drop same_events_reply]
  by (cases c) (auto simp: with_active_terminal_def same_events_task split: option.splits)

lemma labelled_simps [simp]:
  "labelled se [] = []" "labelled se (e # es) = (se_channel se, e) # labelled se es"
  "labelled se (xs @ ys) = labelled se xs @ labelled se ys"
  by (simp_all add: labelled_def)

lemma events_inv_connect:
  assumes "events_inv st" "ac_task st = Ready"
  shows "events_inv (handle_command tx (ActConnect channel) st)"
proof (rule events_inv_intro)
  let ?st = "drop_session st" and ?st' = "handle_command tx (ActConnect channel) st"
  have inv: "events_inv ?st" using assms(1) same_events_drop by (rule events_inv_same)
  have old: "forwarded_of k ?st' = forwarded_of k ?st" "pending_of k ?st' = pending_of k ?st"
      "ac_sessions ?st' = ac_sessions ?st @ [new_task channel]" for k
    by (simp_all add: forwarded_of_def pending_of_def Let_def)
  fix k
  note fresh = events_inv_dest(5) [OF inv, of k]
  then have none: "forwarded_of k ?st = []" "pending_of k ?st = []" if "\<not> k < length (ac_sessions ?st)"
    using that by auto
  show "prefix (forwarded_of k ?st' @ pending_of k ?st') (labelled (ac_sessions ?st' ! k) (se_emitted (ac_sessions ?st' ! k)))"
    if "k < length (ac_sessions ?st')"
    using that events_inv_dest(1) [OF inv, of k] none
    by (cases "k < length (ac_sessions ?st)") (auto simp: old nth_append simp del: handle_command.simps)
  show "k < length (ac_sessions ?st')" if "forwarded_of k ?st' @ pending_of k ?st' \<noteq> []"
    using that fresh by (auto simp: old simp del: handle_command.simps)
  assume "ac_rx ?st' = Some k"
  then have "k = length (ac_sessions ?st)" by (simp add: Let_def old)
  with fresh show "k < length (ac_sessions ?st') \<and> ac_channel ?st' = Some (se_channel (ac_sessions ?st' ! k)) \<and>
     forwarded_of k ?st' @ pending_of k ?st' @ labelled (ac_sessions ?st' ! k) (se_events (ac_sessions ?st' ! k)) =
     labelled (ac_sessions ?st' ! k) (se_emitted (ac_sessions ?st' ! k))"
    by (simp only: old) (auto simp: new_task_def nth_append Let_def)
qed

lemma events_inv_command:
  "events_inv st \<Longrightarrow> ac_task st = Ready \<Longrightarrow> events_inv (handle_command tx c st)"
  using events_inv_connect events_inv_same [OF _ same_events_command, of st c tx] by (cases c) auto

lemma events_inv_forward:
  assumes inv: "events_inv st" and ready: "ac_task st = Ready" and rx: "ac_rx st = Some k"
    and ev: "se_events (ac_sessions st ! k) = e # es"
  shows "events_inv (forward_event k e (on_task k (\<lambda>se. se\<lparr>se_events := es, se_emitting := False\<rparr>) st))"
    (is "events_inv ?st'")
proof (rule events_inv_intro)
  note d = events_inv_dest [OF inv]
  have ch: "ac_channel st = Some (se_channel (ac_sessions st ! k))" and k: "k < length (ac_sessions st)"
    using d(2,3) rx by auto
  have fp: "forwarded_of j ?st' @ pending_of j ?st' =
      forwarded_of j st @ pending_of j st @ (if j = k then [(se_channel (ac_sessions st ! k), e)] else [])" for j
    using ready ch by (auto simp: forward_event_def forwarded_of_def pending_of_def)
  have se: "ac_sessions ?st' = ac_sessions (on_task k (\<lambda>se. se\<lparr>se_events := es, se_emitting := False\<rparr>) st)"
      "ac_rx ?st' = Some k" "ac_channel ?st' = ac_channel st"
    using rx by (simp_all add: forward_event_def split: option.splits)
  have all: "forwarded_of k st @ pending_of k st @ (se_channel (ac_sessions st ! k), e) # labelled (ac_sessions st ! k) es =
      labelled (ac_sessions st ! k) (se_emitted (ac_sessions st ! k))"
    using d(4) [OF rx] ev by simp
  have lab: "labelled (ac_sessions ?st' ! j) xs = labelled (ac_sessions st ! j) xs" if "j < length (ac_sessions st)" for j xs
    using that by (simp add: se labelled_def)
  fix j
  show "prefix (forwarded_of j ?st' @ pending_of j ?st') (labelled (ac_sessions ?st' ! j) (se_emitted (ac_sessions ?st' ! j)))"
    if "j < length (ac_sessions ?st')"
  proof -
    from that have j: "j < length (ac_sessions st)" by (simp add: se)
    have "prefix (forwarded_of k st @ pending_of k st @ [(se_channel (ac_sessions st ! k), e)])
       (labelled (ac_sessions st ! k) (se_emitted (ac_sessions st ! k)))"
      unfolding all [symmetric] by simp
    with j d(1) [of j] have "prefix (forwarded_of j ?st' @ pending_of j ?st')
       (labelled (ac_sessions st ! j) (se_emitted (ac_sessions st ! j)))"
      unfolding fp by (cases "j = k") simp_all
    moreover have "se_emitted (ac_sessions ?st' ! j) = se_emitted (ac_sessions st ! j)" using j by (simp add: se)
    ultimately show ?thesis by (simp only: lab [OF j])
  qed
  show "j < length (ac_sessions ?st')" if "forwarded_of j ?st' @ pending_of j ?st' \<noteq> []"
  proof -
    from that have "j = k \<or> forwarded_of j st @ pending_of j st \<noteq> []" unfolding fp by (auto split: if_splits)
    with k d(5) [of j] have "j < length (ac_sessions st)" by blast
    then show ?thesis by (simp add: se)
  qed
  assume "ac_rx ?st' = Some j"
  then have [simp]: "j = k" by (simp add: se)
  have app: "forwarded_of k ?st' @ pending_of k ?st' @ xs =
      forwarded_of k st @ pending_of k st @ [(se_channel (ac_sessions st ! k), e)] @ xs" for xs
    using arg_cong [OF fp [of k], of "\<lambda>ys. ys @ xs"] by (simp only: append_assoc simp_thms if_True)
  have fields: "se_events (ac_sessions ?st' ! k) = es" "se_emitted (ac_sessions ?st' ! k) = se_emitted (ac_sessions st ! k)"
      "se_channel (ac_sessions ?st' ! k) = se_channel (ac_sessions st ! k)" "length (ac_sessions ?st') = length (ac_sessions st)"
    using k by (simp_all add: se)
  have "forwarded_of k ?st' @ pending_of k ?st' @ labelled (ac_sessions ?st' ! k) (se_events (ac_sessions ?st' ! k)) =
     labelled (ac_sessions ?st' ! k) (se_emitted (ac_sessions ?st' ! k))"
    unfolding app fields lab [OF k] all [symmetric] by (simp only: append_Cons append_Nil)
  then show "j < length (ac_sessions ?st') \<and> ac_channel ?st' = Some (se_channel (ac_sessions ?st' ! j)) \<and>
     forwarded_of j ?st' @ pending_of j ?st' @ labelled (ac_sessions ?st' ! j) (se_events (ac_sessions ?st' ! j)) =
     labelled (ac_sessions ?st' ! j) (se_emitted (ac_sessions ?st' ! j))"
    using k ch by (simp only: \<open>j = k\<close> fields se(3))
qed

lemma events_inv_emit:
  assumes inv: "events_inv st" and k: "k < length (ac_sessions st)" and step: "session_emit k e st = Some st'"
  shows "events_inv st'"
proof (cases "ac_rx st = Some k")
  case False
  with step inv show ?thesis by (auto simp: session_emit_def Let_def split: if_splits)
next
  case rx: True
  let ?f = "\<lambda>se. se\<lparr>se_events := se_events se @ [e], se_emitted := se_emitted se @ [e],
                      se_emitting := EVENTS_CAPACITY < length (se_events se) + 1\<rparr>"
  from step rx have st': "st' = on_task k ?f st" by (auto simp: session_emit_def Let_def split: if_splits)
  have fp: "forwarded_of j st' = forwarded_of j st" "pending_of j st' = pending_of j st" for j
    by (simp_all add: st' forwarded_of_def pending_of_def)
  have len: "length (ac_sessions st') = length (ac_sessions st)" "ac_rx st' = ac_rx st" "ac_channel st' = ac_channel st"
    by (simp_all add: st')
  have lab: "labelled (ac_sessions st' ! j) xs = labelled (ac_sessions st ! j) xs"
    and em: "se_emitted (ac_sessions st' ! j) = se_emitted (ac_sessions st ! j) @ (if j = k then [e] else [])"
    and ev: "se_events (ac_sessions st' ! j) = se_events (ac_sessions st ! j) @ (if j = k then [e] else [])"
    and ch: "se_channel (ac_sessions st' ! j) = se_channel (ac_sessions st ! j)"
    if "j < length (ac_sessions st)" for j xs
    using that by (simp_all add: st' labelled_def)
  note d = events_inv_dest [OF inv]
  show ?thesis
  proof (rule events_inv_intro)
    fix j
    show "prefix (forwarded_of j st' @ pending_of j st') (labelled (ac_sessions st' ! j) (se_emitted (ac_sessions st' ! j)))"
      if "j < length (ac_sessions st')"
      using that d(1) [of j] by (simp add: fp len lab em prefix_prefix)
    show "j < length (ac_sessions st')" if "forwarded_of j st' @ pending_of j st' \<noteq> []"
      using that d(5) [of j] by (simp add: fp len)
    assume "ac_rx st' = Some j"
    then have [simp]: "j = k" using rx by (simp add: len)
    show "j < length (ac_sessions st') \<and> ac_channel st' = Some (se_channel (ac_sessions st' ! j)) \<and>
       forwarded_of j st' @ pending_of j st' @ labelled (ac_sessions st' ! j) (se_events (ac_sessions st' ! j)) =
       labelled (ac_sessions st' ! j) (se_emitted (ac_sessions st' ! j))"
      using k d(3,4) [OF rx] by (simp add: fp len lab em ev ch flip: append_assoc)
  qed
qed

lemma same_events_pump:
  assumes "pump_turn st = Some st'"
  shows "same_events st st'"
  using assms
  by (cases "ac_task st") (auto simp: pump_turn_def same_events_def forwarded_of_def pending_of_def split: list.splits)

lemma same_events_ready:
  assumes "ac_task st = Writing k"
  shows "same_events st (reply r (st\<lparr>ac_task := Ready\<rparr>))"
  by (rule same_events_trans [OF same_events_frame same_events_reply]) (simp_all add: pending_of_def assms)

lemma same_events_session:
  assumes f: "\<And>se. se_channel (f se) = se_channel se" "\<And>se. se_events (f se) = se_events se"
    "\<And>se. se_emitted (f se) = se_emitted se"
  shows "same_events st (if ac_task st = Writing k then reply r ((on_task k f st)\<lparr>ac_task := Ready\<rparr>) else on_task k f st)"
  using same_events_task [of f st k, OF f] same_events_trans [OF _ same_events_ready, of st "on_task k f st" k r] by simp

lemma events_inv_exec:
  assumes inv: "events_inv st" and step: "act_exec tx l st = Some st'"
  shows "events_inv st'"
proof (cases l)
  case (LArrive c)
  with step have "same_events st st'"
    by (auto intro!: same_events_frame simp: pending_of_def split: if_splits)
  with inv show ?thesis by (rule events_inv_same)
next
  case LActor
  have "events_inv (st\<lparr>ac_inbox := cs\<rparr>)" for cs
    by (rule events_inv_same [OF inv]) (auto intro!: same_events_frame simp: pending_of_def)
  with LActor step events_inv_forward [OF inv] events_inv_same [OF inv same_events_drop] show ?thesis
    by (auto simp: actor_turn_def intro: events_inv_command split: if_splits list.splits option.splits)
next
  case LPump
  with step same_events_pump have "same_events st st'" by simp
  with inv show ?thesis by (rule events_inv_same)
next
  case (LTake k)
  with step obtain cs where "st' = (if ac_task st = Writing k
      then reply (ReplyUnit (Inr ())) ((on_task k (\<lambda>se. se\<lparr>se_cmds := cs\<rparr>) st)\<lparr>ac_task := Ready\<rparr>)
      else on_task k (\<lambda>se. se\<lparr>se_cmds := cs\<rparr>) st)"
    by (auto simp: session_take_def Let_def split: if_splits list.splits)
  then have "same_events st st'" using same_events_session [of "\<lambda>se. se\<lparr>se_cmds := cs\<rparr>" st k] by simp
  with inv show ?thesis by (rule events_inv_same)
next
  case (LEmit k e)
  with step events_inv_emit [OF inv] show ?thesis by (auto split: if_splits)
next
  case (LActivate k i)
  with step have "st' = on_task k (\<lambda>se. se\<lparr>se_active := i\<rparr>) st"
    by (auto simp: session_activate_def Let_def split: if_splits)
  then have "same_events st st'" using same_events_task by simp
  with inv show ?thesis by (rule events_inv_same)
next
  case (LEnd k)
  with step have "st' = (if ac_task st = Writing k
      then reply (ReplyUnit (Inr ())) ((on_task k (\<lambda>se. se\<lparr>se_over := True, se_cmds := []\<rparr>) st)\<lparr>ac_task := Ready\<rparr>)
      else on_task k (\<lambda>se. se\<lparr>se_over := True, se_cmds := []\<rparr>) st)"
    by (auto simp: session_end_def Let_def split: if_splits)
  then have "same_events st st'" using same_events_session [of "\<lambda>se. se\<lparr>se_over := True, se_cmds := []\<rparr>" st k] by simp
  with inv show ?thesis by (rule events_inv_same)
qed

lemma events_inv_run:
  "act_run tx ls st = Some st' \<Longrightarrow> events_inv st \<Longrightarrow> events_inv st'"
  by (induction ls arbitrary: st) (auto intro: events_inv_exec split: option.splits)

lemma events_inv_start: "events_inv actor_start"
  by (rule events_inv_intro) (auto simp: actor_start_def forwarded_of_def pending_of_def)

text \<open>
  C7. Events reach the application under the channel of the session that emitted them, in the
  order in which it emitted them and with none left out: over every run of the actor, the
  sessions it starts and the pump, what was forwarded for a session is a prefix of what it
  emitted; connecting again or shutting down can only cut the sequence.
\<close>
theorem events_in_order:
  assumes "act_run tx ls actor_start = Some st" "k < length (ac_sessions st)"
  shows "prefix (forwarded_of k st) (map (Pair (se_channel (ac_sessions st ! k))) (se_emitted (ac_sessions st ! k)))"
  using events_inv_dest(1) [OF events_inv_run [OF assms(1) events_inv_start] assms(2)] append_prefixD
  by (fastforce simp: labelled_def)

theorem events_in_order_witness:
  "\<forall>tx. \<exists>st. act_run tx [LArrive (ActConnect ''a''), LActor, LEmit 0 EventConnecting, LEmit 0 (EventError ''x''), LActor,
       LArrive (ActConnect ''b''), LActor, LEmit 1 EventConnecting, LActor] actor_start = Some st \<and>
     forwarded_of 0 st = [(''a'', EventConnecting)] \<and> forwarded_of 1 st = [(''b'', EventConnecting)] \<and>
     prefix (forwarded_of 0 st) (map (Pair ''a'') (se_emitted (ac_sessions st ! 0)))"
proof
  fix tx
  obtain st where st: "act_run tx [LArrive (ActConnect ''a''), LActor, LEmit 0 EventConnecting, LEmit 0 (EventError ''x''), LActor,
       LArrive (ActConnect ''b''), LActor, LEmit 1 EventConnecting, LActor] actor_start = Some st"
    "forwarded_of 0 st = [(''a'', EventConnecting)]" "forwarded_of 1 st = [(''b'', EventConnecting)]"
    "length (ac_sessions st) = 2" "se_channel (ac_sessions st ! 0) = ''a''"
    by (simp add: actor_start_def actor_turn_def session_emit_def forward_event_def on_task_def reply_def drop_session_def
          new_task_def INBOX_CAPACITY_def PUMP_CAPACITY_def EVENTS_CAPACITY_def Let_def forwarded_of_def)
  with events_in_order [OF st(1), of 0] show "\<exists>st. act_run tx [LArrive (ActConnect ''a''), LActor,
       LEmit 0 EventConnecting, LEmit 0 (EventError ''x''), LActor,
       LArrive (ActConnect ''b''), LActor, LEmit 1 EventConnecting, LActor] actor_start = Some st \<and>
     forwarded_of 0 st = [(''a'', EventConnecting)] \<and> forwarded_of 1 st = [(''b'', EventConnecting)] \<and>
     prefix (forwarded_of 0 st) (map (Pair ''a'') (se_emitted (ac_sessions st ! 0)))"
    by auto
qed

end
