(* ===== verification/Client_Transports.thy ===== *)
theory Client_Transports
  imports Client_Types Shared_Transport
begin

text \<open>
  The transports of the clients: the websocket of the desktop application
  (\<open>crates/client/tauri-bindings/src/transport.rs\<close>) and that of the browser
  (\<open>crates/client/client-core-wasm/src/ws_transport.rs\<close>), whose callbacks put what arrives
  into an unbounded queue. Both refine the list of results that the model of the client's
  session uses.
\<close>

section \<open>The desktop application\<close>

text \<open>
  The errors of \<open>tungstenite\<close> are their texts; a pong takes the next answer, and the
  request is built from the address and, when there is one, the subprotocol.
\<close>

record client_ws =
  cw_items :: "(string, ws_message) result list"
  cw_pongs :: "(string, unit) result list"

definition ws_transport_connect ::
  "(string, unit) result \<Rightarrow> (string \<Rightarrow> (string, unit) result) \<Rightarrow> (string, client_ws) result \<Rightarrow> string option \<Rightarrow>
   (client_error, client_ws) result" where
  "ws_transport_connect address header connected subprotocol =
     (case address of
        Inl e \<Rightarrow> Inl (ClientTransport e)
      | Inr _ \<Rightarrow>
          and_then (case subprotocol of
              None \<Rightarrow> Inr ()
            | Some p \<Rightarrow> map_err (\<lambda>e. ClientTransport (''invalid subprotocol: '' @ e)) (header p)) (\<lambda>_.
          map_err ClientTransport connected))"

fun client_ws_next ::
  "(string, ws_message) result list \<Rightarrow> (string, unit) result list \<Rightarrow>
   (client_error, bytes option) result \<times> (string, ws_message) result list \<times> (string, unit) result list" where
  "client_ws_next [] ps = (Inr None, [], ps)"
| "client_ws_next (Inr (WsBinary b) # items) ps = (Inr (Some b), items, ps)"
| "client_ws_next (Inr (WsPing _) # items) ps =
     (case ps of
        Inl e # ps' \<Rightarrow> (Inl (ClientTransport e), items, ps')
      | _ \<Rightarrow> client_ws_next items (drop 1 ps))"
| "client_ws_next (Inr WsClose # items) ps = (Inr None, items, ps)"
| "client_ws_next (Inr (WsText _) # items) ps = (Inl (ClientTransport text_frame), items, ps)"
| "client_ws_next (Inr (WsPong _) # items) ps = client_ws_next items ps"
| "client_ws_next (Inr (WsRawFrame _) # items) ps = client_ws_next items ps"
| "client_ws_next (Inl e # items) ps = (Inl (ClientTransport e), items, ps)"

definition client_ws_recv :: "client_ws \<Rightarrow> (client_error, bytes option) result \<times> client_ws" where
  "client_ws_recv t =
     (case client_ws_next (cw_items t) (cw_pongs t) of (r, items, ps) \<Rightarrow> (r, t\<lparr>cw_items := items, cw_pongs := ps\<rparr>))"

fun client_ws_results ::
  "(string, ws_message) result list \<Rightarrow> (string, unit) result list \<Rightarrow> (client_error, bytes option) result list" where
  "client_ws_results [] ps = []"
| "client_ws_results (Inl e # items) ps = Inl (ClientTransport e) # client_ws_results items ps"
| "client_ws_results (Inr m # items) ps =
     (case m of
        WsBinary b \<Rightarrow> Inr (Some b) # client_ws_results items ps
      | WsClose \<Rightarrow> Inr None # client_ws_results items ps
      | WsText _ \<Rightarrow> Inl (ClientTransport text_frame) # client_ws_results items ps
      | WsPing _ \<Rightarrow>
          (case ps of Inl e # ps' \<Rightarrow> Inl (ClientTransport e) # client_ws_results items ps' | _ \<Rightarrow> client_ws_results items (drop 1 ps))
      | _ \<Rightarrow> client_ws_results items ps)"

lemma client_ws_next_results:
  "client_ws_next items ps = (r, rest, ps') \<Longrightarrow>
   r = result_at 0 (client_ws_results items ps) \<and> client_ws_results rest ps' = drop 1 (client_ws_results items ps)"
  by (induction items ps rule: client_ws_next.induct) (auto simp: result_at_def split: list.splits sum.splits)

interpretation desktop: receiver "\<lambda>t. Some (client_ws_recv t)" "\<lambda>t. client_ws_results (cw_items t) (cw_pongs t)"
  by unfold_locales (auto simp: client_ws_recv_def split: prod.splits dest: client_ws_next_results)

section \<open>The browser\<close>

text \<open>
  The callbacks run one at a time. \<open>bw_open\<close> is the oneshot that \<open>connect\<close> waits for: its
  sender is there until one of the callbacks uses it.
\<close>

datatype browser_event = OnOpen | OnMessage "bytes option" | OnClose | OnError

datatype open_state = Waiting | Resolved "(client_error, unit) result"

record browser_ws =
  bw_open :: open_state
  bw_queue :: "(client_error, bytes option) result list"
  bw_handlers :: bool
  bw_socket_closed :: bool

definition resolve :: "(client_error, unit) result \<Rightarrow> browser_ws \<Rightarrow> browser_ws" where
  "resolve r s = (case bw_open s of Waiting \<Rightarrow> s\<lparr>bw_open := Resolved r\<rparr> | Resolved _ \<Rightarrow> s)"

definition enqueue :: "(client_error, bytes option) result \<Rightarrow> browser_ws \<Rightarrow> browser_ws" where
  "enqueue r s = s\<lparr>bw_queue := bw_queue s @ [r]\<rparr>"

text \<open>A message that is not an \<open>ArrayBuffer\<close> (a text frame) is ignored: \<open>OnMessage None\<close>.\<close>

fun callback :: "browser_event \<Rightarrow> browser_ws \<Rightarrow> browser_ws" where
  "callback OnOpen s = resolve (Inr ()) s"
| "callback (OnMessage None) s = s"
| "callback (OnMessage (Some b)) s = enqueue (Inr (Some b)) s"
| "callback OnClose s = enqueue (Inr None) (resolve (Inl (ClientTransport ''ws closed before open'')) s)"
| "callback OnError s = enqueue (Inl (ClientTransport ''ws error'')) (resolve (Inl (ClientTransport ''ws error'')) s)"

definition fire :: "browser_event \<Rightarrow> browser_ws \<Rightarrow> browser_ws" where
  "fire e s = (if bw_handlers s then callback e s else s)"

definition clear_handlers :: "browser_ws \<Rightarrow> browser_ws" where
  "clear_handlers s = s\<lparr>bw_handlers := False\<rparr>"

definition browser_new :: "(string, unit) result \<Rightarrow> (client_error, browser_ws) result" where
  "browser_new created =
     map_err (\<lambda>e. ClientTransport (''ws new: '' @ e))
       (case created of Inl e \<Rightarrow> Inl e
        | Inr _ \<Rightarrow> Inr \<lparr>bw_open = Waiting, bw_queue = [], bw_handlers = True, bw_socket_closed = False\<rparr>)"

text \<open>What \<open>connect\<close> does when it is polled (\<open>None\<close>: it waits) and when it is dropped while it waits.\<close>

definition connect_poll :: "browser_ws \<Rightarrow> ((client_error, unit) result \<times> browser_ws) option" where
  "connect_poll s =
     (case bw_open s of
        Waiting \<Rightarrow> None
      | Resolved (Inl e) \<Rightarrow> Some (Inl e, clear_handlers s)
      | Resolved (Inr _) \<Rightarrow> Some (Inr (), s))"

definition connect_dropped :: "browser_ws \<Rightarrow> browser_ws" where
  "connect_dropped s = (clear_handlers s)\<lparr>bw_socket_closed := True\<rparr>"

definition browser_send :: "(string, unit) result \<Rightarrow> (client_error, unit) result" where
  "browser_send answer = map_err (\<lambda>e. ClientTransport (''ws send: '' @ e)) answer"

text \<open>The queue's senders live in the callbacks, which the transport owns, so it never ends.\<close>

definition browser_recv :: "browser_ws \<Rightarrow> ((client_error, bytes option) result \<times> browser_ws) option" where
  "browser_recv s = (case bw_queue s of [] \<Rightarrow> None | r # rs \<Rightarrow> Some (r, s\<lparr>bw_queue := rs\<rparr>))"

definition browser_close :: "browser_ws \<Rightarrow> browser_ws" where
  "browser_close s = (clear_handlers s)\<lparr>bw_socket_closed := True\<rparr>"

text \<open>A connection: events until \<open>connect\<close> returns, and events after that.\<close>

fun browser_results :: "browser_event list \<Rightarrow> (client_error, bytes option) result list" where
  "browser_results [] = []"
| "browser_results (e # es) =
     (case e of OnMessage (Some b) \<Rightarrow> [Inr (Some b)] | OnClose \<Rightarrow> [Inr None] | OnError \<Rightarrow> [Inl (ClientTransport ''ws error'')]
      | _ \<Rightarrow> []) @ browser_results es"

lemma fire_queue: "bw_handlers s \<Longrightarrow> bw_queue (fold fire es s) = bw_queue s @ browser_results es \<and> bw_handlers (fold fire es s)"
proof (induction es arbitrary: s)
  case (Cons e es)
  have "bw_queue (fire e s) = bw_queue s @ browser_results [e] \<and> bw_handlers (fire e s)"
    using Cons.prems by (cases "(e, s)" rule: callback.cases)
      (auto simp: fire_def enqueue_def resolve_def split: open_state.splits)
  with Cons.IH [of "fire e s"] show ?case by simp
qed simp

interpretation browser: receiver browser_recv bw_queue
  by unfold_locales (auto simp: browser_recv_def result_at_def split: list.splits)

section \<open>The same frames, whatever the transport\<close>

text \<open>The payloads that the peer's frames carry, and the events a browser makes of the frames.\<close>

fun payloads_of :: "ws_message list \<Rightarrow> bytes list" where
  "payloads_of [] = []"
| "payloads_of (m # ms) = (case m of WsBinary b \<Rightarrow> [b] | _ \<Rightarrow> []) @ payloads_of ms"

fun browser_event_of :: "ws_message \<Rightarrow> browser_event list" where
  "browser_event_of (WsBinary b) = [OnMessage (Some b)]"
| "browser_event_of (WsText _) = [OnMessage None]"
| "browser_event_of WsClose = [OnClose]"
| "browser_event_of _ = []"

fun is_text :: "ws_message \<Rightarrow> bool" where
  "is_text (WsText _) = True" | "is_text _ = False"

definition received :: "bytes list \<Rightarrow> ('e, bytes option) result list" where
  "received ps = map (\<lambda>b. Inr (Some b)) ps"

text \<open>The websocket of each program when the peer sends the frames, closes, and the pongs go out.\<close>

definition daemon_socket :: "ws_message list \<Rightarrow> tokio_ws" where
  "daemon_socket ms = \<lparr>tw_items = map Inr ms, tw_answers = [], tw_sent = []\<rparr>"

definition desktop_socket :: "ws_message list \<Rightarrow> client_ws" where
  "desktop_socket ms = \<lparr>cw_items = map Inr ms, cw_pongs = []\<rparr>"

definition browser_socket :: "ws_message list \<Rightarrow> browser_ws" where
  "browser_socket ms =
     fold fire (OnOpen # concat (map browser_event_of ms))
       \<lparr>bw_open = Waiting, bw_queue = [], bw_handlers = True, bw_socket_closed = False\<rparr>"

lemma received_simps [simp]: "received [] = []" "received (xs @ ys) = received xs @ received ys"
  "received [b] = [Inr (Some b)]"
  by (simp_all add: received_def)

lemma tokio_results_frames:
  "WsClose \<notin> set ms \<Longrightarrow> list_all (Not \<circ> is_text) ms \<Longrightarrow>
   tokio_results (map Inr (ms @ rest)) = received (payloads_of ms) @ tokio_results (map Inr rest)"
  by (induction ms) (auto split: ws_message.splits)

lemma client_results_frames:
  "WsClose \<notin> set ms \<Longrightarrow> list_all (Not \<circ> is_text) ms \<Longrightarrow>
   client_ws_results (map Inr (ms @ rest)) [] = received (payloads_of ms) @ client_ws_results (map Inr rest) []"
  by (induction ms) (auto split: ws_message.splits)

lemma browser_results_append: "browser_results (xs @ ys) = browser_results xs @ browser_results ys"
  by (induction xs) simp_all

lemma browser_results_frames:
  "WsClose \<notin> set ms \<Longrightarrow> browser_results (concat (map browser_event_of ms)) = received (payloads_of ms)"
  by (induction ms) (auto simp: browser_results_append split: ws_message.splits)

lemma browser_socket_queue:
  "WsClose \<notin> set ms \<Longrightarrow> bw_queue (browser_socket (ms @ rest)) =
     received (payloads_of ms) @ browser_results (concat (map browser_event_of rest))"
  unfolding browser_socket_def
  by (subst fire_queue [THEN conjunct1]) (simp_all add: browser_results_append browser_results_frames)

lemma fire_open: "bw_open s = Resolved r \<Longrightarrow> bw_open (fold fire es s) = Resolved r"
proof (induction es arbitrary: s)
  case (Cons e es)
  have "bw_open (fire e s) = Resolved r"
    using Cons.prems by (cases "(e, s)" rule: callback.cases) (auto simp: fire_def enqueue_def resolve_def)
  with Cons.IH show ?case by simp
qed simp

lemma browser_socket_open: "connect_poll (browser_socket ms) = Some (Inr (), browser_socket ms)"
proof -
  have "bw_open (browser_socket ms) = Resolved (Inr ())"
    unfolding browser_socket_def by (simp add: fire_open fire_def resolve_def)
  then show ?thesis by (simp add: connect_poll_def)
qed

lemma length_received [simp]: "length (received ps) = length ps"
  by (simp add: received_def)

text \<open>
  C37. The daemon's websocket, the desktop application's and the browser's are one transport:
  whatever frames the peer sends before it closes, as long as none of them is a text frame, the
  same number of receives returns on all three the payloads of the binary frames in order and
  then the end; pings, pongs and raw frames between them make no difference, and in the browser
  nothing is lost that arrives before \<open>connect\<close> returns. After a text frame they differ: the
  first two return an error in its place, the browser skips it.
\<close>
theorem websockets_agree:
  assumes "WsClose \<notin> set ms" "list_all (Not \<circ> is_text) ms"
  shows "fst (recv_times (\<lambda>t. Some (tokio_recv t)) (length (payloads_of ms) + 1) (daemon_socket (ms @ [WsClose]))) =
           received (payloads_of ms) @ [Inr None] \<and>
    fst (recv_times (\<lambda>t. Some (client_ws_recv t)) (length (payloads_of ms) + 1) (desktop_socket (ms @ [WsClose]))) =
           received (payloads_of ms) @ [Inr None] \<and>
    connect_poll (browser_socket (ms @ [WsClose])) = Some (Inr (), browser_socket (ms @ [WsClose])) \<and>
    fst (recv_times browser_recv (length (payloads_of ms) + 1) (browser_socket (ms @ [WsClose]))) =
           received (payloads_of ms) @ [Inr None] \<and>
    fst (recv_times (\<lambda>t. Some (tokio_recv t)) (length (payloads_of ms) + 1) (daemon_socket (ms @ [WsText x, WsClose]))) =
           received (payloads_of ms) @ [Inl (TransportWebSocket text_frame)] \<and>
    fst (recv_times (\<lambda>t. Some (client_ws_recv t)) (length (payloads_of ms) + 1) (desktop_socket (ms @ [WsText x, WsClose]))) =
           received (payloads_of ms) @ [Inl (ClientTransport text_frame)] \<and>
    fst (recv_times browser_recv (length (payloads_of ms) + 1) (browser_socket (ms @ [WsText x, WsClose]))) =
           received (payloads_of ms) @ [Inr None]"
proof -
  note frames = tokio_results_frames [OF assms] client_results_frames [OF assms] browser_socket_queue [OF assms(1)]
  have daemon: "tokio_results (tw_items (daemon_socket (ms @ rest))) = received (payloads_of ms) @ tokio_results (map Inr rest)"
    for rest using frames(1) [of rest] by (simp add: daemon_socket_def)
  have desktop: "client_ws_results (cw_items (desktop_socket (ms @ rest))) (cw_pongs (desktop_socket (ms @ rest))) =
      received (payloads_of ms) @ client_ws_results (map Inr rest) []" for rest
    using frames(2) [of rest] by (simp add: desktop_socket_def)
  show ?thesis
    by (intro conjI; subst tokio.results_received desktop.results_received browser.results_received browser_socket_open)
       (simp_all add: daemon desktop frames(3))
qed

theorem websockets_agree_witness:
  "fst (recv_times browser_recv 3 (browser_socket [WsBinary [1], WsPing [], WsBinary [2, 3], WsText [7], WsClose])) =
     [Inr (Some [1]), Inr (Some [2, 3]), Inr None] \<and>
   fst (recv_times (\<lambda>t. Some (tokio_recv t)) 3 (daemon_socket [WsBinary [1], WsPing [], WsBinary [2, 3], WsText [7], WsClose])) =
     [Inr (Some [1]), Inr (Some [2, 3]), Inl (TransportWebSocket text_frame)]"
  using websockets_agree [of "[WsBinary [1], WsPing [], WsBinary [2, 3]]" "[7]"]
  by (simp add: received_def numeral_3_eq_3)

end
