(* ===== verification/Client_Commands.thy ===== *)
theory Client_Commands
  imports Client_Channel Client_Store Client_Actor
begin

text \<open>
  The commands of the desktop application (\<open>crates/client/tauri-app/src/commands.rs\<close>), which
  check what the user interface passes and hand it to the session actor, and the JSON it
  gets back, from the commands and from the event pump (\<open>event_pump.rs\<close>). What
  \<open>derive(Deserialize)\<close> makes of a JSON value, \<open>uuid\<close>, \<open>hex\<close>, \<open>base64\<close> and \<open>postcard\<close> are
  parameters. The objects of \<open>json!\<close> are lists of members in the order of the source.
\<close>

section \<open>JSON\<close>

datatype json_value =
    JNull
  | JBool bool
  | JNumber nat
  | JString string
  | JArray "json_value list"
  | JObject "(string \<times> json_value) list"

text \<open>The UTF-8 bytes of a string.\<close>

definition string_of :: "bytes \<Rightarrow> string" where
  "string_of bs = map (\<lambda>b. char_of (unat b)) bs"

definition json_option :: "('a \<Rightarrow> json_value) \<Rightarrow> 'a option \<Rightarrow> json_value" where
  "json_option f x = (case x of None \<Rightarrow> JNull | Some a \<Rightarrow> f a)"

section \<open>Arguments\<close>

datatype connect_args =
    ArgsDirect string "string option"
  | ArgsRelay string string string string "string option"

record parsed_connect_args =
  pg_endpoint :: session_endpoint
  pg_transport_url :: string
  pg_resume_token_hex :: "string option"

record create_terminal_args =
  ca_cols :: u16
  ca_rows :: u16
  ca_cwd :: "string option"
  ca_cmd :: "string list"
  ca_shell :: "string option"
  ca_env :: "(string \<times> string) list"

record command_crates =
  cc_texts :: client_texts
  cc_uuid_parse :: "string \<Rightarrow> (string, uuid) result"
  cc_unhex :: "string \<Rightarrow> (string, bytes) result"
  cc_base64 :: "bytes \<Rightarrow> string"
  cc_resume :: "bytes \<Rightarrow> (string, resume_token) result"
  cc_connect_args :: "json_value \<Rightarrow> (string, connect_args) result"
  cc_create_args :: "json_value \<Rightarrow> (string, create_terminal_args) result"
  cc_server_config :: "json_value \<Rightarrow> (string, server_config) result"
  cc_to_vec :: "json_value \<Rightarrow> (string, bytes) result"
  cc_from_slice :: "bytes \<Rightarrow> (string, json_value) result"

definition uuid_text :: "command_crates \<Rightarrow> uuid \<Rightarrow> string" where
  "uuid_text cc u = tx_uuid (ct_texts (cc_texts cc)) u"

definition parse_resume_token :: "command_crates \<Rightarrow> string option \<Rightarrow> (string, resume_token option) result" where
  "parse_resume_token cc v =
     (case v of
        None \<Rightarrow> Inr None
      | Some s \<Rightarrow>
          if s = [] then Inr None
          else and_then (map_err (\<lambda>e. ''resume_token_hex: '' @ e) (cc_unhex cc s)) (\<lambda>bs.
               and_then (map_err (\<lambda>e. ''resume_token_hex: '' @ e) (cc_resume cc bs)) (\<lambda>t. Inr (Some t))))"

fun parse_connect_args :: "command_crates \<Rightarrow> connect_args \<Rightarrow> (string, parsed_connect_args) result" where
  "parse_connect_args cc (ArgsDirect url resume) =
     Inr \<lparr>pg_endpoint = Direct url, pg_transport_url = url, pg_resume_token_hex = resume\<rparr>"
| "parse_connect_args cc (ArgsRelay relay_url server_id psk_hex server_public_hex resume) =
     and_then (map_err (\<lambda>e. ''server_id: '' @ e) (cc_uuid_parse cc server_id)) (\<lambda>u.
     and_then (map_err (\<lambda>e. ''server_public_hex: '' @ e) (cc_unhex cc server_public_hex)) (\<lambda>public.
       if length public \<noteq> 32 then Inl ''server_public_hex must be 32 bytes''
       else Inr \<lparr>pg_endpoint = Relay relay_url (ServerId u) psk_hex public, pg_transport_url = relay_url,
                 pg_resume_token_hex = resume\<rparr>))"

fun effective_ws_subprotocol :: "session_endpoint \<Rightarrow> string option \<Rightarrow> string option" where
  "effective_ws_subprotocol (Direct _) p = p"
| "effective_ws_subprotocol (Relay _ _ _ _) p = None"

definition parse_terminal_id :: "command_crates \<Rightarrow> string \<Rightarrow> (string, terminal_id) result" where
  "parse_terminal_id cc v =
     and_then (map_err (\<lambda>e. ''terminal_id: '' @ e) (cc_uuid_parse cc v)) (\<lambda>u. Inr (TerminalId u))"

definition validate_signal :: "string option \<Rightarrow> (string, unit) result" where
  "validate_signal signal =
     (case signal of
        None \<Rightarrow> Inr ()
      | Some s \<Rightarrow> if s \<in> {''TERM'', ''HUP'', ''KILL''} then Inr () else Inl (''unsupported signal: '' @ s))"

section \<open>Commands\<close>

text \<open>What the actor is asked to start, and with which identity.\<close>

record connect_request =
  cq_channel :: string
  cq_identity :: client_identity
  cq_config :: session_config
  cq_url :: string
  cq_subprotocol :: "string option"

definition load_identity ::
  "'s kv \<Rightarrow> identity_codec \<Rightarrow> client_texts \<Rightarrow> bytes \<Rightarrow> bytes \<Rightarrow> 's \<Rightarrow> (string, client_identity) result \<times> 's" where
  "load_identity kv cx tx private random s =
     (case load_or_create kv cx private random s of (r, s') \<Rightarrow> (map_err (client_error_text tx) r, s'))"

definition connect ::
  "command_crates \<Rightarrow> 's kv \<Rightarrow> identity_codec \<Rightarrow> json_value \<Rightarrow> string \<Rightarrow> string option \<Rightarrow> bytes \<Rightarrow> bytes \<Rightarrow> 's \<Rightarrow>
   (string, connect_request) result \<times> 's" where
  "connect cc kv cx config event_channel direct_ws_subprotocol private random s =
     (case and_then (cc_connect_args cc config) (\<lambda>args.
             and_then (parse_connect_args cc args) (\<lambda>p.
             and_then (parse_resume_token cc (pg_resume_token_hex p)) (\<lambda>t. Inr (p, t)))) of
        Inl e \<Rightarrow> (Inl e, s)
      | Inr (p, t) \<Rightarrow>
          (case load_identity kv cx (cc_texts cc) private random s of
             (Inl e, s') \<Rightarrow> (Inl e, s')
           | (Inr i, s') \<Rightarrow>
               (Inr \<lparr>cq_channel = event_channel, cq_identity = i,
                     cq_config = \<lparr>cg_endpoint = pg_endpoint p, cg_resume_token = t, cg_backoff = (50, 1000, 20)\<rparr>,
                     cq_url = pg_transport_url p,
                     cq_subprotocol = effective_ws_subprotocol (pg_endpoint p) direct_ws_subprotocol\<rparr>, s')))"

definition create_terminal_command :: "command_crates \<Rightarrow> json_value \<Rightarrow> (string, actor_cmd) result" where
  "create_terminal_command cc params =
     and_then (cc_create_args cc params) (\<lambda>p.
       Inr (ActAsk (AskCreate \<lparr>tcp_cols = ca_cols p, tcp_rows = ca_rows p, tcp_cwd = ca_cwd p,
         tcp_cmd = (if ca_cmd p = [] then (case ca_shell p of None \<Rightarrow> [] | Some sh \<Rightarrow> [sh]) else ca_cmd p),
         tcp_env = ca_env p\<rparr>)))"

definition open_terminal_command :: "command_crates \<Rightarrow> string \<Rightarrow> (string, actor_cmd) result" where
  "open_terminal_command cc i = and_then (parse_terminal_id cc i) (\<lambda>t. Inr (ActAsk (AskOpen t)))"

definition list_terminals_command :: "(string, actor_cmd) result" where
  "list_terminals_command = Inr (ActAsk AskList)"

definition read_history_command :: "command_crates \<Rightarrow> string \<Rightarrow> u64 option \<Rightarrow> u32 \<Rightarrow> (string, actor_cmd) result" where
  "read_history_command cc i before max_bytes =
     and_then (parse_terminal_id cc i) (\<lambda>t. Inr (ActAsk (AskHistory t (map_option StreamSeq before) max_bytes)))"

definition get_server_config_command :: "(string, actor_cmd) result" where
  "get_server_config_command = Inr (ActAsk AskGetConfig)"

definition set_server_config_command :: "command_crates \<Rightarrow> json_value \<Rightarrow> (string, actor_cmd) result" where
  "set_server_config_command cc config = and_then (cc_server_config cc config) (\<lambda>c. Inr (ActAsk (AskSetConfig c)))"

definition send_input :: "command_crates \<Rightarrow> string \<Rightarrow> bytes \<Rightarrow> (string, actor_cmd) result" where
  "send_input cc i bs = and_then (parse_terminal_id cc i) (\<lambda>t. Inr (ActInput t bs))"

definition resize_cmd :: "command_crates \<Rightarrow> string \<Rightarrow> u16 \<Rightarrow> u16 \<Rightarrow> (string, actor_cmd) result" where
  "resize_cmd cc i cols rows = and_then (parse_terminal_id cc i) (\<lambda>t. Inr (ActResize t cols rows))"

definition kill_cmd :: "command_crates \<Rightarrow> string \<Rightarrow> string option \<Rightarrow> (string, actor_cmd) result" where
  "kill_cmd cc i signal =
     and_then (parse_terminal_id cc i) (\<lambda>t.
     and_then (validate_signal signal) (\<lambda>_. Inr (ActAsk (AskKill t))))"

definition close_cmd :: "(string, actor_cmd) result" where
  "close_cmd = Inr ActShutdown"

definition export_identity ::
  "'s kv \<Rightarrow> identity_codec \<Rightarrow> client_texts \<Rightarrow> bytes \<Rightarrow> bytes \<Rightarrow> 's \<Rightarrow> (string, bytes) result \<times> 's" where
  "export_identity kv cx tx private random s =
     (case load_identity kv cx tx private random s of
        (Inl e, s') \<Rightarrow> (Inl e, s')
      | (Inr i, s') \<Rightarrow> (map_err (client_error_text tx) (export_serialized cx i), s'))"

definition import_identity ::
  "'s kv \<Rightarrow> identity_codec \<Rightarrow> client_texts \<Rightarrow> bytes \<Rightarrow> 's \<Rightarrow> (string, unit) result \<times> 's" where
  "import_identity kv cx tx blob s =
     (case import_serialized kv cx blob s of (r, s') \<Rightarrow> (map_err (client_error_text tx) r, s'))"

definition DAEMON_REGISTRY_KEY :: string where "DAEMON_REGISTRY_KEY = ''daemon_registry_v1''"

definition load_daemon_registry :: "command_crates \<Rightarrow> 's kv \<Rightarrow> 's \<Rightarrow> (string, json_value option) result" where
  "load_daemon_registry cc kv s =
     and_then (map_err (client_error_text (cc_texts cc)) (kv_get kv DAEMON_REGISTRY_KEY s)) (\<lambda>found.
       case found of
         None \<Rightarrow> Inr None
       | Some b \<Rightarrow> and_then (cc_from_slice cc b) (\<lambda>v. Inr (Some v)))"

definition save_daemon_registry :: "command_crates \<Rightarrow> 's kv \<Rightarrow> json_value \<Rightarrow> 's \<Rightarrow> (string, unit) result \<times> 's" where
  "save_daemon_registry cc kv state s =
     (case cc_to_vec cc state of
        Inl e \<Rightarrow> (Inl e, s)
      | Inr b \<Rightarrow> (case kv_put kv DAEMON_REGISTRY_KEY b s of (r, s') \<Rightarrow> (map_err (client_error_text (cc_texts cc)) r, s')))"

section \<open>What the user interface gets\<close>

definition serialize_terminal_info :: "command_crates \<Rightarrow> terminal_info \<Rightarrow> json_value" where
  "serialize_terminal_info cc info = JObject
     [(''terminal'', JString (uuid_text cc (terminal_uuid (ti_terminal info)))),
      (''cols'', JNumber (unat (ti_cols info))), (''rows'', JNumber (unat (ti_rows info))),
      (''created_at_unix_ms'', JNumber (unat (ti_created_at_unix_ms info))),
      (''label'', json_option (\<lambda>l. JString (string_of l)) (ti_label info)),
      (''attached_clients'', JNumber (unat (ti_attached_clients info)))]"

definition serialize_terminal_open_ack :: "command_crates \<Rightarrow> terminal_open_ack \<Rightarrow> json_value" where
  "serialize_terminal_open_ack cc a = JObject
     [(''stream_id'', JNumber (unat (stream_val (to_stream_id a)))), (''info'', serialize_terminal_info cc (to_info a)),
      (''start_seq'', JNumber (unat (seq_val (to_start_seq a)))), (''end_seq'', JNumber (unat (seq_val (to_end_seq a)))),
      (''render_bytes_b64'', JString (cc_base64 cc (to_render_bytes a))),
      (''has_more_history'', JBool (to_has_more_history a))]"

definition serialize_history :: "command_crates \<Rightarrow> terminal_history \<Rightarrow> json_value" where
  "serialize_history cc p = JObject
     [(''terminal_id'', JString (uuid_text cc (terminal_uuid (th_terminal_id p)))),
      (''start_seq'', JNumber (unat (seq_val (th_start_seq p)))), (''end_seq'', JNumber (unat (seq_val (th_end_seq p)))),
      (''bytes_b64'', JString (cc_base64 cc (th_bytes p))), (''has_more'', JBool (th_has_more p))]"

definition serialize_server_config :: "server_config \<Rightarrow> json_value" where
  "serialize_server_config c = JObject [(''scrollback_bytes'', JNumber (unat (sc_scrollback_bytes c)))]"

fun serialize_event :: "command_crates \<Rightarrow> client_event \<Rightarrow> json_value" where
  "serialize_event cc EventConnecting = JObject [(''kind'', JString ''Connecting'')]"
| "serialize_event cc (EventConnected session_id server_label) = JObject
     [(''kind'', JString ''Connected''), (''session_id'', JString (uuid_text cc (session_uuid session_id))),
      (''server_label'', json_option JString server_label)]"
| "serialize_event cc (EventDisconnected will_retry reason) = JObject
     [(''kind'', JString ''Disconnected''), (''will_retry'', JBool will_retry), (''reason'', JString reason)]"
| "serialize_event cc (EventTerminalCreated info) = JObject
     [(''kind'', JString ''TerminalCreated''),
      (''info'', JObject
         [(''terminal'', JString (uuid_text cc (terminal_uuid (ti_terminal info)))),
          (''cols'', JNumber (unat (ti_cols info))), (''rows'', JNumber (unat (ti_rows info))),
          (''created_at_unix_ms'', JNumber (unat (ti_created_at_unix_ms info))),
          (''label'', json_option (\<lambda>l. JString (string_of l)) (ti_label info)),
          (''attached_clients'', JNumber (unat (ti_attached_clients info)))])]"
| "serialize_event cc (EventTerminalOutput i n bs) = JObject
     [(''kind'', JString ''TerminalOutput''), (''terminal_id'', JString (uuid_text cc (terminal_uuid i))),
      (''stream_seq'', JNumber (unat (seq_val n))), (''bytes_b64'', JString (cc_base64 cc bs))]"
| "serialize_event cc (EventError message) = JObject [(''kind'', JString ''Error''), (''message'', JString message)]"

section \<open>Facts\<close>

text \<open>The documented round trips of \<open>uuid\<close>, \<open>hex\<close> and \<open>base64\<close>, and of \<open>serde_json\<close>.\<close>

definition command_crates_ok :: "command_crates \<Rightarrow> bool" where
  "command_crates_ok cc \<longleftrightarrow>
     (\<forall>u. cc_uuid_parse cc (uuid_text cc u) = Inr u) \<and>
     (\<forall>b. cc_unhex cc (tx_hex (ct_texts (cc_texts cc)) b) = Inr b) \<and>
     inj (cc_base64 cc) \<and>
     (\<forall>v b. cc_to_vec cc v = Inr b \<longrightarrow> cc_from_slice cc b = Inr v)"

lemma command_crates_dest:
  assumes "command_crates_ok cc"
  shows "cc_uuid_parse cc (uuid_text cc u) = Inr u" "cc_unhex cc (tx_hex (ct_texts (cc_texts cc)) b) = Inr b"
    "cc_base64 cc x = cc_base64 cc y \<longleftrightarrow> x = y" "cc_to_vec cc v = Inr w \<Longrightarrow> cc_from_slice cc w = Inr v"
    "uuid_text cc p = uuid_text cc q \<longleftrightarrow> p = q"
proof -
  show parse: "cc_uuid_parse cc (uuid_text cc u) = Inr u" for u using assms unfolding command_crates_ok_def by blast
  show "uuid_text cc p = uuid_text cc q \<longleftrightarrow> p = q"
  proof
    assume "uuid_text cc p = uuid_text cc q"
    from arg_cong [OF this, of "cc_uuid_parse cc"] show "p = q" by (simp only: parse sum.inject)
  qed simp
  show "cc_base64 cc x = cc_base64 cc y \<longleftrightarrow> x = y"
    using assms unfolding command_crates_ok_def by (intro inj_eq) blast
  show "cc_unhex cc (tx_hex (ct_texts (cc_texts cc)) b) = Inr b" using assms unfolding command_crates_ok_def by blast
  show "cc_to_vec cc v = Inr w \<Longrightarrow> cc_from_slice cc w = Inr v" using assms unfolding command_crates_ok_def by blast
qed

lemma string_of_inj: "string_of x = string_of y \<longleftrightarrow> x = y"
proof -
  have "char_of (unat b) = (char_of (unat c) :: char) \<longleftrightarrow> b = c" for b c :: u8
    using unat_lt_pow [of b] unat_lt_pow [of c] by (simp add: char_of_eq_iff word_unat_eq_iff take_bit_eq_mod)
  then have "inj (\<lambda>b :: u8. char_of (unat b) :: char)" by (simp add: inj_def)
  then show ?thesis by (simp add: string_of_def inj_map_eq_map)
qed

lemma kill_ignores_signal:
  "kill_cmd cc i (Some ''KILL'') = kill_cmd cc i None \<and> kill_cmd cc i (Some ''HUP'') = kill_cmd cc i (Some ''TERM'')"
  by (simp add: kill_cmd_def validate_signal_def)

end
