(* ===== verification/Client_Wasm.thy ===== *)
theory Client_Wasm
  imports Client_Commands "HOL-Library.Sublist"
begin

text \<open>
  The bindings for the browser (\<open>crates/client/client-core-wasm/src\<close>): the class
  \<open>CliPocketClient\<close> (\<open>lib.rs\<close>) with its four cells, the IndexedDB store (\<open>kv_idb.rs\<close>) and the
  clock (\<open>clock_perf.rs\<close>). The browser runs one task at a time; a task gives up control only
  where it waits, so \<open>connect\<close> is two steps (before and after the store has answered) and
  \<open>next_event\<close> is two (before and after an event). A theorem holds for every list of steps.
\<close>

section \<open>The store of the browser\<close>

text \<open>
  \<open>id_broken\<close> is the error of every request when transactions cannot be opened, \<open>id_answers\<close>
  the answers to the coming writes (success when they run out). A request that fails aborts
  its transaction.
\<close>

record idb_store =
  id_entries :: "(string, bytes) hash_map"
  id_broken :: "client_error option"
  id_answers :: "(client_error, unit) result list"

definition idb_get :: "string \<Rightarrow> idb_store \<Rightarrow> (client_error, bytes option) result" where
  "idb_get key s = (case id_broken s of Some e \<Rightarrow> Inl e | None \<Rightarrow> Inr (hm_get (id_entries s) key))"

definition idb_write ::
  "((string, bytes) hash_map \<Rightarrow> (string, bytes) hash_map) \<Rightarrow> idb_store \<Rightarrow> (client_error, unit) result \<times> idb_store" where
  "idb_write f s =
     (case id_broken s of
        Some e \<Rightarrow> (Inl e, s)
      | None \<Rightarrow>
          (case id_answers s of
             Inl e # rest \<Rightarrow> (Inl e, s\<lparr>id_answers := rest\<rparr>)
           | _ \<Rightarrow> (Inr (), s\<lparr>id_answers := drop 1 (id_answers s), id_entries := f (id_entries s)\<rparr>)))"

definition idb_kv :: "idb_store kv" where
  "idb_kv = \<lparr>kv_get = idb_get, kv_put = (\<lambda>k v. idb_write (hm_insert k v)), kv_delete = (\<lambda>k. idb_write (hm_remove k))\<rparr>"

interpretation browser_store: kv_laws idb_kv
  by unfold_locales (auto simp: idb_kv_def idb_write_def idb_get_def hm_simps split: option.splits list.splits sum.splits)

section \<open>Clock\<close>

text \<open>\<open>performance.now()\<close> as the whole milliseconds of a finite, non-negative time; \<open>None\<close> otherwise.\<close>

definition perf_now_ms :: "nat option \<Rightarrow> u64" where
  "perf_now_ms now = (case now of None \<Rightarrow> 0 | Some ms \<Rightarrow> of_nat (min ms (2 ^ 64 - 1)))"

definition perf_sleep_ms :: "u64 \<Rightarrow> u32" where
  "perf_sleep_ms ms = (if unat ms < 2 ^ 32 then ucast ms else - 1)"

section \<open>Arguments and answers\<close>

definition WEB_RECONNECT_BACKOFF :: "u64 \<times> u64 \<times> u32" where
  "WEB_RECONNECT_BACKOFF = (500, 30000, 20)"

fun parse_connect_config_inner :: "command_crates \<Rightarrow> connect_args \<Rightarrow> (string, session_endpoint \<times> string option) result" where
  "parse_connect_config_inner cc (ArgsDirect endpoint_url resume_token_hex) = Inr (Direct endpoint_url, resume_token_hex)"
| "parse_connect_config_inner cc (ArgsRelay relay_url server_id psk_hex server_public_hex resume_token_hex) =
     and_then (map_err (\<lambda>e. ''server_id: '' @ e) (cc_uuid_parse cc server_id)) (\<lambda>u.
     and_then (map_err (\<lambda>e. ''server_public_hex: '' @ e) (cc_unhex cc server_public_hex)) (\<lambda>public.
       if length public \<noteq> 32 then Inl ''server_public_hex must be 32 bytes''
       else Inr (Relay relay_url (ServerId u) psk_hex public, resume_token_hex)))"

definition js_parse_resume_token :: "command_crates \<Rightarrow> string option \<Rightarrow> (string, resume_token option) result" where
  "js_parse_resume_token cc v =
     (case v of
        None \<Rightarrow> Inr None
      | Some s \<Rightarrow>
          if s = [] then Inr None
          else and_then (map_err (\<lambda>e. ''resume_token_hex: '' @ e) (cc_unhex cc s)) (\<lambda>bs.
               and_then (map_err (\<lambda>e. ''resume_token_hex: '' @ e) (cc_resume cc bs)) (\<lambda>t. Inr (Some t))))"

definition js_parse_terminal_id :: "command_crates \<Rightarrow> string \<Rightarrow> (string, terminal_id) result" where
  "js_parse_terminal_id cc v =
     and_then (map_err (\<lambda>e. ''terminal_id: '' @ e) (cc_uuid_parse cc v)) (\<lambda>u. Inr (TerminalId u))"

definition terminal_info_to_json_value :: "command_crates \<Rightarrow> terminal_info \<Rightarrow> json_value" where
  "terminal_info_to_json_value cc info = JObject
     [(''terminal'', JString (uuid_text cc (terminal_uuid (ti_terminal info)))),
      (''cols'', JNumber (unat (ti_cols info))), (''rows'', JNumber (unat (ti_rows info))),
      (''created_at_unix_ms'', JNumber (unat (ti_created_at_unix_ms info))),
      (''label'', json_option (\<lambda>l. JString (string_of l)) (ti_label info)),
      (''attached_clients'', JNumber (unat (ti_attached_clients info)))]"

fun event_to_json_value :: "command_crates \<Rightarrow> client_event \<Rightarrow> json_value" where
  "event_to_json_value cc EventConnecting = JObject [(''kind'', JString ''Connecting'')]"
| "event_to_json_value cc (EventConnected session_id server_label) = JObject
     [(''kind'', JString ''Connected''), (''session_id'', JString (uuid_text cc (session_uuid session_id))),
      (''server_label'', json_option JString server_label)]"
| "event_to_json_value cc (EventDisconnected will_retry reason) = JObject
     [(''kind'', JString ''Disconnected''), (''will_retry'', JBool will_retry), (''reason'', JString reason)]"
| "event_to_json_value cc (EventTerminalCreated info) = JObject
     [(''kind'', JString ''TerminalCreated''), (''info'', terminal_info_to_json_value cc info)]"
| "event_to_json_value cc (EventTerminalOutput i n bs) = JObject
     [(''kind'', JString ''TerminalOutput''), (''terminal_id'', JString (uuid_text cc (terminal_uuid i))),
      (''stream_seq'', JNumber (unat (seq_val n))), (''bytes_b64'', JString (cc_base64 cc bs))]"
| "event_to_json_value cc (EventError message) = JObject [(''kind'', JString ''Error''), (''message'', JString message)]"

definition terminal_open_ack_to_js :: "command_crates \<Rightarrow> terminal_open_ack \<Rightarrow> json_value" where
  "terminal_open_ack_to_js cc a = JObject
     [(''stream_id'', JNumber (unat (stream_val (to_stream_id a)))), (''info'', terminal_info_to_json_value cc (to_info a)),
      (''start_seq'', JNumber (unat (seq_val (to_start_seq a)))), (''end_seq'', JNumber (unat (seq_val (to_end_seq a)))),
      (''render_bytes_b64'', JString (cc_base64 cc (to_render_bytes a))),
      (''has_more_history'', JBool (to_has_more_history a))]"

definition history_to_js :: "command_crates \<Rightarrow> terminal_history \<Rightarrow> json_value" where
  "history_to_js cc p = JObject
     [(''terminal_id'', JString (uuid_text cc (terminal_uuid (th_terminal_id p)))),
      (''start_seq'', JNumber (unat (seq_val (th_start_seq p)))), (''end_seq'', JNumber (unat (seq_val (th_end_seq p)))),
      (''bytes_b64'', JString (cc_base64 cc (th_bytes p))), (''has_more'', JBool (th_has_more p))]"

definition server_config_to_js :: "server_config \<Rightarrow> json_value" where
  "server_config_to_js c = JObject [(''scrollback_bytes'', JNumber (unat (sc_scrollback_bytes c)))]"

section \<open>The client\<close>

text \<open>
  A session with its event queue, as in \<open>Client_Actor\<close>; \<open>wk_dropped\<close> says that its receiver is
  gone. \<open>wc_waiting\<close> are the receivers that calls of \<open>next_event\<close> hold, \<open>wc_connecting\<close> the
  calls of \<open>connect\<close> that wait for the store. \<open>wc_given\<close> (what \<open>next_event\<close> resolved with, with
  the session it came from) and \<open>wc_errors\<close> (what promises were rejected with) are histories.
\<close>

record wasm_session =
  wk_config :: session_config
  wk_active :: "terminal_id option"
  wk_queue :: "client_event list"
  wk_emitting :: bool
  wk_dropped :: bool
  wk_over :: bool
  wk_stop :: bool
  wk_cmds :: "terminal_cmd list"
  wk_asks :: "session_ask list"
  wk_emitted :: "client_event list"

record 's wasm_client =
  wc_inner :: "nat option"
  wc_events :: "nat option"
  wc_kv :: bool
  wc_identity :: "client_identity option"
  wc_store :: 's
  wc_connecting :: "(session_endpoint \<times> resume_token option) list"
  wc_waiting :: "nat list"
  wc_sessions :: "wasm_session list"
  wc_given :: "(nat \<times> client_event option) list"
  wc_errors :: "string list"

definition wasm_new :: "'s \<Rightarrow> 's wasm_client" where
  "wasm_new s = \<lparr>wc_inner = None, wc_events = None, wc_kv = False, wc_identity = None, wc_store = s, wc_connecting = [],
     wc_waiting = [], wc_sessions = [], wc_given = [], wc_errors = []\<rparr>"

definition wasm_session_start :: "session_config \<Rightarrow> wasm_session" where
  "wasm_session_start config = \<lparr>wk_config = config, wk_active = None, wk_queue = [], wk_emitting = False, wk_dropped = False,
     wk_over = False, wk_stop = False, wk_cmds = [], wk_asks = [], wk_emitted = []\<rparr>"

definition on_session :: "nat \<Rightarrow> (wasm_session \<Rightarrow> wasm_session) \<Rightarrow> 's wasm_client \<Rightarrow> 's wasm_client" where
  "on_session k f st = st\<lparr>wc_sessions := (wc_sessions st)[k := f (wc_sessions st ! k)]\<rparr>"

definition reject :: "string \<Rightarrow> 's wasm_client \<Rightarrow> 's wasm_client" where
  "reject e st = st\<lparr>wc_errors := wc_errors st @ [e]\<rparr>"

text \<open>A receiver that is replaced or taken and let go.\<close>

definition drop_receiver :: "nat option \<Rightarrow> 's wasm_client \<Rightarrow> 's wasm_client" where
  "drop_receiver r st =
     (case r of None \<Rightarrow> st
      | Some k \<Rightarrow> on_session k (\<lambda>se. se\<lparr>wk_queue := [], wk_emitting := False, wk_dropped := True\<rparr>) st)"

definition set_events :: "nat option \<Rightarrow> 's wasm_client \<Rightarrow> 's wasm_client" where
  "set_events r st = (drop_receiver (wc_events st) st)\<lparr>wc_events := r\<rparr>"

text \<open>\<open>shutdown\<close> of the session that is taken out of its cell.\<close>

definition take_session :: "'s wasm_client \<Rightarrow> 's wasm_client" where
  "take_session st =
     (case wc_inner st of None \<Rightarrow> st | Some k \<Rightarrow> on_session k (\<lambda>se. se\<lparr>wk_stop := True\<rparr>) st)\<lparr>wc_inner := None\<rparr>"

definition wasm_connect :: "command_crates \<Rightarrow> (string, connect_args) result \<Rightarrow> 's wasm_client \<Rightarrow> 's wasm_client" where
  "wasm_connect cc config st =
     (let st1 = set_events None (take_session st) in
      case and_then config (\<lambda>args.
             and_then (parse_connect_config_inner cc args) (\<lambda>(endpoint, hex).
             and_then (js_parse_resume_token cc hex) (\<lambda>t. Inr (endpoint, t)))) of
        Inl e \<Rightarrow> reject e st1
      | Inr c \<Rightarrow> st1\<lparr>wc_connecting := wc_connecting st1 @ [c]\<rparr>)"

text \<open>\<open>identity\<close>: the cached identity, or that of the store.\<close>

definition wasm_identity ::
  "client_texts \<Rightarrow> 's kv \<Rightarrow> identity_codec \<Rightarrow> bytes \<Rightarrow> bytes \<Rightarrow> 's wasm_client \<Rightarrow>
   (string, client_identity) result \<times> 's wasm_client" where
  "wasm_identity tx kv cx private random st =
     (case wc_identity st of
        Some i \<Rightarrow> (Inr i, st)
      | None \<Rightarrow>
          (case load_or_create kv cx private random (wc_store st) of
             (Inl e, s') \<Rightarrow> (Inl (client_error_text tx e), st\<lparr>wc_store := s'\<rparr>)
           | (Inr i, s') \<Rightarrow> (Inr i, st\<lparr>wc_store := s', wc_identity := Some i\<rparr>)))"

text \<open>The rest of \<open>connect\<close> when the store is open (\<open>opened\<close> is the answer to opening it, when it was not).\<close>

definition wasm_connect_done ::
  "client_texts \<Rightarrow> 's kv \<Rightarrow> identity_codec \<Rightarrow> (client_error, unit) result \<Rightarrow> bytes \<Rightarrow> bytes \<Rightarrow>
   session_endpoint \<times> resume_token option \<Rightarrow> 's wasm_client \<Rightarrow> 's wasm_client" where
  "wasm_connect_done tx kv cx opened private random c st =
     (case if wc_kv st then Inr () else opened of
        Inl e \<Rightarrow> reject (client_error_text tx e) st
      | Inr _ \<Rightarrow>
          (case wasm_identity tx kv cx private random (st\<lparr>wc_kv := True\<rparr>) of
             (Inl e, st1) \<Rightarrow> reject e st1
           | (Inr i, st1) \<Rightarrow>
               (let k = length (wc_sessions st1);
                    se = wasm_session_start \<lparr>cg_endpoint = fst c, cg_resume_token = snd c, cg_backoff = WEB_RECONNECT_BACKOFF\<rparr> in
                set_events (Some k) (st1\<lparr>wc_inner := Some k, wc_sessions := wc_sessions st1 @ [se]\<rparr>))))"

definition wasm_next_event :: "'s wasm_client \<Rightarrow> 's wasm_client" where
  "wasm_next_event st =
     (case wc_events st of
        None \<Rightarrow> reject ''not connected'' st
      | Some k \<Rightarrow> st\<lparr>wc_events := None, wc_waiting := wc_waiting st @ [k]\<rparr>)"

definition give :: "nat \<Rightarrow> client_event option \<Rightarrow> 's wasm_client \<Rightarrow> 's wasm_client" where
  "give k e st = st\<lparr>wc_given := wc_given st @ [(k, e)]\<rparr>"

text \<open>The j-th waiting call goes on when its receiver yields an event or the end; the receiver is put back.\<close>

definition wasm_next_done :: "nat \<Rightarrow> 's wasm_client \<Rightarrow> 's wasm_client option" where
  "wasm_next_done j st =
     (if length (wc_waiting st) \<le> j then None
      else (let k = wc_waiting st ! j; se = wc_sessions st ! k;
                st1 = st\<lparr>wc_waiting := take j (wc_waiting st) @ drop (Suc j) (wc_waiting st)\<rparr> in
        case wk_queue se of
          e # es \<Rightarrow>
            Some (set_events (Some k) (give k (Some e)
              (on_session k (\<lambda>se. se\<lparr>wk_queue := es, wk_emitting := False\<rparr>) st1)))
        | [] \<Rightarrow> if wk_over se then Some (set_events (Some k) (give k None st1)) else None))"

definition wasm_close :: "'s wasm_client \<Rightarrow> 's wasm_client" where
  "wasm_close st = set_events None (take_session st)"

definition wasm_export_identity ::
  "client_texts \<Rightarrow> identity_codec \<Rightarrow> (bytes \<Rightarrow> string) \<Rightarrow> 's wasm_client \<Rightarrow> (string, string) result" where
  "wasm_export_identity tx cx base64 st =
     (case wc_identity st of
        None \<Rightarrow> Inl ''no identity loaded''
      | Some i \<Rightarrow> and_then (map_err (client_error_text tx) (export_serialized cx i)) (\<lambda>b. Inr (base64 b)))"

definition wasm_import_identity ::
  "client_texts \<Rightarrow> 's kv \<Rightarrow> identity_codec \<Rightarrow> (string \<Rightarrow> (string, bytes) result) \<Rightarrow> (client_error, unit) result \<Rightarrow>
   bytes \<Rightarrow> bytes \<Rightarrow> string \<Rightarrow> 's wasm_client \<Rightarrow> (string, unit) result \<times> 's wasm_client" where
  "wasm_import_identity tx kv cx unbase64 opened private random blob st =
     (case unbase64 blob of
        Inl e \<Rightarrow> (Inl (''base64 decode: '' @ e), st)
      | Inr raw \<Rightarrow>
          (case if wc_kv st then Inr () else opened of
             Inl e \<Rightarrow> (Inl (client_error_text tx e), st)
           | Inr _ \<Rightarrow>
               (case import_serialized kv cx raw (wc_store st) of
                  (Inl e, s1) \<Rightarrow> (Inl (client_error_text tx e), st\<lparr>wc_kv := True, wc_store := s1\<rparr>)
                | (Inr _, s1) \<Rightarrow>
                    (case load_or_create kv cx private random s1 of
                       (Inl e, s2) \<Rightarrow> (Inl (client_error_text tx e), st\<lparr>wc_kv := True, wc_store := s2\<rparr>)
                     | (Inr i, s2) \<Rightarrow> (Inr (), st\<lparr>wc_kv := True, wc_store := s2, wc_identity := Some i\<rparr>)))))"

text \<open>
  The calls on a session: what is passed to it, or the text the promise is rejected with.
\<close>

definition wasm_ask ::
  "(string, session_ask) result \<Rightarrow> 's wasm_client \<Rightarrow> (string, unit) result \<times> 's wasm_client" where
  "wasm_ask a st =
     (case wc_inner st of
        None \<Rightarrow> (Inl ''not connected'', st)
      | Some k \<Rightarrow>
          (case a of Inl e \<Rightarrow> (Inl e, st) | Inr ask \<Rightarrow> (Inr (), on_session k (\<lambda>se. se\<lparr>wk_asks := wk_asks se @ [ask]\<rparr>) st)))"

record js_create_params =
  jp_cols :: u16
  jp_rows :: u16
  jp_cwd :: "string option"
  jp_cmd :: "string list"
  jp_env :: "(string \<times> string) list"

definition js_create_terminal :: "(string, js_create_params) result \<Rightarrow> (string, session_ask) result" where
  "js_create_terminal params =
     and_then (map_err (\<lambda>e. ''params_json: '' @ e) params) (\<lambda>p.
       Inr (AskCreate \<lparr>tcp_cols = jp_cols p, tcp_rows = jp_rows p, tcp_cwd = jp_cwd p, tcp_cmd = jp_cmd p, tcp_env = jp_env p\<rparr>))"

definition js_open_terminal :: "command_crates \<Rightarrow> string \<Rightarrow> (string, session_ask) result" where
  "js_open_terminal cc i = and_then (js_parse_terminal_id cc i) (\<lambda>t. Inr (AskOpen t))"

definition js_read_history :: "command_crates \<Rightarrow> string \<Rightarrow> u64 option \<Rightarrow> u32 \<Rightarrow> (string, session_ask) result" where
  "js_read_history cc i before max_bytes =
     and_then (js_parse_terminal_id cc i) (\<lambda>t. Inr (AskHistory t (map_option StreamSeq before) max_bytes))"

definition js_set_server_config :: "(string, server_config) result \<Rightarrow> (string, session_ask) result" where
  "js_set_server_config config = and_then (map_err (\<lambda>e. ''config_json: '' @ e) config) (\<lambda>c. Inr (AskSetConfig c))"

definition js_kill :: "command_crates \<Rightarrow> string \<Rightarrow> (string, session_ask) result" where
  "js_kill cc i = and_then (js_parse_terminal_id cc i) (\<lambda>t. Inr (AskKill t))"

text \<open>\<open>send_input\<close> and \<open>resize\<close>: the command goes into the session's queue.\<close>

definition wasm_terminal_cmd ::
  "command_crates \<Rightarrow> string \<Rightarrow> (terminal_id \<Rightarrow> terminal_cmd) \<Rightarrow> 's wasm_client \<Rightarrow> (string, unit) result \<times> 's wasm_client" where
  "wasm_terminal_cmd cc i cmd st =
     (case wc_inner st of
        None \<Rightarrow> (Inl ''not connected'', st)
      | Some k \<Rightarrow>
          (let se = wc_sessions st ! k in
           case wk_active se of
             None \<Rightarrow> (Inl ''no active terminal'', st)
           | Some active \<Rightarrow>
               (case js_parse_terminal_id cc i of
                  Inl e \<Rightarrow> (Inl e, st)
                | Inr t \<Rightarrow>
                    if active \<noteq> t then (Inl ''terminal is not active'', st)
                    else (case queue_cmd (wk_over se) (cmd active) (wk_cmds se) of
                        (Inl e, _) \<Rightarrow> (Inl (client_error_text (cc_texts cc) e), st)
                      | (Inr _, q) \<Rightarrow> (Inr (), on_session k (\<lambda>se. se\<lparr>wk_cmds := q\<rparr>) st)))))"

section \<open>Steps\<close>

definition wasm_emit :: "nat \<Rightarrow> client_event \<Rightarrow> 's wasm_client \<Rightarrow> 's wasm_client option" where
  "wasm_emit k e st =
     (if length (wc_sessions st) \<le> k then None
      else (let se = wc_sessions st ! k in
        if wk_over se \<or> wk_emitting se then None
        else if wk_dropped se then Some (on_session k (\<lambda>se. se\<lparr>wk_emitted := wk_emitted se @ [e]\<rparr>) st)
        else Some (on_session k (\<lambda>se. se\<lparr>wk_queue := wk_queue se @ [e], wk_emitted := wk_emitted se @ [e],
                     wk_emitting := EVENTS_CAPACITY < length (wk_queue se) + 1\<rparr>) st)))"

definition wasm_end :: "nat \<Rightarrow> 's wasm_client \<Rightarrow> 's wasm_client option" where
  "wasm_end k st =
     (if length (wc_sessions st) \<le> k \<or> wk_over (wc_sessions st ! k) \<or> wk_emitting (wc_sessions st ! k) then None
      else Some (on_session k (\<lambda>se. se\<lparr>wk_over := True\<rparr>) st))"

datatype wasm_step =
    WConnect "(string, connect_args) result"
  | WConnectDone nat "(client_error, unit) result" bytes bytes
  | WNext
  | WNextDone nat
  | WClose
  | WEmit nat client_event
  | WEnd nat

fun wasm_exec :: "command_crates \<Rightarrow> 's kv \<Rightarrow> identity_codec \<Rightarrow> wasm_step \<Rightarrow> 's wasm_client \<Rightarrow> 's wasm_client option" where
  "wasm_exec cc kv cx (WConnect config) st = Some (wasm_connect cc config st)"
| "wasm_exec cc kv cx (WConnectDone n opened private random) st =
     (if length (wc_connecting st) \<le> n then None
      else Some (wasm_connect_done (cc_texts cc) kv cx opened private random (wc_connecting st ! n)
        (st\<lparr>wc_connecting := take n (wc_connecting st) @ drop (Suc n) (wc_connecting st)\<rparr>)))"
| "wasm_exec cc kv cx WNext st = Some (wasm_next_event st)"
| "wasm_exec cc kv cx (WNextDone j) st = wasm_next_done j st"
| "wasm_exec cc kv cx WClose st = Some (wasm_close st)"
| "wasm_exec cc kv cx (WEmit k e) st = wasm_emit k e st"
| "wasm_exec cc kv cx (WEnd k) st = wasm_end k st"

fun wasm_run :: "command_crates \<Rightarrow> 's kv \<Rightarrow> identity_codec \<Rightarrow> wasm_step list \<Rightarrow> 's wasm_client \<Rightarrow> 's wasm_client option" where
  "wasm_run cc kv cx [] st = Some st"
| "wasm_run cc kv cx (l # ls) st =
     (case wasm_exec cc kv cx l st of None \<Rightarrow> None | Some st' \<Rightarrow> wasm_run cc kv cx ls st')"

section \<open>Who has which receiver\<close>

definition given_of :: "nat \<Rightarrow> 's wasm_client \<Rightarrow> client_event list" where
  "given_of k st = concat (map (\<lambda>(j, e). if j = k then (case e of None \<Rightarrow> [] | Some e \<Rightarrow> [e]) else []) (wc_given st))"

definition receivers :: "'s wasm_client \<Rightarrow> nat list" where
  "receivers st = (case wc_events st of None \<Rightarrow> [] | Some k \<Rightarrow> [k]) @ wc_waiting st"

definition wasm_session_ok :: "'s wasm_client \<Rightarrow> nat \<Rightarrow> bool" where
  "wasm_session_ok st k \<longleftrightarrow>
     prefix (given_of k st) (wk_emitted (wc_sessions st ! k)) \<and>
     (\<not> wk_dropped (wc_sessions st ! k) \<longrightarrow> given_of k st @ wk_queue (wc_sessions st ! k) = wk_emitted (wc_sessions st ! k))"

text \<open>A session whose receiver is kept has given what it emitted and still holds; every receiver has one owner.\<close>

definition wasm_inv :: "'s wasm_client \<Rightarrow> bool" where
  "wasm_inv st \<longleftrightarrow>
     (\<forall>k < length (wc_sessions st). wasm_session_ok st k) \<and>
     (\<forall>x \<in> set (wc_given st). fst x < length (wc_sessions st)) \<and>
     distinct (receivers st) \<and>
     (\<forall>k \<in> set (receivers st). k < length (wc_sessions st) \<and> \<not> wk_dropped (wc_sessions st ! k))"

lemma wasm_inv_intro:
  assumes "\<And>k. k < length (wc_sessions st) \<Longrightarrow> wasm_session_ok st k"
    "\<And>x. x \<in> set (wc_given st) \<Longrightarrow> fst x < length (wc_sessions st)"
    "distinct (receivers st)" "\<And>k. k \<in> set (receivers st) \<Longrightarrow> k < length (wc_sessions st)"
    "\<And>k. k \<in> set (receivers st) \<Longrightarrow> \<not> wk_dropped (wc_sessions st ! k)"
  shows "wasm_inv st"
  unfolding wasm_inv_def using assms by blast

lemma wasm_inv_dest:
  assumes "wasm_inv st"
  shows "k < length (wc_sessions st) \<Longrightarrow> wasm_session_ok st k"
    "x \<in> set (wc_given st) \<Longrightarrow> fst x < length (wc_sessions st)"
    "distinct (receivers st)" "k \<in> set (receivers st) \<Longrightarrow> k < length (wc_sessions st)"
    "k \<in> set (receivers st) \<Longrightarrow> \<not> wk_dropped (wc_sessions st ! k)"
  using assms unfolding wasm_inv_def by blast+

lemma on_session_simps [simp]:
  "wc_inner (on_session k f st) = wc_inner st" "wc_events (on_session k f st) = wc_events st"
  "wc_waiting (on_session k f st) = wc_waiting st" "wc_given (on_session k f st) = wc_given st"
  "wc_connecting (on_session k f st) = wc_connecting st" "wc_errors (on_session k f st) = wc_errors st"
  "length (wc_sessions (on_session k f st)) = length (wc_sessions st)"
  "j < length (wc_sessions st) \<Longrightarrow>
     wc_sessions (on_session k f st) ! j = (if j = k then f (wc_sessions st ! j) else wc_sessions st ! j)"
  by (simp_all add: on_session_def nth_list_update)

lemma given_of_cong: "wc_given st' = wc_given st \<Longrightarrow> given_of k st' = given_of k st"
  by (simp add: given_of_def)

lemma given_of_none: "wasm_inv st \<Longrightarrow> length (wc_sessions st) \<le> k \<Longrightarrow> given_of k st = []"
  using wasm_inv_dest(2) [of st] by (fastforce simp: given_of_def)

lemma session_ok_cong:
  assumes "wc_given st' = wc_given st" "wk_emitted (wc_sessions st' ! k) = wk_emitted (wc_sessions st ! k)"
    "wk_dropped (wc_sessions st' ! k) \<or>
       wk_dropped (wc_sessions st' ! k) = wk_dropped (wc_sessions st ! k) \<and> wk_queue (wc_sessions st' ! k) = wk_queue (wc_sessions st ! k)"
    "wasm_session_ok st k"
  shows "wasm_session_ok st' k"
proof -
  have g: "given_of k st' = given_of k st" by (rule given_of_cong [OF assms(1)])
  from assms(4) have ok: "prefix (given_of k st) (wk_emitted (wc_sessions st ! k))"
      "\<not> wk_dropped (wc_sessions st ! k) \<Longrightarrow> given_of k st @ wk_queue (wc_sessions st ! k) = wk_emitted (wc_sessions st ! k)"
    unfolding wasm_session_ok_def by blast+
  show ?thesis
    unfolding wasm_session_ok_def g assms(2)
  proof (intro conjI impI)
    assume "\<not> wk_dropped (wc_sessions st' ! k)"
    with assms(3) ok(2) show "given_of k st @ wk_queue (wc_sessions st' ! k) = wk_emitted (wc_sessions st ! k)" by metis
  qed (rule ok(1))
qed

text \<open>Steps that leave the queues alone, or drop receivers that nobody holds any more.\<close>

lemma wasm_inv_frame:
  assumes inv: "wasm_inv st" and given: "wc_given st' = wc_given st"
    and len: "length (wc_sessions st') = length (wc_sessions st)"
    and same: "\<And>k. k < length (wc_sessions st) \<Longrightarrow> wk_emitted (wc_sessions st' ! k) = wk_emitted (wc_sessions st ! k) \<and>
       (wk_dropped (wc_sessions st' ! k) \<and> k \<notin> set (receivers st') \<or>
        wk_dropped (wc_sessions st' ! k) = wk_dropped (wc_sessions st ! k) \<and> wk_queue (wc_sessions st' ! k) = wk_queue (wc_sessions st ! k))"
    and owners: "distinct (receivers st')" "set (receivers st') \<subseteq> set (receivers st)"
  shows "wasm_inv st'"
proof (rule wasm_inv_intro)
  note d = wasm_inv_dest [OF inv]
  fix k
  show "wasm_session_ok st' k" if "k < length (wc_sessions st')"
  proof -
    have k: "k < length (wc_sessions st)" using that by (simp add: len)
    show ?thesis by (rule session_ok_cong [OF given _ _ d(1) [OF k]]) (use same [OF k] in blast)+
  qed
  show "distinct (receivers st')" by (rule owners(1))
  show "fst x < length (wc_sessions st')" if "x \<in> set (wc_given st')" for x
    using that d(2) [of x] by (simp add: given len)
  show lt: "k < length (wc_sessions st')" if "k \<in> set (receivers st')"
    using that owners(2) d(4) [of k] by (auto simp: len)
  show "\<not> wk_dropped (wc_sessions st' ! k)" if "k \<in> set (receivers st')"
    using that same [of k] owners(2) d(4,5) [of k] by (auto simp: len)
qed

lemma set_events_simps [simp]:
  "wc_events (set_events r st) = r" "wc_waiting (set_events r st) = wc_waiting st" "wc_given (set_events r st) = wc_given st"
  "wc_inner (set_events r st) = wc_inner st" "length (wc_sessions (set_events r st)) = length (wc_sessions st)"
  "wc_connecting (set_events r st) = wc_connecting st"
  by (auto simp: set_events_def drop_receiver_def split: option.splits)

lemma set_events_session:
  "k < length (wc_sessions st) \<Longrightarrow> wc_sessions (set_events r st) ! k =
     (if wc_events st = Some k then (wc_sessions st ! k)\<lparr>wk_queue := [], wk_emitting := False, wk_dropped := True\<rparr>
      else wc_sessions st ! k)"
  by (auto simp: set_events_def drop_receiver_def split: option.splits)

text \<open>A receiver that is put into the cell from outside; the one that was there is dropped.\<close>

lemma set_events_inv:
  assumes inv: "wasm_inv st" and r: "r = None \<or> (\<exists>k. r = Some k \<and> k \<notin> set (receivers st) \<and> k < length (wc_sessions st) \<and>
       \<not> wk_dropped (wc_sessions st ! k))"
  shows "wasm_inv (set_events r st)"
proof (rule wasm_inv_intro)
  note d = wasm_inv_dest [OF inv]
  fix k
  show "wasm_session_ok (set_events r st) k" if "k < length (wc_sessions (set_events r st))"
  proof -
    have k: "k < length (wc_sessions st)" using that by simp
    show ?thesis by (rule session_ok_cong [OF _ _ _ d(1) [OF k]]) (simp_all add: set_events_session k)
  qed
  show "distinct (receivers (set_events r st))" using d(3) r by (auto simp: receivers_def)
  show "fst x < length (wc_sessions (set_events r st))" if "x \<in> set (wc_given (set_events r st))" for x
    using that d(2) [of x] by simp
  show lt: "k < length (wc_sessions (set_events r st))" if "k \<in> set (receivers (set_events r st))"
    using that d(4) [of k] r by (auto simp: receivers_def)
  show "\<not> wk_dropped (wc_sessions (set_events r st) ! k)" if "k \<in> set (receivers (set_events r st))"
  proof -
    have k: "k < length (wc_sessions st)" using lt [OF that] by simp
    have "wc_events st \<noteq> Some k \<and> \<not> wk_dropped (wc_sessions st ! k)"
    proof (cases "r = Some k")
      case True
      from r have "k \<notin> set (receivers st) \<and> \<not> wk_dropped (wc_sessions st ! k)" unfolding True by blast
      then show ?thesis by (auto simp: receivers_def split: option.splits)
    next
      case False
      with that have w: "k \<in> set (wc_waiting st)" by (auto simp: receivers_def split: option.splits)
      then have "k \<in> set (receivers st)" by (simp add: receivers_def)
      with w d(3) d(5) [of k] show ?thesis by (auto simp: receivers_def)
    qed
    with k show ?thesis by (simp add: set_events_session)
  qed
qed

lemma take_session_inv:
  assumes "wasm_inv st"
  shows "wasm_inv (take_session st)"
proof -
  have n: "length (wc_sessions (take_session st)) = length (wc_sessions st)"
    "wc_given (take_session st) = wc_given st" "receivers (take_session st) = receivers st"
    by (auto simp: take_session_def receivers_def split: option.splits)
  have s: "wk_emitted (wc_sessions (take_session st) ! k) = wk_emitted (wc_sessions st ! k) \<and>
      wk_dropped (wc_sessions (take_session st) ! k) = wk_dropped (wc_sessions st ! k) \<and>
      wk_queue (wc_sessions (take_session st) ! k) = wk_queue (wc_sessions st ! k)" if "k < length (wc_sessions st)" for k
    using that by (auto simp: take_session_def split: option.splits)
  show ?thesis by (rule wasm_inv_frame [OF assms n(2,1)]) (use s wasm_inv_dest(3) [OF assms] in \<open>simp_all add: n(3)\<close>)
qed

text \<open>A change of what \<open>wasm_inv\<close> does not look at.\<close>

lemma wasm_inv_same:
  assumes "wasm_inv st" "wc_given st' = wc_given st" "wc_sessions st' = wc_sessions st"
    "distinct (receivers st')" "set (receivers st') \<subseteq> set (receivers st)"
  shows "wasm_inv st'"
  by (rule wasm_inv_frame [OF assms(1,2)]) (use assms(3-5) in simp_all)

lemma connect_inv: "wasm_inv st \<Longrightarrow> wasm_inv (wasm_connect cc config st)"
proof -
  assume "wasm_inv st"
  then have inv: "wasm_inv (set_events None (take_session st))" by (intro set_events_inv take_session_inv) auto
  have "wasm_inv (reject e (set_events None (take_session st)))" for e
    by (rule wasm_inv_same [OF inv]) (use wasm_inv_dest(3) [OF inv] in \<open>simp_all add: reject_def receivers_def\<close>)
  moreover have "wasm_inv ((set_events None (take_session st))\<lparr>wc_connecting := c\<rparr>)" for c
    by (rule wasm_inv_same [OF inv]) (use wasm_inv_dest(3) [OF inv] in \<open>simp_all add: receivers_def\<close>)
  ultimately show ?thesis by (simp add: wasm_connect_def Let_def split: sum.splits)
qed

lemma start_inv:
  assumes inv: "wasm_inv st"
  shows "wasm_inv (set_events (Some (length (wc_sessions st)))
    (st\<lparr>wc_inner := i, wc_sessions := wc_sessions st @ [wasm_session_start config]\<rparr>))"
proof (rule set_events_inv)
  let ?k = "length (wc_sessions st)" and ?st = "st\<lparr>wc_inner := i, wc_sessions := wc_sessions st @ [wasm_session_start config]\<rparr>"
  have r: "receivers ?st = receivers st" and g: "wc_given ?st = wc_given st" and gk: "given_of k ?st = given_of k st" for k
    by (simp_all add: receivers_def given_of_def)
  note d = wasm_inv_dest [OF inv]
  show "wasm_inv ?st"
  proof (rule wasm_inv_intro)
    fix k
    show "wasm_session_ok ?st k" if "k < length (wc_sessions ?st)"
    proof (cases "k < ?k")
      case True
      then show ?thesis by (intro session_ok_cong [OF g _ _ d(1) [OF True]]) (simp_all add: nth_append)
    next
      case False
      with that have "k = ?k" by simp
      then have "wc_sessions ?st ! k = wasm_session_start config" by simp
      moreover have "given_of k ?st = []" unfolding gk using given_of_none [OF inv] False by simp
      ultimately show ?thesis unfolding wasm_session_ok_def by (simp add: wasm_session_start_def)
    qed
    show "distinct (receivers ?st)" unfolding r by (rule d(3))
    show "fst x < length (wc_sessions ?st)" if "x \<in> set (wc_given ?st)" for x
      using d(2) [of x] that by simp
    show "k < length (wc_sessions ?st)" if "k \<in> set (receivers ?st)" using d(4) [of k] that unfolding r by simp
    show "\<not> wk_dropped (wc_sessions ?st ! k)" if "k \<in> set (receivers ?st)"
      using d(4,5) [of k] that unfolding r by (simp add: nth_append)
  qed
  have "?k \<notin> set (receivers ?st)" unfolding r using d(4) [of ?k] by blast
  then show "Some ?k = None \<or> (\<exists>k. Some ?k = Some k \<and> k \<notin> set (receivers ?st) \<and> k < length (wc_sessions ?st) \<and>
      \<not> wk_dropped (wc_sessions ?st ! k))"
    by (simp add: wasm_session_start_def)
qed

lemma frame_receivers:
  assumes "wasm_inv st" "wc_given st' = wc_given st" "wc_sessions st' = wc_sessions st"
    "wc_events st' = wc_events st" "wc_waiting st' = wc_waiting st"
  shows "wasm_inv st'"
proof -
  have "receivers st' = receivers st" using assms(4,5) by (simp add: receivers_def)
  with wasm_inv_dest(3) [OF assms(1)] show ?thesis by (intro wasm_inv_same [OF assms(1-3)]) simp_all
qed

lemma identity_frame:
  "wasm_identity tx kv cx private random st = (r, st1) \<Longrightarrow>
   wc_given st1 = wc_given st \<and> wc_sessions st1 = wc_sessions st \<and> wc_events st1 = wc_events st \<and> wc_waiting st1 = wc_waiting st"
  by (auto simp: wasm_identity_def split: option.splits sum.splits prod.splits)

lemma connect_done_inv:
  assumes inv: "wasm_inv st"
  shows "wasm_inv (wasm_connect_done tx kv cx opened private random c st)"
proof -
  obtain r st1 where r: "wasm_identity tx kv cx private random (st\<lparr>wc_kv := True\<rparr>) = (r, st1)" by fastforce
  with identity_frame [OF r] inv have inv1: "wasm_inv st1" by (intro frame_receivers [OF inv]) simp_all
  have rej: "wasm_inv (reject e s)" if "wasm_inv s" for e and s :: "'a wasm_client"
    by (rule frame_receivers [OF that]) (simp_all add: reject_def)
  show ?thesis
    using r start_inv [OF inv1] rej [OF inv1] rej [OF inv]
    by (cases r) (auto simp: wasm_connect_done_def Let_def split: sum.splits)
qed

lemma next_event_inv:
  assumes inv: "wasm_inv st"
  shows "wasm_inv (wasm_next_event st)"
proof (cases "wc_events st")
  case None
  show ?thesis by (rule frame_receivers [OF inv]) (simp_all add: wasm_next_event_def None reject_def)
next
  case (Some k)
  show ?thesis
    by (rule wasm_inv_same [OF inv]) (use wasm_inv_dest(3) [OF inv] in \<open>auto simp: wasm_next_event_def Some receivers_def\<close>)
qed

definition without :: "nat \<Rightarrow> 'a list \<Rightarrow> 'a list" where
  "without j xs = take j xs @ drop (Suc j) xs"

lemma without_distinct:
  assumes "distinct xs" "j < length xs"
  shows "distinct (without j xs)" "set (without j xs) = set xs - {xs ! j}"
proof -
  have xs: "xs = take j xs @ xs ! j # drop (Suc j) xs" by (rule id_take_nth_drop [OF assms(2)])
  from assms(1) have d: "distinct (take j xs @ xs ! j # drop (Suc j) xs)" using xs by simp
  then show "distinct (without j xs)" unfolding without_def by simp
  have "set xs = insert (xs ! j) (set (without j xs))" unfolding without_def by (subst xs) simp
  with d show "set (without j xs) = set xs - {xs ! j}" unfolding without_def by auto
qed

lemma given_of_give: "given_of j (give k e st) = given_of j st @ (if j = k then (case e of None \<Rightarrow> [] | Some e \<Rightarrow> [e]) else [])"
  by (simp add: given_of_def give_def)

text \<open>A waiting call gets what is at the head of its queue (nothing when the session is over).\<close>

lemma give_inv:
  assumes inv: "wasm_inv st" and j: "j < length (wc_waiting st)" and k: "k = wc_waiting st ! j"
    and q: "wk_queue (wc_sessions st ! k) = (case e of None \<Rightarrow> [] | Some e \<Rightarrow> [e]) @ es"
    and st1: "st1 = on_session k (\<lambda>se. se\<lparr>wk_queue := es, wk_emitting := x\<rparr>) (st\<lparr>wc_waiting := without j (wc_waiting st)\<rparr>)"
  shows "wasm_inv (set_events (Some k) (give k e st1))"
proof (rule set_events_inv)
  note d = wasm_inv_dest [OF inv]
  have kr: "k \<in> set (receivers st)" using j by (simp add: k receivers_def)
  have klen: "k < length (wc_sessions st)" and kd: "\<not> wk_dropped (wc_sessions st ! k)" using d(4,5) [OF kr] by auto
  have kw: "distinct (wc_waiting st)" using d(3) by (simp add: receivers_def)
  have ke: "wc_events st \<noteq> Some k" using d(3) j by (auto simp: receivers_def k)
  let ?st = "give k e st1"
  have simps: "wc_events ?st = wc_events st" "wc_waiting ?st = without j (wc_waiting st)"
      "wc_given ?st = wc_given st @ [(k, e)]" "length (wc_sessions ?st) = length (wc_sessions st)"
    by (simp_all add: give_def st1)
  have rs: "distinct (receivers ?st)" "set (receivers ?st) = set (receivers st) - {k}"
    unfolding receivers_def simps using d(3) [unfolded receivers_def] ke without_distinct [OF kw j]
    by (cases "wc_events st"; simp add: k; blast)+
  have se: "wc_sessions ?st ! i = (if i = k then (wc_sessions st ! k)\<lparr>wk_queue := es, wk_emitting := x\<rparr> else wc_sessions st ! i)"
    if "i < length (wc_sessions st)" for i
    using that by (simp add: give_def st1 on_session_def nth_list_update)
  have gv: "given_of i ?st = given_of i st @ (if i = k then (case e of None \<Rightarrow> [] | Some e \<Rightarrow> [e]) else [])" for i
    by (simp add: given_of_give) (simp add: given_of_def st1 on_session_def)
  show "wasm_inv ?st"
  proof (rule wasm_inv_intro)
    fix i
    show "wasm_session_ok ?st i" if "i < length (wc_sessions ?st)"
    proof (cases "i = k")
      case False
      with d(1) [of i] that show ?thesis by (simp add: wasm_session_ok_def gv se simps)
    next
      case True
      from d(1) [OF klen] kd have ok: "given_of k st @ wk_queue (wc_sessions st ! k) = wk_emitted (wc_sessions st ! k)"
        by (simp add: wasm_session_ok_def)
      have "given_of k ?st @ es = wk_emitted (wc_sessions st ! k)" unfolding ok [symmetric] by (simp add: gv q)
      moreover from this have "prefix (given_of k ?st) (wk_emitted (wc_sessions st ! k))" unfolding prefix_def by metis
      ultimately show ?thesis using klen unfolding wasm_session_ok_def True by (simp add: se)
    qed
    show "distinct (receivers ?st)" by (rule rs(1))
    show "fst y < length (wc_sessions ?st)" if "y \<in> set (wc_given ?st)" for y
      using that d(2) [of y] klen unfolding simps by auto
    show lt: "i < length (wc_sessions ?st)" if "i \<in> set (receivers ?st)"
      using that d(4) [of i] unfolding rs simps by simp
    show "\<not> wk_dropped (wc_sessions ?st ! i)" if "i \<in> set (receivers ?st)"
      using that d(4,5) [of i] unfolding rs by (simp add: se)
  qed
  have "k \<notin> set (receivers ?st)" unfolding rs by simp
  then show "Some k = None \<or> (\<exists>i. Some k = Some i \<and> i \<notin> set (receivers ?st) \<and> i < length (wc_sessions ?st) \<and>
      \<not> wk_dropped (wc_sessions ?st ! i))"
    using klen kd by (simp add: se simps)
qed

lemma next_done_inv:
  assumes inv: "wasm_inv st" and step: "wasm_next_done j st = Some st'"
  shows "wasm_inv st'"
proof -
  let ?k = "wc_waiting st ! j"
  from step have j: "j < length (wc_waiting st)" by (simp add: wasm_next_done_def split: if_splits)
  show ?thesis
  proof (cases "wk_queue (wc_sessions st ! ?k)")
    case (Cons e es)
    show ?thesis
      using step j Cons give_inv [OF inv j refl, where e = "Some e" and es = es and x = False, OF _ refl]
      by (simp add: wasm_next_done_def Let_def without_def)
  next
    case Nil
    have "on_session ?k (\<lambda>se. se\<lparr>wk_queue := [], wk_emitting := wk_emitting (wc_sessions st ! ?k)\<rparr>)
        (st\<lparr>wc_waiting := without j (wc_waiting st)\<rparr>) = st\<lparr>wc_waiting := without j (wc_waiting st)\<rparr>"
    proof -
      have "(wc_sessions st ! ?k)\<lparr>wk_queue := []\<rparr> = wc_sessions st ! ?k"
        by (cases "wc_sessions st ! ?k") (use Nil in simp)
      then show ?thesis by (simp add: on_session_def)
    qed
    with step j Nil give_inv [OF inv j refl, where e = None and es = "[]"
        and x = "wk_emitting (wc_sessions st ! ?k)", OF _ refl]
    show ?thesis by (simp add: wasm_next_done_def Let_def without_def split: if_splits)
  qed
qed

lemma emit_inv:
  assumes inv: "wasm_inv st" and step: "wasm_emit k e st = Some st'"
  shows "wasm_inv st'"
proof -
  let ?se = "wc_sessions st ! k"
  note d = wasm_inv_dest [OF inv]
  from step have k: "k < length (wc_sessions st)" by (simp add: wasm_emit_def split: if_splits)
  from step obtain f where f: "st' = on_session k f st" "wk_emitted (f ?se) = wk_emitted ?se @ [e]" "wk_dropped (f ?se) = wk_dropped ?se"
      "\<not> wk_dropped ?se \<Longrightarrow> wk_queue (f ?se) = wk_queue ?se @ [e]"
    by (auto simp: wasm_emit_def Let_def split: if_splits)
  have r: "receivers st' = receivers st" and g: "given_of j st' = given_of j st" and n: "length (wc_sessions st') = length (wc_sessions st)" for j
    by (simp_all add: f(1) receivers_def given_of_def)
  have se: "wc_sessions st' ! j = (if j = k then f ?se else wc_sessions st ! j)" if "j < length (wc_sessions st)" for j
    using that by (simp add: f(1))
  show ?thesis
  proof (rule wasm_inv_intro)
    fix j
    show "wasm_session_ok st' j" if "j < length (wc_sessions st')"
    proof (cases "j = k")
      case False
      with that d(1) [of j] show ?thesis by (simp add: wasm_session_ok_def g se n)
    next
      case True
      from d(1) [OF k] have ok: "prefix (given_of k st) (wk_emitted ?se)"
          "\<not> wk_dropped ?se \<Longrightarrow> given_of k st @ wk_queue ?se = wk_emitted ?se" by (simp_all add: wasm_session_ok_def)
      show ?thesis
        unfolding True wasm_session_ok_def g se [OF k]
        using ok f(2-4) by (simp add: prefix_prefix flip: append_assoc)
    qed
    show "distinct (receivers st')" unfolding r by (rule d(3))
    show "fst x < length (wc_sessions st')" if "x \<in> set (wc_given st')" for x
      using that d(2) [of x] by (simp add: f(1))
    show "j < length (wc_sessions st')" if "j \<in> set (receivers st')" using that d(4) [of j] by (simp add: r n)
    show "\<not> wk_dropped (wc_sessions st' ! j)" if "j \<in> set (receivers st')"
      using that d(4) [of j] d(5) [of j] f(3) by (cases "j = k") (simp_all add: r se)
  qed
qed

lemma end_inv:
  assumes inv: "wasm_inv st" and step: "wasm_end k st = Some st'"
  shows "wasm_inv st'"
proof -
  from step have f: "st' = on_session k (\<lambda>se. se\<lparr>wk_over := True\<rparr>) st" by (simp add: wasm_end_def split: if_splits)
  have r: "receivers st' = receivers st" by (simp add: f receivers_def)
  show ?thesis
    by (rule wasm_inv_frame [OF inv]) (use wasm_inv_dest(3) [OF inv] in \<open>simp_all add: f(1) r [unfolded f]\<close>)
qed

lemma exec_inv:
  assumes inv: "wasm_inv st" and step: "wasm_exec cc kv cx l st = Some st'"
  shows "wasm_inv st'"
proof (cases l)
  case (WConnectDone n opened p q)
  have "wasm_inv (st\<lparr>wc_connecting := c\<rparr>)" for c by (rule frame_receivers [OF inv]) simp_all
  with step WConnectDone show ?thesis by (auto intro: connect_done_inv split: if_splits)
next
  case WClose
  with step set_events_inv [OF take_session_inv [OF inv], of None] show ?thesis by (simp add: wasm_close_def)
qed (use step connect_inv [OF inv] next_event_inv [OF inv] next_done_inv [OF inv] emit_inv [OF inv] end_inv [OF inv] in auto)

lemma run_inv: "wasm_run cc kv cx ls st = Some st' \<Longrightarrow> wasm_inv st \<Longrightarrow> wasm_inv st'"
  by (induction ls arbitrary: st) (auto intro: exec_inv split: option.splits)

lemma new_inv: "wasm_inv (wasm_new s)"
  by (rule wasm_inv_intro) (auto simp: wasm_new_def receivers_def)

section \<open>A lost receiver\<close>

text \<open>A session whose receiver was dropped gives nothing any more.\<close>

definition silent :: "nat \<Rightarrow> client_event list \<Rightarrow> 's wasm_client \<Rightarrow> bool" where
  "silent k given st \<longleftrightarrow> k < length (wc_sessions st) \<and> wk_dropped (wc_sessions st ! k) \<and> given_of k st = given"

lemma silent_frame:
  assumes "silent k g st" "given_of k st' = given_of k st" "length (wc_sessions st) \<le> length (wc_sessions st')"
    "wk_dropped (wc_sessions st ! k) \<Longrightarrow> wk_dropped (wc_sessions st' ! k)"
  shows "silent k g st'"
  using assms by (simp add: silent_def)

lemma silent_drop: "silent k g st \<Longrightarrow> silent k g (set_events r st)"
  by (rule silent_frame) (auto simp: given_of_def set_events_session silent_def)

lemma silent_take: "silent k g st \<Longrightarrow> silent k g (take_session st)"
  by (rule silent_frame) (auto simp: given_of_def take_session_def silent_def split: option.splits)

lemma silent_same: "silent k g st \<Longrightarrow> wc_given st' = wc_given st \<Longrightarrow> wc_sessions st' = wc_sessions st \<Longrightarrow> silent k g st'"
  by (simp add: silent_def given_of_def)

lemma silent_connect: "silent k g st \<Longrightarrow> silent k g (wasm_connect cc config st)"
  using silent_drop [OF silent_take, of k g st None]
  by (auto simp: wasm_connect_def Let_def reject_def elim: silent_same split: sum.splits)

lemma silent_connect_done:
  assumes "silent k g st"
  shows "silent k g (wasm_connect_done tx kv cx opened private random c st)"
proof -
  obtain r st1 where r: "wasm_identity tx kv cx private random (st\<lparr>wc_kv := True\<rparr>) = (r, st1)" by fastforce
  have s1: "silent k g st1" by (rule silent_same [OF assms]) (use identity_frame [OF r] in simp_all)
  have "silent k g (st1\<lparr>wc_inner := i, wc_sessions := wc_sessions st1 @ [se]\<rparr>)" for i se
    using s1 by (auto simp: silent_def given_of_def nth_append)
  then have "silent k g (set_events q (st1\<lparr>wc_inner := i, wc_sessions := wc_sessions st1 @ [se]\<rparr>))" for q i se
    by (rule silent_drop)
  moreover have "silent k g (reject e st1)" "silent k g (reject e st)" for e
    by (rule silent_same [OF s1], simp_all add: reject_def) (rule silent_same [OF assms], simp_all add: reject_def)
  ultimately show ?thesis using r by (cases r) (simp_all add: wasm_connect_done_def Let_def split: sum.splits)
qed

lemma silent_next_done:
  assumes inv: "wasm_inv st" and s: "silent k g st" and step: "wasm_next_done j st = Some st'"
  shows "silent k g st'"
proof -
  let ?i = "wc_waiting st ! j"
  from step have j: "j < length (wc_waiting st)" by (simp add: wasm_next_done_def split: if_splits)
  then have "?i \<in> set (receivers st)" by (simp add: receivers_def)
  with wasm_inv_dest(5) [OF inv] s have other: "?i \<noteq> k" by (auto simp: silent_def)
  have st1: "silent k g (st\<lparr>wc_waiting := w\<rparr>)" for w by (rule silent_same [OF s]) simp_all
  have "silent k g (give ?i e (on_session ?i f (st\<lparr>wc_waiting := w\<rparr>)))" for e f w
    by (rule silent_frame [OF st1 [of w]]) (use other s in \<open>auto simp: given_of_give silent_def given_of_def give_def\<close>)
  moreover have "silent k g (give ?i e (st\<lparr>wc_waiting := w\<rparr>))" for e w
    by (rule silent_frame [OF st1 [of w]]) (use other in \<open>auto simp: given_of_give\<close>, simp_all add: give_def)
  ultimately show ?thesis
    using step j by (auto simp: wasm_next_done_def Let_def intro: silent_drop split: list.splits if_splits)
qed

lemma silent_on_session:
  assumes "silent k g st" "\<And>se. wk_dropped (f se) = wk_dropped se"
  shows "silent k g (on_session i f st)"
  by (rule silent_frame [OF assms(1)]) (use assms in \<open>auto simp: given_of_def silent_def\<close>)

lemma silent_exec:
  assumes inv: "wasm_inv st" and s: "silent k g st" and step: "wasm_exec cc kv cx l st = Some st'"
  shows "silent k g st'"
proof (cases l)
  case (WConnectDone n opened p q)
  have "silent k g (st\<lparr>wc_connecting := c\<rparr>)" for c by (rule silent_same [OF s]) simp_all
  with step WConnectDone show ?thesis by (auto intro: silent_connect_done split: if_splits)
next
  case WNext
  with step s show ?thesis by (auto simp: wasm_next_event_def reject_def elim: silent_same split: option.splits)
next
  case WClose
  with step silent_drop [OF silent_take [OF s]] show ?thesis by (auto simp: wasm_close_def)
next
  case (WEmit i e)
  with step show ?thesis by (auto simp: wasm_emit_def Let_def intro!: silent_on_session [OF s] split: if_splits)
next
  case (WEnd i)
  with step show ?thesis by (auto simp: wasm_end_def intro!: silent_on_session [OF s] split: if_splits)
qed (use step silent_connect [OF s] silent_next_done [OF inv s] in auto)

lemma silent_run:
  "wasm_run cc kv cx ls st = Some st' \<Longrightarrow> wasm_inv st \<Longrightarrow> silent k g st \<Longrightarrow> silent k g st'"
  by (induction ls arbitrary: st) (auto intro: silent_exec exec_inv split: option.splits)


text \<open>
  C39. Connecting again while a call of \<open>next_event\<close> waits loses the new session's events. The
  call holds the old session's receiver; when it goes on (the old session ends), it puts that
  receiver back into the cell, over the new session's, which is dropped. The class still
  holds the new session and its calls succeed, but no event of it is ever handed over again,
  whatever is called later.
\<close>
theorem reconnect_loses_events:
  assumes "wasm_run cc kv cx ls (wasm_new s) = Some st" and "wc_events st = Some m"
    and "wasm_next_done j st = Some st1" and "wasm_run cc kv cx ls' st1 = Some st2"
  shows "wc_inner st1 = wc_inner st \<and> wc_events st1 \<noteq> Some m \<and> given_of m st2 = given_of m st"
proof -
  have inv: "wasm_inv st" by (rule run_inv [OF assms(1) new_inv])
  let ?k = "wc_waiting st ! j"
  from assms(3) have j: "j < length (wc_waiting st)" by (simp add: wasm_next_done_def split: if_splits)
  have m: "m \<in> set (receivers st)" using assms(2) by (simp add: receivers_def)
  have mk: "?k \<noteq> m" using wasm_inv_dest(3) [OF inv] assms(2) j by (auto simp: receivers_def)
  have len: "m < length (wc_sessions st)" by (rule wasm_inv_dest(4) [OF inv m])
  from assms(3) j mk len assms(2) have "silent m (given_of m st) st1 \<and> wc_events st1 = Some ?k \<and> wc_inner st1 = wc_inner st"
    by (auto simp: wasm_next_done_def Let_def silent_def set_events_session give_def given_of_def
             split: list.splits if_splits)
  with silent_run [OF assms(4) next_done_inv [OF inv assms(3)]] mk show ?thesis by (auto simp: silent_def)
qed

text \<open>A client that has not connected cannot export its identity, even when the store has one.\<close>

lemma fresh_client_cannot_export:
  "wasm_export_identity tx cx base64 (wasm_new s) = Inl ''no identity loaded''"
  by (simp add: wasm_export_identity_def wasm_new_def)

text \<open>A configuration that is refused ends the session that was connected; in the desktop application it does not.\<close>

lemma refused_config_disconnects:
  "wc_inner (wasm_connect cc (Inl e) st) = None \<and> (wc_inner st = Some k \<longrightarrow> k < length (wc_sessions st) \<longrightarrow>
     wk_stop (wc_sessions (wasm_connect cc (Inl e) st) ! k))"
  by (auto simp: wasm_connect_def Let_def reject_def take_session_def set_events_session)

section \<open>The same JSON\<close>

lemma terminal_info_json:
  assumes "command_crates_ok cc"
  shows "terminal_info_to_json_value cc a = serialize_terminal_info cc b \<longleftrightarrow> a = b"
  using command_crates_dest(5) [OF assms] string_of_inj
  by (cases a; cases b; cases "ti_terminal a"; cases "ti_terminal b")
     (auto simp: terminal_info_to_json_value_def serialize_terminal_info_def json_option_def word_unat_eq_iff
           split: option.splits)

lemma words_json: "unat x = unat y \<longleftrightarrow> x = y"
  by (simp add: word_unat_eq_iff)

lemma ids:
  "terminal_uuid p = terminal_uuid q \<longleftrightarrow> p = q" "session_uuid x = session_uuid y \<longleftrightarrow> x = y"
  "seq_val m = seq_val n \<longleftrightarrow> m = n" "stream_val u = stream_val v \<longleftrightarrow> u = v"
  by (auto intro: terminal_id.expand session_id.expand stream_seq.expand stream_id.expand)

lemma event_json:
  assumes "command_crates_ok cc"
  shows "event_to_json_value cc a = serialize_event cc b \<longleftrightarrow> a = b"
proof -
  note d = command_crates_dest(3,5) [OF assms]
  have info: "serialize_event cc (EventTerminalCreated i) =
      JObject [(''kind'', JString ''TerminalCreated''), (''info'', serialize_terminal_info cc i)]" for i
    by (simp add: serialize_terminal_info_def)
  show ?thesis
    by (cases a; cases b)
       (simp_all add: info terminal_info_json [OF assms] d ids words_json json_option_def del: serialize_event.simps(4)
          split: option.splits)
qed


section \<open>Witnesses\<close>

text \<open>Identifiers as unary numbers, bytes as characters.\<close>

definition sample_crates :: command_crates where
  "sample_crates = \<lparr>cc_texts = \<lparr>ct_texts = \<lparr>tx_uuid = (\<lambda>u. replicate (unat u) CHR 0x31), tx_postcard = [], tx_hex = string_of\<rparr>,
       ct_frame = (\<lambda>_. []), ct_ctrl = (\<lambda>_. []), ct_close_reason = (\<lambda>_. []), ct_bye = (\<lambda>_. [])\<rparr>,
     cc_uuid_parse = (\<lambda>s. Inr (of_nat (length s))), cc_unhex = (\<lambda>s. Inr (map (\<lambda>c. of_nat (of_char c)) s)),
     cc_base64 = string_of, cc_resume = (\<lambda>_. Inl ''EOF''), cc_connect_args = (\<lambda>_. Inl ''missing field''),
     cc_create_args = (\<lambda>_. Inl ''missing field''), cc_server_config = (\<lambda>_. Inl ''missing field''),
     cc_to_vec = (\<lambda>_. Inl ''unsupported''), cc_from_slice = (\<lambda>_. Inl ''EOF'')\<rparr>"

lemma sample_crates_ok: "command_crates_ok sample_crates"
proof -
  have "of_nat (of_char (char_of (unat b))) = b" for b :: u8
    using unat_lt_pow [of b] by simp
  then have "map (\<lambda>c. of_nat (of_char c)) (string_of bs) = bs" for bs :: bytes
    by (simp add: string_of_def comp_def)
  moreover have "inj string_of" by (simp add: inj_def string_of_inj)
  ultimately show ?thesis by (simp add: command_crates_ok_def sample_crates_def uuid_text_def)
qed


text \<open>Connect, wait for an event, connect again, and let the first session end.\<close>

definition empty_idb :: idb_store where
  "empty_idb = \<lparr>id_entries = [], id_broken = None, id_answers = []\<rparr>"

definition connect_steps :: "string \<Rightarrow> wasm_step list" where
  "connect_steps url = [WConnect (Inr (ArgsDirect url None)), WConnectDone 0 (Inr ()) [5] []]"

definition overtaken_steps :: "wasm_step list" where
  "overtaken_steps = connect_steps ''a'' @ [WEmit 0 EventConnecting, WNext, WNextDone 0, WNext] @ connect_steps ''b'' @ [WEnd 0]"

lemma sample_identity:
  "\<exists>s. load_or_create idb_kv sample_identities [5] [] empty_idb = (Inr \<lparr>ci_client_id = ClientId 9, ci_keypair = sample_pair\<rparr>, s)"
  by (simp add: load_or_create_def load_stored_def idb_kv_def idb_get_def empty_idb_def hm_get_def sample_identities_ok
      persist_def idb_write_def) (simp add: generate_client_id_def sample_identities_def)

lemmas wasm_step_defs = wasm_connect_def wasm_connect_done_def wasm_next_event_def wasm_next_done_def wasm_emit_def wasm_end_def
  set_events_def drop_receiver_def take_session_def on_session_def give_def reject_def wasm_session_start_def Let_def
  js_parse_resume_token_def wasm_identity_def EVENTS_CAPACITY_def

lemma emit_on_session:
  assumes "k < length (wc_sessions st)" "\<not> wk_over (wc_sessions st ! k)" "\<not> wk_emitting (wc_sessions st ! k)"
  shows "\<exists>f. wasm_emit k e st = Some (on_session k f st)"
  using assms unfolding wasm_emit_def Let_def by (cases "wk_dropped (wc_sessions st ! k)") (simp_all, blast+)

lemma overtaken:
  "\<exists>st. wasm_run cc idb_kv sample_identities overtaken_steps (wasm_new empty_idb) = Some st \<and> wc_events st = Some 1 \<and>
     wc_inner st = Some 1 \<and> wc_waiting st = [0] \<and> length (wc_sessions st) = 2 \<and> given_of 0 st = [EventConnecting] \<and>
     given_of 1 st = [] \<and> \<not> wk_dropped (wc_sessions st ! 1) \<and> wk_queue (wc_sessions st ! 0) = [] \<and>
     \<not> wk_over (wc_sessions st ! 1) \<and> \<not> wk_emitting (wc_sessions st ! 1) \<and> wk_over (wc_sessions st ! 0)"
proof -
  from sample_identity obtain s where
    "load_or_create idb_kv sample_identities [5] [] empty_idb = (Inr \<lparr>ci_client_id = ClientId 9, ci_keypair = sample_pair\<rparr>, s)" by blast
  then show ?thesis
    by (simp add: overtaken_steps_def connect_steps_def wasm_new_def wasm_step_defs given_of_def)
qed


text \<open>The waiting call goes on; the new session emits, but the next call gets the end of the old session.\<close>

theorem reconnect_loses_events_witness:
  "\<forall>cc. \<exists>st st1 st2. wasm_run cc idb_kv sample_identities overtaken_steps (wasm_new empty_idb) = Some st \<and>
     wc_events st = Some 1 \<and> wasm_next_done 0 st = Some st1 \<and>
     wasm_run cc idb_kv sample_identities [WEmit 1 EventConnecting, WNext, WNextDone 0] st1 = Some st2 \<and>
     wc_inner st1 = Some 1 \<and> given_of 1 st2 = []"
proof
  fix cc
  from overtaken [of cc] obtain st where st: "wasm_run cc idb_kv sample_identities overtaken_steps (wasm_new empty_idb) = Some st"
      "wc_events st = Some 1" "wc_inner st = Some 1" "wc_waiting st = [0]" "length (wc_sessions st) = 2" "given_of 1 st = []"
      "wk_queue (wc_sessions st ! 0) = []" "wk_over (wc_sessions st ! 0)"
      "\<not> wk_over (wc_sessions st ! 1)" "\<not> wk_emitting (wc_sessions st ! 1)" by blast
  obtain st1 where st1: "wasm_next_done 0 st = Some st1" "wc_events st1 = Some 0" "wc_waiting st1 = []"
      "wk_queue (wc_sessions st1 ! 0) = []" "wk_over (wc_sessions st1 ! 0)" "length (wc_sessions st1) = 2"
      "\<not> wk_over (wc_sessions st1 ! 1)" "\<not> wk_emitting (wc_sessions st1 ! 1)"
    using st by (simp add: wasm_next_done_def Let_def give_def set_events_session)
  from st1(6-8) obtain f where emit: "wasm_emit 1 EventConnecting st1 = Some (on_session 1 f st1)"
    using emit_on_session [of 1 st1 EventConnecting] by auto
  obtain st2 where "wasm_run cc idb_kv sample_identities [WEmit 1 EventConnecting, WNext, WNextDone 0] st1 = Some st2"
    using st1(2-6) by (simp add: emit [unfolded One_nat_def] wasm_next_event_def wasm_next_done_def Let_def)
  with reconnect_loses_events [OF st(1,2) st1(1) this] st st1(1) show "\<exists>st st1 st2.
      wasm_run cc idb_kv sample_identities overtaken_steps (wasm_new empty_idb) = Some st \<and>
     wc_events st = Some 1 \<and> wasm_next_done 0 st = Some st1 \<and>
     wasm_run cc idb_kv sample_identities [WEmit 1 EventConnecting, WNext, WNextDone 0] st1 = Some st2 \<and>
     wc_inner st1 = Some 1 \<and> given_of 1 st2 = []" by auto
qed

end
