(* ===== verification/Relay_Http.thy ===== *)
theory Relay_Http
  imports Relay_System
begin

text \<open>
  What is around the relay's forwarding: its configuration (\<open>crates/relay/relay-core/src/config.rs\<close>),
  the routes and the adapter between the web server's messages and those of the forwarding
  (\<open>http.rs\<close>), the start of the server (\<open>server.rs\<close>) and the program
  (\<open>crates/relay/relay-bin/src/main.rs\<close>). Parsing TOML and uuids and the metrics' text are
  parameters; the payload of a close frame is left out, as in \<open>Relay_Forward\<close>.
\<close>

section \<open>Configuration\<close>

record relay_listen =
  rn_addr :: ip_addr
  rn_port :: u16

record caps_config =
  kc_max_servers :: usize
  kc_max_pairs :: usize
  kc_max_bytes_per_sec :: u64
  kc_max_queued_bytes :: usize

record relay_config =
  rf_listen :: relay_listen
  rf_caps :: caps_config
  rf_idle_seconds :: u64
  rf_server_auth_token :: "string option"

definition relay_listen_default :: relay_listen where
  "relay_listen_default = \<lparr>rn_addr = IpV4 0, rn_port = 8080\<rparr>"

definition caps_config_default :: caps_config where
  "caps_config_default = \<lparr>kc_max_servers = 256, kc_max_pairs = 2048, kc_max_bytes_per_sec = 4 * 1024 * 1024,
     kc_max_queued_bytes = 8 * 1024 * 1024\<rparr>"

definition guillotine_default :: u64 where "guillotine_default = 120"

definition relay_config_default :: relay_config where
  "relay_config_default = \<lparr>rf_listen = relay_listen_default, rf_caps = caps_config_default,
     rf_idle_seconds = guillotine_default, rf_server_auth_token = None\<rparr>"

text \<open>The sections of the file; each may be missing.\<close>

record relay_file_sections =
  fs_listen :: "relay_listen option"
  fs_caps :: "caps_config option"
  fs_guillotine :: "u64 option"
  fs_auth :: "string option option"

definition relay_config_from :: "relay_file_sections \<Rightarrow> relay_config" where
  "relay_config_from f =
     \<lparr>rf_listen = (case fs_listen f of None \<Rightarrow> relay_listen_default | Some l \<Rightarrow> l),
      rf_caps = (case fs_caps f of None \<Rightarrow> caps_config_default | Some c \<Rightarrow> c),
      rf_idle_seconds = (case fs_guillotine f of None \<Rightarrow> guillotine_default | Some g \<Rightarrow> g),
      rf_server_auth_token = (case fs_auth f of None \<Rightarrow> None | Some a \<Rightarrow> a)\<rparr>"

text \<open>\<open>content\<close> is what reading the file gave.\<close>

definition relay_load_from ::
  "(string \<Rightarrow> (string, relay_file_sections) result) \<Rightarrow> (string, string) result \<Rightarrow> (relay_error, relay_config) result" where
  "relay_load_from parse content =
     (case content of
        Inl e \<Rightarrow> Inl (RelayIo e)
      | Inr t \<Rightarrow> (case parse t of Inl e \<Rightarrow> Inl (RelayConfigError e) | Inr f \<Rightarrow> Inr (relay_config_from f)))"

section \<open>Starting\<close>

definition relay_new :: "relay_config \<Rightarrow> relay" where
  "relay_new config = relay_start (caps_new (kc_max_servers (rf_caps config)) (kc_max_pairs (rf_caps config))
     (kc_max_bytes_per_sec (rf_caps config)) (kc_max_queued_bytes (rf_caps config)))"

definition relay_main_config ::
  "(string \<Rightarrow> (string, relay_file_sections) result) \<Rightarrow> (string, string) result option \<Rightarrow> (relay_error, relay_config) result" where
  "relay_main_config parse file =
     (case file of None \<Rightarrow> Inr relay_config_default | Some content \<Rightarrow> relay_load_from parse content)"

datatype relay_cmd = Serve | PrintSampleConfig

text \<open>What the program does: serve from a fresh relay, print the defaults, or fail.\<close>

datatype relay_action = ServeFrom "ip_addr \<times> u16" relay u64 | PrintConfig relay_config | FailWith relay_error

definition relay_main ::
  "(string \<Rightarrow> (string, relay_file_sections) result) \<Rightarrow> (string, string) result option \<Rightarrow> relay_cmd option \<Rightarrow> relay_action" where
  "relay_main parse file cmd =
     (case relay_main_config parse file of
        Inl e \<Rightarrow> FailWith e
      | Inr config \<Rightarrow>
          (case cmd of
             Some PrintSampleConfig \<Rightarrow> PrintConfig relay_config_default
           | _ \<Rightarrow> ServeFrom (rn_addr (rf_listen config), rn_port (rf_listen config)) (relay_new config) (rf_idle_seconds config)))"

section \<open>Routes\<close>

datatype http_response = HttpOk string | HttpBadRequest string | HttpNotFound | UpgradeServer | UpgradeClient server_id

text \<open>What extracting the query parameter \<open>server\<close> gave: its text, or the answer that refuses the request.\<close>

definition ws_client_route :: "(string \<Rightarrow> (string, uuid) result) \<Rightarrow> (string, string) result \<Rightarrow> http_response" where
  "ws_client_route parse_uuid server =
     (case server of
        Inl rejection \<Rightarrow> HttpBadRequest rejection
      | Inr s \<Rightarrow> (case parse_uuid s of Inl _ \<Rightarrow> HttpBadRequest ''invalid server'' | Inr u \<Rightarrow> UpgradeClient (ServerId u)))"

definition relay_route ::
  "(string \<Rightarrow> (string, uuid) result) \<Rightarrow> string \<Rightarrow> string \<Rightarrow> (string, string) result \<Rightarrow> http_response" where
  "relay_route parse_uuid metrics path server =
     (if path = ''/health'' then HttpOk ''ok''
      else if path = ''/metrics'' then HttpOk metrics
      else if path = ''/ws/server'' then UpgradeServer
      else if path = ''/ws/client'' then ws_client_route parse_uuid server
      else HttpNotFound)"

section \<open>Messages\<close>

datatype axum_message = AxText bytes | AxBinary bytes | AxPing bytes | AxPong bytes | AxClose

fun axum_to_tungstenite :: "axum_message \<Rightarrow> ws_message" where
  "axum_to_tungstenite (AxText t) = WsText t"
| "axum_to_tungstenite (AxBinary b) = WsBinary b"
| "axum_to_tungstenite (AxPing b) = WsPing b"
| "axum_to_tungstenite (AxPong b) = WsPong b"
| "axum_to_tungstenite AxClose = WsClose"

fun tungstenite_to_axum :: "ws_message \<Rightarrow> axum_message" where
  "tungstenite_to_axum (WsText t) = AxText t"
| "tungstenite_to_axum (WsBinary b) = AxBinary b"
| "tungstenite_to_axum (WsPing b) = AxPing b"
| "tungstenite_to_axum (WsPong b) = AxPong b"
| "tungstenite_to_axum WsClose = AxClose"
| "tungstenite_to_axum (WsRawFrame b) = AxBinary b"

text \<open>The stream of a socket as the forwarding reads it: an error of the web server is one of the system.\<close>

definition adapter_stream :: "(instant \<times> (string, axum_message) result) list \<Rightarrow> ws_stream" where
  "adapter_stream items =
     map (\<lambda>(now, item). (now, case item of Inl e \<Rightarrow> Inl (''IO error: '' @ e) | Inr m \<Rightarrow> Inr (axum_to_tungstenite m))) items"

definition handle_server ::
  "postcard \<Rightarrow> chan \<Rightarrow> (instant \<times> (string, axum_message) result) list \<Rightarrow> relay \<Rightarrow> relay option" where
  "handle_server pc tx items s = map_option snd (run_server_side pc tx (adapter_stream items) s)"

definition handle_client ::
  "postcard \<Rightarrow> chan \<Rightarrow> server_id \<Rightarrow> pair_id \<Rightarrow> instant \<Rightarrow> (instant \<times> (string, axum_message) result) list \<Rightarrow> relay \<Rightarrow>
   relay option" where
  "handle_client pc tx target pid now items s = map_option snd (run_client_side pc tx target pid now (adapter_stream items) s)"

section \<open>Facts\<close>

lemma adapter_roundtrip: "tungstenite_to_axum (axum_to_tungstenite m) = m"
  by (cases m) simp_all

lemma adapter_binary:
  "axum_to_tungstenite m = WsBinary b \<longleftrightarrow> m = AxBinary b"
  "(\<exists>raw. w = WsRawFrame raw \<or> w = WsBinary raw) \<longleftrightarrow> (\<exists>raw. tungstenite_to_axum w = AxBinary raw)"
  by (cases m; simp) (cases w; simp)

text \<open>The token that servers should present has no effect on anything the relay does.\<close>

lemma auth_token_ignored:
  "relay_new (c\<lparr>rf_server_auth_token := a\<rparr>) = relay_new c"
  by (simp add: relay_new_def)

lemma relay_new_capacity:
  "rl_registry (relay_new c) = registry_new \<and> rl_pairs (relay_new c) = [] \<and>
   c_max_servers (rl_caps (relay_new c)) = kc_max_servers (rf_caps c) \<and>
   c_max_pairs (rl_caps (relay_new c)) = kc_max_pairs (rf_caps c) \<and>
   c_servers (rl_caps (relay_new c)) = 0 \<and> c_pairs (rl_caps (relay_new c)) = 0"
  by (simp add: relay_new_def relay_start_def caps_new_def)

end
