(* ===== verification/Pairing_Offer.thy ===== *)
theory Pairing_Offer
  imports Daemon_Server Client_Channel Relay_Http Client_Wasm
begin

text \<open>
  Pairing across the programs: the offer that the daemon makes (\<open>server.rs\<close> and \<open>config.rs\<close> of
  the daemon) holds what a client needs to reach it. The user interface, which reads the
  offer out of the address and passes its members on, is written in TypeScript and is not
  modelled.
\<close>

lemma server_id_eta: "ServerId (server_uuid i) = i"
  by (cases i) simp

text \<open>A configured key that makes an offer, as its two readers decode it.\<close>

lemma offered_psk:
  assumes "unhex (trim (ry_psk_hex (dc_relay config))) = Inr psk" "length psk = 32"
    "trim (ry_psk_hex (dc_relay config)) = ry_psk_hex (dc_relay config)"
  shows "start_relay_psk unhex config = Some psk"
  using assms by (simp add: start_relay_psk_def)

lemma pair_url_parts:
  assumes "pair_url tx pc unhex sv = Inr url"
  obtains relay_url psk where
    "relay_client_ws_url_for_server tx (ry_base_url (dc_relay (sv_config sv))) (di_server_id (sv_identity sv)) = Inr relay_url"
    "unhex (trim (ry_psk_hex (dc_relay (sv_config sv)))) = Inr psk" "length psk = 32"
    "build_pairing_offer_url tx pc (ap_base_url (dc_app (sv_config sv)))
       \<lparr>po_label = si_server_label (dm_server_info (sv_daemon sv)), po_server_id = di_server_id (sv_identity sv),
        po_server_public_hex = public_key_hex tx sv, po_relay_url = relay_url,
        po_relay_psk_hex = trim (ry_psk_hex (dc_relay (sv_config sv)))\<rparr> = Inr url"
proof -
  let ?k = "trim (ry_psk_hex (dc_relay (sv_config sv)))"
  from assms obtain relay_url where u: "relay_client_ws_url_for_server tx (ry_base_url (dc_relay (sv_config sv)))
      (di_server_id (sv_identity sv)) = Inr relay_url"
    by (cases "relay_client_ws_url_for_server tx (ry_base_url (dc_relay (sv_config sv))) (di_server_id (sv_identity sv))")
       (simp_all add: pair_url_def)
  moreover from assms u obtain psk where "unhex ?k = Inr psk"
    by (cases "unhex ?k") (simp_all add: pair_url_def Let_def split: if_split_asm)
  ultimately show ?thesis using assms that [of relay_url psk] by (simp add: pair_url_def Let_def split: if_split_asm)
qed

lemma relay_client_url:
  assumes "relay_client_ws_url_for_server tx base i = Inr url"
  shows "\<exists>b. url = b @ ''/ws/client?server='' @ tx_uuid tx (server_uuid i)"
  using assms by (auto simp: relay_client_ws_url_for_server_def relay_client_ws_url_def relay_ws_url_def Let_def and_then_Inr
      split: if_split_asm)


section \<open>Witness\<close>

definition offer_server :: "unit server" where
  "offer_server = \<lparr>sv_identity = \<lparr>di_server_id = ServerId 2, di_keypair = \<lparr>kp_secret = [1], kp_public = replicate 32 65\<rparr>\<rparr>,
     sv_config = toy_config\<lparr>dc_relay := (dc_relay toy_config)\<lparr>ry_base_url := ''wss://r'', ry_psk_hex := ''0123456789abcdef0123456789abcdef''\<rparr>,
       dc_app := \<lparr>ap_base_url = ''https://a''\<rparr>\<rparr>, sv_daemon = toy_daemon\<rparr>"

definition offer_pairing :: pairing_crates where
  "offer_pairing = \<lparr>pc_json = (\<lambda>p. Inr (pl_server_id p)), pc_base64 = (\<lambda>s. s), pc_qr = (\<lambda>_. Inl ''none'')\<rparr>"

definition offer_client :: "(bytes, nat) client_crates" where
  "offer_client = \<lparr>kr_snow = plain_snow, kr_codec = \<lparr>fc_ser = (\<lambda>_. None), fc_de = (\<lambda>_. None)\<rparr>, kr_postcard = unary_postcard,
     kr_texts = cc_texts sample_crates, kr_hex_decode = cc_unhex sample_crates\<rparr>"

lemma offer_trims: "trim ''wss://r'' = ''wss://r''" "trim ''https://a'' = ''https://a''"
    "trim ''0123456789abcdef0123456789abcdef'' = ''0123456789abcdef0123456789abcdef''"
  by (simp_all add: trim_def trim_end_def trim_start_def strip_leading.simps white_space_def starts_with_def)

lemma offer_url:
  "\<exists>url. pair_url (ct_texts (cc_texts sample_crates)) offer_pairing (cc_unhex sample_crates) offer_server = Inr url"
  by (simp add: pair_url_def offer_server_def relay_client_ws_url_for_server_def relay_client_ws_url_def relay_ws_url_def
      offer_trims build_pairing_offer_url_def offer_pairing_def sample_crates_def starts_with_def Let_def)


end
