(* ===== verification/Spec2Isabelle.thy ===== *)
theory Spec2Isabelle
  imports Relay_System Pty_Replay Pty_Terminal Daemon_Session Daemon_ClientDb Daemon_Resume Daemon_Requests Client_Output Client_Retry
    Daemon_Dialer Daemon_Tasks Daemon_Cli Client_Store Client_Actor Client_Transports Client_Wasm Relay_Http Pairing_Offer
begin

text \<open>
  A verification library for cli-pocket, the Rust crates under \<open>src/crates\<close>. A daemon runs
  terminals on a machine, clients (a desktop application and a browser page) show them, and a
  relay joins daemons and clients that cannot reach each other.

  \<^bold>\<open>How the parts interact.\<close> A terminal (\<open>server/pty\<close>) is a child process behind a pseudo
  terminal; its output is filtered, followed by a tracker of the terminal's state, kept in a
  scrollback ring and broadcast. The daemon (\<open>server/daemon-core\<close>) runs one task per
  connection: a Noise handshake that only lets known, unrevoked clients in, a hello, then
  requests, live output and the revocations of the client database. A connection comes from
  the listener or, through one websocket to the relay, from the relay dialer. The relay
  (\<open>relay/relay-core\<close>) registers servers, opens pairs for clients and forwards payloads it
  cannot read. A client (\<open>client/client-core\<close>) keeps a session that connects, reconnects and
  turns calls into requests and frames into answers and events; the desktop application
  (\<open>client/tauri-bindings\<close>, \<open>client/tauri-app\<close>) drives it through an actor, the browser
  (\<open>client/client-core-wasm\<close>) through a JavaScript class. All of them share the message types and
  codec (\<open>shared/proto\<close>), the cryptographic wrappers (\<open>shared/crypto\<close>) and the transports
  (\<open>shared/transport\<close>).

  \<^bold>\<open>Which theory models what.\<close> A struct is a record whose fields carry a prefix of its name, an
  enum a datatype with the source's constructors, a function a definition with the source's
  name. Machine integers are words. A fallible function gives a \<open>result\<close> (\<open>Inl\<close> the error);
  \<open>None\<close> is a panic, a wait or, where the text says so, a loop without end. What the
  operating system, the clock, the random source and the network answer is an input of each
  operation or a list in its state, so that the theorems hold for all answers. Hash maps are
  association lists with the laws \<open>hm_simps\<close>. Third-party crates are records of functions
  (\<open>postcard\<close>, \<open>snow\<close>, \<open>vte\<close>, \<open>json\<close>, \<open>toml\<close>, \<open>texts\<close>), and what is relied on is a named predicate
  with a witness (\<open>codec_ok\<close>, \<open>json_ok\<close>, \<open>toml_ok\<close>, \<open>command_crates_ok\<close>, the round trips that
  their documentation states).

  \<^item> \<open>Prelude\<close>: results, saturating words, hash maps, lists.
  \<^item> \<open>Shared_Texts\<close>, \<open>Shared_Strings\<close>: error texts; Rust's strings, paths, addresses.
  \<^item> \<open>Wire_Types\<close>, \<open>Wire_Codec\<close>, \<open>Wire_Snapshot\<close>: \<open>shared/proto\<close> (\<open>terminal.rs\<close>, \<open>frame.rs\<close>,
    \<open>hello.rs\<close>, \<open>relay.rs\<close>, \<open>error.rs\<close>; \<open>codec.rs\<close>; \<open>snapshot.rs\<close>).
  \<^item> \<open>Crypto_Noise\<close>, \<open>Crypto_Identity\<close>: \<open>shared/crypto\<close> (\<open>noise.rs\<close>; \<open>identity.rs\<close>, \<open>spake2.rs\<close>).
  \<^item> \<open>Shared_Transport\<close>, \<open>Client_Transports\<close>: \<open>tokio_ws.rs\<close>, \<open>memory.rs\<close>; the desktop's
    \<open>transport.rs\<close>, the browser's \<open>ws_transport.rs\<close>.
  \<^item> \<open>Relay_Caps\<close>, \<open>Relay_Registry\<close>, \<open>Relay_Pairs\<close>, \<open>Relay_Forward\<close>, \<open>Relay_System\<close>, \<open>Relay_Http\<close>:
    \<open>caps.rs\<close>, \<open>registry.rs\<close>, \<open>pairs.rs\<close> and \<open>guillotine.rs\<close>, \<open>forward.rs\<close>, all tasks interleaved,
    \<open>http.rs\<close>, \<open>config.rs\<close>, \<open>server.rs\<close> and \<open>relay-bin/main.rs\<close>.
  \<^item> \<open>Pty_Parser\<close>, \<open>Pty_Ring\<close>, \<open>Pty_Output\<close>, \<open>Pty_Terminal\<close>, \<open>Pty_Replay\<close>: \<open>parser.rs\<close>, \<open>ring.rs\<close>,
    \<open>terminal.rs\<close> (the output filter; the terminal and its threads), replaying an anchor.
  \<^item> \<open>Daemon_Types\<close>, \<open>Daemon_Config\<close>, \<open>Daemon_Session\<close>, \<open>Daemon_ClientDb\<close>, \<open>Daemon_Resume\<close>,
    \<open>Daemon_Handshake\<close>: errors; \<open>config.rs\<close> and \<open>service.rs\<close>; \<open>session.rs\<close>; \<open>client_db.rs\<close>;
    \<open>resume.rs\<close>; \<open>handshake.rs\<close>.
  \<^item> \<open>Daemon_Connection\<close>, \<open>Daemon_Stream\<close>, \<open>Daemon_Live\<close>, \<open>Daemon_Requests\<close>: \<open>connection.rs\<close>: its
    operations, the forwarder of live output, reachable states, answers and revocations.
  \<^item> \<open>Daemon_Server\<close>, \<open>Daemon_Tasks\<close>, \<open>Daemon_Dialer\<close>, \<open>Daemon_Cli\<close>: \<open>server.rs\<close>, \<open>accept.rs\<close>,
    \<open>listener.rs\<close>, \<open>identity_store.rs\<close> (what each step does; the daemon's tasks interleaved);
    \<open>relay_dialer.rs\<close>; \<open>daemon-bin/main.rs\<close>.
  \<^item> \<open>Client_Types\<close>, \<open>Client_Reconnect\<close>, \<open>Client_Input\<close>, \<open>Client_Runtime\<close>, \<open>Client_Channel\<close>,
    \<open>Client_Session\<close>, \<open>Client_Retry\<close>: the small modules of \<open>client-core\<close>, \<open>reconnect.rs\<close>, and
    \<open>session.rs\<close> with \<open>relay.rs\<close>: input batching, requests and streams, the encrypted channel
    and its heartbeat, the loops, the decision to reconnect.
  \<^item> \<open>Client_Server\<close>, \<open>Client_Output\<close>: client and daemon together.
  \<^item> \<open>Client_Identity\<close>, \<open>Client_Store\<close>, \<open>Client_Actor\<close>, \<open>Client_Commands\<close>: \<open>identity.rs\<close>; the desktop's
    \<open>kv_store.rs\<close>, \<open>session_handle.rs\<close>, \<open>commands.rs\<close> and \<open>event_pump.rs\<close>.
  \<^item> \<open>Client_Wasm\<close>: the browser's \<open>lib.rs\<close>, \<open>kv_idb.rs\<close>, \<open>clock_perf.rs\<close>.
  \<^item> \<open>Pairing_Offer\<close>: a pairing offer across daemon, relay and client.

  \<^bold>\<open>Interfaces.\<close> Where one component relies on another's contract it is a locale, interpreted
  on the model: \<open>bounded_counter\<close> (both capacity counters), \<open>pair_sweep\<close> (the pair manager),
  \<open>relay_link\<close> (the codec), \<open>retained_log\<close> (the scrollback ring), \<open>kv_laws\<close> (the file store of
  the desktop and the IndexedDB store of the browser), \<open>receiver\<close> (the three websockets).

  \<^bold>\<open>What the lemmas show.\<close>
  \<^item> Relay: capacity is conserved in every interleaving, traffic stays within its pair and
    arrives unchanged, idle pairs go; the compare-exchange loops are linearizable.
  \<^item> Terminals: the ring is a window of the whole output, pages tile it, filtering does not
    depend on how the output is cut into reads, and an anchor's prefix restores its state.
  \<^item> Daemon: only known clients get in; one answer per request; live output is exactly the
    terminal's output under the announced numbers; the database and the configuration survive
    restarts; revocations end connections, also those made by the command line; the dialer
    keeps each pair's payloads in order.
  \<^item> Client: every answer is accepted once; what is shown is the terminal's output; batching
    keeps the input; delays are bounded; a silent peer is given up; identities persist; events
    arrive in order in both applications, which speak the same JSON.
  \<^item> Where the code does not do what it is meant to, a theorem shows it: lost revocations, the
    deadlock of the desktop actor, sessions that end because a terminal prints while it is
    opened or another is opened, a padded pre-shared key that turns protection off, events
    lost after reconnecting in the browser, and others that the lemmas name.

  \<^bold>\<open>Bounds and fuel.\<close> Loops are structural recursions, functions with a termination proof (the
  ring's eviction, the parameters of a colour sequence, the output filter, the calendar, the
  pieces of a frame) or step relations over lists of steps of any length. The only fuel is in
  \<open>reload_rest\<close>: a reload round has at most five steps, and \<open>reload_inv\<close> shows that it is over
  then. The capacities of queues are the source's (64, 32 for a pair of the dialer, 1024 for
  subscribers).

  \<^bold>\<open>Not modelled.\<close> The third-party crates themselves; the user interface in TypeScript; the
  Windows build; logging and the relay's metrics; the parsing of command lines; the
  binding of sockets; the set-up of the desktop's windows; the conversion to and from
  JavaScript objects and the glue of the browser's APIs (a call's requests to the browser's
  store are one step). Cryptography is opaque: no theorem speaks
  about secrecy. Time is a number wherever the code compares instants, and fairness of the
  scheduler is stated where it is used. Memory and operating-system limits are left out.
\<close>

end
